(* ===== verification/Rolex_Prelude.thy ===== *)
theory Rolex_Prelude
  imports Main "HOL-Library.Word"
begin

text \<open>
  The prelude of the development: the machine types of \<^verbatim>\<open>deps/r2/src/common.hh\<close>, the
  outcome type of every modelled C++ function, and the list lemmas the components share.

  A C++ function that can abort (\<open>ASSERT\<close>, \<open>assert\<close>), throw, run into undefined behaviour
  or never return is a HOL function into \<open>'a res\<close>: \<open>Inr\<close> is a normal return and \<open>Inl\<close>
  carries the reason why there is none.
\<close>

section \<open>Machine types\<close>

type_synonym u8 = "8 word"
type_synonym u16 = "16 word"
type_synonym u32 = "32 word"
type_synonym i32 = "32 word"
type_synonym u64 = "64 word"
type_synonym usize = "32 word"

text \<open>A byte string (\<open>std::string\<close>, \<open>string_view\<close>, \<open>char*\<close> with a length).\<close>

type_synonym bytes = "u8 list"

section \<open>Outcomes\<close>

text \<open>
  \<open>AssertFailed\<close>: a failed \<open>ASSERT\<close>/\<open>RDMA_ASSERT\<close>/\<open>assert\<close>, which aborts the process.
  \<open>Thrown\<close>: a C++ exception leaves the function.
  \<open>UB\<close>: undefined behaviour (access outside an array or an object, signed overflow,
  an undefined builtin). \<open>Diverges\<close>: a loop that never ends. \<open>Exits\<close>: \<open>exit()\<close> ends the process.
\<close>

datatype fault = AssertFailed | Thrown | UB | Diverges | Exits

type_synonym 'a res = "fault + 'a"

fun rbind :: "'a res \<Rightarrow> ('a \<Rightarrow> 'b res) \<Rightarrow> 'b res" where
  "rbind (Inl e) f = Inl e"
| "rbind (Inr x) f = f x"

named_theorems res_iff \<open>characterisations of normal returns\<close>

lemma rbind_Inr_iff [res_iff]: "rbind m f = Inr y \<longleftrightarrow> (\<exists>x. m = Inr x \<and> f x = Inr y)"
  by (cases m) auto

lemma rbind_Inl_iff: "rbind m f = Inl e \<longleftrightarrow> m = Inl e \<or> (\<exists>x. m = Inr x \<and> f x = Inl e)"
  by (cases m) auto

lemma rbind_assoc: "rbind (rbind m f) g = rbind m (\<lambda>x. rbind (f x) g)"
  by (cases m) auto

lemma rbind_cong [fundef_cong]:
  "m = m' \<Longrightarrow> (\<And>x. m' = Inr x \<Longrightarrow> f x = f' x) \<Longrightarrow> rbind m f = rbind m' f'"
  by (cases m') auto

text \<open>\<open>rassert b k\<close>: the statement \<open>ASSERT(b)\<close> followed by \<open>k\<close>.\<close>

definition rassert :: "bool \<Rightarrow> 'a res \<Rightarrow> 'a res" where
  "rassert b k = (if b then k else Inl AssertFailed)"

lemma rassert_simps [simp]: "rassert True k = k" "rassert False k = Inl AssertFailed"
  by (simp_all add: rassert_def)

lemma rassert_Inr_iff [res_iff]: "rassert b k = Inr y \<longleftrightarrow> b \<and> k = Inr y"
  by (simp add: rassert_def)

text \<open>A loop modelled by \<^theory_text>\<open>partial_function (option)\<close>: \<open>None\<close> is non-termination.\<close>

definition loop_res :: "'a res option \<Rightarrow> 'a res" where
  "loop_res r = (case r of None \<Rightarrow> Inl Diverges | Some x \<Rightarrow> x)"

lemma loop_res_simps [simp]: "loop_res None = Inl Diverges" "loop_res (Some x) = x"
  by (simp_all add: loop_res_def)

lemma loop_res_Inr_iff [res_iff]: "loop_res r = Inr y \<longleftrightarrow> r = Some (Inr y)"
  by (simp add: loop_res_def split: option.splits)

text \<open>\<open>v[i]\<close> on an array or a vector: undefined behaviour outside it.\<close>

definition vec_at :: "'a list \<Rightarrow> nat \<Rightarrow> 'a res" where
  "vec_at xs i = (if i < length xs then Inr (xs ! i) else Inl UB)"

lemma vec_at_in [simp]: "i < length xs \<Longrightarrow> vec_at xs i = Inr (xs ! i)"
  by (simp add: vec_at_def)

lemma vec_at_Inr_iff [res_iff]: "vec_at xs i = Inr y \<longleftrightarrow> i < length xs \<and> y = xs ! i"
  by (auto simp: vec_at_def)

text \<open>\<open>o.value()\<close> on an empty \<open>std::optional\<close> throws \<open>bad_optional_access\<close>.\<close>

definition opt_value :: "'a option \<Rightarrow> 'a res" where
  "opt_value r = (case r of None \<Rightarrow> Inl Thrown | Some x \<Rightarrow> Inr x)"

lemma opt_value_simps [simp]: "opt_value None = Inl Thrown" "opt_value (Some x) = Inr x"
  by (simp_all add: opt_value_def)

lemma opt_value_Inr_iff [res_iff]: "opt_value r = Inr y \<longleftrightarrow> r = Some y"
  by (simp add: opt_value_def split: option.splits)

section \<open>Words\<close>

lemma sint_of_nat_i32: "n < 2 ^ 31 \<Longrightarrow> sint (of_nat n :: i32) = int n"
  by (simp add: sint_uint take_bit_int_eq_self signed_take_bit_int_eq_self unsigned_of_nat
      take_bit_nat_eq_self)

lemma unat_of_nat_u64: "n < 2 ^ 64 \<Longrightarrow> unat (of_nat n :: u64) = n"
  by (simp add: unat_of_nat take_bit_nat_eq_self)

lemma unat_of_nat_32: "n < 2 ^ 32 \<Longrightarrow> unat (of_nat n :: u32) = n"
  by (simp add: unat_of_nat take_bit_nat_eq_self)

lemma unat_u64_less: "unat (x :: u64) < 2 ^ 64"
  by (rule order_less_le_trans [OF unsigned_less]) simp

lemma unat_u32_less: "unat (x :: u32) < 2 ^ 32"
  by (rule order_less_le_trans [OF unsigned_less]) simp

lemma unat_u8_less: "unat (x :: u8) < 2 ^ 8"
  by (rule order_less_le_trans [OF unsigned_less]) simp

lemma unat_ucast_u8_u32 [simp]: "unat (ucast (x :: u8) :: u32) = unat x"
  using unat_u8_less [of x] by (simp add: unsigned_ucast_eq take_bit_nat_eq_self)

lemma unat_of_nat_below: "n < unat (x :: u64) \<Longrightarrow> unat (of_nat n :: u64) = n"
  by (rule unat_of_nat_u64) (rule less_trans [OF _ unat_u64_less])

lemma unat_ucast_u32_u64 [simp]: "unat (ucast (x :: u32) :: u64) = unat x"
  using unat_u32_less [of x] by (simp add: unsigned_ucast_eq take_bit_nat_eq_self)

section \<open>Array copies of the C++ standard library\<close>

text \<open>
  \<open>std::copy(xs+first, xs+last, xs+d)\<close> and \<open>std::copy_backward(xs+first, xs+last, xs+d)\<close>
  inside one array, element by element in the order the standard prescribes (so the
  overlapping ranges behave as in the code).
\<close>

function copy_fwd :: "'a list \<Rightarrow> nat \<Rightarrow> nat \<Rightarrow> nat \<Rightarrow> 'a list" where
  "copy_fwd xs first lst d =
     (if first < lst then copy_fwd (xs[d := xs ! first]) (Suc first) lst (Suc d) else xs)"
  by pat_completeness auto
termination
  by (relation "measure (\<lambda>(xs, first, lst, d). lst - first)") auto

fun copy_bwd :: "'a list \<Rightarrow> nat \<Rightarrow> nat \<Rightarrow> nat \<Rightarrow> 'a list" where
  "copy_bwd xs first 0 d = xs"
| "copy_bwd xs first (Suc lst) d =
     (if first < Suc lst then copy_bwd (xs[d - 1 := xs ! lst]) first lst (d - 1) else xs)"

declare copy_fwd.simps [simp del]

lemma length_copy_fwd [simp]: "length (copy_fwd xs first lst d) = length xs"
proof (induction xs first lst d rule: copy_fwd.induct)
  case (1 xs first lst d)
  then show ?case by (subst copy_fwd.simps) auto
qed

lemma length_copy_bwd [simp]: "length (copy_bwd xs first lst d) = length xs"
  by (induction xs first lst d rule: copy_bwd.induct) auto

text \<open>
  Shifting a block one slot to the right (backward copy) or to the left (forward copy),
  slot by slot and as lists.
\<close>

lemma nth_copy_bwd:
  "lst < length xs \<Longrightarrow>
     copy_bwd xs first lst (Suc lst) ! t = (if first < t \<and> t \<le> lst then xs ! (t - 1) else xs ! t)"
proof (induction lst arbitrary: xs)
  case 0
  then show ?case by auto
next
  case (Suc l)
  let ?ys = "xs[Suc l := xs ! l]"
  have "copy_bwd ?ys first l (Suc l) ! t = (if first < t \<and> t \<le> l then ?ys ! (t - 1) else ?ys ! t)"
    by (rule Suc.IH) (use Suc.prems in simp)
  with Suc.prems show ?case by (auto simp: nth_list_update le_Suc_eq)
qed

lemma nth_copy_fwd:
  "lst \<le> length xs \<Longrightarrow>
     copy_fwd xs (Suc d) lst d ! t = (if d \<le> t \<and> Suc t < lst then xs ! Suc t else xs ! t)"
proof (induction "lst - Suc d" arbitrary: xs d)
  case 0
  then show ?case by (subst copy_fwd.simps) auto
next
  case (Suc m)
  then have lt: "Suc d < lst" by simp
  let ?ys = "xs[d := xs ! Suc d]"
  have "copy_fwd ?ys (Suc (Suc d)) lst (Suc d) ! t
      = (if Suc d \<le> t \<and> Suc t < lst then ?ys ! Suc t else ?ys ! t)"
    by (rule Suc.hyps(1)) (use Suc lt in auto)
  with lt Suc.prems show ?case
    by (subst copy_fwd.simps) (auto simp: nth_list_update le_Suc_eq)
qed

lemma copy_bwd_shift:
  assumes "i \<le> j" "j < length xs"
  shows "(copy_bwd xs i j (Suc j))[i := x] = take i xs @ x # take (j - i) (drop i xs) @ drop (Suc j) xs"
proof (rule nth_equalityI)
  show "length ((copy_bwd xs i j (Suc j))[i := x])
      = length (take i xs @ x # take (j - i) (drop i xs) @ drop (Suc j) xs)"
    using assms by simp
next
  fix t assume "t < length ((copy_bwd xs i j (Suc j))[i := x])"
  then show "(copy_bwd xs i j (Suc j))[i := x] ! t
      = (take i xs @ x # take (j - i) (drop i xs) @ drop (Suc j) xs) ! t"
    using assms
    by (auto simp: nth_list_update nth_copy_bwd nth_append nth_Cons' less_Suc_eq_le)
qed

lemma copy_fwd_shift:
  assumes "i < length xs"
  shows "copy_fwd xs (Suc i) (length xs) i = take i xs @ drop (Suc i) xs @ [last xs]"
proof (rule nth_equalityI)
  show "length (copy_fwd xs (Suc i) (length xs) i) = length (take i xs @ drop (Suc i) xs @ [last xs])"
    using assms by simp
next
  fix t assume "t < length (copy_fwd xs (Suc i) (length xs) i)"
  moreover have ne: "xs \<noteq> []" using assms by auto
  ultimately show "copy_fwd xs (Suc i) (length xs) i ! t = (take i xs @ drop (Suc i) xs @ [last xs]) ! t"
    using assms
    by (auto simp: nth_copy_fwd nth_append last_conv_nth intro!: arg_cong [where f = "(!) xs"])
qed

end
