(* ===== verification/Sorted_Entries.thy ===== *)
theory Sorted_Entries
  imports Rolex_Prelude
begin

text \<open>
  Strictly sorted association lists: the abstract view of a leaf, of a chain of synonym
  leaves and of a leaf table. \<open>ins_entry\<close>, \<open>upd_entry\<close> and \<open>del_entry\<close> are the abstract
  operations the leaf operations refine; the lemmas say how they act on the map of a list,
  how they keep it sorted and how they split over concatenation.
\<close>

type_synonym entry = "u64 \<times> u64"

definition al_sorted :: "entry list \<Rightarrow> bool" where
  "al_sorted es = sorted_wrt (<) (map fst es)"

definition ins_entry :: "u64 \<Rightarrow> u64 \<Rightarrow> entry list \<Rightarrow> entry list" where
  "ins_entry k v es = takeWhile (\<lambda>e. fst e < k) es @ (k, v) # dropWhile (\<lambda>e. fst e < k) es"

definition upd_entry :: "u64 \<Rightarrow> u64 \<Rightarrow> entry list \<Rightarrow> entry list" where
  "upd_entry k v es = map (\<lambda>e. if fst e = k then (k, v) else e) es"

definition del_entry :: "u64 \<Rightarrow> entry list \<Rightarrow> entry list" where
  "del_entry k es = filter (\<lambda>e. fst e \<noteq> k) es"

definition from_key :: "u64 \<Rightarrow> entry list \<Rightarrow> u64 list" where
  "from_key k es = map snd (filter (\<lambda>e. k \<le> fst e) es)"

named_theorems al_simps \<open>sorted association lists\<close>

lemma al_sorted_simps [al_simps, simp]:
  "al_sorted []"
  "al_sorted (e # es) \<longleftrightarrow> (\<forall>x \<in> set es. fst e < fst x) \<and> al_sorted es"
  by (auto simp: al_sorted_def)

lemma al_sorted_append [al_simps]:
  "al_sorted (xs @ ys) \<longleftrightarrow> al_sorted xs \<and> al_sorted ys \<and> (\<forall>x \<in> set xs. \<forall>y \<in> set ys. fst x < fst y)"
  by (auto simp: al_sorted_def sorted_wrt_append)

lemma al_sorted_distinct: "al_sorted es \<Longrightarrow> distinct (map fst es)"
  by (induction es) (auto simp: image_iff)

lemma al_sorted_filter: "al_sorted es \<Longrightarrow> al_sorted (filter P es)"
  by (induction es) auto

lemma dom_map_of_entries: "dom (map_of es) = fst ` set es"
  by (rule dom_map_of_conv_image_fst)

section \<open>Insertion\<close>

lemma ins_entry_simps [simp]:
  "ins_entry k v [] = [(k, v)]"
  "ins_entry k v (e # es) = (if fst e < k then e # ins_entry k v es else (k, v) # e # es)"
  by (simp_all add: ins_entry_def)

lemma set_ins_entry [simp]: "set (ins_entry k v es) = insert (k, v) (set es)"
  by (induction es) auto

lemma ins_entry_not_Nil [simp]: "ins_entry k v es \<noteq> []"
  by (simp add: ins_entry_def)

lemma length_ins_entry [simp]: "length (ins_entry k v es) = Suc (length es)"
  by (induction es) auto

lemma al_sorted_ins_entry: "al_sorted es \<Longrightarrow> k \<notin> fst ` set es \<Longrightarrow> al_sorted (ins_entry k v es)"
  by (induction es) (auto simp: not_less order_le_less intro: less_trans)

lemma map_of_ins_entry: "k \<notin> fst ` set es \<Longrightarrow> map_of (ins_entry k v es) = (map_of es)(k \<mapsto> v)"
  by (induction es) auto

lemma ins_entry_append_left:
  "\<forall>x \<in> set xs. fst x < k \<Longrightarrow> ins_entry k v (xs @ ys) = xs @ ins_entry k v ys"
  by (induction xs) auto

lemma ins_entry_append_right:
  "\<forall>y \<in> set ys. k < fst y \<Longrightarrow> ins_entry k v (xs @ ys) = ins_entry k v xs @ ys"
  by (induction xs) (auto, cases ys, auto)

section \<open>Update and deletion\<close>

lemma upd_entry_append: "upd_entry k v (xs @ ys) = upd_entry k v xs @ upd_entry k v ys"
  by (simp add: upd_entry_def)

lemma map_fst_upd_entry [simp]: "map fst (upd_entry k v es) = map fst es"
  by (auto simp: upd_entry_def)

lemma upd_entry_idle: "k \<notin> fst ` set es \<Longrightarrow> upd_entry k v es = es"
  by (induction es) (auto simp: upd_entry_def)

lemma al_sorted_upd_entry [simp]: "al_sorted (upd_entry k v es) = al_sorted es"
  by (simp add: al_sorted_def)

lemma map_of_upd_entry:
  "map_of (upd_entry k v es) = (if k \<in> fst ` set es then (map_of es)(k \<mapsto> v) else map_of es)"
  by (induction es) (auto simp: upd_entry_def fun_eq_iff)

lemma del_entry_append: "del_entry k (xs @ ys) = del_entry k xs @ del_entry k ys"
  by (simp add: del_entry_def)

lemma del_entry_idle: "k \<notin> fst ` set es \<Longrightarrow> del_entry k es = es"
  by (auto simp: del_entry_def filter_id_conv)

lemma al_sorted_del_entry: "al_sorted es \<Longrightarrow> al_sorted (del_entry k es)"
  unfolding del_entry_def by (rule al_sorted_filter)

lemma set_del_entry [simp]: "set (del_entry k es) = {e \<in> set es. fst e \<noteq> k}"
  by (auto simp: del_entry_def)

lemma map_of_del_entry: "map_of (del_entry k es) = (map_of es)(k := None)"
  by (induction es) (auto simp: del_entry_def fun_eq_iff)

lemma map_of_append_disjoint:
  "k \<notin> fst ` set ys \<Longrightarrow> map_of (xs @ ys) k = map_of xs k"
  "k \<notin> fst ` set xs \<Longrightarrow> map_of (xs @ ys) k = map_of ys k"
  by (induction xs) (auto simp: map_of_eq_None_iff [symmetric])

lemma map_of_append_case:
  assumes "k \<in> fst ` set ys \<Longrightarrow> k \<notin> fst ` set xs"
  shows "map_of (xs @ ys) k = (case map_of ys k of Some v \<Rightarrow> Some v | None \<Rightarrow> map_of xs k)"
proof (cases "k \<in> fst ` set ys")
  case True
  then have "map_of ys k \<noteq> None" by (simp add: map_of_eq_None_iff)
  with True assms show ?thesis by (auto simp: map_of_append_disjoint simp del: map_of_append)
next
  case False
  then show ?thesis by (simp add: map_of_append_disjoint map_of_eq_None_iff [THEN iffD2] del: map_of_append)
qed

section \<open>Range reads\<close>

lemma from_key_append: "from_key k (xs @ ys) = from_key k xs @ from_key k ys"
  by (simp add: from_key_def)

lemma from_key_below: "\<forall>e \<in> set es. fst e < k \<Longrightarrow> from_key k es = []"
  by (auto simp: from_key_def filter_empty_conv)

lemma from_key_above: "\<forall>e \<in> set es. k \<le> fst e \<Longrightarrow> from_key k es = map snd es"
  by (simp add: from_key_def)

end
