(* ===== verification/Leaf.thy ===== *)
theory Leaf
  imports Sorted_Entries
begin

text \<open>
  The data leaf, \<^verbatim>\<open>rolex/leaf.hpp\<close>: two arrays of \<open>N\<close> slots (\<open>N\<close>, a template argument, is
  the length of the arrays), unused slots marked by the largest key. The operations keep the
  source's \<open>u8\<close> loop indices: a scan over more than 255 slots wraps around and may never
  end, which the \<^theory_text>\<open>partial_function\<close>s show as \<open>Diverges\<close>.

  \<open>entries\<close> is the abstraction: the live slots as a sorted association list. Every
  operation is shown to compute the abstract operation of \<^theory_text>\<open>Sorted_Entries\<close> on it,
  branch by branch, and to keep \<open>leaf_inv\<close>.
\<close>

section \<open>State and operations\<close>

record leaf =
  keys :: "u64 list"
  vals :: "u64 list"

definition invalidKey :: u64 where
  "invalidKey = - 1"

definition max_slot :: "leaf \<Rightarrow> nat" where
  "max_slot l = length (keys l)"

text \<open>The constructor resets the keys only; the values stay whatever the memory held.\<close>

definition leaf_ctor :: "leaf \<Rightarrow> leaf" where
  "leaf_ctor raw = raw\<lparr>keys := replicate (max_slot raw) invalidKey\<rparr>"

definition isfull :: "leaf \<Rightarrow> bool" where
  "isfull l = (if keys l ! (max_slot l - 1) = invalidKey then False else True)"

definition isEmpty :: "leaf \<Rightarrow> bool" where
  "isEmpty l = (keys l ! 0 = invalidKey)"

definition last_key :: "leaf \<Rightarrow> u64" where
  "last_key l = keys l ! (max_slot l - 1)"

text \<open>\<open>offsetof(Leaf, vals)\<close> in the packed struct of \<open>u64\<close> keys.\<close>

definition value_start_offset :: "leaf \<Rightarrow> nat" where
  "value_start_offset l = 8 * max_slot l"

text \<open>The scan for a key, over the suffix of the array that starts at index \<open>i\<close>.\<close>

fun find_key :: "nat \<Rightarrow> u64 list \<Rightarrow> u64 \<Rightarrow> nat option" where
  "find_key i [] key = None"
| "find_key i (x # xs) key = (if x = key then Some i else find_key (Suc i) xs key)"

definition leaf_search :: "leaf \<Rightarrow> u64 \<Rightarrow> u64 option" where
  "leaf_search l key =
     (if keys l ! 0 > key then None
      else case find_key 0 (keys l) key of Some i \<Rightarrow> Some (vals l ! i) | None \<Rightarrow> None)"

definition leaf_contain :: "leaf \<Rightarrow> u64 \<Rightarrow> bool" where
  "leaf_contain l key =
     (if keys l ! 0 > key then False
      else case find_key 0 (keys l) key of Some i \<Rightarrow> True | None \<Rightarrow> False)"

definition leaf_update :: "leaf \<Rightarrow> u64 \<Rightarrow> u64 \<Rightarrow> leaf \<times> bool" where
  "leaf_update l key val =
     (if keys l ! 0 > key then (l, False)
      else case find_key 0 (keys l) key of
             Some i \<Rightarrow> (l\<lparr>vals := (vals l)[i := val]\<rparr>, True)
           | None \<Rightarrow> (l, False))"

definition insertHere :: "leaf \<Rightarrow> u64 \<Rightarrow> bool" where
  "insertHere l key = (key \<ge> keys l ! 0)"

text \<open>
  The first loop of \<open>insert_not_full\<close> and of \<open>insert_to_remote\<close>: stop at the key itself or
  at the first larger one. The second loop: the first free slot.
\<close>

datatype scan = Found u8 | Pos u8

partial_function (option) insert_scan :: "u64 list \<Rightarrow> u64 \<Rightarrow> u8 \<Rightarrow> scan option" where
  "insert_scan ks key i =
     (if unat i < length ks then
        if ks ! unat i = key then Some (Found i)
        else if ks ! unat i > key then Some (Pos i)
        else insert_scan ks key (i + 1)
      else Some (Pos i))"

partial_function (option) free_scan :: "u64 list \<Rightarrow> u8 \<Rightarrow> u8 option" where
  "free_scan ks j =
     (if unat j < length ks \<and> ks ! unat j \<noteq> invalidKey then free_scan ks (j + 1) else Some j)"

definition insert_not_full :: "leaf \<Rightarrow> u64 \<Rightarrow> u64 \<Rightarrow> (leaf \<times> u8) res" where
  "insert_not_full l key val =
     (case insert_scan (keys l) key 0 of
        None \<Rightarrow> Inl Diverges
      | Some (Found i) \<Rightarrow> Inr (l, 0)
      | Some (Pos i) \<Rightarrow>
          (case free_scan (keys l) i of
             None \<Rightarrow> Inl Diverges
           | Some j \<Rightarrow>
               if unat j \<ge> max_slot l then Inr (l, of_nat (max_slot l))
               else Inr (l\<lparr>keys := (copy_bwd (keys l) (unat i) (unat j) (unat j + 1))[unat i := key],
                           vals := (copy_bwd (vals l) (unat i) (unat j) (unat j + 1))[unat i := val]\<rparr>, i)))"

partial_function (option) remove_scan :: "u64 list \<Rightarrow> u64 \<Rightarrow> u8 \<Rightarrow> u8 option option" where
  "remove_scan ks key i =
     (if unat i < length ks then
        if ks ! unat i = key then Some (Some i) else remove_scan ks key (i + 1)
      else Some None)"

definition leaf_remove :: "leaf \<Rightarrow> u64 \<Rightarrow> (leaf \<times> bool) res" where
  "leaf_remove l key =
     (case remove_scan (keys l) key 0 of
        None \<Rightarrow> Inl Diverges
      | Some None \<Rightarrow> Inr (l, False)
      | Some (Some i) \<Rightarrow>
          Inr (l\<lparr>keys := (copy_fwd (keys l) (unat i + 1) (max_slot l) (unat i))[max_slot l - 1 := invalidKey],
                 vals := copy_fwd (vals l) (unat i + 1) (max_slot l) (unat i)\<rparr>, True))"

text \<open>
  \<open>r_vals.size() < n\<close> compares a \<open>size_t\<close> with an \<open>int\<close>: \<open>n\<close> is converted to \<open>size_t\<close>, so
  a negative \<open>n\<close> is a huge bound.
\<close>

definition vec_limit :: "i32 \<Rightarrow> nat" where
  "vec_limit n = unat (scast n :: u64)"

fun range_loop :: "u64 list \<Rightarrow> u64 list \<Rightarrow> u64 \<Rightarrow> nat \<Rightarrow> u64 list \<Rightarrow> u64 list" where
  "range_loop (k # ks) (v # vs) key lim r =
     (if length r < lim then
        if k = invalidKey then r
        else range_loop ks vs key lim (if k \<ge> key then r @ [v] else r)
      else r)"
| "range_loop _ _ key lim r = r"

definition leaf_range :: "leaf \<Rightarrow> u64 \<Rightarrow> i32 \<Rightarrow> u64 list \<Rightarrow> u64 list" where
  "leaf_range l key n r_vals = range_loop (keys l) (vals l) key (vec_limit n) r_vals"

text \<open>
  \<open>self_check\<close>: the first loop walks down from \<open>N - 1\<close> with a \<open>u8\<close>, so on an empty leaf it
  wraps from 0 to 255 and reads outside the array (or, for 256 slots, never ends).
\<close>

partial_function (option) last_live :: "u64 list \<Rightarrow> u8 \<Rightarrow> u8 res option" where
  "last_live ks i =
     (if unat i < length ks then
        if ks ! unat i = invalidKey then last_live ks (i - 1) else Some (Inr i)
      else Some (Inl UB))"

fun check_desc :: "u64 list \<Rightarrow> nat \<Rightarrow> unit res" where
  "check_desc ks 0 = Inr ()"
| "check_desc ks (Suc i) = rassert (ks ! Suc i > ks ! i) (check_desc ks i)"

definition self_check :: "leaf \<Rightarrow> unit res" where
  "self_check l = rbind (loop_res (last_live (keys l) (of_nat (max_slot l) - 1)))
                    (\<lambda>i. check_desc (keys l) (unat i))"

text \<open>
  \<open>insert_to_remote\<close> answers with a state: 0 key exists, 1 inserted, 2 inserted into a full
  leaf (whose last slot is overwritten), 3 insert into the next leaf.
\<close>

partial_function (option) free_scan_open :: "u64 list \<Rightarrow> u8 \<Rightarrow> u8 res option" where
  "free_scan_open ks j =
     (if unat j < length ks then
        if ks ! unat j \<noteq> invalidKey then free_scan_open ks (j + 1) else Some (Inr j)
      else Some (Inl UB))"

partial_function (option) shift_loop ::
    "u64 list \<Rightarrow> u64 list \<Rightarrow> u8 \<Rightarrow> u8 \<Rightarrow> (u64 list \<times> u64 list) res option" where
  "shift_loop ks vs i j =
     (if i = j then Some (Inr (ks, vs))
      else if j = 0 \<or> unat j \<ge> length ks then Some (Inl UB)
      else shift_loop (ks[unat j := ks ! (unat j - 1)]) (vs[unat j := vs ! (unat j - 1)]) i (j - 1))"

definition insert_to_remote :: "leaf \<Rightarrow> u64 \<Rightarrow> u64 \<Rightarrow> (leaf \<times> u8 \<times> u8) res" where
  "insert_to_remote l key val =
     (case insert_scan (keys l) key 0 of
        None \<Rightarrow> Inl Diverges
      | Some (Found i) \<Rightarrow> Inr (l, 0, i)
      | Some (Pos i) \<Rightarrow>
          if unat i \<ge> max_slot l then Inr (l, 3, 0)
          else
            rbind (if isfull l then Inr (of_nat (max_slot l) - 1, 2)
                   else rbind (loop_res (free_scan_open (keys l) i)) (\<lambda>j. Inr (j, 1)))
              (\<lambda>(j, state).
                 rassert (unat j < max_slot l)
                   (rbind (loop_res (shift_loop (keys l) (vals l) i j))
                      (\<lambda>(ks, vs).
                         Inr (l\<lparr>keys := ks[unat i := key], vals := vs[unat i := val]\<rparr>, state, 0)))))"

section \<open>Abstraction and invariant\<close>

definition live :: "leaf \<Rightarrow> u64 list" where
  "live l = takeWhile (\<lambda>k. k \<noteq> invalidKey) (keys l)"

definition entries :: "leaf \<Rightarrow> entry list" where
  "entries l = zip (live l) (vals l)"

text \<open>
  A well-formed leaf: at least one and fewer than 256 slots, a value per key, the live keys
  first and strictly increasing, the unused slots after them.
\<close>

definition leaf_inv :: "leaf \<Rightarrow> bool" where
  "leaf_inv l \<longleftrightarrow> 0 < max_slot l \<and> max_slot l < 256 \<and> length (vals l) = max_slot l
     \<and> keys l = live l @ replicate (max_slot l - length (live l)) invalidKey
     \<and> sorted_wrt (<) (live l)"

lemma key_le_invalidKey [simp]: "(k::u64) \<le> invalidKey"
  by (simp add: invalidKey_def)

lemma less_invalidKey_iff [simp]: "(k::u64) < invalidKey \<longleftrightarrow> k \<noteq> invalidKey"
  by (simp add: order_less_le)

lemma not_invalidKey_less [simp]: "\<not> invalidKey < (k::u64)"
  by (simp add: not_less)

text \<open>Every leaf of the invariant is given by its live keys; \<open>leaf_shape\<close> builds the invariant.\<close>

lemma takeWhile_replicate_tail:
  "invalidKey \<notin> set ks \<Longrightarrow>
     takeWhile (\<lambda>k. k \<noteq> invalidKey) (ks @ replicate m invalidKey) = ks"
  by (induction ks) (auto simp: takeWhile_eq_Nil_iff hd_replicate)

lemma live_append_replicate:
  "invalidKey \<notin> set ks \<Longrightarrow> keys l = ks @ replicate m invalidKey \<Longrightarrow> live l = ks"
  by (simp add: live_def takeWhile_replicate_tail)

lemma leaf_shape:
  assumes "keys l = ks @ replicate m invalidKey" "sorted_wrt (<) ks" "invalidKey \<notin> set ks"
    and "length (vals l) = length ks + m" "0 < length ks + m" "length ks + m < 256"
  shows "leaf_inv l" "live l = ks"
  using assms live_append_replicate [OF assms(3,1)] by (auto simp: leaf_inv_def max_slot_def)

lemma leaf_invE:
  assumes "leaf_inv l"
  obtains m where "keys l = live l @ replicate m invalidKey" "max_slot l = length (live l) + m"
    "sorted_wrt (<) (live l)" "invalidKey \<notin> set (live l)" "length (vals l) = max_slot l"
    "0 < max_slot l" "max_slot l < 256"
proof -
  have "max_slot l = length (live l) + (max_slot l - length (live l))"
    by (simp add: live_def max_slot_def length_takeWhile_le)
  moreover have "invalidKey \<notin> set (live l)"
    by (auto simp: live_def dest: set_takeWhileD)
  ultimately show ?thesis using assms that by (auto simp: leaf_inv_def)
qed

lemma leaf_inv_bounds:
  assumes "leaf_inv l"
  shows "0 < max_slot l" "max_slot l < 256" "length (keys l) = max_slot l" "length (vals l) = max_slot l"
    "length (live l) \<le> max_slot l"
  using assms by (auto simp: leaf_inv_def max_slot_def live_def length_takeWhile_le)

lemma length_entries: "leaf_inv l \<Longrightarrow> length (entries l) = length (live l)"
  by (simp add: entries_def leaf_inv_bounds)

lemma map_fst_entries: "leaf_inv l \<Longrightarrow> map fst (entries l) = live l"
  by (simp add: entries_def leaf_inv_bounds map_fst_zip_take min_def)

lemma fst_set_entries: "leaf_inv l \<Longrightarrow> fst ` set (entries l) = set (live l)"
  by (simp flip: map_fst_entries)

lemma live_not_invalid: "k \<in> set (live l) \<Longrightarrow> k \<noteq> invalidKey"
  by (auto simp: live_def dest: set_takeWhileD)

lemma entries_not_invalid: "e \<in> set (entries l) \<Longrightarrow> fst e \<noteq> invalidKey"
  by (cases e) (auto simp: entries_def dest!: set_zip_leftD live_not_invalid)

lemma al_sorted_entries: "leaf_inv l \<Longrightarrow> al_sorted (entries l)"
  by (simp add: al_sorted_def map_fst_entries) (simp add: leaf_inv_def)

lemma keys_nth_live: "leaf_inv l \<Longrightarrow> i < length (live l) \<Longrightarrow> keys l ! i = live l ! i"
  by (auto simp: live_def takeWhile_nth)

lemma keys_nth_free:
  "leaf_inv l \<Longrightarrow> length (live l) \<le> i \<Longrightarrow> i < max_slot l \<Longrightarrow> keys l ! i = invalidKey"
  by (erule leaf_invE) (simp add: nth_append)

lemma isfull_iff:
  assumes "leaf_inv l"
  shows "isfull l \<longleftrightarrow> length (live l) = max_slot l"
proof (cases "length (live l) = max_slot l")
  case True
  then have "keys l ! (max_slot l - 1) \<in> set (live l)"
    using leaf_inv_bounds [OF assms] keys_nth_live [OF assms, of "max_slot l - 1"] by auto
  with True show ?thesis by (auto simp: isfull_def dest: live_not_invalid)
next
  case False
  then show ?thesis
    using leaf_inv_bounds [OF assms] keys_nth_free [OF assms, of "max_slot l - 1"]
    by (simp add: isfull_def)
qed

lemma isEmpty_iff: "leaf_inv l \<Longrightarrow> isEmpty l \<longleftrightarrow> entries l = []"
proof -
  assume inv: "leaf_inv l"
  have "isEmpty l \<longleftrightarrow> live l = []"
    using inv leaf_inv_bounds(1) [OF inv] keys_nth_live [OF inv, of 0] keys_nth_free [OF inv, of 0]
      nth_mem [of 0 "live l"] live_not_invalid [of _ l]
    by (cases "live l = []") (auto simp: isEmpty_def)
  then show ?thesis using length_entries [OF inv] by auto
qed

text \<open>The first key is the smallest live one, or the largest key of all on an empty leaf.\<close>

lemma first_key:
  assumes "leaf_inv l"
  shows "keys l ! 0 = (if entries l = [] then invalidKey else fst (hd (entries l)))"
proof (cases "live l = []")
  case True
  then show ?thesis
    using assms keys_nth_free [of l 0] leaf_inv_bounds(1) [OF assms] length_entries [OF assms] by auto
next
  case False
  then have "entries l \<noteq> []" using length_entries [OF assms] by auto
  moreover have "fst (hd (entries l)) = hd (live l)"
    using \<open>entries l \<noteq> []\<close> list.map_sel(1) [of "entries l" fst] map_fst_entries [OF assms] by simp
  ultimately show ?thesis
    using False keys_nth_live [OF assms, of 0] by (simp add: hd_conv_nth)
qed

lemma insertHere_iff:
  "leaf_inv l \<Longrightarrow> entries l \<noteq> [] \<Longrightarrow> insertHere l k \<longleftrightarrow> fst (hd (entries l)) \<le> k"
  by (simp add: insertHere_def first_key)

lemma insertHere_empty:
  "leaf_inv l \<Longrightarrow> entries l = [] \<Longrightarrow> insertHere l k \<longleftrightarrow> k = invalidKey"
  by (auto simp: insertHere_def first_key intro: antisym)

section \<open>Lookups\<close>

lemma find_key_eq:
  "find_key i xs k = (if k \<in> set xs then Some (i + length (takeWhile (\<lambda>x. x \<noteq> k) xs)) else None)"
  by (induction xs arbitrary: i) auto

lemma find_key_append_absent: "k \<notin> set ys \<Longrightarrow> find_key i (xs @ ys) k = find_key i xs k"
  by (auto simp: find_key_eq takeWhile_append1)

lemma find_key_zip:
  "length xs \<le> length vs \<Longrightarrow>
     map_of (zip xs vs) k = (case find_key 0 xs k of Some i \<Rightarrow> Some (vs ! i) | None \<Rightarrow> None)"
proof (induction xs arbitrary: vs)
  case (Cons x xs)
  then show ?case by (cases vs) (auto simp: find_key_eq split: option.splits if_splits)
qed simp

lemma keys_not_below: "leaf_inv l \<Longrightarrow> keys l ! 0 > k \<Longrightarrow> k \<notin> set (live l)"
proof
  assume inv: "leaf_inv l" and "keys l ! 0 > k" "k \<in> set (live l)"
  moreover from this have "hd (live l) \<le> k" "live l \<noteq> []"
    by (cases "live l"; auto simp: leaf_inv_def intro: less_imp_le)+
  moreover from this have "keys l ! 0 = hd (live l)"
    using keys_nth_live [OF inv, of 0] by (simp add: hd_conv_nth)
  ultimately show False by simp
qed

lemma find_key_live:
  assumes "leaf_inv l" "k \<noteq> invalidKey"
  shows "find_key 0 (keys l) k = find_key 0 (live l) k"
proof -
  obtain m where "keys l = live l @ replicate m invalidKey" using assms(1) by (rule leaf_invE)
  then show ?thesis using assms(2) find_key_append_absent [of k "replicate m invalidKey" 0 "live l"]
    by simp
qed

lemma map_of_entries:
  "leaf_inv l \<Longrightarrow>
     map_of (entries l) k = (case find_key 0 (live l) k of Some i \<Rightarrow> Some (vals l ! i) | None \<Rightarrow> None)"
  unfolding entries_def by (rule find_key_zip) (simp add: leaf_inv_bounds)

lemma search_map_of: "leaf_inv l \<Longrightarrow> k \<noteq> invalidKey \<Longrightarrow> leaf_search l k = map_of (entries l) k"
  using keys_not_below [of l k]
  by (simp add: leaf_search_def find_key_live map_of_entries) (auto simp: find_key_eq)

lemma contain_live: "leaf_inv l \<Longrightarrow> k \<noteq> invalidKey \<Longrightarrow> leaf_contain l k \<longleftrightarrow> k \<in> set (live l)"
  using keys_not_below [of l k]
  by (simp add: leaf_contain_def find_key_live) (auto simp: find_key_eq)

lemma contain_dom: "leaf_inv l \<Longrightarrow> k \<noteq> invalidKey \<Longrightarrow> leaf_contain l k \<longleftrightarrow> k \<in> fst ` set (entries l)"
  by (simp add: contain_live fst_set_entries)

text \<open>Looking for the marker itself succeeds on every leaf with a free slot.\<close>

lemma contain_invalidKey:
  assumes "leaf_inv l" shows "leaf_contain l invalidKey \<longleftrightarrow> \<not> isfull l"
proof -
  obtain m where m: "keys l = live l @ replicate m invalidKey" "max_slot l = length (live l) + m"
    "invalidKey \<notin> set (live l)" using assms by (rule leaf_invE)
  then have "invalidKey \<in> set (keys l) \<longleftrightarrow> m \<noteq> 0" by auto
  then show ?thesis
    using m(2) by (auto simp: leaf_contain_def find_key_eq isfull_iff [OF assms])
qed

section \<open>Update\<close>

lemma upd_entry_zip:
  "distinct xs \<Longrightarrow> length xs \<le> length vs \<Longrightarrow> find_key 0 xs k = Some i \<Longrightarrow>
     zip xs (vs[i := v]) = upd_entry k v (zip xs vs)"
proof (induction xs arbitrary: vs i)
  case (Cons x xs)
  then obtain w ws where vs: "vs = w # ws" by (cases vs) auto
  show ?case
  proof (cases "x = k")
    case True
    then have "upd_entry k v (zip xs ws) = zip xs ws"
      using Cons.prems(1) by (intro upd_entry_idle) (auto dest: set_zip_leftD)
    then show ?thesis using True Cons.prems vs by (simp add: upd_entry_def)
  next
    case False
    then obtain j where "i = Suc j" "find_key 0 xs k = Some j"
      using Cons.prems(3) by (auto simp: find_key_eq split: if_splits)
    then show ?thesis using Cons False vs by (simp add: upd_entry_def)
  qed
qed simp

lemma live_update [simp]: "live (l\<lparr>vals := vs\<rparr>) = live l" "max_slot (l\<lparr>vals := vs\<rparr>) = max_slot l"
  by (simp_all add: live_def max_slot_def)

lemma update_entries:
  assumes "leaf_inv l" "k \<noteq> invalidKey"
  shows "leaf_inv (fst (leaf_update l k v))"
    and "entries (fst (leaf_update l k v)) = upd_entry k v (entries l)"
    and "snd (leaf_update l k v) \<longleftrightarrow> k \<in> fst ` set (entries l)"
    and "max_slot (fst (leaf_update l k v)) = max_slot l"
    and "keys (fst (leaf_update l k v)) = keys l"
proof -
  show "max_slot (fst (leaf_update l k v)) = max_slot l" "keys (fst (leaf_update l k v)) = keys l"
    by (simp_all add: leaf_update_def split: option.split)
  have d: "distinct (live l)" "length (live l) \<le> length (vals l)"
    using assms(1) leaf_inv_bounds [OF assms(1)]
    by (auto simp: leaf_inv_def strict_sorted_iff)
  show "leaf_inv (fst (leaf_update l k v))"
    using assms(1) by (auto simp: leaf_update_def leaf_inv_def split: option.splits)
  show "snd (leaf_update l k v) \<longleftrightarrow> k \<in> fst ` set (entries l)"
    using contain_dom [OF assms] by (auto simp: leaf_update_def leaf_contain_def split: option.splits if_splits)
  show "entries (fst (leaf_update l k v)) = upd_entry k v (entries l)"
  proof (cases "k \<in> set (live l)")
    case True
    then obtain i where "find_key 0 (live l) k = Some i" by (auto simp: find_key_eq)
    moreover have "\<not> k < keys l ! 0" using keys_not_below [OF assms(1), of k] True by auto
    ultimately show ?thesis using upd_entry_zip [OF d]
      by (simp add: leaf_update_def find_key_live [OF assms] entries_def)
  next
    case False
    then have "find_key 0 (keys l) k = None"
      by (simp add: find_key_live [OF assms]) (simp add: find_key_eq)
    then show ?thesis using False
      by (simp add: leaf_update_def upd_entry_idle fst_set_entries assms(1))
  qed
qed

section \<open>Insertion\<close>

text \<open>
  With fewer than 256 slots the \<open>u8\<close> scans end: the first at the first key that is not
  smaller, the second at the first free slot after its start.
\<close>

lemma insert_scan_from:
  assumes "length ks < 256" "unat i \<le> length (takeWhile (\<lambda>x. x < k) ks)"
  shows "insert_scan ks k i =
     (let n = length (takeWhile (\<lambda>x. x < k) ks)
      in Some (if n < length ks \<and> ks ! n = k then Found (of_nat n) else Pos (of_nat n)))"
  using assms(2)
proof (induction "length (takeWhile (\<lambda>x. x < k) ks) - unat i" arbitrary: i)
  case 0
  define n where "n = length (takeWhile (\<lambda>x. x < k) ks)"
  have n: "unat i = n" "n \<le> length ks"
    using 0 length_takeWhile_le [of "\<lambda>x. x < k" ks] by (simp_all add: n_def)
  from n(1) have i: "i = of_nat n" by auto
  have "\<not> ks ! n < k" if "n < length ks" using that nth_length_takeWhile n_def by blast
  then show ?case using n unfolding n_def [symmetric] Let_def
    by (subst insert_scan.simps) (auto simp: i [symmetric] not_less order_le_less)
next
  case (Suc d)
  let ?t = "takeWhile (\<lambda>x. x < k) ks"
  have lt: "unat i < length ?t" using Suc.hyps(2) by simp
  then have "ks ! unat i < k" "unat i < length ks"
    using nth_mem [OF lt] length_takeWhile_le [of "\<lambda>x. x < k" ks]
    by (auto simp: takeWhile_nth dest: set_takeWhileD)
  moreover have "unat (i + 1) = Suc (unat i)"
    using calculation(2) assms(1) by (simp add: unat_word_ariths)
  ultimately show ?case
    using Suc.hyps(1) [of "i + 1"] Suc.hyps(2) lt by (subst insert_scan.simps) auto
qed

lemma free_scan_from:
  assumes "length ks < 256" "unat j \<le> length ks"
  shows "free_scan ks j =
     Some (of_nat (unat j + length (takeWhile (\<lambda>k. k \<noteq> invalidKey) (drop (unat j) ks))))"
  using assms(2)
proof (induction "length ks - unat j" arbitrary: j)
  case 0
  then show ?case by (subst free_scan.simps) auto
next
  case (Suc d)
  then have lt: "unat j < length ks" by simp
  then have u: "unat (j + 1) = Suc (unat j)" using assms(1) by (simp add: unat_word_ariths)
  have d: "drop (unat j) ks = ks ! unat j # drop (Suc (unat j)) ks"
    using lt by (simp add: Cons_nth_drop_Suc)
  show ?case
  proof (cases "ks ! unat j = invalidKey")
    case True
    then show ?thesis using d by (subst free_scan.simps) simp
  next
    case False
    then show ?thesis using Suc.hyps(1) [of "j + 1"] Suc.hyps(2) u lt
      by (subst free_scan.simps) (simp add: d)
  qed
qed

lemma free_scan_open_from:
  assumes "length ks < 256" "unat j \<le> length ks"
  shows "free_scan_open ks j =
     (let p = unat j + length (takeWhile (\<lambda>k. k \<noteq> invalidKey) (drop (unat j) ks))
      in Some (if p < length ks then Inr (of_nat p) else Inl UB))"
  using assms(2)
proof (induction "length ks - unat j" arbitrary: j)
  case 0
  then show ?case by (subst free_scan_open.simps) auto
next
  case (Suc d)
  then have lt: "unat j < length ks" by simp
  then have u: "unat (j + 1) = Suc (unat j)" using assms(1) by (simp add: unat_word_ariths)
  have d: "drop (unat j) ks = ks ! unat j # drop (Suc (unat j)) ks"
    using lt by (simp add: Cons_nth_drop_Suc)
  show ?case
  proof (cases "ks ! unat j = invalidKey")
    case True
    then show ?thesis using d lt by (subst free_scan_open.simps) simp
  next
    case False
    then show ?thesis using Suc.hyps(1) [of "j + 1"] Suc.hyps(2) u lt
      by (subst free_scan_open.simps) (simp add: d)
  qed
qed

text \<open>The position both insertions use: in front of the first key that is not smaller.\<close>

definition ins_pos :: "leaf \<Rightarrow> u64 \<Rightarrow> nat" where
  "ins_pos l k = length (takeWhile (\<lambda>e. fst e < k) (entries l))"

lemma ins_pos_live: "leaf_inv l \<Longrightarrow> ins_pos l k = length (takeWhile (\<lambda>x. x < k) (live l))"
  by (simp add: ins_pos_def takeWhile_map o_def flip: map_fst_entries)

lemma ins_pos_le: "leaf_inv l \<Longrightarrow> ins_pos l k \<le> length (live l)"
  by (simp add: ins_pos_live length_takeWhile_le)

lemma ins_pos_keys:
  assumes "leaf_inv l" "k \<noteq> invalidKey"
  shows "length (takeWhile (\<lambda>x. x < k) (keys l)) = ins_pos l k"
proof -
  obtain m where "keys l = live l @ replicate m invalidKey" using assms(1) by (rule leaf_invE)
  moreover have "takeWhile (\<lambda>x. x < k) (live l @ replicate m invalidKey) = takeWhile (\<lambda>x. x < k) (live l)"
    by (cases "\<forall>x \<in> set (live l). x < k")
       (auto simp: takeWhile_append takeWhile_eq_Nil_iff hd_replicate takeWhile_eq_all_conv [THEN iffD2])
  ultimately show ?thesis by (simp add: ins_pos_live [OF assms(1)])
qed

lemma nth_ins_pos:
  assumes "leaf_inv l" "k \<noteq> invalidKey"
  shows "ins_pos l k < max_slot l \<and> keys l ! ins_pos l k = k \<longleftrightarrow> k \<in> fst ` set (entries l)"
proof -
  have *: "ins_pos l k < max_slot l \<and> keys l ! ins_pos l k = k \<longleftrightarrow>
      ins_pos l k < length (live l) \<and> live l ! ins_pos l k = k"
    using leaf_inv_bounds [OF assms(1)] keys_nth_free [OF assms(1), of "ins_pos l k"]
      keys_nth_live [OF assms(1), of "ins_pos l k"] ins_pos_le [OF assms(1), of k] assms(2)
    by (cases "ins_pos l k < length (live l)") auto
  have "sorted_wrt (<) xs \<Longrightarrow>
      (length (takeWhile (\<lambda>x. x < k) xs) < length xs \<and> xs ! length (takeWhile (\<lambda>x. x < k) xs) = k)
        = (k \<in> set xs)" for xs :: "u64 list"
    by (induction xs) auto
  then show ?thesis
    unfolding * using assms(1)
    by (simp add: ins_pos_live fst_set_entries leaf_inv_def)
qed

lemma insert_scan_leaf:
  assumes "leaf_inv l" "k \<noteq> invalidKey"
  shows "insert_scan (keys l) k 0 =
     Some (if k \<in> fst ` set (entries l) then Found (of_nat (ins_pos l k)) else Pos (of_nat (ins_pos l k)))"
  using insert_scan_from [of "keys l" 0 k] leaf_inv_bounds [OF assms(1)] nth_ins_pos [OF assms]
  by (simp add: ins_pos_keys [OF assms] Let_def)

lemma unat_ins_pos: "leaf_inv l \<Longrightarrow> unat (of_nat (ins_pos l k) :: u8) = ins_pos l k"
  using ins_pos_le [of l k] leaf_inv_bounds [of l] by (simp add: unat_of_nat)

lemma live_after_ins_pos:
  assumes "leaf_inv l"
  shows "takeWhile (\<lambda>k. k \<noteq> invalidKey) (drop (ins_pos l k) (keys l)) = drop (ins_pos l k) (live l)"
proof -
  obtain m where m: "keys l = live l @ replicate m invalidKey" "invalidKey \<notin> set (live l)"
    using assms by (rule leaf_invE)
  have "invalidKey \<notin> set (drop (ins_pos l k) (live l))"
    using m(2) by (meson in_set_dropD)
  then have "takeWhile (\<lambda>k. k \<noteq> invalidKey) (drop (ins_pos l k) (live l) @ replicate m invalidKey)
      = drop (ins_pos l k) (live l)" by (rule takeWhile_replicate_tail)
  moreover have "drop (ins_pos l k) (keys l) = drop (ins_pos l k) (live l) @ replicate m invalidKey"
    using ins_pos_le [OF assms, of k] by (subst m(1)) simp
  ultimately show ?thesis by (simp only:)
qed

lemma free_scan_leaf:
  assumes "leaf_inv l"
  shows "free_scan (keys l) (of_nat (ins_pos l k)) = Some (of_nat (length (live l)))"
    and "length (live l) < max_slot l \<Longrightarrow>
           free_scan_open (keys l) (of_nat (ins_pos l k)) = Some (Inr (of_nat (length (live l))))"
proof -
  note n = ins_pos_le [OF assms, of k] and b = leaf_inv_bounds [OF assms]
  have le: "length (keys l) < 256" "unat (of_nat (ins_pos l k) :: u8) \<le> length (keys l)"
    using n b by (simp_all add: unat_ins_pos [OF assms])
  show "free_scan (keys l) (of_nat (ins_pos l k)) = Some (of_nat (length (live l)))"
    using free_scan_from [OF le] n unfolding unat_ins_pos [OF assms] live_after_ins_pos [OF assms] by simp
  show "free_scan_open (keys l) (of_nat (ins_pos l k)) = Some (Inr (of_nat (length (live l))))"
    if "length (live l) < max_slot l"
    using free_scan_open_from [OF le] n that b
    unfolding unat_ins_pos [OF assms] live_after_ins_pos [OF assms] by (simp add: Let_def)
qed

text \<open>
  The common core of both insertions: shifting the slots from the insertion point to the
  slot \<open>j\<close>, the first free one or the last, and writing the new pair inserts it into the
  entries; on a full leaf the last entry is lost.
\<close>

lemma zip_shift:
  assumes "n \<le> length xs" "length xs \<le> length vs"
  shows "zip (take n xs @ x # drop n xs) (take n vs @ v # take (length xs - n) (drop n vs) @ zs)
       = take n (zip xs vs) @ (x, v) # drop n (zip xs vs)"
proof -
  have "zip ys (take (length ys) ws @ zs) = zip ys ws" if "length ys \<le> length ws" for ys :: "'a list" and ws
    using that take_zip [of "length ys" ys ws] by (simp add: zip_append2)
  from this [of "drop n xs" "drop n vs"]
  show ?thesis using assms by (simp add: take_zip drop_zip)
qed

definition shift_in :: "leaf \<Rightarrow> u64 \<Rightarrow> u64 \<Rightarrow> nat \<Rightarrow> nat \<Rightarrow> leaf" where
  "shift_in l k v i j = l\<lparr>keys := (copy_bwd (keys l) i j (Suc j))[i := k],
                          vals := (copy_bwd (vals l) i j (Suc j))[i := v]\<rparr>"

lemma ins_entry_take_drop:
  "ins_entry k v (entries l) = take (ins_pos l k) (entries l) @ (k, v) # drop (ins_pos l k) (entries l)"
  by (simp add: ins_entry_def ins_pos_def flip: takeWhile_eq_take dropWhile_eq_drop)

lemma map_fst_ins:
  "leaf_inv l \<Longrightarrow> map fst (ins_entry k v (entries l)) = take (ins_pos l k) (live l) @ k # drop (ins_pos l k) (live l)"
  by (simp add: ins_entry_take_drop map_fst_entries flip: take_map drop_map)

lemma shift_in_room:
  assumes inv: "leaf_inv l" and k: "k \<noteq> invalidKey" "k \<notin> fst ` set (entries l)"
    and room: "length (live l) < max_slot l"
  shows "leaf_inv (shift_in l k v (ins_pos l k) (length (live l)))"
    and "entries (shift_in l k v (ins_pos l k) (length (live l))) = ins_entry k v (entries l)"
    and "max_slot (shift_in l k v (ins_pos l k) (length (live l))) = max_slot l"
proof -
  let ?n = "ins_pos l k" and ?j = "length (live l)" and ?l = "shift_in l k v (ins_pos l k) (length (live l))"
  let ?ks = "take ?n (live l) @ k # drop ?n (live l)"
  note b = leaf_inv_bounds [OF inv] and n = ins_pos_le [OF inv, of k]
  obtain m where m: "keys l = live l @ replicate m invalidKey" "max_slot l = ?j + m"
    "invalidKey \<notin> set (live l)" using inv by (rule leaf_invE)
  have "keys ?l = ?ks @ replicate (m - 1) invalidKey"
    using room m n b by (simp add: shift_in_def copy_bwd_shift)
  moreover have "sorted_wrt (<) ?ks"
    using al_sorted_ins_entry [OF al_sorted_entries [OF inv] k(2), of v]
    by (simp add: al_sorted_def map_fst_ins [OF inv])
  moreover have "invalidKey \<notin> set ?ks"
    using m(3) k(1) by (auto dest: in_set_takeD in_set_dropD)
  moreover have "length (vals ?l) = length ?ks + (m - 1)"
    using b m(2) room n by (simp add: shift_in_def)
  ultimately have inv': "leaf_inv ?l" and lv: "live ?l = ?ks"
    using leaf_shape [of ?l ?ks "m - 1"] m(2) room b n by auto
  show "leaf_inv ?l" by (rule inv')
  show "entries ?l = ins_entry k v (entries l)"
    unfolding entries_def [of ?l] lv
    using zip_shift [of ?n "live l" "vals l" k v "drop (Suc ?j) (vals l)"] room n b
    by (simp add: shift_in_def copy_bwd_shift ins_entry_take_drop) (simp add: entries_def)
  show "max_slot ?l = max_slot l" by (simp add: max_slot_def shift_in_def)
qed

lemma insert_not_full_cases:
  assumes inv: "leaf_inv l" and k: "k \<noteq> invalidKey"
  shows "insert_not_full l k v =
    (if k \<in> fst ` set (entries l) then Inr (l, 0)
     else if length (live l) = max_slot l then Inr (l, of_nat (max_slot l))
     else Inr (shift_in l k v (ins_pos l k) (length (live l)), of_nat (ins_pos l k)))"
proof -
  note b = leaf_inv_bounds [OF inv]
  have "unat (of_nat (length (live l)) :: u8) = length (live l)"
    using b by (simp add: unat_of_nat)
  then show ?thesis
    using b by (simp add: insert_not_full_def insert_scan_leaf [OF inv k] free_scan_leaf [OF inv]
        unat_ins_pos [OF inv] shift_in_def)
qed

text \<open>What a successful insertion gives, as one fact for the clients of the leaf.\<close>

lemma insert_not_full_ok:
  assumes "leaf_inv l" "k \<noteq> invalidKey" "insert_not_full l k v = Inr (l', p)"
  shows "leaf_inv l'" "max_slot l' = max_slot l"
    "entries l' = (if k \<in> fst ` set (entries l) \<or> isfull l then entries l else ins_entry k v (entries l))"
  using assms(3) shift_in_room [OF assms(1,2), of v] leaf_inv_bounds [OF assms(1)] assms(1)
  by (auto simp: insert_not_full_cases [OF assms(1,2)] isfull_iff [OF assms(1)] split: if_splits)

section \<open>Removal\<close>

lemma remove_scan_from:
  assumes "length ks < 256" "unat i \<le> length ks"
  shows "remove_scan ks k i =
     Some (case find_key (unat i) (drop (unat i) ks) k of Some p \<Rightarrow> Some (of_nat p) | None \<Rightarrow> None)"
  using assms(2)
proof (induction "length ks - unat i" arbitrary: i)
  case 0
  then show ?case by (subst remove_scan.simps) auto
next
  case (Suc d)
  then have lt: "unat i < length ks" by simp
  then have u: "unat (i + 1) = Suc (unat i)" using assms(1) by (simp add: unat_word_ariths)
  have d: "drop (unat i) ks = ks ! unat i # drop (Suc (unat i)) ks"
    using lt by (simp add: Cons_nth_drop_Suc)
  show ?case
    using Suc.hyps(1) [of "i + 1"] Suc.hyps(2) lt by (subst remove_scan.simps) (simp add: d u)
qed

lemma remove_scan_leaf:
  "leaf_inv l \<Longrightarrow> remove_scan (keys l) k 0
     = Some (case find_key 0 (keys l) k of Some p \<Rightarrow> Some (of_nat p) | None \<Rightarrow> None)"
  using remove_scan_from [of "keys l" 0 k] leaf_inv_bounds [of l] by simp

lemma del_entry_zip:
  "distinct xs \<Longrightarrow> length xs \<le> length vs \<Longrightarrow> find_key 0 xs k = Some i \<Longrightarrow>
     del_entry k (zip xs vs) = take i (zip xs vs) @ drop (Suc i) (zip xs vs)"
proof (induction xs arbitrary: vs i)
  case (Cons x xs)
  then obtain w ws where vs: "vs = w # ws" by (cases vs) auto
  show ?case
  proof (cases "x = k")
    case True
    then have "del_entry k (zip xs ws) = zip xs ws"
      using Cons.prems(1) by (intro del_entry_idle) (auto dest: set_zip_leftD)
    then show ?thesis using True Cons.prems vs by (simp add: del_entry_def)
  next
    case False
    then obtain j where "i = Suc j" "find_key 0 xs k = Some j"
      using Cons.prems(3) by (auto simp: find_key_eq split: if_splits)
    then show ?thesis using Cons False vs by (simp add: del_entry_def)
  qed
qed simp

lemma find_key_nth:
  "find_key j xs k = Some i \<Longrightarrow> j \<le> i \<and> i - j < length xs \<and> xs ! (i - j) = k"
  by (induction xs arbitrary: j) (auto simp: nth_Cons' split: if_splits, fastforce+)

lemma zip_unshift:
  assumes "i < length xs" "length xs \<le> length vs"
  shows "zip (take i xs @ drop (Suc i) xs) (take i vs @ drop (Suc i) vs @ zs)
       = take i (zip xs vs) @ drop (Suc i) (zip xs vs)"
proof -
  have "zip ys (ws @ zs) = zip ys ws" if "length ys \<le> length ws" for ys :: "'a list" and ws
    using that by (simp add: zip_append2)
  then show ?thesis using assms by (simp add: take_zip drop_zip)
qed

lemma remove_absent:
  "leaf_inv l \<Longrightarrow> k \<noteq> invalidKey \<Longrightarrow> k \<notin> fst ` set (entries l) \<Longrightarrow> leaf_remove l k = Inr (l, False)"
  by (simp add: leaf_remove_def remove_scan_leaf find_key_live) (simp add: find_key_eq fst_set_entries)

lemma remove_present:
  assumes inv: "leaf_inv l" and k: "k \<in> fst ` set (entries l)"
  obtains l' where "leaf_remove l k = Inr (l', True)" "leaf_inv l'" "max_slot l' = max_slot l"
    "entries l' = del_entry k (entries l)"
proof -
  note b = leaf_inv_bounds [OF inv]
  have kl: "k \<in> set (live l)" "k \<noteq> invalidKey" using k by (simp_all add: fst_set_entries inv live_not_invalid)
  then obtain i where i: "find_key 0 (live l) k = Some i" by (auto simp: find_key_eq)
  then have il: "i < length (live l)" using find_key_nth by fastforce
  obtain m where m: "keys l = live l @ replicate m invalidKey" "max_slot l = length (live l) + m"
    "invalidKey \<notin> set (live l)" using inv by (rule leaf_invE)
  define l' where "l' = l\<lparr>keys := (copy_fwd (keys l) (Suc i) (max_slot l) i)[max_slot l - 1 := invalidKey],
                          vals := copy_fwd (vals l) (Suc i) (max_slot l) i\<rparr>"
  let ?ks = "take i (live l) @ drop (Suc i) (live l)"
  have vals': "vals l' = take i (vals l) @ drop (Suc i) (vals l) @ [last (vals l)]"
    using copy_fwd_shift [of i "vals l"] il b by (simp add: l'_def)
  have "keys l' = (take i (keys l) @ drop (Suc i) (keys l) @ [last (keys l)])[max_slot l - 1 := invalidKey]"
    using copy_fwd_shift [of i "keys l"] il b by (simp add: l'_def)
  also have "\<dots> = take i (keys l) @ drop (Suc i) (keys l) @ [invalidKey]"
  proof -
    have "\<not> max_slot l - Suc 0 < i" "i \<le> max_slot l" using il b by linarith+
    then show ?thesis using il b by (simp add: list_update_append)
  qed
  also have "\<dots> = ?ks @ replicate (Suc m) invalidKey"
    using il by (subst (1 2) m(1)) (simp add: replicate_append_same)
  finally have keys': "keys l' = ?ks @ replicate (Suc m) invalidKey" .
  have delz: "del_entry k (entries l) = take i (entries l) @ drop (Suc i) (entries l)"
    using del_entry_zip [OF _ _ i, of "vals l"] b inv by (simp add: entries_def leaf_inv_def strict_sorted_iff)
  have "map fst (del_entry k (entries l)) = ?ks"
    unfolding delz by (simp add: map_fst_entries [OF inv] flip: take_map drop_map)
  then have "sorted_wrt (<) ?ks"
    using al_sorted_del_entry [OF al_sorted_entries [OF inv], of k] by (simp add: al_sorted_def)
  moreover have "invalidKey \<notin> set ?ks" using m(3) by (auto dest: in_set_takeD in_set_dropD)
  ultimately have l': "leaf_inv l'" "live l' = ?ks"
    using leaf_shape [OF keys'] vals' b il m(2) by auto
  moreover have "entries l' = del_entry k (entries l)"
    using zip_unshift [OF il, of "vals l" "[last (vals l)]"] b
    unfolding delz by (simp add: entries_def l'(2) vals')
  moreover have "leaf_remove l k = Inr (l', True)"
    using il b i by (simp add: leaf_remove_def remove_scan_leaf [OF inv] find_key_live [OF inv kl(2)] l'_def unat_of_nat)
  moreover have "max_slot l' = max_slot l" by (simp add: l'_def max_slot_def)
  ultimately show ?thesis using that by blast
qed

section \<open>Range reads\<close>

lemma range_loop_free: "range_loop (replicate m invalidKey) vs key lim r = r"
  by (cases m; cases vs) auto

lemma range_loop_eq:
  "invalidKey \<notin> set xs \<Longrightarrow> length xs \<le> length vs \<Longrightarrow>
     range_loop (xs @ replicate m invalidKey) vs key lim r
       = r @ take (lim - length r) (from_key key (zip xs vs))"
proof (induction xs arbitrary: vs r)
  case Nil
  then show ?case by (simp add: range_loop_free from_key_def)
next
  case (Cons x xs)
  then obtain w ws where "vs = w # ws" by (cases vs) auto
  show ?case
  proof (cases "length r < lim")
    case True
    then obtain n where "lim - length r = Suc n" "lim - Suc (length r) = n"
      by (metis Suc_diff_Suc)
    then show ?thesis using Cons \<open>vs = w # ws\<close> by (auto simp: from_key_def)
  qed (use \<open>vs = w # ws\<close> in simp)
qed

lemma range_entries:
  assumes "leaf_inv l"
  shows "leaf_range l key n r = r @ take (vec_limit n - length r) (from_key key (entries l))"
proof -
  obtain m where "keys l = live l @ replicate m invalidKey" "invalidKey \<notin> set (live l)"
    using assms by (rule leaf_invE)
  then show ?thesis
    using range_loop_eq [of "live l" "vals l" m] leaf_inv_bounds [OF assms]
    by (simp add: leaf_range_def entries_def)
qed

lemma vec_limit_of_nat: "n < 2 ^ 31 \<Longrightarrow> vec_limit (of_nat n) = n"
  by (simp add: vec_limit_def scast_eq sint_of_nat_i32 unat_of_nat take_bit_nat_eq_self)

section \<open>Insertion on behalf of a compute node\<close>

lemma shift_loop_copy:
  assumes "length ks < 256" "unat j < length ks" "length vs = length ks" "i \<le> j"
  shows "shift_loop ks vs i j =
     Some (Inr (copy_bwd ks (unat i) (unat j) (Suc (unat j)), copy_bwd vs (unat i) (unat j) (Suc (unat j))))"
  using assms
proof (induction "unat j - unat i" arbitrary: j ks vs)
  case 0
  then have "i = j" by (simp add: word_le_nat_alt word_unat_eq_iff)
  then show ?case by (subst shift_loop.simps) (cases "unat j"; simp)
next
  case (Suc d)
  then obtain p where p: "unat j = Suc p" "unat i \<le> p" by (cases "unat j") auto
  then have ij: "i \<noteq> j" "j \<noteq> 0" by auto
  have u: "unat (j - 1) = p" using p(1) by (simp add: unat_minus_one ij)
  have "d = unat (j - 1) - unat i" "i \<le> j - 1" using Suc.hyps(2) p u by (simp_all add: word_le_nat_alt)
  from Suc.hyps(1) [OF this(1) _ _ _ this(2), of "ks[Suc p := ks ! p]" "vs[Suc p := vs ! p]"]
  show ?case using Suc.prems p u ij
    by (subst shift_loop.simps) simp
qed

lemma shift_in_full:
  assumes inv: "leaf_inv l" and k: "k \<noteq> invalidKey" "k \<notin> fst ` set (entries l)"
    and full: "length (live l) = max_slot l" and pos: "ins_pos l k < max_slot l"
  shows "leaf_inv (shift_in l k v (ins_pos l k) (max_slot l - 1))"
    and "entries (shift_in l k v (ins_pos l k) (max_slot l - 1)) = butlast (ins_entry k v (entries l))"
proof -
  let ?n = "ins_pos l k" and ?N = "max_slot l" and ?l = "shift_in l k v (ins_pos l k) (max_slot l - 1)"
  let ?ks = "take ?n (live l) @ k # drop ?n (live l)"
  note b = leaf_inv_bounds [OF inv]
  have kl: "keys l = live l" and il: "invalidKey \<notin> set (live l)"
    using inv full by (auto simp: leaf_inv_def dest: live_not_invalid)
  have cut: "take ?n xs @ x # take (?N - 1 - ?n) (drop ?n xs) = butlast (take ?n xs @ x # drop ?n xs)"
    if "length xs = ?N" for xs :: "'a list" and x
    using that pos by (simp add: butlast_append butlast_conv_take take_Cons')
  have N: "Suc (?N - 1) = ?N" using b by simp
  have keys': "keys ?l = butlast ?ks" and vals': "vals ?l = butlast (take ?n (vals l) @ v # drop ?n (vals l))"
    using copy_bwd_shift [of ?n "?N - 1" "keys l" k] copy_bwd_shift [of ?n "?N - 1" "vals l" v]
      cut [of "keys l" k] cut [of "vals l" v] b pos
    unfolding N by (simp_all add: shift_in_def) (simp_all add: kl)
  have "sorted_wrt (<) ?ks"
    using al_sorted_ins_entry [OF al_sorted_entries [OF inv] k(2), of v]
    by (simp add: al_sorted_def map_fst_ins [OF inv])
  then have "sorted_wrt (<) (butlast ?ks)"
    unfolding butlast_conv_take by (rule sorted_wrt_take)
  moreover have "invalidKey \<notin> set (butlast ?ks)"
    using il k(1) by (auto dest!: in_set_butlastD dest: in_set_takeD in_set_dropD)
  ultimately have shape: "leaf_inv ?l" "live ?l = butlast ?ks"
    using leaf_shape [of ?l "butlast ?ks" 0] keys' vals' full b ins_pos_le [OF inv, of k] by auto
  show "leaf_inv ?l" by (rule shape(1))
  have "zip (butlast xs) (butlast ys) = butlast (zip xs ys)" if "length xs = length ys" for xs ys :: "u64 list"
    using that by (simp add: butlast_conv_take take_zip)
  then show "entries ?l = butlast (ins_entry k v (entries l))"
    using zip_shift [of ?n "live l" "vals l" k v "[]"] full b ins_pos_le [OF inv, of k]
    unfolding entries_def [of ?l] shape(2) vals' ins_entry_take_drop by (simp add: entries_def)
qed

text \<open>The four answers of \<open>insert_to_remote\<close>.\<close>

lemma insert_to_remote_cases:
  assumes inv: "leaf_inv l" and k: "k \<noteq> invalidKey"
  shows "insert_to_remote l k v =
    (if k \<in> fst ` set (entries l) then Inr (l, 0, of_nat (ins_pos l k))
     else if isfull l then
       if ins_pos l k = max_slot l then Inr (l, 3, 0)
       else Inr (shift_in l k v (ins_pos l k) (max_slot l - 1), 2, 0)
     else Inr (shift_in l k v (ins_pos l k) (length (live l)), 1, 0))"
proof -
  note b = leaf_inv_bounds [OF inv] and n = ins_pos_le [OF inv, of k] and u = unat_ins_pos [OF inv, of k]
  have N1: "unat (of_nat (max_slot l) - 1 :: u8) = max_slot l - 1"
    using b by (subst unat_sub_if') (auto simp: unat_of_nat word_le_nat_alt)
  have j: "unat (of_nat (length (live l)) :: u8) = length (live l)"
    using b by (simp add: unat_of_nat)
  have shift: "shift_loop (keys l) (vals l) (of_nat (ins_pos l k)) j =
      Some (Inr (copy_bwd (keys l) (ins_pos l k) (unat j) (Suc (unat j)),
                 copy_bwd (vals l) (ins_pos l k) (unat j) (Suc (unat j))))"
    if "ins_pos l k \<le> unat j" "unat j < max_slot l" for j
    using shift_loop_copy [of "keys l" j "vals l" "of_nat (ins_pos l k)"] that b u
    by (simp add: word_le_nat_alt)
  show ?thesis
  proof (cases "k \<in> fst ` set (entries l)")
    case True
    then show ?thesis by (simp add: insert_to_remote_def insert_scan_leaf [OF inv k])
  next
    case False
    then show ?thesis
      using b n u N1 j isfull_iff [OF inv] free_scan_leaf(2) [OF inv, of k]
        shift [of "of_nat (max_slot l) - 1"] shift [of "of_nat (length (live l))"]
      by (cases "isfull l")
        (auto simp: insert_to_remote_def insert_scan_leaf [OF inv k] shift_in_def)
  qed
qed

section \<open>Construction and the debug check\<close>

lemma leaf_ctor_ok:
  assumes "0 < max_slot raw" "max_slot raw < 256" "length (vals raw) = max_slot raw"
  shows "leaf_inv (leaf_ctor raw)" "entries (leaf_ctor raw) = []" "max_slot (leaf_ctor raw) = max_slot raw"
proof -
  have "keys (leaf_ctor raw) = [] @ replicate (max_slot raw) invalidKey"
    "length (vals (leaf_ctor raw)) = max_slot raw" by (simp_all add: leaf_ctor_def assms(3))
  with leaf_shape [OF this(1)] assms show inv: "leaf_inv (leaf_ctor raw)" and "entries (leaf_ctor raw) = []"
    by (simp_all add: entries_def)
  show "max_slot (leaf_ctor raw) = max_slot raw" by (simp add: leaf_ctor_def max_slot_def)
qed

lemma last_live_from:
  "unat i < length ks \<Longrightarrow> n \<le> unat i \<Longrightarrow> ks ! n \<noteq> invalidKey \<Longrightarrow>
     (\<And>t. n < t \<Longrightarrow> t \<le> unat i \<Longrightarrow> ks ! t = invalidKey) \<Longrightarrow> last_live ks i = Some (Inr (of_nat n))"
proof (induction "unat i - n" arbitrary: i)
  case 0
  then have "unat i = n" by simp
  then have "i = of_nat n" by auto
  then show ?case using 0 by (subst last_live.simps) auto
next
  case (Suc d)
  then have i: "n < unat i" "i \<noteq> 0" by auto
  then have u: "unat (i - 1) = unat i - 1" by (simp add: unat_minus_one)
  have "last_live ks (i - 1) = Some (Inr (of_nat n))"
    by (rule Suc.hyps(1)) (use Suc i u in auto)
  then show ?case using Suc.prems i by (subst last_live.simps) auto
qed

lemma check_desc_ok:
  "i < length ks \<Longrightarrow> sorted_wrt (<) (take (Suc i) ks) \<Longrightarrow> check_desc ks i = Inr ()"
proof (induction i)
  case (Suc i)
  have "take (Suc i) (take (Suc (Suc i)) ks) = take (Suc i) ks" by simp
  then have "sorted_wrt (<) (take (Suc i) ks)" using Suc.prems(2) sorted_wrt_take by metis
  moreover have "ks ! i < ks ! Suc i"
    using sorted_wrt_nth_less [OF Suc.prems(2), of i "Suc i"] Suc.prems(1) by simp
  ultimately show ?case using Suc by simp
qed simp

lemma self_check_nonempty:
  assumes inv: "leaf_inv l" and ne: "entries l \<noteq> []"
  shows "self_check l = Inr ()"
proof -
  note b = leaf_inv_bounds [OF inv]
  have "length (live l) \<noteq> 0" using ne length_entries [OF inv] by auto
  then obtain n where n: "length (live l) = Suc n" by (cases "length (live l)") auto
  have u: "unat (of_nat (max_slot l) - 1 :: u8) = max_slot l - 1"
    using b by (subst unat_sub_if') (auto simp: unat_of_nat word_le_nat_alt)
  have "last_live (keys l) (of_nat (max_slot l) - 1) = Some (Inr (of_nat n))"
  proof (rule last_live_from)
    show "keys l ! n \<noteq> invalidKey"
      using n keys_nth_live [OF inv, of n] live_not_invalid [OF nth_mem [of n "live l"]] by auto
    show "keys l ! t = invalidKey" if "n < t" "t \<le> unat (of_nat (max_slot l) - 1 :: u8)" for t
      using that n b u by (intro keys_nth_free [OF inv]) auto
  qed (use n b u in auto)
  moreover have "take (Suc n) (keys l) = live l"
  proof -
    obtain m where "keys l = live l @ replicate m invalidKey" using inv by (rule leaf_invE)
    then show ?thesis using n by (metis append_eq_conv_conj)
  qed
  ultimately show ?thesis
    using check_desc_ok [of n "keys l"] n b inv
    by (simp add: self_check_def unat_of_nat leaf_inv_def)
qed

text \<open>On an empty leaf the index wraps around to 255, outside the array.\<close>

lemma last_live_wraps:
  "length ks < 256 \<Longrightarrow> (\<And>t. t \<le> unat i \<Longrightarrow> ks ! t = invalidKey) \<Longrightarrow> unat i < length ks \<Longrightarrow>
     last_live ks i = Some (Inl UB)"
proof (induction "unat i" arbitrary: i)
  case 0
  then have "i = 0" by (simp add: unat_eq_0)
  moreover have "last_live ks (- 1) = Some (Inl UB)"
    using 0 by (subst last_live.simps) (simp add: unsigned_minus_1_eq_mask mask_eq_exp_minus_1)
  ultimately show ?case using 0 by (subst last_live.simps) auto
next
  case (Suc n)
  then have "i \<noteq> 0" by auto
  then have "unat (i - 1) = n" using Suc.hyps(2) by (simp add: unat_minus_one)
  then have "last_live ks (i - 1) = Some (Inl UB)" using Suc by simp
  then show ?case using Suc.prems by (subst last_live.simps) auto
qed

lemma self_check_empty:
  assumes inv: "leaf_inv l" and "entries l = []"
  shows "self_check l = Inl UB"
proof -
  note b = leaf_inv_bounds [OF inv]
  have "live l = []" using assms length_entries [OF inv] by auto
  moreover have u: "unat (of_nat (max_slot l) - 1 :: u8) = max_slot l - 1"
    using b by (subst unat_sub_if') (auto simp: unat_of_nat word_le_nat_alt)
  ultimately have "last_live (keys l) (of_nat (max_slot l) - 1) = Some (Inl UB)"
    using b keys_nth_free [OF inv] by (intro last_live_wraps) auto
  then show ?thesis by (simp add: self_check_def)
qed

section \<open>Properties of the leaf\<close>

text \<open>C1: on a well-formed leaf, \<open>search\<close> and \<open>contain\<close> look the key up in the sorted map
  the leaf stores.\<close>

theorem leaf_lookup_correct:
  assumes "leaf_inv l" "k \<noteq> invalidKey"
  shows "leaf_search l k = map_of (entries l) k \<and> (leaf_contain l k \<longleftrightarrow> k \<in> dom (map_of (entries l)))"
  using assms by (simp add: search_map_of contain_dom dom_map_of_entries)

definition example_leaf :: leaf where
  "example_leaf = \<lparr>keys = [3, 7, invalidKey, invalidKey], vals = [30, 70, 1, 2]\<rparr>"

lemma example_leaf_facts:
  "leaf_inv example_leaf" "entries example_leaf = [(3, 30), (7, 70)]" "max_slot example_leaf = 4"
  by code_simp+

theorem leaf_lookup_correct_witness:
  "leaf_search example_leaf 7 = Some 70 \<and> leaf_search example_leaf 5 = None"
  using leaf_lookup_correct [OF example_leaf_facts(1), of 7]
    leaf_lookup_correct [OF example_leaf_facts(1), of 5]
  by (simp add: example_leaf_facts invalidKey_def)

text \<open>C2: \<open>insert_not_full\<close> always returns, keeps the leaf well-formed and is one of three
  things: nothing for a key that is there (answer 0), nothing on a full leaf (answer \<open>N\<close>),
  or the sorted insertion of the pair, with the position it went to.\<close>

theorem leaf_insert_correct:
  assumes "leaf_inv l" "k \<noteq> invalidKey"
  shows "\<exists>l' p. insert_not_full l k v = Inr (l', p) \<and> leaf_inv l' \<and> max_slot l' = max_slot l \<and>
    (if k \<in> dom (map_of (entries l)) then l' = l \<and> p = 0
     else if isfull l then l' = l \<and> p = of_nat (max_slot l)
     else entries l' = ins_entry k v (entries l) \<and> map_of (entries l') = (map_of (entries l))(k \<mapsto> v)
          \<and> entries l' ! unat p = (k, v))"
proof (cases "k \<in> fst ` set (entries l) \<or> isfull l")
  case True
  then show ?thesis using assms by (auto simp: insert_not_full_cases isfull_iff dom_map_of_entries)
next
  case False
  then have "length (live l) < max_slot l" using leaf_inv_bounds [OF assms(1)] isfull_iff [OF assms(1)] by auto
  moreover have "ins_entry k v (entries l) ! ins_pos l k = (k, v)"
    using ins_pos_le [OF assms(1), of k] assms(1)
    by (simp add: ins_entry_take_drop nth_append length_entries)
  ultimately show ?thesis using False shift_in_room [OF assms, of v] assms(1)
    by (simp add: insert_not_full_cases [OF assms] dom_map_of_entries map_of_ins_entry unat_ins_pos
        isfull_iff)
qed

theorem leaf_insert_correct_witness:
  "\<exists>l'. insert_not_full example_leaf 5 50 = Inr (l', 1) \<and> entries l' = [(3, 30), (5, 50), (7, 70)]"
proof -
  have "ins_pos example_leaf 5 = 1" "\<not> isfull example_leaf" "length (live example_leaf) = 2"
    by code_simp+
  then show ?thesis
    using leaf_insert_correct [OF example_leaf_facts(1), where k = 5 and v = 50]
    by (auto simp: insert_not_full_cases [OF example_leaf_facts(1)] example_leaf_facts invalidKey_def)
qed

text \<open>C3: \<open>remove\<close> deletes the key and nothing else, closes the gap and says whether the key
  was there; \<open>update\<close> replaces the value of a present key and nothing else.\<close>

theorem leaf_remove_update_correct:
  assumes "leaf_inv l" "k \<noteq> invalidKey"
  shows "(\<exists>l'. leaf_remove l k = Inr (l', k \<in> dom (map_of (entries l))) \<and> leaf_inv l'
            \<and> entries l' = del_entry k (entries l) \<and> map_of (entries l') = (map_of (entries l))(k := None))
       \<and> (\<exists>l'. leaf_update l k v = (l', k \<in> dom (map_of (entries l))) \<and> leaf_inv l' \<and> keys l' = keys l
            \<and> map_of (entries l')
                = (if k \<in> dom (map_of (entries l)) then (map_of (entries l))(k \<mapsto> v) else map_of (entries l)))"
proof
  show "\<exists>l'. leaf_remove l k = Inr (l', k \<in> dom (map_of (entries l))) \<and> leaf_inv l'
            \<and> entries l' = del_entry k (entries l) \<and> map_of (entries l') = (map_of (entries l))(k := None)"
  proof (cases "k \<in> fst ` set (entries l)")
    case True
    obtain l' where "leaf_remove l k = Inr (l', True)" "leaf_inv l'" "entries l' = del_entry k (entries l)"
      by (rule remove_present [OF assms(1) True])
    with True show ?thesis by (simp add: dom_map_of_entries map_of_del_entry)
  next
    case False
    then show ?thesis
      using remove_absent [OF assms] assms(1) map_of_del_entry [of k "entries l"]
      by (simp add: dom_map_of_entries del_entry_idle)
  qed
  show "\<exists>l'. leaf_update l k v = (l', k \<in> dom (map_of (entries l))) \<and> leaf_inv l' \<and> keys l' = keys l
            \<and> map_of (entries l')
                = (if k \<in> dom (map_of (entries l)) then (map_of (entries l))(k \<mapsto> v) else map_of (entries l))"
  proof -
    obtain l' b where u: "leaf_update l k v = (l', b)" by fastforce
    have "b \<longleftrightarrow> k \<in> fst ` set (entries l)" "leaf_inv l'" "keys l' = keys l"
      "entries l' = upd_entry k v (entries l)"
      using update_entries [OF assms, of v] by (simp_all add: u)
    then show ?thesis by (simp add: u dom_map_of_entries map_of_upd_entry)
  qed
qed

theorem leaf_remove_update_correct_witness:
  "(\<exists>l'. leaf_remove example_leaf 3 = Inr (l', True) \<and> entries l' = [(7, 70)])
     \<and> snd (leaf_update example_leaf 3 9)"
  using leaf_remove_update_correct [OF example_leaf_facts(1), where k = 3 and v = 9]
  by (auto simp: example_leaf_facts del_entry_def invalidKey_def)

text \<open>\<open>range\<close> appends, in key order, the values of the live keys from \<open>key\<close> on until the
  result has \<open>n\<close> elements (a negative \<open>n\<close> is no bound at all, as the code compares it as a
  \<open>size_t\<close>).\<close>

lemma leaf_range_correct:
  assumes "leaf_inv l"
  shows "leaf_range l key n r = r @ take (vec_limit n - length r) (from_key key (entries l))"
  by (rule range_entries [OF assms])

lemma leaf_range_correct_witness: "leaf_range example_leaf 4 10 [1] = [1, 70]"
proof -
  have "vec_limit 10 = 10" using vec_limit_of_nat [of 10] by simp
  then show ?thesis
    using leaf_range_correct [OF example_leaf_facts(1), of 4 10 "[1]"]
    by (simp add: example_leaf_facts from_key_def)
qed

text \<open>\<open>insert_to_remote\<close> always returns, keeps the leaf well-formed and answers 0 with the
  key's position when it is there, 3 when a full leaf has only smaller keys, 1 after a
  sorted insertion into a leaf with room, and 2 after a sorted insertion into a full leaf,
  which drops the largest pair: no answer carries it, so it is lost.\<close>

lemma insert_to_remote_correct:
  assumes "leaf_inv l" "k \<noteq> invalidKey"
  shows "\<exists>l' st p. insert_to_remote l k v = Inr (l', st, p) \<and> leaf_inv l' \<and>
    (if k \<in> dom (map_of (entries l)) then l' = l \<and> st = 0 \<and> fst (entries l ! unat p) = k
     else if \<not> isfull l then st = 1 \<and> entries l' = ins_entry k v (entries l)
     else if \<forall>e \<in> set (entries l). fst e < k then l' = l \<and> st = 3
     else st = 2 \<and> entries l' = butlast (ins_entry k v (entries l))
          \<and> last (ins_entry k v (entries l)) = last (entries l) \<and> map_of (entries l') (fst (last (entries l))) = None)"
proof -
  note b = leaf_inv_bounds [OF assms(1)] and full = isfull_iff [OF assms(1)]
    and srt = al_sorted_entries [OF assms(1)]
  have pos: "ins_pos l k = max_slot l \<longleftrightarrow> (\<forall>e \<in> set (entries l). fst e < k)" if "isfull l"
  proof -
    have "ins_pos l k = length (entries l) \<longleftrightarrow> takeWhile (\<lambda>e. fst e < k) (entries l) = entries l"
      unfolding ins_pos_def by (metis takeWhile_eq_take take_all_iff order_refl)
    then show ?thesis
      using that full length_entries [OF assms(1)] by (simp add: takeWhile_eq_all_conv)
  qed
  show ?thesis
  proof (cases "k \<in> fst ` set (entries l)")
    case True
    then have "ins_pos l k < length (live l)" "live l ! ins_pos l k = k"
      using nth_ins_pos [OF assms] keys_nth_free [OF assms(1), of "ins_pos l k"]
        keys_nth_live [OF assms(1), of "ins_pos l k"] assms(2)
      by (metis not_less)+
    then have "fst (entries l ! ins_pos l k) = k"
      using map_fst_entries [OF assms(1)] length_entries [OF assms(1)] by (metis nth_map)
    with True show ?thesis
      using assms by (simp add: insert_to_remote_cases unat_ins_pos dom_map_of_entries)
  next
    case False
    show ?thesis
    proof (cases "isfull l \<and> ins_pos l k < max_slot l")
      case True
      with full have len: "length (live l) = max_slot l" by simp
      let ?es = "ins_entry k v (entries l)"
      have ne: "drop (ins_pos l k) (entries l) \<noteq> []" "entries l \<noteq> []"
        using True len length_entries [OF assms(1)] by auto
      then have last: "last ?es = last (entries l)"
        by (simp add: ins_entry_take_drop)
      have "al_sorted (butlast ?es @ [last ?es])"
        using al_sorted_ins_entry [OF srt False, of v] by simp
      then have "fst (last ?es) \<notin> fst ` set (butlast ?es)"
        unfolding al_sorted_append by fastforce
      then have "map_of (butlast ?es) (fst (last (entries l))) = None"
        by (simp add: map_of_eq_None_iff last)
      then show ?thesis
        using True False last pos shift_in_full [OF assms(1,2) False len, of v]
        by (auto simp: insert_to_remote_cases [OF assms] dom_map_of_entries)
    next
      case nfull: False
      then show ?thesis
        using False pos full b ins_pos_le [OF assms(1), of k] shift_in_room [OF assms(1,2) False, of v] assms(1)
        by (cases "isfull l") (auto simp: insert_to_remote_cases [OF assms] dom_map_of_entries)
    qed
  qed
qed

definition full_leaf :: leaf where
  "full_leaf = \<lparr>keys = [3, 7], vals = [30, 70]\<rparr>"

lemma insert_to_remote_correct_witness:
  "\<exists>l'. insert_to_remote full_leaf 5 50 = Inr (l', 2, 0) \<and> entries l' = [(3, 30), (5, 50)]"
proof -
  have "leaf_inv full_leaf" "entries full_leaf = [(3, 30), (7, 70)]" "isfull full_leaf"
    "max_slot full_leaf = 2" "ins_pos full_leaf 5 = 1"
    by code_simp+
  then show ?thesis
    using insert_to_remote_correct [of full_leaf 5 50] insert_to_remote_cases [of full_leaf 5 50]
    by (auto simp: invalidKey_def)
qed

text \<open>The largest key is the mark of a free slot, and no operation refuses it: \<open>contain\<close>
  finds it in every leaf with a free slot and in no full one, so a
  search for it answers with whatever value the free slot holds.\<close>

lemma leaf_marker_key:
  assumes "leaf_inv l"
  shows "(leaf_contain l invalidKey \<longleftrightarrow> \<not> isfull l) \<and> (leaf_search l invalidKey = None \<longleftrightarrow> isfull l)"
  using contain_invalidKey [OF assms] by (auto simp: leaf_search_def leaf_contain_def split: option.splits)

lemma leaf_marker_key_witness: "leaf_contain example_leaf invalidKey"
proof -
  have "\<not> isfull example_leaf" by code_simp
  then show ?thesis using leaf_marker_key [OF example_leaf_facts(1)] by simp
qed

end
