(* ===== verification/Spin_Lock.thy ===== *)
theory Spin_Lock
  imports Rolex_Prelude
begin

text \<open>
  The spin lock of \<^verbatim>\<open>xutils/spin_lock.hh\<close>. First the operations as one thread sees them: a
  lock that is held by nobody else is taken at once, a thread that spins on a lock nobody
  will release never returns (\<open>Diverges\<close>). Then the lock under concurrency: a step relation
  over any number of threads that call \<open>lock\<close> and \<open>unlock\<close>, beside threads that use the
  non-atomic \<open>lock_leaf\<close>/\<open>unlock_leaf\<close> of \<^verbatim>\<open>rolex/leaf_table.hpp\<close>.
\<close>

section \<open>Operations\<close>

text \<open>\<open>xchg16\<close> swaps the lock word with a value and returns the old one.\<close>

definition xchg16 :: "u16 \<Rightarrow> u16 \<Rightarrow> u16 \<times> u16" where
  "xchg16 l val = (l, val)"

definition spin_lock :: "u16 \<Rightarrow> u16 res" where
  "spin_lock l = (case xchg16 l 1 of (old, l') \<Rightarrow> if old = 0 then Inr l' else Inl Diverges)"

definition spin_unlock :: "u16 \<Rightarrow> u16" where
  "spin_unlock l = 0"

definition try_lock :: "u16 \<Rightarrow> u16 \<times> u16" where
  "try_lock l = xchg16 l 1"

definition is_locked :: "u16 \<Rightarrow> u16" where
  "is_locked l = l"

lemma spin_lock_simps [simp]:
  "spin_lock 0 = Inr 1" "l \<noteq> 0 \<Longrightarrow> spin_lock l = Inl Diverges" "spin_unlock l = 0"
  by (simp_all add: spin_lock_def xchg16_def spin_unlock_def)

lemma spin_lock_Inr_iff [res_iff]: "spin_lock l = Inr l' \<longleftrightarrow> l = 0 \<and> l' = 1"
  by (auto simp: spin_lock_def xchg16_def)

section \<open>Threads\<close>

text \<open>
  The program points of a thread. \<open>Xchg\<close>: about to execute \<open>xchg16\<close>; \<open>Spin\<close>: in the inner
  \<open>while (lock_)\<close> loop; \<open>Test\<close> and \<open>Store\<close>: \<open>lock_leaf\<close> before its \<open>while\<close> test and between
  the test and the assignment; \<open>Crit\<close>: after \<open>lock\<close> returned; \<open>Out\<close>: outside.
\<close>

datatype pc = Out | Xchg | Spin | Test | Store | Crit

text \<open>Which of the two locks of a table entry a thread uses: the spin lock of \<open>csLocks\<close>
  (\<open>insert_synonym\<close>) or the lock bit (\<open>update_synonym\<close>, \<open>remove_synonym\<close>).\<close>

datatype locker = CsLock | LockBit

record lock_state =
  word_of :: u16
  lock_bit :: "1 word"
  pcs :: "nat \<Rightarrow> pc"

definition lock_init :: lock_state where
  "lock_init = \<lparr>word_of = 0, lock_bit = 0, pcs = (\<lambda>_. Out)\<rparr>"

definition goto :: "nat \<Rightarrow> pc \<Rightarrow> lock_state \<Rightarrow> lock_state" where
  "goto t p s = s\<lparr>pcs := (pcs s)(t := p)\<rparr>"

text \<open>\<open>cs_step t\<close>: one step of thread \<open>t\<close> in \<open>SpinLock::lock\<close> or \<open>unlock\<close>.\<close>

inductive cs_step :: "nat \<Rightarrow> lock_state \<Rightarrow> lock_state \<Rightarrow> bool" for t where
  enter_cs: "pcs s t = Out \<Longrightarrow> cs_step t s (goto t Xchg s)"
| xchg_free: "pcs s t = Xchg \<Longrightarrow> xchg16 (word_of s) 1 = (0, w) \<Longrightarrow>
    cs_step t s (goto t Crit (s\<lparr>word_of := w\<rparr>))"
| xchg_busy: "pcs s t = Xchg \<Longrightarrow> xchg16 (word_of s) 1 = (old, w) \<Longrightarrow> old \<noteq> 0 \<Longrightarrow>
    cs_step t s (goto t Spin (s\<lparr>word_of := w\<rparr>))"
| spin_busy: "pcs s t = Spin \<Longrightarrow> is_locked (word_of s) \<noteq> 0 \<Longrightarrow> cs_step t s s"
| spin_free: "pcs s t = Spin \<Longrightarrow> is_locked (word_of s) = 0 \<Longrightarrow> cs_step t s (goto t Xchg s)"
| leave_cs: "pcs s t = Crit \<Longrightarrow> cs_step t s (goto t Out (s\<lparr>word_of := spin_unlock (word_of s)\<rparr>))"

text \<open>\<open>bit_step t\<close>: one step of thread \<open>t\<close> in \<open>LeafTable::lock_leaf\<close> or \<open>unlock_leaf\<close>.\<close>

inductive bit_step :: "nat \<Rightarrow> lock_state \<Rightarrow> lock_state \<Rightarrow> bool" for t where
  enter_bit: "pcs s t = Out \<Longrightarrow> bit_step t s (goto t Test s)"
| test_busy: "pcs s t = Test \<Longrightarrow> lock_bit s \<noteq> 0 \<Longrightarrow> bit_step t s s"
| test_free: "pcs s t = Test \<Longrightarrow> lock_bit s = 0 \<Longrightarrow> bit_step t s (goto t Store s)"
| store_bit: "pcs s t = Store \<Longrightarrow> bit_step t s (goto t Crit (s\<lparr>lock_bit := 1\<rparr>))"
| leave_bit: "pcs s t = Crit \<Longrightarrow> bit_step t s (goto t Out (s\<lparr>lock_bit := 0\<rparr>))"

text \<open>The interleavings: some thread makes a step of the lock it uses.\<close>

inductive lock_step :: "(nat \<Rightarrow> locker) \<Rightarrow> lock_state \<Rightarrow> lock_state \<Rightarrow> bool" for kind where
  by_cs: "kind t = CsLock \<Longrightarrow> cs_step t s s' \<Longrightarrow> lock_step kind s s'"
| by_bit: "kind t = LockBit \<Longrightarrow> bit_step t s s' \<Longrightarrow> lock_step kind s s'"

abbreviation lock_reachable :: "(nat \<Rightarrow> locker) \<Rightarrow> lock_state \<Rightarrow> bool" where
  "lock_reachable kind s \<equiv> (lock_step kind)\<^sup>*\<^sup>* lock_init s"

inductive_simps cs_step_iff: "cs_step t s s'"

lemma goto_simps [simp]:
  "word_of (goto t p s) = word_of s" "lock_bit (goto t p s) = lock_bit s"
  "pcs (goto t p s) = (pcs s)(t := p)"
  by (simp_all add: goto_def)

section \<open>Mutual exclusion of the spin lock\<close>

definition cs_inv :: "(nat \<Rightarrow> locker) \<Rightarrow> lock_state \<Rightarrow> bool" where
  "cs_inv kind s \<longleftrightarrow>
     (\<forall>t. kind t = CsLock \<longrightarrow> pcs s t \<in> {Out, Xchg, Spin, Crit})
   \<and> (\<forall>t. kind t = LockBit \<longrightarrow> pcs s t \<in> {Out, Test, Store, Crit})
   \<and> (word_of s = 0 \<longleftrightarrow> (\<forall>t. kind t = CsLock \<longrightarrow> pcs s t \<noteq> Crit))
   \<and> (\<forall>t u. kind t = CsLock \<and> kind u = CsLock \<and> pcs s t = Crit \<and> pcs s u = Crit \<longrightarrow> t = u)"

lemma kind_cases: "(kind :: nat \<Rightarrow> locker) t = CsLock \<or> kind t = LockBit"
  by (cases "kind t") auto

lemma cs_inv_init: "cs_inv kind lock_init"
  by (simp add: cs_inv_def lock_init_def)

text \<open>A step outside the critical section changes nothing the invariant looks at.\<close>

lemma cs_inv_outside:
  assumes "cs_inv kind s" "pcs s t \<noteq> Crit" "q \<noteq> Crit"
    "q \<in> (case kind t of CsLock \<Rightarrow> {Out, Xchg, Spin} | LockBit \<Rightarrow> {Out, Test, Store})"
  shows "cs_inv kind (goto t q s)"
proof -
  have crit: "pcs (goto t q s) u = Crit \<longleftrightarrow> pcs s u = Crit" for u using assms(2,3) by auto
  have "pcs (goto t q s) u \<in> (case kind u of CsLock \<Rightarrow> {Out, Xchg, Spin, Crit}
      | LockBit \<Rightarrow> {Out, Test, Store, Crit})" for u
    using assms(1,4) by (cases "kind u") (auto simp: cs_inv_def)
  then show ?thesis using assms(1) unfolding cs_inv_def crit goto_simps(1)
    by (metis locker.simps(3,4))
qed

lemma cs_inv_word: "cs_inv kind s \<Longrightarrow> word_of s \<noteq> 0 \<Longrightarrow> w \<noteq> 0 \<Longrightarrow> cs_inv kind (s\<lparr>word_of := w\<rparr>)"
  by (simp add: cs_inv_def)

lemma cs_inv_bit_thread:
  assumes "cs_inv kind s" "kind t = LockBit" "q \<in> {Out, Test, Store, Crit}"
  shows "cs_inv kind (goto t q (s\<lparr>lock_bit := b\<rparr>))"
proof -
  have "kind u = CsLock \<Longrightarrow> pcs (goto t q (s\<lparr>lock_bit := b\<rparr>)) u = pcs s u" for u
    using assms(2) by auto
  moreover have "kind u = LockBit \<longrightarrow> pcs (goto t q (s\<lparr>lock_bit := b\<rparr>)) u \<in> {Out, Test, Store, Crit}" for u
    using assms(1,3) by (auto simp: cs_inv_def)
  ultimately show ?thesis using assms(1,2) unfolding cs_inv_def by simp
qed

lemma cs_inv_kind:
  "cs_inv kind s \<Longrightarrow> pcs s t \<in> {Xchg, Spin} \<Longrightarrow> kind t = CsLock"
  "cs_inv kind s \<Longrightarrow> pcs s t \<in> {Test, Store} \<Longrightarrow> kind t = LockBit"
  using kind_cases [of kind t] by (auto simp: cs_inv_def)

lemma cs_inv_cs_step: "cs_step t s s' \<Longrightarrow> kind t = CsLock \<Longrightarrow> cs_inv kind s \<Longrightarrow> cs_inv kind s'"
proof (induction rule: cs_step.induct)
  case (enter_cs s)
  then show ?case by (intro cs_inv_outside) auto
next
  case (xchg_free s w)
  then have "word_of s = 0" "w = 1" by (auto simp: xchg16_def)
  with xchg_free show ?case by (auto simp: cs_inv_def)
next
  case (xchg_busy s old w)
  then show ?case by (intro cs_inv_outside cs_inv_word) (auto simp: xchg16_def)
next
  case (spin_free s)
  then show ?case by (intro cs_inv_outside) auto
next
  case (leave_cs s)
  then show ?case by (auto simp: cs_inv_def)
qed

lemma cs_inv_bit_step: "bit_step t s s' \<Longrightarrow> kind t = LockBit \<Longrightarrow> cs_inv kind s \<Longrightarrow> cs_inv kind s'"
proof (induction rule: bit_step.induct)
  case (enter_bit s)
  then show ?case by (intro cs_inv_outside) auto
next
  case (test_free s)
  then show ?case by (intro cs_inv_outside) auto
next
  case (store_bit s)
  then show ?case by (intro cs_inv_bit_thread) auto
next
  case (leave_bit s)
  then show ?case by (intro cs_inv_bit_thread) auto
qed

lemma cs_inv_step: "lock_step kind s s' \<Longrightarrow> cs_inv kind s \<Longrightarrow> cs_inv kind s'"
  by (induction rule: lock_step.induct) (auto intro: cs_inv_cs_step cs_inv_bit_step)

lemma cs_inv_reachable: "lock_reachable kind s \<Longrightarrow> cs_inv kind s"
  by (induction rule: rtranclp_induct) (auto intro: cs_inv_init cs_inv_step)

text \<open>C4: under any interleaving, two threads are never both between \<open>lock\<close> and
  \<open>unlock\<close> of the spin lock, and the lock word is 0 exactly when no thread is there. Then a
  thread about to execute its \<open>xchg16\<close> takes the lock with that one step, and a thread in the
  \<open>while (lock_)\<close> loop leaves it with its next test, goes back to the \<open>xchg16\<close> and takes the
  lock with it, if no other thread has taken it in between. While the lock is held, the only
  step of a thread in the loop is to test again.\<close>

theorem spin_lock_mutual_exclusion:
  assumes "lock_reachable kind s" "kind t = CsLock" "kind u = CsLock"
  shows "(pcs s t = Crit \<and> pcs s u = Crit \<longrightarrow> t = u)
       \<and> (word_of s = 0 \<longleftrightarrow> (\<forall>v. kind v = CsLock \<longrightarrow> pcs s v \<noteq> Crit))
       \<and> (pcs s t = Xchg \<and> (\<forall>v. kind v = CsLock \<longrightarrow> pcs s v \<noteq> Crit) \<longrightarrow>
            lock_step kind s (goto t Crit (s\<lparr>word_of := 1\<rparr>)))
       \<and> (pcs s t = Spin \<and> (\<forall>v. kind v = CsLock \<longrightarrow> pcs s v \<noteq> Crit) \<longrightarrow>
            (\<forall>s'. cs_step t s s' \<longleftrightarrow> s' = goto t Xchg s)
          \<and> (\<forall>s'. cs_step t (goto t Xchg s) s' \<longleftrightarrow> s' = goto t Crit ((goto t Xchg s)\<lparr>word_of := 1\<rparr>)))
       \<and> (pcs s t = Spin \<and> (\<exists>v. kind v = CsLock \<and> pcs s v = Crit) \<longrightarrow>
            (\<forall>s'. cs_step t s s' \<longleftrightarrow> s' = s))"
proof -
  have inv: "cs_inv kind s" using assms(1) by (rule cs_inv_reachable)
  then have free: "word_of s = 0 \<longleftrightarrow> (\<forall>v. kind v = CsLock \<longrightarrow> pcs s v \<noteq> Crit)"
    by (simp add: cs_inv_def)
  have "lock_step kind s (goto t Crit (s\<lparr>word_of := 1\<rparr>))" if "pcs s t = Xchg" "word_of s = 0"
  proof -
    have "cs_step t s (goto t Crit (s\<lparr>word_of := 1\<rparr>))"
      using xchg_free [of s t 1] that by (simp add: xchg16_def)
    then show ?thesis by (rule by_cs [of kind t, OF assms(2)])
  qed
  moreover have "cs_step t s s' \<longleftrightarrow> s' = goto t Xchg s" if "pcs s t = Spin" "word_of s = 0" for s'
    using that by (auto simp: cs_step_iff is_locked_def)
  moreover have "cs_step t (goto t Xchg s) s' \<longleftrightarrow> s' = goto t Crit ((goto t Xchg s)\<lparr>word_of := 1\<rparr>)"
    if "word_of s = 0" for s'
    using that by (auto simp: cs_step_iff xchg16_def)
  moreover have "cs_step t s s' \<longleftrightarrow> s' = s" if "pcs s t = Spin" "word_of s \<noteq> 0" for s'
    using that by (auto simp: cs_step_iff is_locked_def)
  moreover have "pcs s t = Crit \<and> pcs s u = Crit \<longrightarrow> t = u"
    using inv assms(2,3) unfolding cs_inv_def by blast
  ultimately show ?thesis using free by blast
qed

lemma reach_step: "lock_reachable kind s \<Longrightarrow> lock_step kind s s' \<Longrightarrow> lock_reachable kind s'"
  by (rule rtranclp.rtrancl_into_rtrancl)

definition cs_run :: lock_state where
  "cs_run = goto 0 Crit ((goto 1 Xchg (goto 0 Xchg lock_init))\<lparr>word_of := 1\<rparr>)"

lemma cs_run_reachable: "lock_reachable (\<lambda>_. CsLock) cs_run"
proof -
  have "lock_reachable (\<lambda>_. CsLock) (goto 0 Xchg lock_init)"
    by (rule reach_step [OF rtranclp.rtrancl_refl]) (rule by_cs [OF _ enter_cs]; simp add: lock_init_def)
  then have "lock_reachable (\<lambda>_. CsLock) (goto 1 Xchg (goto 0 Xchg lock_init))"
    by (rule reach_step) (rule by_cs [OF _ enter_cs]; simp add: lock_init_def)
  then show ?thesis unfolding cs_run_def
    by (rule reach_step) (rule by_cs [OF _ xchg_free]; simp add: lock_init_def xchg16_def)
qed

theorem spin_lock_mutual_exclusion_witness:
  "pcs cs_run 0 = Crit \<and> pcs cs_run 1 \<noteq> Crit"
  using spin_lock_mutual_exclusion [OF cs_run_reachable, of 0 1]
  by (simp add: cs_run_def lock_init_def)

section \<open>The lock bit of a table entry\<close>

text \<open>C5: the lock bit gives no exclusion: two updating threads can both be inside, since
  the test of the bit and its assignment are two steps, and an inserting thread, which holds
  the spin lock instead, can be inside together with an updating one.\<close>

theorem lock_leaf_no_exclusion:
  "\<exists>s. lock_reachable (\<lambda>t. if t = 2 then CsLock else LockBit) s
     \<and> pcs s 0 = Crit \<and> pcs s 1 = Crit \<and> pcs s 2 = Crit"
proof -
  let ?k = "\<lambda>t :: nat. if t = 2 then CsLock else LockBit"
  let ?s1 = "goto 1 Test (goto 0 Test lock_init)"
  let ?s2 = "goto 1 Store (goto 0 Store ?s1)"
  let ?s3 = "goto 0 Crit (?s2\<lparr>lock_bit := 1\<rparr>)"
  let ?s4 = "goto 1 Crit (?s3\<lparr>lock_bit := 1\<rparr>)"
  let ?s5 = "goto 2 Crit ((goto 2 Xchg ?s4)\<lparr>word_of := 1\<rparr>)"
  have "lock_reachable ?k (goto 0 Test lock_init)"
    by (rule reach_step [OF rtranclp.rtrancl_refl]) (rule by_bit [OF _ enter_bit]; simp add: lock_init_def)
  then have "lock_reachable ?k ?s1"
    by (rule reach_step) (rule by_bit [OF _ enter_bit]; simp add: lock_init_def)
  then have "lock_reachable ?k (goto 0 Store ?s1)"
    by (rule reach_step) (rule by_bit [OF _ test_free]; simp add: lock_init_def)
  then have "lock_reachable ?k ?s2"
    by (rule reach_step) (rule by_bit [OF _ test_free]; simp add: lock_init_def)
  then have "lock_reachable ?k ?s3"
    by (rule reach_step) (rule by_bit [OF _ store_bit]; simp add: lock_init_def)
  then have "lock_reachable ?k ?s4"
    by (rule reach_step) (rule by_bit [OF _ store_bit]; simp add: lock_init_def)
  then have "lock_reachable ?k (goto 2 Xchg ?s4)"
    by (rule reach_step) (rule by_cs [OF _ enter_cs]; simp add: lock_init_def)
  then have "lock_reachable ?k ?s5"
    by (rule reach_step) (rule by_cs [OF _ xchg_free]; simp add: lock_init_def xchg16_def)
  then show ?thesis by (rule exI [of _ ?s5, OF conjI]) simp
qed

end
