(* ===== verification/Leaf_Alloc.thy ===== *)
theory Leaf_Alloc
  imports Leaf Spin_Lock
begin

text \<open>
  The leaf pool, \<^verbatim>\<open>rolex/leaf_allocator.hpp\<close>: a registered region whose first two words
  hold the number of used and of preallocated leaves, followed by slots of \<open>S\<close> bytes. The
  region is a typed heap from byte offsets to leaves; reading a leaf where there is none is
  undefined behaviour. The memory before construction is an argument, \<open>raw\<close>.

  The lemmas show that the constructors preallocate exactly the leaves that fit (or throw),
  that slots do not overlap, and that \<open>fetch_new_leaf\<close> hands out every leaf once, empty.
\<close>

section \<open>State and operations\<close>

record leaf_pool =
  pool_lock :: u16
  total_sz :: u64
  cur_alloc_sz :: u64
  cur_alloc_num :: usize
  slot_sz :: usize
  used_hdr :: u64
  alloc_hdr :: u64
  heap :: "u64 \<Rightarrow> leaf option"

text \<open>Access through a \<open>leaf_t*\<close>.\<close>

definition load :: "leaf_pool \<Rightarrow> u64 \<Rightarrow> leaf res" where
  "load p ptr = (case heap p ptr of None \<Rightarrow> Inl UB | Some l \<Rightarrow> Inr l)"

definition store :: "leaf_pool \<Rightarrow> u64 \<Rightarrow> leaf \<Rightarrow> leaf_pool" where
  "store p ptr l = p\<lparr>heap := (heap p)(ptr \<mapsto> l)\<rparr>"

definition used_num :: "leaf_pool \<Rightarrow> u64" where
  "used_num p = used_hdr p"

definition allocated_num :: "leaf_pool \<Rightarrow> u64" where
  "allocated_num p = alloc_hdr p"

definition slot_off :: "leaf_pool \<Rightarrow> u64 \<Rightarrow> u64" where
  "slot_off p num = 2 * 8 + num * ucast (slot_sz p)"

definition get_leaf :: "leaf_pool \<Rightarrow> u64 \<Rightarrow> u64 res" where
  "get_leaf p num = rassert (num \<le> used_num p) (Inr (slot_off p num))"

definition fetch_and_add :: "leaf_pool \<Rightarrow> (leaf_pool \<times> u64) res" where
  "fetch_and_add p =
     rbind (spin_lock (pool_lock p)) (\<lambda>lk.
       let res = used_hdr p; res_add = res + 1; p' = p\<lparr>used_hdr := res_add\<rparr> in
       rassert (res_add = used_hdr p') (Inr (p'\<lparr>pool_lock := spin_unlock lk\<rparr>, res)))"

definition fetch_new_leaf :: "leaf_pool \<Rightarrow> (leaf_pool \<times> u64 \<times> u64) res" where
  "fetch_new_leaf p =
     rbind (fetch_and_add p) (\<lambda>(p', num).
       rassert (num < allocated_num p') (Inr (p', slot_off p' num, num)))"

definition alloc :: "leaf_pool \<Rightarrow> (leaf_pool \<times> u64 option) res" where
  "alloc p =
     rbind (spin_lock (pool_lock p)) (\<lambda>lk.
       if cur_alloc_sz p + ucast (slot_sz p) \<le> total_sz p
       then Inr (p\<lparr>cur_alloc_sz := cur_alloc_sz p + ucast (slot_sz p),
                   cur_alloc_num := cur_alloc_num p + 1, pool_lock := spin_unlock lk\<rparr>,
                 Some (cur_alloc_sz p))
       else Inr (p\<lparr>pool_lock := spin_unlock lk\<rparr>, None))"

text \<open>The loop has an \<open>int\<close> index: counting beyond \<open>2 ^ 31 - 1\<close> is signed overflow.\<close>

fun prealloc_loop :: "nat \<Rightarrow> nat \<Rightarrow> (u64 \<Rightarrow> leaf) \<Rightarrow> leaf_pool \<Rightarrow> leaf_pool res" where
  "prealloc_loop 0 i raw p = Inr p"
| "prealloc_loop (Suc n) i raw p =
     rbind (alloc p) (\<lambda>(p', r).
       rbind (opt_value r) (\<lambda>ptr.
         if i + 1 \<ge> 2 ^ 31 then Inl UB
         else prealloc_loop n (i + 1) raw (store p' ptr (leaf_ctor (raw ptr)))))"

text \<open>The two header words are written without a check that the region has room for them.\<close>

definition prealloc_leaves :: "u64 \<Rightarrow> (u64 \<Rightarrow> leaf) \<Rightarrow> leaf_pool \<Rightarrow> leaf_pool res" where
  "prealloc_leaves leaf_num raw p =
     rassert (cur_alloc_sz p = 0)
       (if total_sz p < 16 then Inl UB
        else prealloc_loop (unat leaf_num) 0 raw
               (p\<lparr>used_hdr := 0, alloc_hdr := leaf_num, cur_alloc_sz := 16\<rparr>))"

definition pool_init :: "u64 \<Rightarrow> usize \<Rightarrow> leaf_pool" where
  "pool_init t S = \<lparr>pool_lock = 0, total_sz = t, cur_alloc_sz = 0, cur_alloc_num = 0, slot_sz = S,
                    used_hdr = 0, alloc_hdr = 0, heap = (\<lambda>_. None)\<rparr>"

definition LeafAllocator :: "u64 \<Rightarrow> usize \<Rightarrow> (u64 \<Rightarrow> leaf) \<Rightarrow> leaf_pool res" where
  "LeafAllocator t S raw = prealloc_leaves ((t - 8) div ucast S) raw (pool_init t S)"

definition LeafAllocator_num :: "u64 \<Rightarrow> usize \<Rightarrow> u64 \<Rightarrow> (u64 \<Rightarrow> leaf) \<Rightarrow> leaf_pool res" where
  "LeafAllocator_num t S leaf_num raw =
     rassert (leaf_num < (t - 8) div ucast S) (prealloc_leaves leaf_num raw (pool_init t S))"

section \<open>Invariant\<close>

text \<open>Every preallocated slot lies in the region and holds a leaf of \<open>N\<close> slots, and the leaves
  not handed out yet are empty.\<close>

definition pool_inv :: "nat \<Rightarrow> leaf_pool \<Rightarrow> bool" where
  "pool_inv N p \<longleftrightarrow> pool_lock p = 0 \<and> slot_sz p \<noteq> 0 \<and> used_hdr p \<le> alloc_hdr p
     \<and> 16 + unat (alloc_hdr p) * unat (slot_sz p) < 2 ^ 64
     \<and> (\<forall>i < unat (alloc_hdr p). case heap p (slot_off p (of_nat i)) of None \<Rightarrow> False
          | Some l \<Rightarrow> leaf_inv l \<and> max_slot l = N \<and> (unat (used_hdr p) \<le> i \<longrightarrow> entries l = []))"

definition leaf_of :: "leaf_pool \<Rightarrow> u64 \<Rightarrow> leaf" where
  "leaf_of p num = the (heap p (slot_off p num))"

lemma pool_inv_leaf:
  assumes "pool_inv N p" "num < alloc_hdr p"
  shows "heap p (slot_off p num) = Some (leaf_of p num)" "leaf_inv (leaf_of p num)"
    "max_slot (leaf_of p num) = N" "used_hdr p \<le> num \<Longrightarrow> entries (leaf_of p num) = []"
proof -
  have "unat num < unat (alloc_hdr p)" using assms(2) by (simp add: word_less_nat_alt)
  then have "case heap p (slot_off p num) of None \<Rightarrow> False
          | Some l \<Rightarrow> leaf_inv l \<and> max_slot l = N \<and> (unat (used_hdr p) \<le> unat num \<longrightarrow> entries l = [])"
    using assms(1) by (fastforce simp: pool_inv_def dest!: spec [of _ "unat num"])
  then show "heap p (slot_off p num) = Some (leaf_of p num)" "leaf_inv (leaf_of p num)"
    "max_slot (leaf_of p num) = N" "used_hdr p \<le> num \<Longrightarrow> entries (leaf_of p num) = []"
    by (auto simp: leaf_of_def word_le_nat_alt split: option.splits)
qed

lemma unat_slot_off:
  assumes "pool_inv N p" "num < alloc_hdr p"
  shows "unat (slot_off p num) = 16 + unat num * unat (slot_sz p)"
proof -
  have "unat num * unat (slot_sz p) \<le> unat (alloc_hdr p) * unat (slot_sz p)"
    using assms(2) by (intro mult_le_mono1) (simp add: word_less_nat_alt)
  moreover have "16 + unat (alloc_hdr p) * unat (slot_sz p) < 2 ^ 64" using assms(1) by (simp add: pool_inv_def)
  ultimately have "16 + unat num * unat (slot_sz p) < 2 ^ 64" by linarith
  then show ?thesis
    by (simp add: slot_off_def unat_word_ariths)
qed

lemma slot_off_inj:
  assumes "pool_inv N p" "a < alloc_hdr p" "b < alloc_hdr p" "slot_off p a = slot_off p b"
  shows "a = b"
proof -
  have "unat a * unat (slot_sz p) = unat b * unat (slot_sz p)"
    using unat_slot_off [OF assms(1,2)] unat_slot_off [OF assms(1,3)] assms(4) by auto
  moreover have "unat (slot_sz p) \<noteq> 0" using assms(1) by (simp add: pool_inv_def unat_eq_0)
  ultimately show ?thesis by (auto simp: word_unat_eq_iff)
qed

lemma load_leaf: "pool_inv N p \<Longrightarrow> num < alloc_hdr p \<Longrightarrow> load p (slot_off p num) = Inr (leaf_of p num)"
  by (simp add: load_def pool_inv_leaf(1))

lemma store_simps [simp]:
  "used_hdr (store p a l) = used_hdr p" "alloc_hdr (store p a l) = alloc_hdr p"
  "slot_sz (store p a l) = slot_sz p" "slot_off (store p a l) = slot_off p"
  "pool_lock (store p a l) = pool_lock p" "total_sz (store p a l) = total_sz p"
  by (simp_all add: store_def slot_off_def fun_eq_iff)

lemma leaf_of_store_same [simp]: "leaf_of (store p (slot_off p num) l) num = l"
  by (simp add: leaf_of_def store_def slot_off_def)

lemma leaf_of_store_other:
  assumes "pool_inv N p" "a < alloc_hdr p" "b < alloc_hdr p" "a \<noteq> b"
  shows "leaf_of (store p (slot_off p a) l) b = leaf_of p b"
  using slot_off_inj [OF assms(1-3)] assms(4)
  by (auto simp: leaf_of_def) (auto simp: store_def)

lemma pool_inv_store:
  assumes "pool_inv N p" "num < used_hdr p" "leaf_inv l" "max_slot l = N"
  shows "pool_inv N (store p (slot_off p num) l)"
proof -
  have "case heap (store p (slot_off p num) l) (slot_off p (of_nat i)) of None \<Rightarrow> False
          | Some l \<Rightarrow> leaf_inv l \<and> max_slot l = N \<and> (unat (used_hdr p) \<le> i \<longrightarrow> entries l = [])"
    if i: "i < unat (alloc_hdr p)" for i
  proof (cases "of_nat i = num")
    case True
    then have "i = unat num" using unat_of_nat_below [OF i] by auto
    then show ?thesis using assms True by (simp add: store_def word_less_nat_alt)
  next
    case False
    have "(of_nat i :: u64) < alloc_hdr p" using i by (simp add: word_less_nat_alt unat_of_nat_below [OF i])
    moreover have "num < alloc_hdr p" using assms(1,2) by (auto simp: pool_inv_def)
    ultimately have "slot_off p (of_nat i) \<noteq> slot_off p num" using slot_off_inj [OF assms(1)] False by blast
    then show ?thesis using assms(1) i by (auto simp: store_def pool_inv_def)
  qed
  then show ?thesis using assms(1) by (simp add: pool_inv_def cong: option.case_cong)
qed

section \<open>Handing out leaves\<close>

lemma fetch_new_leaf_ok:
  assumes "pool_inv N p" "used_hdr p < alloc_hdr p"
  shows "fetch_new_leaf p = Inr (p\<lparr>used_hdr := used_hdr p + 1\<rparr>, slot_off p (used_hdr p), used_hdr p)"
    and "pool_inv N (p\<lparr>used_hdr := used_hdr p + 1\<rparr>)"
proof -
  have "pool_lock p = 0" using assms(1) by (simp add: pool_inv_def)
  moreover from this have "p\<lparr>used_hdr := used_hdr p + 1, pool_lock := 0\<rparr> = p\<lparr>used_hdr := used_hdr p + 1\<rparr>" by simp
  ultimately show "fetch_new_leaf p
      = Inr (p\<lparr>used_hdr := used_hdr p + 1\<rparr>, slot_off p (used_hdr p), used_hdr p)"
    using assms(2)
    by (simp add: fetch_new_leaf_def fetch_and_add_def allocated_num_def slot_off_def Let_def)
  have "unat (used_hdr p + 1) = Suc (unat (used_hdr p))"
    using assms(2) unat_u64_less [of "alloc_hdr p"] by (simp add: word_less_nat_alt unat_word_ariths)
  with assms show "pool_inv N (p\<lparr>used_hdr := used_hdr p + 1\<rparr>)"
    by (auto simp: pool_inv_def slot_off_def word_less_nat_alt word_le_nat_alt split: option.splits)
qed

lemma fetch_new_leaf_none:
  assumes "pool_inv N p" "used_hdr p = alloc_hdr p"
  shows "fetch_new_leaf p = Inl AssertFailed"
  using assms by (simp add: pool_inv_def fetch_new_leaf_def fetch_and_add_def allocated_num_def Let_def)

section \<open>Construction\<close>

lemma unat_slot_off_of_nat:
  "i < 2 ^ 31 \<Longrightarrow> unat (slot_off p (of_nat i)) = 16 + i * unat (slot_sz p)"
proof -
  assume i: "i < 2 ^ 31"
  have "i * unat (slot_sz p) \<le> 2 ^ 31 * 2 ^ 32"
    using i unat_u32_less [of "slot_sz p"] by (intro mult_mono) auto
  then show ?thesis using i
    by (simp add: slot_off_def unat_word_ariths unat_of_nat_u64)
qed

lemma slot_off_Suc: "slot_off p (of_nat i) + ucast (slot_sz p) = slot_off p (of_nat (Suc i))"
  by (simp add: slot_off_def algebra_simps)

lemma alloc_cases:
  assumes "pool_lock p = 0" "cur_alloc_sz p = slot_off p (of_nat i)" "i + 1 < 2 ^ 31"
  shows "alloc p = (if 16 + Suc i * unat (slot_sz p) \<le> unat (total_sz p)
     then Inr (p\<lparr>cur_alloc_sz := slot_off p (of_nat (Suc i)), cur_alloc_num := cur_alloc_num p + 1\<rparr>,
               Some (slot_off p (of_nat i)))
     else Inr (p, None))"
proof -
  have "slot_off p (of_nat (Suc i)) \<le> total_sz p \<longleftrightarrow> 16 + Suc i * unat (slot_sz p) \<le> unat (total_sz p)"
    using unat_slot_off_of_nat [of "Suc i" p] assms(3) by (simp add: word_le_nat_alt)
  moreover have "p\<lparr>pool_lock := 0\<rparr> = p"
    "p\<lparr>cur_alloc_sz := c, cur_alloc_num := d, pool_lock := 0\<rparr> = p\<lparr>cur_alloc_sz := c, cur_alloc_num := d\<rparr>" for c d
    using assms(1) by simp_all
  ultimately show ?thesis
    using assms by (simp add: alloc_def slot_off_Suc)
qed

lemma prealloc_loop_throws:
  assumes "pool_lock p = 0" "cur_alloc_sz p = slot_off p (of_nat i)" "i + n < 2 ^ 31" "0 < n"
    "unat (total_sz p) < 16 + (i + n) * unat (slot_sz p)"
  shows "prealloc_loop n i raw p = Inl Thrown"
  using assms
proof (induction n arbitrary: i p)
  case (Suc n)
  let ?p = "p\<lparr>cur_alloc_sz := slot_off p (of_nat (Suc i)), cur_alloc_num := cur_alloc_num p + 1\<rparr>"
  show ?case
  proof (cases "16 + Suc i * unat (slot_sz p) \<le> unat (total_sz p)")
    case True
    then have "n \<noteq> 0" using Suc.prems(5) by (cases n) auto
    then have "prealloc_loop n (Suc i) raw (store ?p (slot_off p (of_nat i)) l) = Inl Thrown" for l
      using Suc.prems by (intro Suc.IH) (auto simp: slot_off_def store_def)
    then show ?thesis using True Suc.prems(3) by (simp add: alloc_cases [OF Suc.prems(1,2)])
  next
    case False
    then show ?thesis using Suc.prems(3) by (simp add: alloc_cases [OF Suc.prems(1,2)])
  qed
qed simp

lemma prealloc_loop_ok:
  assumes "pool_lock p = 0" "cur_alloc_sz p = slot_off p (of_nat i)" "i + n < 2 ^ 31"
    "16 + (i + n) * unat (slot_sz p) \<le> unat (total_sz p)"
  shows "\<exists>p'. prealloc_loop n i raw p = Inr p' \<and> pool_lock p' = 0 \<and> used_hdr p' = used_hdr p
    \<and> alloc_hdr p' = alloc_hdr p \<and> slot_sz p' = slot_sz p
    \<and> cur_alloc_num p' = cur_alloc_num p + of_nat n
    \<and> (\<forall>a. unat a < unat (slot_off p (of_nat i)) \<longrightarrow> heap p' a = heap p a)
    \<and> (slot_sz p \<noteq> 0 \<longrightarrow> (\<forall>j. i \<le> j \<and> j < i + n \<longrightarrow>
          heap p' (slot_off p (of_nat j)) = Some (leaf_ctor (raw (slot_off p (of_nat j))))))"
  using assms
proof (induction n arbitrary: i p)
  case (Suc n)
  let ?q = "p\<lparr>cur_alloc_sz := slot_off p (of_nat (Suc i)), cur_alloc_num := cur_alloc_num p + 1\<rparr>"
  let ?o = "slot_off p (of_nat i)"
  let ?p = "store ?q ?o (leaf_ctor (raw ?o))"
  have off: "slot_off ?p = slot_off p" "slot_sz ?p = slot_sz p" by (simp_all add: fun_eq_iff slot_off_def)
  have fits: "16 + Suc i * unat (slot_sz p) \<le> unat (total_sz p)"
    by (rule order_trans [OF _ Suc.prems(4)]) (intro add_left_mono mult_le_mono1, simp)
  have "\<exists>p'. prealloc_loop n (Suc i) raw ?p = Inr p' \<and> pool_lock p' = 0 \<and> used_hdr p' = used_hdr ?p
    \<and> alloc_hdr p' = alloc_hdr ?p \<and> slot_sz p' = slot_sz ?p
    \<and> cur_alloc_num p' = cur_alloc_num ?p + of_nat n
    \<and> (\<forall>a. unat a < unat (slot_off ?p (of_nat (Suc i))) \<longrightarrow> heap p' a = heap ?p a)
    \<and> (slot_sz ?p \<noteq> 0 \<longrightarrow> (\<forall>j. Suc i \<le> j \<and> j < Suc i + n \<longrightarrow>
          heap p' (slot_off ?p (of_nat j)) = Some (leaf_ctor (raw (slot_off ?p (of_nat j))))))"
    by (rule Suc.IH) (use Suc.prems in \<open>auto simp: store_def slot_off_def\<close>)
  then obtain p' where p': "prealloc_loop n (Suc i) raw ?p = Inr p'" "pool_lock p' = 0" "used_hdr p' = used_hdr p"
    "alloc_hdr p' = alloc_hdr p" "slot_sz p' = slot_sz p" "cur_alloc_num p' = cur_alloc_num p + of_nat (Suc n)"
    "\<And>a. unat a < unat (slot_off p (of_nat (Suc i))) \<Longrightarrow> heap p' a = heap ?p a"
    "\<And>j. slot_sz p \<noteq> 0 \<Longrightarrow> Suc i \<le> j \<Longrightarrow> j < Suc i + n \<Longrightarrow>
          heap p' (slot_off p (of_nat j)) = Some (leaf_ctor (raw (slot_off p (of_nat j))))"
    unfolding off by (auto simp: store_def algebra_simps)
  have u: "unat ?o = 16 + i * unat (slot_sz p)"
    "unat (slot_off p (of_nat (Suc i))) = 16 + Suc i * unat (slot_sz p)"
    using Suc.prems(3) by (simp_all only: unat_slot_off_of_nat)
  have "heap p' a = heap p a" if "unat a < unat ?o" for a
    using that u p'(7) [of a] by (auto simp: store_def)
  moreover have "heap p' (slot_off p (of_nat j)) = Some (leaf_ctor (raw (slot_off p (of_nat j))))"
    if "slot_sz p \<noteq> 0" "i \<le> j" "j < i + Suc n" for j
  proof (cases "j = i")
    case True
    have "unat ?o < unat (slot_off p (of_nat (Suc i)))" using u that(1)
      by (simp add: unat_eq_0 neq0_conv [symmetric] del: neq0_conv)
    then show ?thesis using p'(7) [of ?o] True by (simp add: store_def)
  qed (use that p'(8) in auto)
  moreover have "prealloc_loop (Suc n) i raw p = Inr p'"
    using fits Suc.prems(3) p'(1) by (simp add: alloc_cases [OF Suc.prems(1,2)])
  ultimately show ?case using p' by blast
qed auto

lemma prealloc_leaves_cases:
  assumes raw: "\<And>a. max_slot (raw a) = N" "\<And>a. length (vals (raw a)) = N" and N: "0 < N" "N < 256"
    and sz: "S \<noteq> 0" "16 \<le> t" "n < 2 ^ 31"
  shows "if 16 + unat n * unat S \<le> unat t
    then \<exists>p. prealloc_leaves n raw (pool_init t S) = Inr p \<and> pool_inv N p \<and> used_hdr p = 0
           \<and> alloc_hdr p = n \<and> slot_sz p = S \<and> cur_alloc_num p = of_nat (unat n)
    else prealloc_leaves n raw (pool_init t S) = Inl Thrown"
proof -
  let ?p = "(pool_init t S)\<lparr>used_hdr := 0, alloc_hdr := n, cur_alloc_sz := 16\<rparr>"
  have n: "unat n < 2 ^ 31" using sz(3) by (simp add: word_less_nat_alt)
  have t: "\<not> t < 16" using sz(2) by simp
  have p: "pool_lock ?p = 0" "cur_alloc_sz ?p = slot_off ?p (of_nat 0)" "slot_sz ?p = S"
    "total_sz ?p = t" "alloc_hdr ?p = n" "used_hdr ?p = 0" "cur_alloc_num ?p = 0"
    by (simp_all add: pool_init_def slot_off_def)
  show ?thesis
  proof (cases "16 + unat n * unat S \<le> unat t")
    case True
    with prealloc_loop_ok [OF p(1,2), of "unat n" raw] n sz(1)
    obtain p' where p': "prealloc_loop (unat n) 0 raw ?p = Inr p'" "pool_lock p' = 0" "used_hdr p' = 0"
      "alloc_hdr p' = n" "slot_sz p' = S" "cur_alloc_num p' = of_nat (unat n)"
      "\<And>j. j < unat n \<Longrightarrow> heap p' (slot_off ?p (of_nat j)) = Some (leaf_ctor (raw (slot_off ?p (of_nat j))))"
      unfolding p by auto
    have off: "slot_off p' = slot_off ?p" by (simp add: slot_off_def fun_eq_iff p'(5) pool_init_def)
    have "pool_inv N p'"
      using p' True n sz(1) leaf_ctor_ok raw N unat_u64_less [of t] by (simp add: pool_inv_def off)
    with p' True t show ?thesis by (simp add: prealloc_leaves_def pool_init_def)
  next
    case False
    then have "prealloc_loop (unat n) 0 raw ?p = Inl Thrown"
      using n sz(2) by (intro prealloc_loop_throws p(1,2)) (auto simp: pool_init_def word_le_nat_alt intro!: Nat.gr0I)
    with False t show ?thesis by (simp add: prealloc_leaves_def pool_init_def)
  qed
qed

section \<open>Properties of the pool\<close>

text \<open>The constructor with a leaf count preallocates that many empty leaves whenever they
  fit, and aborts or throws otherwise: it aborts already when the region, less its first
  word, holds exactly \<open>leaf_num\<close> slots and throws when the two header words leave no room
  for the last one.\<close>

lemma LeafAllocator_num_correct:
  assumes "\<And>a. max_slot (raw a) = N" "\<And>a. length (vals (raw a)) = N" "0 < N" "N < 256"
    and "S \<noteq> 0" "16 \<le> t" "leaf_num < 2 ^ 31"
  shows "case LeafAllocator_num t S leaf_num raw of
      Inr p \<Rightarrow> pool_inv N p \<and> used_num p = 0 \<and> allocated_num p = leaf_num
             \<and> 16 + unat leaf_num * unat S \<le> unat t
    | Inl e \<Rightarrow> e = AssertFailed \<and> (unat t - 8) div unat S \<le> unat leaf_num
             \<or> e = Thrown \<and> unat t < 16 + unat leaf_num * unat S"
proof -
  have "unat ((t - 8) div ucast S) = (unat t - 8) div unat S"
    using assms(6) by (simp add: unat_div unat_sub word_le_nat_alt)
  then have "leaf_num < (t - 8) div ucast S \<longleftrightarrow> unat leaf_num < (unat t - 8) div unat S"
    by (simp add: word_less_nat_alt)
  then show ?thesis
    using prealloc_leaves_cases [of raw N S t leaf_num] assms
    by (auto simp: LeafAllocator_num_def used_num_def allocated_num_def split: if_splits)
qed

definition raw_slot :: "u64 \<Rightarrow> leaf" where
  "raw_slot a = \<lparr>keys = [a, 1], vals = [2, 3]\<rparr>"

lemma raw_slot_facts: "max_slot (raw_slot a) = 2" "length (vals (raw_slot a)) = 2"
  by (simp_all add: raw_slot_def max_slot_def)

lemma LeafAllocator_num_correct_witness:
  "(case LeafAllocator_num 200 32 3 raw_slot of Inr p \<Rightarrow> pool_inv 2 p | Inl e \<Rightarrow> False)
     \<and> LeafAllocator_num 72 32 2 raw_slot = Inl AssertFailed"
proof -
  have "\<exists>p. LeafAllocator_num 200 32 3 raw_slot = Inr p"
    using prealloc_leaves_cases [of raw_slot 2 32 200 3] raw_slot_facts
    by (auto simp: LeafAllocator_num_def)
  moreover have "LeafAllocator_num 72 32 2 raw_slot = Inl AssertFailed"
    by (simp add: LeafAllocator_num_def)
  ultimately show ?thesis
    using LeafAllocator_num_correct [of raw_slot 2 32 200 3] raw_slot_facts by auto
qed

text \<open>C6: the constructor without a count asks for one slot per \<open>S\<close> bytes after the first
  word, although two words are reserved: it succeeds exactly when the slots leave at least
  8 spare bytes, and otherwise the last allocation throws.\<close>

theorem LeafAllocator_correct:
  assumes "\<And>a. max_slot (raw a) = N" "\<And>a. length (vals (raw a)) = N" "0 < N" "N < 256"
    and "S \<noteq> 0" "16 \<le> t" "(unat t - 8) div unat S < 2 ^ 31"
  shows "if 8 \<le> (unat t - 8) mod unat S
    then \<exists>p. LeafAllocator t S raw = Inr p \<and> pool_inv N p \<and> unat (allocated_num p) = (unat t - 8) div unat S
    else LeafAllocator t S raw = Inl Thrown"
proof -
  let ?n = "(t - 8) div ucast S"
  have n: "unat ?n = (unat t - 8) div unat S"
    using assms(6) by (simp add: unat_div unat_sub word_le_nat_alt)
  have t: "16 \<le> unat t" using assms(6) by (simp add: word_le_nat_alt)
  have "unat t = 8 + (unat t - 8) div unat S * unat S + (unat t - 8) mod unat S"
    using t by (simp add: div_mult_mod_eq)
  then have "16 + unat ?n * unat S \<le> unat t \<longleftrightarrow> 8 \<le> (unat t - 8) mod unat S"
    unfolding n by linarith
  then show ?thesis
    using prealloc_leaves_cases [of raw N S t ?n] assms n
    by (auto simp: LeafAllocator_def allocated_num_def word_less_nat_alt split: if_splits)
qed

theorem LeafAllocator_correct_witness:
  "LeafAllocator 72 32 raw_slot = Inl Thrown \<and> (\<exists>p. LeafAllocator 80 32 raw_slot = Inr p)"
  using LeafAllocator_correct [of raw_slot 2 32 72] LeafAllocator_correct [of raw_slot 2 32 80]
    raw_slot_facts by auto

text \<open>C7: \<open>fetch_new_leaf\<close> hands out an empty leaf that was not handed out before and keeps
  the pool well-formed, or aborts when none is left.\<close>

theorem fetch_new_leaf_correct:
  assumes "pool_inv N p"
  shows "if used_num p < allocated_num p
    then \<exists>p' ptr. fetch_new_leaf p = Inr (p', ptr, used_num p) \<and> pool_inv N p'
           \<and> used_num p' = used_num p + 1 \<and> heap p' = heap p \<and> get_leaf p' (used_num p) = Inr ptr
           \<and> (\<exists>l. load p' ptr = Inr l \<and> leaf_inv l \<and> entries l = [])
    else fetch_new_leaf p = Inl AssertFailed"
proof (cases "used_hdr p < allocated_num p")
  case True
  then have "used_hdr p \<le> used_hdr p + 1"
    using unat_u64_less [of "alloc_hdr p"]
    by (simp add: allocated_num_def word_less_nat_alt word_le_nat_alt unat_word_ariths)
  then show ?thesis
    using True fetch_new_leaf_ok [OF assms] pool_inv_leaf [OF assms, of "used_hdr p"]
      load_leaf [OF assms, of "used_hdr p"]
    by (auto simp: used_num_def allocated_num_def get_leaf_def slot_off_def load_def)
next
  case False
  moreover have "used_hdr p \<le> alloc_hdr p" using assms by (simp add: pool_inv_def)
  ultimately show ?thesis
    using fetch_new_leaf_none [OF assms] by (simp add: used_num_def allocated_num_def)
qed

theorem fetch_new_leaf_correct_witness:
  "\<exists>p. LeafAllocator 80 32 raw_slot = Inr p \<and> (\<exists>p' ptr. fetch_new_leaf p = Inr (p', ptr, 0))"
proof -
  have "\<exists>p. LeafAllocator 80 32 raw_slot = Inr p \<and> pool_inv 2 p \<and> allocated_num p = 2"
    using prealloc_leaves_cases [of raw_slot 2 32 80 2] raw_slot_facts
    by (auto simp: LeafAllocator_def allocated_num_def)
  then obtain p where p: "LeafAllocator 80 32 raw_slot = Inr p" "pool_inv 2 p" "allocated_num p = 2" by blast
  moreover have "used_num p = 0"
    using prealloc_leaves_cases [of raw_slot 2 32 80 2] raw_slot_facts p(1)
    by (auto simp: LeafAllocator_def used_num_def)
  ultimately show ?thesis using fetch_new_leaf_correct [OF p(2)] by auto
qed

end
