(* ===== verification/Marshal.thy ===== *)
theory Marshal
  imports Rolex_Prelude
begin

text \<open>
  Object representations and the two marshalling helpers of the code base.

  \<open>'a pod\<close> is what \<open>memcpy\<close> of an object of a trivially copyable type \<open>T\<close> sees: its size and
  its bytes (little-endian x86-64, structs packed). \<^verbatim>\<open>xutils/marshal.hh\<close> (classes
  \<open>Marshal<T>\<close> and \<open>MarshalT<T>\<close>) and \<^verbatim>\<open>deps/rlib/core/utils/marshal.hh\<close> (class
  \<open>Marshal\<close>, here with the prefix \<open>rlib_\<close>) are modelled over it. A \<open>char*\<close> is the byte
  string that starts where it points.

  The locale \<open>pod_codec\<close> is the contract every representation satisfies (fixed width,
  decodable); the round-trip lemmas are proved once inside it and interpreted for the
  machine words and, in later theories, for the structs sent over the wire.
\<close>

section \<open>Object representations\<close>

record 'a pod =
  size_of :: nat
  to_bytes :: "'a \<Rightarrow> bytes"
  of_bytes :: "bytes \<Rightarrow> 'a"

fun bytes_le :: "nat \<Rightarrow> nat \<Rightarrow> bytes" where
  "bytes_le 0 x = []"
| "bytes_le (Suc n) x = of_nat (x mod 256) # bytes_le n (x div 256)"

fun nat_le :: "bytes \<Rightarrow> nat" where
  "nat_le [] = 0"
| "nat_le (b # bs) = unat b + 256 * nat_le bs"

definition le_pod :: "nat \<Rightarrow> 'a::len word pod" where
  "le_pod n = \<lparr>size_of = n, to_bytes = (\<lambda>w. bytes_le n (unat w)), of_bytes = (\<lambda>bs. of_nat (nat_le bs))\<rparr>"

definition u8_pod :: "u8 pod" where "u8_pod = le_pod 1"
definition u16_pod :: "u16 pod" where "u16_pod = le_pod 2"
definition u32_pod :: "u32 pod" where "u32_pod = le_pod 4"
definition i32_pod :: "i32 pod" where "i32_pod = le_pod 4"
definition u64_pod :: "u64 pod" where "u64_pod = le_pod 8"

text \<open>Two consecutive members of a packed struct.\<close>

definition pair_pod :: "'a pod \<Rightarrow> 'b pod \<Rightarrow> ('a \<times> 'b) pod" where
  "pair_pod p q = \<lparr>size_of = size_of p + size_of q,
     to_bytes = (\<lambda>(x, y). to_bytes p x @ to_bytes q y),
     of_bytes = (\<lambda>bs. (of_bytes p (take (size_of p) bs), of_bytes q (drop (size_of p) bs)))\<rparr>"

text \<open>A struct whose members are given as a tuple.\<close>

definition iso_pod :: "('b \<Rightarrow> 'a) \<Rightarrow> ('a \<Rightarrow> 'b) \<Rightarrow> 'a pod \<Rightarrow> 'b pod" where
  "iso_pod f g p = \<lparr>size_of = size_of p, to_bytes = (\<lambda>x. to_bytes p (f x)), of_bytes = (\<lambda>bs. g (of_bytes p bs))\<rparr>"

section \<open>Operations\<close>

text \<open>\<open>memcpy(buf + off, bs, |bs|)\<close>.\<close>

definition mem_put :: "bytes \<Rightarrow> nat \<Rightarrow> bytes \<Rightarrow> bytes res" where
  "mem_put buf off bs =
     (if off + length bs \<le> length buf then Inr (take off buf @ bs @ drop (off + length bs) buf)
      else Inl UB)"

definition unsafe_serialize :: "'a pod \<Rightarrow> 'a \<Rightarrow> bytes \<Rightarrow> nat \<Rightarrow> (bytes \<times> nat) res" where
  "unsafe_serialize p t buf off = rbind (mem_put buf off (to_bytes p t)) (\<lambda>buf'. Inr (buf', off + size_of p))"

definition serialize_into :: "'a pod \<Rightarrow> 'a \<Rightarrow> bytes \<Rightarrow> bytes res" where
  "serialize_into p t s = rassert (size_of p \<le> length s) (mem_put s 0 (to_bytes p t))"

definition serialize_to :: "'a pod \<Rightarrow> 'a \<Rightarrow> bytes res" where
  "serialize_to p t = serialize_into p t (replicate (size_of p) 0)"

definition extract_at :: "'a pod \<Rightarrow> bytes \<Rightarrow> 'a res" where
  "extract_at p buf = (if length buf < size_of p then Inl UB else Inr (of_bytes p (take (size_of p) buf)))"

definition extract_with_inc :: "'a pod \<Rightarrow> bytes \<Rightarrow> ('a \<times> bytes) res" where
  "extract_with_inc p buf = rbind (extract_at p buf) (\<lambda>x. Inr (x, drop (size_of p) buf))"

text \<open>
  \<open>deserialize(buf, sz)\<close>: \<open>sz\<close> is the length the caller claims; the bytes really
  readable at \<open>buf\<close> are those of the list.
\<close>

definition deserialize :: "'a pod \<Rightarrow> bytes \<Rightarrow> nat \<Rightarrow> 'a res" where
  "deserialize p buf sz = rassert (\<not> sz < size_of p) (extract_at p buf)"

definition deserialize_opt :: "'a pod \<Rightarrow> bytes \<Rightarrow> nat \<Rightarrow> 'a option res" where
  "deserialize_opt p buf sz =
     (if sz < size_of p then Inr None else rbind (extract_at p buf) (\<lambda>x. Inr (Some x)))"

text \<open>\<open>MarshalT<T>\<close>: the object behind a \<open>u64\<close> size header (\<open>_WrapperT\<close>).\<close>

definition wrapper_pod :: "'a pod \<Rightarrow> (u64 \<times> 'a) pod" where
  "wrapper_pod p = pair_pod u64_pod p"

definition marshalT_serialize :: "'a pod \<Rightarrow> 'a \<Rightarrow> bytes res" where
  "marshalT_serialize p t = serialize_to (wrapper_pod p) (of_nat (size_of p), t)"

definition marshalT_deserialize :: "'a pod \<Rightarrow> bytes \<Rightarrow> 'a option res" where
  "marshalT_deserialize p d =
     rbind (deserialize_opt (wrapper_pod p) d (length d)) (\<lambda>r. Inr (map_option snd r))"

text \<open>\<open>rdmaio::Marshal\<close>.\<close>

definition rlib_alloc :: "usize \<Rightarrow> bytes" where
  "rlib_alloc sz = replicate (unat sz) 48"

definition rlib_forward :: "bytes \<Rightarrow> usize \<Rightarrow> bytes option" where
  "rlib_forward buf off = (if unat off < length buf then Some (drop (unat off) buf) else None)"

definition rlib_safe_set_byte :: "bytes \<Rightarrow> usize \<Rightarrow> u8 \<Rightarrow> bytes \<times> bool" where
  "rlib_safe_set_byte buf off data =
     (if unat off < length buf then (buf[unat off := data], True) else (buf, False))"

definition rlib_dump :: "'a pod \<Rightarrow> 'a \<Rightarrow> bytes res" where
  "rlib_dump p t = mem_put (rlib_alloc (of_nat (size_of p))) 0 (to_bytes p t)"

definition rlib_dedump :: "'a pod \<Rightarrow> bytes \<Rightarrow> 'a option" where
  "rlib_dedump p b = (if size_of p \<le> length b then Some (of_bytes p (take (size_of p) b)) else None)"

section \<open>The contract of a representation\<close>

locale pod_codec =
  fixes p :: "'a pod"
  assumes len: "length (to_bytes p x) = size_of p"
    and inv: "of_bytes p (to_bytes p x) = x"
begin

lemma serialize_into_ok:
  "size_of p \<le> length s \<Longrightarrow> serialize_into p t s = Inr (to_bytes p t @ drop (size_of p) s)"
  by (simp add: serialize_into_def mem_put_def len)

lemma serialize_into_small: "length s < size_of p \<Longrightarrow> serialize_into p t s = Inl AssertFailed"
  by (simp add: serialize_into_def)

lemma serialize_to_ok: "serialize_to p t = Inr (to_bytes p t)"
  by (simp add: serialize_to_def serialize_into_ok)

lemma extract_ok: "extract_at p (to_bytes p x @ rest) = Inr x"
  by (simp add: extract_at_def len inv)

lemma deserialize_ok: "size_of p \<le> sz \<Longrightarrow> deserialize p (to_bytes p x @ rest) sz = Inr x"
  by (simp add: deserialize_def extract_ok)

lemma deserialize_whole: "size_of p \<le> sz \<Longrightarrow> deserialize p (to_bytes p x) sz = Inr x"
  using deserialize_ok [of sz x "[]"] by simp

lemma deserialize_opt_ok:
  "size_of p \<le> sz \<Longrightarrow> deserialize_opt p (to_bytes p x @ rest) sz = Inr (Some x)"
  by (simp add: deserialize_opt_def extract_ok)

lemma extract_with_inc_ok: "extract_with_inc p (to_bytes p x @ rest) = Inr (x, rest)"
  by (simp add: extract_with_inc_def extract_ok len)

lemma rlib_dump_ok: "size_of p < 2 ^ 32 \<Longrightarrow> rlib_dump p t = Inr (to_bytes p t)"
  by (simp add: rlib_dump_def rlib_alloc_def mem_put_def len unat_of_nat)

lemma rlib_dedump_ok: "rlib_dedump p (to_bytes p t @ rest) = Some t"
  by (simp add: rlib_dedump_def len inv)

end

text \<open>The codecs are closed under the struct constructions.\<close>

lemma pod_codec_pair: "pod_codec p \<Longrightarrow> pod_codec q \<Longrightarrow> pod_codec (pair_pod p q)"
  by (auto simp: pod_codec_def pair_pod_def)

lemma pod_codec_iso: "pod_codec p \<Longrightarrow> (\<And>x. g (f x) = x) \<Longrightarrow> pod_codec (iso_pod f g p)"
  by (auto simp: pod_codec_def iso_pod_def)

lemma pod_codec_wrapper: "pod_codec p \<Longrightarrow> pod_codec u64_pod \<Longrightarrow> pod_codec (wrapper_pod p)"
  by (simp add: wrapper_pod_def pod_codec_pair)

section \<open>Machine words\<close>

lemma length_bytes_le [simp]: "length (bytes_le n x) = n"
  by (induction n arbitrary: x) auto

lemma nat_le_bytes_le: "nat_le (bytes_le n x) = x mod 256 ^ n"
proof (induction n arbitrary: x)
  case 0
  then show ?case by simp
next
  case (Suc n)
  have "unat (of_nat (x mod 256) :: u8) = x mod 256"
    by (simp add: unat_of_nat)
  with Suc show ?case
    by (simp add: mod_mult2_eq)
qed

lemma le_pod_codec:
  assumes "LENGTH('a) \<le> 8 * n"
  shows "pod_codec (le_pod n :: 'a::len word pod)"
proof -
  have "unat w mod 256 ^ n = unat w" for w :: "'a word"
  proof -
    have "unat w < 2 ^ LENGTH('a)" by (rule unsigned_less)
    also have "\<dots> \<le> 2 ^ (8 * n)" using assms by (simp add: power_increasing)
    finally show ?thesis by (simp add: power_mult)
  qed
  then show ?thesis
    by (simp add: pod_codec_def le_pod_def nat_le_bytes_le)
qed

lemma size_of_word_pods [simp]:
  "size_of u8_pod = 1" "size_of u16_pod = 2" "size_of u32_pod = 4" "size_of i32_pod = 4" "size_of u64_pod = 8"
  by (simp_all add: u8_pod_def u16_pod_def u32_pod_def i32_pod_def u64_pod_def le_pod_def)

lemma size_of_pod_constructions [simp]:
  "size_of (pair_pod p q) = size_of p + size_of q" "size_of (iso_pod f g p) = size_of p"
  "size_of (wrapper_pod p) = 8 + size_of p"
  by (simp_all add: pair_pod_def iso_pod_def wrapper_pod_def)

interpretation u8: pod_codec u8_pod
  unfolding u8_pod_def by (rule le_pod_codec) simp

interpretation u16: pod_codec u16_pod
  unfolding u16_pod_def by (rule le_pod_codec) simp

interpretation u32: pod_codec u32_pod
  unfolding u32_pod_def by (rule le_pod_codec) simp

interpretation i32: pod_codec i32_pod
  unfolding i32_pod_def by (rule le_pod_codec) simp

interpretation u64: pod_codec u64_pod
  unfolding u64_pod_def by (rule le_pod_codec) simp

lemma length_word_bytes [simp]:
  "length (to_bytes u8_pod a) = 1" "length (to_bytes u16_pod b) = 2" "length (to_bytes u32_pod c) = 4"
  "length (to_bytes i32_pod c) = 4" "length (to_bytes u64_pod d) = 8"
  by (simp_all add: u8.len u16.len u32.len i32.len u64.len)

end
