(* ===== verification/Leaf_Table.thy ===== *)
theory Leaf_Table
  imports Leaf_Alloc Marshal
begin

unbundle bit_operations_syntax

text \<open>
  The leaf table of a model, \<^verbatim>\<open>rolex/leaf_table.hpp\<close>: one table entry per trained leaf and
  the synonym table, an array of 128 entries that chains overflow leaves behind each trained
  leaf (entry 0 holds the next free index, 0 ends a chain). This theory holds the data and the
  operations; \<^theory_text>\<open>Table_Correct\<close> their proofs.

  Leaves are reached through the pool (\<^theory_text>\<open>Leaf_Alloc\<close>), passed beside the table as the code
  passes \<open>alloc\<close>. A vector index outside the vector and a synonym index beyond the array are
  undefined behaviour, a cyclic chain is a walk that never ends.
\<close>

section \<open>Packed entries\<close>

definition bitmask :: "nat \<Rightarrow> 'a::len word" where
  "bitmask onecount =
     (if onecount \<noteq> 0 then - 1 else 0) AND drop_bit (LENGTH('a) - onecount) (- 1)"

definition kInvalidAddr :: u64 where "kInvalidAddr = - 1"
definition kAddrBit :: nat where "kAddrBit = 56"
definition kLeafBit :: nat where "kLeafBit = 48"
definition kAddrMask :: u64 where "kAddrMask = bitmask kAddrBit"
definition kLeafMask :: u64 where "kLeafMask = bitmask kLeafBit"
definition kNonLock :: u8 where "kNonLock = bitmask 7"
definition kSynonymMax :: nat where "kSynonymMax = 128"

definition encode :: "u64 \<Rightarrow> u8 \<Rightarrow> u8 \<Rightarrow> u64 res" where
  "encode num synonym_leaf leaf_region =
     rassert (num < push_bit kAddrBit 1 \<and> leaf_region < push_bit 7 1)
       (let temp = push_bit kAddrBit (ucast leaf_region);
            temp = temp OR push_bit kLeafBit (ucast synonym_leaf)
        in Inr (temp OR (num AND kAddrMask)))"

definition decode :: "u64 \<Rightarrow> u64 \<times> u8 \<times> u8" where
  "decode encode_num =
     (let leaf_num = encode_num AND kLeafMask;
          ptr = bytes_le 8 (unat encode_num);
          synonym_num = ptr ! 6;
          leaf_region = ptr ! 7 AND kNonLock
      in (leaf_num, synonym_num, leaf_region))"

text \<open>\<open>union TableEntry\<close>: four bit fields over one word, the lock in the lowest bit.\<close>

record te =
  te_lock :: "1 word"
  leaf_region :: "7 word"
  synonym_leaf :: "8 word"
  leaf_num :: "48 word"

definition te_val :: "te \<Rightarrow> u64" where
  "te_val e = ucast (te_lock e) OR push_bit 1 (ucast (leaf_region e))
     OR push_bit 8 (ucast (synonym_leaf e)) OR push_bit 16 (ucast (leaf_num e))"

definition val_te :: "u64 \<Rightarrow> te" where
  "val_te v = \<lparr>te_lock = ucast v, leaf_region = ucast (drop_bit 1 v),
               synonym_leaf = ucast (drop_bit 8 v), leaf_num = ucast (drop_bit 16 v)\<rparr>"

section \<open>State\<close>

record leaf_table =
  table :: "te list"
  SynonymTable :: "te list"
  csLocks :: "u16 list"

text \<open>The constructor sets one field of one entry; \<open>raw\<close> is what the memory held.\<close>

definition LeafTable :: "te list \<Rightarrow> leaf_table" where
  "LeafTable raw = \<lparr>table = [], SynonymTable = raw[0 := (raw ! 0)\<lparr>leaf_num := 1\<rparr>], csLocks = []\<rparr>"

definition lt_size :: "leaf_table \<Rightarrow> usize" where
  "lt_size t = of_nat (length (table t))"

text \<open>\<open>table[i]\<close> for an \<open>int\<close> and the comparison \<open>i < table.size()\<close> of an \<open>int\<close> with a \<open>size_t\<close>.\<close>

definition tbl_at :: "leaf_table \<Rightarrow> int \<Rightarrow> te res" where
  "tbl_at t i = (if i < 0 then Inl UB else vec_at (table t) (nat i))"

definition in_table_int :: "leaf_table \<Rightarrow> int \<Rightarrow> bool" where
  "in_table_int t i \<longleftrightarrow> 0 \<le> i \<and> nat i < length (table t)"

definition lt_index :: "leaf_table \<Rightarrow> int \<Rightarrow> u64 res" where
  "lt_index t i = rassert (in_table_int t i) (rbind (tbl_at t i) (\<lambda>e. Inr (te_val e)))"

definition mk_te :: "u64 \<Rightarrow> u8 \<Rightarrow> u8 \<Rightarrow> te" where
  "mk_te num syn region =
     \<lparr>te_lock = 0, leaf_region = ucast region, synonym_leaf = syn, leaf_num = ucast num\<rparr>"

definition train_emplace_back :: "leaf_table \<Rightarrow> u64 \<Rightarrow> u8 \<Rightarrow> u8 \<Rightarrow> leaf_table \<times> usize" where
  "train_emplace_back t num syn region =
     (let t' = t\<lparr>table := table t @ [mk_te num syn region], csLocks := csLocks t @ [0]\<rparr>
      in (t', of_nat (length (table t'))))"

definition set_synonym :: "te list \<Rightarrow> nat \<Rightarrow> 8 word \<Rightarrow> te list" where
  "set_synonym es i s = es[i := (es ! i)\<lparr>synonym_leaf := s\<rparr>]"

definition synonym_emplace_back ::
    "leaf_table \<Rightarrow> bool \<Rightarrow> nat \<Rightarrow> u64 \<Rightarrow> u8 \<Rightarrow> u8 \<Rightarrow> (leaf_table \<times> usize) res" where
  "synonym_emplace_back t in_table l_idx num syn region =
     (let te = mk_te num syn region in
      rbind (vec_at (SynonymTable t) 0) (\<lambda>hd_te.
        if leaf_num hd_te = of_nat (kSynonymMax - 1) then Inr (t, 0)
        else
          let idx = leaf_num hd_te;
              t = t\<lparr>SynonymTable := (SynonymTable t)[0 := hd_te\<lparr>leaf_num := idx + 1\<rparr>]\<rparr> in
          rbind (vec_at (if in_table then table t else SynonymTable t) l_idx) (\<lambda>prev.
            let te = te\<lparr>synonym_leaf := synonym_leaf prev\<rparr>;
                t = (if in_table then t\<lparr>table := set_synonym (table t) l_idx (ucast idx)\<rparr>
                     else t\<lparr>SynonymTable := set_synonym (SynonymTable t) l_idx (ucast idx)\<rparr>) in
            if unat idx \<ge> length (SynonymTable t) then Inl UB
            else Inr (t\<lparr>SynonymTable := (SynonymTable t)[unat idx := te]\<rparr>, ucast idx))))"

definition synonym_table_remove :: "leaf_table \<Rightarrow> usize list \<Rightarrow> nat \<Rightarrow> nat \<Rightarrow> leaf_table res" where
  "synonym_table_remove t s_leaves l_idx idx =
     rbind (vec_at s_leaves idx) (\<lambda>s.
     rbind (vec_at (SynonymTable t) (unat s)) (\<lambda>e.
       if idx = 0 then
         rbind (vec_at (table t) l_idx)
           (\<lambda>_. Inr (t\<lparr>table := set_synonym (table t) l_idx (synonym_leaf e)\<rparr>))
       else
         rbind (vec_at s_leaves (idx - 1)) (\<lambda>q.
         rbind (vec_at (SynonymTable t) (unat q))
           (\<lambda>_. Inr (t\<lparr>SynonymTable := set_synonym (SynonymTable t) (unat q) (synonym_leaf e)\<rparr>)))))"

section \<open>Finding the leaf of a key\<close>

text \<open>The leaf an entry refers to, and the pointer to it.\<close>

definition te_leaf :: "leaf_pool \<Rightarrow> te \<Rightarrow> (u64 \<times> leaf) res" where
  "te_leaf p e = rbind (get_leaf p (ucast (leaf_num e))) (\<lambda>ptr. rbind (load p ptr) (\<lambda>l. Inr (ptr, l)))"

text \<open>The loop over the entries of \<open>search\<close>, \<open>update\<close>, \<open>insert\<close> and \<open>remove\<close>: from \<open>hi\<close> down
  to \<open>lo + 1\<close> the first leaf whose first key is not above the key, else the leaf of \<open>lo\<close>.\<close>

function locate :: "leaf_table \<Rightarrow> leaf_pool \<Rightarrow> u64 \<Rightarrow> int \<Rightarrow> int \<Rightarrow> (int \<times> u64 \<times> leaf) res" where
  "locate t p key lo i =
     (if i > lo then
        rbind (tbl_at t i) (\<lambda>e. rbind (te_leaf p e) (\<lambda>(ptr, l).
          if insertHere l key then Inr (i, ptr, l) else locate t p key lo (i - 1)))
      else rbind (tbl_at t lo) (\<lambda>e. rbind (te_leaf p e) (\<lambda>(ptr, l). Inr (lo, ptr, l))))"
  by pat_completeness auto
termination
  by (relation "measure (\<lambda>(t, p, key, lo, i). nat (i - lo))") auto

declare locate.simps [simp del]

text \<open>The walk along a chain of synonym entries.\<close>

partial_function (option) syn_walk :: "te list \<Rightarrow> usize \<Rightarrow> usize list \<Rightarrow> usize list res option" where
  "syn_walk syn s_idx s_leaves =
     (if s_idx \<noteq> 0 then
        if unat s_idx < length syn
        then syn_walk syn (ucast (synonym_leaf (syn ! unat s_idx))) (s_leaves @ [s_idx])
        else Some (Inl UB)
      else Some (Inr s_leaves))"

definition synonyms :: "leaf_table \<Rightarrow> nat \<Rightarrow> usize list res" where
  "synonyms t l_idx = rbind (vec_at (table t) l_idx)
     (\<lambda>e. loop_res (syn_walk (SynonymTable t) (ucast (synonym_leaf e)) []))"

definition syn_leaf :: "leaf_table \<Rightarrow> leaf_pool \<Rightarrow> usize \<Rightarrow> (u64 \<times> leaf) res" where
  "syn_leaf t p s = rbind (vec_at (SynonymTable t) (unat s)) (te_leaf p)"

text \<open>From the back of the chain, the first synonym leaf that takes the key; the argument is
  the number of leaves still to look at.\<close>

fun pick_syn :: "leaf_table \<Rightarrow> leaf_pool \<Rightarrow> usize list \<Rightarrow> u64 \<Rightarrow> nat \<Rightarrow> (nat \<times> u64 \<times> leaf) option res" where
  "pick_syn t p s_leaves key 0 = Inr None"
| "pick_syn t p s_leaves key (Suc i) =
     rbind (syn_leaf t p (s_leaves ! i)) (\<lambda>(ptr, l).
       if insertHere l key then Inr (Some (i, ptr, l)) else pick_syn t p s_leaves key i)"

section \<open>Search and update\<close>

fun search_syn_loop :: "leaf_table \<Rightarrow> leaf_pool \<Rightarrow> usize list \<Rightarrow> u64 \<Rightarrow> nat \<Rightarrow> u64 option res" where
  "search_syn_loop t p s_leaves key 0 = Inr None"
| "search_syn_loop t p s_leaves key (Suc i) =
     rbind (syn_leaf t p (s_leaves ! i)) (\<lambda>(ptr, l).
       case leaf_search l key of Some v \<Rightarrow> Inr (Some v)
       | None \<Rightarrow> search_syn_loop t p s_leaves key i)"

definition search_synonym :: "leaf_table \<Rightarrow> leaf_pool \<Rightarrow> u64 \<Rightarrow> nat \<Rightarrow> u64 option res" where
  "search_synonym t p key l_idx =
     rbind (synonyms t l_idx) (\<lambda>s_leaves. search_syn_loop t p s_leaves key (length s_leaves))"

definition lt_search :: "leaf_table \<Rightarrow> leaf_pool \<Rightarrow> u64 \<Rightarrow> int \<Rightarrow> int \<Rightarrow> u64 option res" where
  "lt_search t p key lo hi =
     rassert (in_table_int t hi)
       (rbind (locate t p key lo hi) (\<lambda>(i, ptr, l).
          case leaf_search l key of Some v \<Rightarrow> Inr (Some v)
          | None \<Rightarrow> search_synonym t p key (nat i)))"

text \<open>The lock bit: a bit that is set is never released by this thread itself.\<close>

definition set_lock :: "leaf_table \<Rightarrow> nat \<Rightarrow> 1 word \<Rightarrow> leaf_table" where
  "set_lock t idx b = t\<lparr>table := (table t)[idx := (table t ! idx)\<lparr>te_lock := b\<rparr>]\<rparr>"

definition lock_leaf :: "leaf_table \<Rightarrow> nat \<Rightarrow> leaf_table res" where
  "lock_leaf t idx =
     rbind (vec_at (table t) idx) (\<lambda>e. if te_lock e \<noteq> 0 then Inl Diverges else Inr (set_lock t idx 1))"

definition unlock_leaf :: "leaf_table \<Rightarrow> nat \<Rightarrow> leaf_table res" where
  "unlock_leaf t idx = rbind (vec_at (table t) idx) (\<lambda>_. Inr (set_lock t idx 0))"

definition cs_lock :: "leaf_table \<Rightarrow> nat \<Rightarrow> leaf_table res" where
  "cs_lock t idx = rbind (vec_at (csLocks t) idx) (\<lambda>w. rbind (spin_lock w)
     (\<lambda>w'. Inr (t\<lparr>csLocks := (csLocks t)[idx := w']\<rparr>)))"

definition cs_unlock :: "leaf_table \<Rightarrow> nat \<Rightarrow> leaf_table res" where
  "cs_unlock t idx = rbind (vec_at (csLocks t) idx)
     (\<lambda>w. Inr (t\<lparr>csLocks := (csLocks t)[idx := spin_unlock w]\<rparr>))"

text \<open>The leaf of the chain that takes the key: a synonym leaf or the trained leaf itself.\<close>

definition choose_leaf :: "(nat \<times> u64 \<times> leaf) option \<Rightarrow> u64 \<times> leaf \<Rightarrow> u64 \<times> leaf" where
  "choose_leaf r base = (case r of None \<Rightarrow> base | Some (i, cur) \<Rightarrow> cur)"

definition update_synonym ::
    "leaf_table \<Rightarrow> leaf_pool \<Rightarrow> u64 \<Rightarrow> u64 \<Rightarrow> nat \<Rightarrow> u64 \<times> leaf \<Rightarrow> (leaf_table \<times> leaf_pool \<times> bool) res" where
  "update_synonym t p key val l_idx base =
     rbind (lock_leaf t l_idx) (\<lambda>t.
     rbind (synonyms t l_idx) (\<lambda>s_leaves.
     rbind (pick_syn t p s_leaves key (length s_leaves)) (\<lambda>r.
       case choose_leaf r base of (ptr, cur) \<Rightarrow>
       case leaf_update cur key val of (cur', ok) \<Rightarrow>
       rbind (unlock_leaf t l_idx) (\<lambda>t. Inr (t, store p ptr cur', ok)))))"

definition lt_update ::
    "leaf_table \<Rightarrow> leaf_pool \<Rightarrow> u64 \<Rightarrow> u64 \<Rightarrow> int \<Rightarrow> int \<Rightarrow> (leaf_table \<times> leaf_pool \<times> bool) res" where
  "lt_update t p key val lo hi =
     rassert (in_table_int t hi)
       (rbind (locate t p key lo hi) (\<lambda>(i, base). update_synonym t p key val (nat i) base))"

section \<open>Insertion and removal\<close>

text \<open>Moving the upper half of a full leaf to a new one; the values stay behind as well.\<close>

fun move_half :: "nat \<Rightarrow> nat \<Rightarrow> nat \<Rightarrow> leaf \<times> leaf \<Rightarrow> leaf \<times> leaf" where
  "move_half mid i 0 st = st"
| "move_half mid i (Suc n) (n_leaf, cur) =
     move_half mid (Suc i) n
       (n_leaf\<lparr>keys := (keys n_leaf)[i := keys cur ! (mid + i)], vals := (vals n_leaf)[i := vals cur ! (mid + i)]\<rparr>,
        cur\<lparr>keys := (keys cur)[mid + i := invalidKey]\<rparr>)"

definition insert_synonym ::
    "leaf_table \<Rightarrow> leaf_pool \<Rightarrow> u64 \<Rightarrow> u64 \<Rightarrow> nat \<Rightarrow> u64 \<times> leaf \<Rightarrow> (leaf_table \<times> leaf_pool \<times> bool) res" where
  "insert_synonym t p key val l_idx base =
     rbind (vec_at (SynonymTable t) 0) (\<lambda>hd_te.
     if leaf_num hd_te = of_nat (kSynonymMax - 1) then Inr (t, p, False)
     else
     rbind (cs_lock t l_idx) (\<lambda>t.
     rbind (synonyms t l_idx) (\<lambda>s_leaves.
     rbind (pick_syn t p s_leaves key (length s_leaves)) (\<lambda>r.
     case choose_leaf r base of (ptr, cur) \<Rightarrow>
     if leaf_contain cur key then rbind (cs_unlock t l_idx) (\<lambda>t. Inr (t, p, False))
     else
     rbind
       (if isfull cur then
          rbind (vec_at (SynonymTable t) 0) (\<lambda>hd_te.
          if leaf_num hd_te = of_nat (kSynonymMax - 1)
          then rbind (cs_unlock t l_idx) (\<lambda>t. Inr (t, p, None))
          else
          rbind (fetch_new_leaf p) (\<lambda>(p, n_ptr, n_num).
          rbind (case r of None \<Rightarrow> synonym_emplace_back t True l_idx n_num 0 0
                 | Some (i, _) \<Rightarrow> synonym_emplace_back t False (unat (s_leaves ! i)) n_num 0 0) (\<lambda>(t, _).
          rbind (load p n_ptr) (\<lambda>n_leaf.
          case move_half (max_slot cur div 2) 0 (max_slot cur div 2) (n_leaf, cur) of (n_leaf, cur) \<Rightarrow>
          let p = store (store p ptr cur) n_ptr n_leaf in
          Inr (t, p, Some (if insertHere n_leaf key then (n_ptr, n_leaf) else (ptr, cur)))))))
        else Inr (t, p, Some (ptr, cur)))
     (\<lambda>(t, p, target). case target of None \<Rightarrow> Inr (t, p, False)
      | Some (ptr, cur) \<Rightarrow>
          rbind (insert_not_full cur key val) (\<lambda>(cur', _).
          rbind (cs_unlock t l_idx) (\<lambda>t. Inr (t, store p ptr cur', True))))))))"

definition lt_insert ::
    "leaf_table \<Rightarrow> leaf_pool \<Rightarrow> u64 \<Rightarrow> u64 \<Rightarrow> int \<Rightarrow> int \<Rightarrow> (leaf_table \<times> leaf_pool \<times> bool) res" where
  "lt_insert t p key val lo hi =
     rassert (in_table_int t hi \<and> hi \<ge> lo)
       (rbind (locate t p key lo hi) (\<lambda>(i, base). insert_synonym t p key val (nat i) base))"

definition remove_synonym ::
    "leaf_table \<Rightarrow> leaf_pool \<Rightarrow> u64 \<Rightarrow> nat \<Rightarrow> u64 \<times> leaf \<Rightarrow> (leaf_table \<times> leaf_pool \<times> bool) res" where
  "remove_synonym t p key l_idx base =
     rbind (lock_leaf t l_idx) (\<lambda>t.
     rbind (synonyms t l_idx) (\<lambda>s_leaves.
     rbind (pick_syn t p s_leaves key (length s_leaves)) (\<lambda>r.
       case choose_leaf r base of (ptr, cur) \<Rightarrow>
       rbind (leaf_remove cur key) (\<lambda>(cur', ok).
       let p = store p ptr cur' in
       rbind (if isEmpty cur'
              then (case r of Some (i, _) \<Rightarrow> synonym_table_remove t s_leaves l_idx i | None \<Rightarrow> Inr t)
              else Inr t) (\<lambda>t.
       rbind (unlock_leaf t l_idx) (\<lambda>t. Inr (t, p, ok)))))))"

definition lt_remove ::
    "leaf_table \<Rightarrow> leaf_pool \<Rightarrow> u64 \<Rightarrow> int \<Rightarrow> int \<Rightarrow> (leaf_table \<times> leaf_pool \<times> bool) res" where
  "lt_remove t p key lo hi =
     rassert (in_table_int t hi)
       (rbind (locate t p key lo hi) (\<lambda>(i, base). remove_synonym t p key (nat i) base))"

section \<open>Range reads\<close>

text \<open>\<open>while (vals.size() < n && idx < s_leaves.size())\<close>, over the leaves still to visit.\<close>

fun range_syn_loop ::
    "leaf_table \<Rightarrow> leaf_pool \<Rightarrow> u64 \<Rightarrow> i32 \<Rightarrow> u64 list \<Rightarrow> usize list \<Rightarrow> u64 list res" where
  "range_syn_loop t p key n vs [] = Inr vs"
| "range_syn_loop t p key n vs (s # ss) =
     (if length vs < vec_limit n
      then rbind (syn_leaf t p s) (\<lambda>(ptr, l). range_syn_loop t p key n (leaf_range l key n vs) ss)
      else Inr vs)"

definition range_synonym ::
    "leaf_table \<Rightarrow> leaf_pool \<Rightarrow> u64 \<Rightarrow> i32 \<Rightarrow> u64 list \<Rightarrow> nat \<Rightarrow> u64 \<times> leaf \<Rightarrow> u64 list res" where
  "range_synonym t p key n vs l_idx base =
     rbind (synonyms t l_idx) (\<lambda>s_leaves.
     rbind (pick_syn t p s_leaves key (length s_leaves)) (\<lambda>r.
       case choose_leaf r base of (ptr, cur) \<Rightarrow>
       range_syn_loop t p key n (leaf_range cur key n vs)
         (drop (case r of None \<Rightarrow> 0 | Some (i, _) \<Rightarrow> Suc i) s_leaves)))"

definition next_range :: "leaf_table \<Rightarrow> leaf_pool \<Rightarrow> u64 \<Rightarrow> i32 \<Rightarrow> u64 list \<Rightarrow> nat \<Rightarrow> u64 list res" where
  "next_range t p key n vs l_idx =
     rbind (synonyms t l_idx) (\<lambda>s_leaves. range_syn_loop t p key n vs s_leaves)"

text \<open>The first loop of \<open>range\<close>, which unlike \<open>locate\<close> tests the leaf of \<open>lo\<close> too.\<close>

function range_locate :: "leaf_table \<Rightarrow> leaf_pool \<Rightarrow> u64 \<Rightarrow> int \<Rightarrow> int \<Rightarrow> (int \<times> u64 \<times> leaf) option res" where
  "range_locate t p key lo i =
     (if i \<ge> lo then
        rbind (tbl_at t i) (\<lambda>e. rbind (te_leaf p e) (\<lambda>(ptr, l).
          if insertHere l key then Inr (Some (i, ptr, l)) else range_locate t p key lo (i - 1)))
      else Inr None)"
  by pat_completeness auto
termination
  by (relation "measure (\<lambda>(t, p, key, lo, i). nat (i + 1 - lo))") auto

declare range_locate.simps [simp del]

function range_table_loop :: "leaf_table \<Rightarrow> leaf_pool \<Rightarrow> u64 \<Rightarrow> i32 \<Rightarrow> u64 list \<Rightarrow> int \<Rightarrow> u64 list res" where
  "range_table_loop t p key n vs idx =
     (if in_table_int t idx \<and> length vs < vec_limit n then
        rbind (tbl_at t idx) (\<lambda>e. rbind (te_leaf p e) (\<lambda>(ptr, l).
          let vs = leaf_range l key n vs in
          if length vs \<ge> vec_limit n then Inr vs
          else rbind (next_range t p key n vs (nat idx)) (\<lambda>vs. range_table_loop t p key n vs (idx + 1))))
      else Inr vs)"
  by pat_completeness auto
termination
  by (relation "measure (\<lambda>(t, p, key, n, vs, idx). nat (int (length (table t)) - idx))")
     (auto simp: in_table_int_def)

declare range_table_loop.simps [simp del]

definition lt_range :: "leaf_table \<Rightarrow> leaf_pool \<Rightarrow> u64 \<Rightarrow> i32 \<Rightarrow> u64 list \<Rightarrow> int \<Rightarrow> int \<Rightarrow> u64 list res" where
  "lt_range t p key n vs lo hi =
     rassert (in_table_int t hi)
       (rbind (range_locate t p key lo hi) (\<lambda>r. case r of
          None \<Rightarrow> range_table_loop t p key n vs lo
        | Some (i, base) \<Rightarrow>
            rbind (range_synonym t p key n vs (nat i) base)
              (\<lambda>vs. range_table_loop t p key n vs (i + 1))))"

section \<open>Leaf addresses and serialization\<close>

text \<open>The loop variable of \<open>get_leaf_addr\<close> is an \<open>int\<close>, so indices stop below \<open>2 ^ 31 - 1\<close>.\<close>

definition get_leaf_addr :: "leaf_table \<Rightarrow> nat \<Rightarrow> nat \<Rightarrow> (nat \<times> te) list \<Rightarrow> (nat \<times> te) list res" where
  "get_leaf_addr t lo hi leaves =
     rassert (hi < length (table t))
       (if lo \<le> hi \<and> hi \<ge> 2 ^ 31 - 1 then Inl UB
        else Inr (leaves @ map (\<lambda>i. (i, table t ! i)) [lo..<Suc hi]))"

fun serialize_all :: "te list \<Rightarrow> bytes \<Rightarrow> bytes res" where
  "serialize_all [] res = Inr res"
| "serialize_all (e # es) res = rbind (serialize_to u64_pod (te_val e)) (\<lambda>b. serialize_all es (res @ b))"

definition lt_serialize :: "leaf_table \<Rightarrow> bytes res" where
  "lt_serialize t =
     rbind (serialize_to i32_pod (of_nat (length (table t)))) (\<lambda>b.
     rbind (serialize_all (table t) b) (\<lambda>b. serialize_all (SynonymTable t) b))"

definition te_pod :: "te pod" where
  "te_pod = iso_pod te_val val_te u64_pod"

fun deserialize_n :: "nat \<Rightarrow> nat \<Rightarrow> bytes \<Rightarrow> te list \<Rightarrow> (te list \<times> bytes) res" where
  "deserialize_n 0 sz cur_ptr es = Inr (es, cur_ptr)"
| "deserialize_n (Suc n) sz cur_ptr es =
     rbind (deserialize te_pod cur_ptr sz) (\<lambda>e. deserialize_n n sz (drop 8 cur_ptr) (es @ [e]))"

text \<open>The size check computes in \<open>u32\<close>, then \<open>u64\<close>; the loop over a negative size is empty.\<close>

definition lt_deserialize :: "leaf_table \<Rightarrow> bytes \<Rightarrow> leaf_table res" where
  "lt_deserialize t seria =
     rassert (length seria > 4 \<and> length (table t) = 0)
       (rbind (deserialize i32_pod seria (length seria)) (\<lambda>tsz.
        rassert (length seria \<ge> 4 + unat (tsz + of_nat kSynonymMax) * 8)
          (rbind (deserialize_n (nat (sint tsz)) (length seria) (drop 4 seria) []) (\<lambda>(es, cur_ptr).
           rbind (deserialize_n kSynonymMax (length seria) cur_ptr []) (\<lambda>(syn, _).
             Inr (t\<lparr>table := es, SynonymTable := syn\<rparr>))))))"

end
