(* ===== verification/Table_Entry.thy ===== *)
theory Table_Entry
  imports Leaf_Table
begin

text \<open>
  The packed table entries: the bit fields of \<open>TableEntry\<close> and its word are one another's
  image, \<open>decode\<close> inverts \<open>encode\<close>, and a serialized leaf table is read back entry by entry.
\<close>

lemma bit_push_1: "bit (push_bit 1 (w :: u64)) n \<longleftrightarrow> 1 \<le> n \<and> n < 64 \<and> bit w (n - 1)"
  by (simp only: bit_simps) auto

lemma bit_drop_1: "bit (drop_bit 1 (w :: u64)) n \<longleftrightarrow> bit w (1 + n)"
  by (simp only: bit_simps o_apply)

lemma val_te_te_val [simp]: "val_te (te_val e) = e"
proof -
  have "ucast (te_val e) = te_lock e"
    by (rule bit_word_eqI) (auto simp: te_val_def bit_or_iff bit_ucast_iff bit_push_1 bit_push_bit_iff
        simp del: push_bit_Suc One_nat_def)
  moreover have "ucast (drop_bit 1 (te_val e)) = leaf_region e"
    by (rule bit_word_eqI) (auto simp: te_val_def bit_or_iff bit_ucast_iff bit_push_1 bit_drop_1 bit_push_bit_iff
        dest: bit_imp_le_length simp del: push_bit_Suc One_nat_def)
  moreover have "ucast (drop_bit 8 (te_val e)) = synonym_leaf e"
    by (rule bit_word_eqI) (auto simp: te_val_def bit_or_iff bit_ucast_iff bit_push_1 bit_drop_bit_eq
        bit_push_bit_iff dest: bit_imp_le_length simp del: push_bit_Suc One_nat_def)
  moreover have "ucast (drop_bit 16 (te_val e)) = leaf_num e"
    by (rule bit_word_eqI) (auto simp: te_val_def bit_or_iff bit_ucast_iff bit_push_1 bit_drop_bit_eq
        bit_push_bit_iff dest: bit_imp_le_length simp del: push_bit_Suc One_nat_def)
  ultimately show ?thesis by (simp add: val_te_def del: One_nat_def)
qed

lemma te_val_val_te: "te_val (val_te v) = v"
proof (rule bit_word_eqI)
  fix n assume "n < LENGTH(64)"
  then show "bit (te_val (val_te v)) n = bit v n"
    by (cases "n = 0"; cases "n < 8"; cases "n < 16")
      (auto simp: te_val_def val_te_def bit_or_iff bit_ucast_iff bit_push_1 bit_drop_1 bit_drop_bit_eq
        bit_push_bit_iff simp del: push_bit_Suc One_nat_def)
qed

lemma te_codec: "pod_codec te_pod"
  unfolding te_pod_def by (rule pod_codec_iso [OF u64.pod_codec_axioms]) simp

interpretation te: pod_codec te_pod
  by (rule te_codec)

lemma size_te_pod [simp]: "size_of te_pod = 8"
  by (simp add: te_pod_def)

lemma to_bytes_te: "to_bytes te_pod e = to_bytes u64_pod (te_val e)"
  by (simp add: te_pod_def iso_pod_def)

section \<open>Serialized tables\<close>

definition te_bytes :: "te list \<Rightarrow> bytes" where
  "te_bytes es = concat (map (to_bytes te_pod) es)"

lemma length_te_bytes [simp]: "length (te_bytes es) = 8 * length es"
  by (induction es) (simp_all add: te_bytes_def te.len)

lemma serialize_all_ok: "serialize_all es res = Inr (res @ te_bytes es)"
  by (induction es arbitrary: res) (simp_all add: te_bytes_def u64.serialize_to_ok to_bytes_te)

lemma deserialize_n_ok:
  "8 \<le> sz \<Longrightarrow> deserialize_n (length es) sz (te_bytes es @ rest) acc = Inr (acc @ es, rest)"
proof (induction es arbitrary: acc)
  case (Cons e es)
  then show ?case by (simp add: te_bytes_def te.deserialize_ok te.len)
qed (simp add: te_bytes_def)

lemma lt_serialize_ok:
  "lt_serialize t = Inr (to_bytes i32_pod (of_nat (length (table t)))
     @ te_bytes (table t) @ te_bytes (SynonymTable t))"
  by (simp add: lt_serialize_def i32.serialize_to_ok serialize_all_ok)

lemma unat_add_i32: "n + m < 2 ^ 32 \<Longrightarrow> unat (of_nat n + of_nat m :: i32) = n + m"
  by (simp add: unat_of_nat take_bit_nat_eq_self flip: of_nat_add)

lemma lt_deserialize_ok:
  assumes "length (table t) < 2 ^ 31 - 128" "length (SynonymTable t) = 128"
  shows "lt_deserialize (LeafTable raw)
      (to_bytes i32_pod (of_nat (length (table t))) @ te_bytes (table t) @ te_bytes (SynonymTable t))
      = Inr \<lparr>table = table t, SynonymTable = SynonymTable t, csLocks = []\<rparr>"
proof -
  let ?n = "length (table t)"
  let ?b = "te_bytes (table t) @ te_bytes (SynonymTable t)"
  let ?bs = "to_bytes i32_pod (of_nat ?n) @ ?b"
  have s: "sint (of_nat ?n :: i32) = int ?n" using assms(1) by (intro sint_of_nat_i32) simp
  have u: "unat (of_nat ?n + of_nat kSynonymMax :: i32) = ?n + 128"
    using assms(1) by (subst unat_add_i32) (simp_all add: kSynonymMax_def)
  have len: "length ?bs = 4 + 8 * ?n + 8 * 128" using assms(2) by (simp add: i32.len)
  have "drop 4 ?bs = ?b" by (simp add: i32.len)
  moreover have "deserialize i32_pod ?bs (length ?bs) = Inr (of_nat ?n)"
    by (rule i32.deserialize_ok) (simp add: len i32.len)
  moreover have "deserialize_n ?n (length ?bs) ?b [] = Inr (table t, te_bytes (SynonymTable t))"
    using deserialize_n_ok [of "length ?bs" "table t" "te_bytes (SynonymTable t)" "[]"] len by simp
  moreover have "deserialize_n kSynonymMax (length ?bs) (te_bytes (SynonymTable t)) []
      = Inr (SynonymTable t, [])"
    using deserialize_n_ok [of "length ?bs" "SynonymTable t" "[]" "[]"] len assms(2)
    by (simp add: kSynonymMax_def)
  ultimately show ?thesis
    unfolding lt_deserialize_def using s u len by (simp add: LeafTable_def)
qed

text \<open>C8: deserializing a serialized leaf table into an empty one restores both tables, for
  every table the \<open>i32\<close> size header can describe; the spin locks of the entries are not
  restored, so the table comes back with none.\<close>

theorem leaf_table_roundtrip:
  assumes "length (table t) < 2 ^ 31 - 128" "length (SynonymTable t) = 128"
  shows "\<exists>bs. lt_serialize t = Inr bs \<and>
    lt_deserialize (LeafTable raw) bs
      = Inr \<lparr>table = table t, SynonymTable = SynonymTable t, csLocks = []\<rparr>"
  using lt_serialize_ok lt_deserialize_ok [OF assms] by blast

definition example_table :: leaf_table where
  "example_table = \<lparr>table = [mk_te 5 0 0, mk_te 9 0 3], SynonymTable = replicate 128 (mk_te 1 0 0),
                    csLocks = [0, 0]\<rparr>"

theorem leaf_table_roundtrip_witness:
  "\<exists>bs t'. lt_serialize example_table = Inr bs \<and> lt_deserialize (LeafTable []) bs = Inr t'
     \<and> table t' = [mk_te 5 0 0, mk_te 9 0 3]"
  using leaf_table_roundtrip [of example_table "[]"] by (auto simp: example_table_def)

section \<open>Encoded addresses\<close>

lemma kMasks: "kAddrMask = mask 56" "kLeafMask = mask 48" "kNonLock = mask 7"
  by (simp_all add: kAddrMask_def kLeafMask_def kNonLock_def bitmask_def kAddrBit_def kLeafBit_def
      mask_eq_exp_minus_1)

lemma nth_bytes_le: "i < n \<Longrightarrow> bytes_le n x ! i = of_nat (x div 256 ^ i mod 256)"
  by (induction n arbitrary: i x) (auto simp: nth_Cons' div_mult2_eq gr0_conv_Suc)

lemma nth_bytes_le_word:
  assumes "i < 8"
  shows "bytes_le 8 (unat (w :: u64)) ! i = ucast (drop_bit (8 * i) w)"
proof -
  have "x div 256 ^ i = drop_bit (8 * i) x" for x :: nat
    by (simp add: drop_bit_eq_div power_mult)
  moreover have "of_nat (x mod 256) = (of_nat x :: u8)" for x
    by (simp add: word_unat_eq_iff unat_of_nat take_bit_eq_mod)
  moreover have "take_bit 64 (unat w) = unat w"
    using unat_u64_less [of w] by (intro take_bit_nat_eq_self) simp
  moreover have "x mod 256 = take_bit 8 x" for x :: nat by (simp add: take_bit_eq_mod)
  ultimately show ?thesis
    by (simp add: nth_bytes_le assms unsigned_drop_bit_eq word_unat_eq_iff unat_of_nat unsigned_ucast_eq)
qed

text \<open>C9: \<open>decode\<close> returns the three fields \<open>encode\<close> packed, for leaf numbers of at most 48
  bits; \<open>encode\<close> also accepts leaf numbers of 56 bits, whose upper byte it mixes into the
  synonym field.\<close>

theorem decode_encode:
  assumes "num < 2 ^ 56" "region < 2 ^ 7"
  shows "\<exists>e. encode num syn region = Inr e \<and>
    decode e = (num AND mask 48, syn OR ucast (drop_bit 48 num), region)"
proof -
  let ?e = "push_bit 56 (ucast region) OR push_bit 48 (ucast syn) OR (num AND mask 56) :: u64"
  have r: "n < 7" if "bit region n" for n
  proof (rule ccontr)
    assume "\<not> n < 7"
    then have "(2::nat) ^ 7 \<le> 2 ^ n" by (intro power_increasing) auto
    moreover have "unat region < 2 ^ 7" using assms(2) by (simp add: word_less_nat_alt)
    ultimately have "unat region div 2 ^ n = 0" by simp
    moreover have "bit (unat region) n" using that by (simp add: bit_unsigned_iff)
    ultimately show False by (simp add: bit_iff_odd)
  qed
  have "?e AND mask 48 = num AND mask 48"
    by (rule bit_word_eqI) (auto simp: bit_simps)
  moreover have "ucast (drop_bit 48 ?e) = syn OR ucast (drop_bit 48 num)"
    by (rule bit_word_eqI) (auto simp: bit_simps dest: bit_imp_le_length)
  moreover have "ucast (drop_bit 56 ?e) AND mask 7 = region"
    by (rule bit_word_eqI) (auto simp: bit_simps dest: r bit_imp_le_length)
  moreover have "encode num syn region = Inr ?e"
    using assms by (simp add: encode_def kMasks kAddrBit_def kLeafBit_def push_bit_eq_mult or.assoc)
  ultimately show ?thesis
    by (simp add: decode_def kMasks nth_bytes_le_word)
qed

theorem decode_encode_witness:
  "(\<exists>e. encode 1000 3 5 = Inr e \<and> decode e = (1000, 3, 5))
     \<and> (\<exists>e. encode (2 ^ 50 + 7) 3 5 = Inr e \<and> decode e = (7, 7, 5))"
proof -
  have "(1000 :: u64) AND mask 48 = 1000" "(2 ^ 50 + 7 :: u64) AND mask 48 = 7" by code_simp+
  then show ?thesis using decode_encode [of 1000 5 3] decode_encode [of "2 ^ 50 + 7" 5 3] by simp
qed

end
