(* ===== verification/Page_Chain.thy ===== *)
theory Page_Chain
  imports Leaf
begin

text \<open>
  Chains of ordered pages. A leaf with its synonym leaves, and a leaf table with its groups of
  leaves, are both a sequence of pages over adjacent key ranges, searched from the back for
  the first page whose first key is not above the key sought. The locale \<open>ordered_page\<close> is
  the contract of one page (its entries are sorted, its test \<open>here\<close> compares with the first
  entry); the lemmas, proved once inside it, say that the chosen page is the only one the key
  can be in and that changing the page changes the whole chain's entries accordingly. It is
  interpreted on the leaf here and on the groups of the leaf table in \<^theory_text>\<open>Table_Correct\<close>.
\<close>

locale ordered_page =
  fixes page_inv :: "'p \<Rightarrow> bool"
    and ents :: "'p \<Rightarrow> entry list"
    and here :: "'p \<Rightarrow> u64 \<Rightarrow> bool"
    and key_ok :: "u64 \<Rightarrow> bool"
  assumes ents_sorted: "page_inv q \<Longrightarrow> al_sorted (ents q)"
    and here_iff: "page_inv q \<Longrightarrow> key_ok k \<Longrightarrow> here q k \<longleftrightarrow> ents q \<noteq> [] \<and> fst (hd (ents q)) \<le> k"
begin

definition flat :: "'p list \<Rightarrow> entry list" where
  "flat ps = concat (map ents ps)"

text \<open>The page picked from the back, by the number of pages still to look at.\<close>

fun pick :: "'p list \<Rightarrow> u64 \<Rightarrow> nat \<Rightarrow> nat option" where
  "pick ps k 0 = None"
| "pick ps k (Suc i) = (if here (ps ! i) k then Some i else pick ps k i)"

definition chain_inv :: "'p list \<Rightarrow> bool" where
  "chain_inv ps \<longleftrightarrow> (\<forall>q \<in> set ps. page_inv q) \<and> al_sorted (flat ps)"

lemma flat_simps [simp]: "flat [] = []" "flat (q # ps) = ents q @ flat ps" "flat (ps @ qs) = flat ps @ flat qs"
  by (simp_all add: flat_def)

lemma chain_inv_simps [simp]:
  "chain_inv []"
  "chain_inv (q # ps) \<longleftrightarrow> page_inv q \<and> chain_inv ps \<and> (\<forall>x \<in> set (ents q). \<forall>y \<in> set (flat ps). fst x < fst y)"
  using ents_sorted by (auto simp: chain_inv_def al_sorted_append)

lemma chain_inv_append:
  "chain_inv (ps @ qs) \<longleftrightarrow> chain_inv ps \<and> chain_inv qs \<and> (\<forall>x \<in> set (flat ps). \<forall>y \<in> set (flat qs). fst x < fst y)"
  by (auto simp: chain_inv_def al_sorted_append)

lemma pick_Some: "pick ps k n = Some i \<Longrightarrow> i < n \<and> here (ps ! i) k \<and> (\<forall>j. i < j \<and> j < n \<longrightarrow> \<not> here (ps ! j) k)"
  by (induction n) (auto split: if_splits simp: less_Suc_eq)

lemma pick_None: "pick ps k n = None \<longleftrightarrow> (\<forall>j < n. \<not> here (ps ! j) k)"
  by (induction n) (auto simp: less_Suc_eq)

text \<open>A page that does not take the key holds larger keys only.\<close>

lemma not_here_above:
  "page_inv q \<Longrightarrow> key_ok k \<Longrightarrow> \<not> here q k \<Longrightarrow> e \<in> set (ents q) \<Longrightarrow> k < fst e"
  using ents_sorted [of q] here_iff [of q k] by (cases "ents q") auto

lemma flat_not_here_above:
  assumes "\<forall>q \<in> set ps. page_inv q" "key_ok k" "\<forall>q \<in> set ps. \<not> here q k" "e \<in> set (flat ps)"
  shows "k < fst e"
proof -
  from assms(4) obtain q where "q \<in> set ps" "e \<in> set (ents q)" by (auto simp: flat_def)
  with assms(1-3) show ?thesis by (blast intro: not_here_above)
qed

lemma here_nonempty: "page_inv q \<Longrightarrow> key_ok k \<Longrightarrow> here q k \<Longrightarrow> \<exists>e \<in> set (ents q). fst e \<le> k"
  using here_iff by (metis list.set_sel(1))

text \<open>
  The chain around the chosen page: smaller keys before it, larger keys after it. For a key
  no later page takes, the chosen page is the first one and nothing lies before it.
\<close>

lemma chosen_split:
  assumes "chain_inv (ps @ q # qs)" "key_ok k" "ps = [] \<or> here q k" "\<forall>r \<in> set qs. \<not> here r k"
  shows "\<forall>e \<in> set (flat ps). fst e < k" "\<forall>e \<in> set (flat qs). k < fst e"
proof -
  have inv: "page_inv q" "\<forall>r \<in> set qs. page_inv r" using assms(1) by (auto simp: chain_inv_def)
  show "\<forall>e \<in> set (flat qs). k < fst e"
    using flat_not_here_above [OF inv(2) assms(2,4)] by blast
  show "\<forall>e \<in> set (flat ps). fst e < k"
  proof (cases "ps = []")
    case False
    then obtain x where "x \<in> set (ents q)" "fst x \<le> k"
      using here_nonempty inv(1) assms(2,3) by blast
    moreover have "\<forall>e \<in> set (flat ps). \<forall>y \<in> set (ents q). fst e < fst y"
      using assms(1) by (auto simp: chain_inv_append)
    ultimately show ?thesis by (blast intro: less_le_trans)
  qed simp
qed

lemma flat_lookup:
  assumes "chain_inv (ps @ q # qs)" "key_ok k" "ps = [] \<or> here q k" "\<forall>r \<in> set qs. \<not> here r k"
  shows "map_of (flat (ps @ q # qs)) k = map_of (ents q) k"
proof -
  have "k \<notin> fst ` set (flat ps)" "k \<notin> fst ` set (flat qs)" using chosen_split [OF assms] by auto
  then show ?thesis by (simp add: map_of_append_disjoint del: map_of_append)
qed

lemma flat_mem:
  assumes "chain_inv (ps @ q # qs)" "key_ok k" "ps = [] \<or> here q k" "\<forall>r \<in> set qs. \<not> here r k"
  shows "k \<in> fst ` set (flat (ps @ q # qs)) \<longleftrightarrow> k \<in> fst ` set (ents q)"
  using chosen_split [OF assms] by auto

lemma flat_ins:
  assumes "chain_inv (ps @ q # qs)" "key_ok k" "ps = [] \<or> here q k" "\<forall>r \<in> set qs. \<not> here r k"
  shows "ins_entry k v (flat (ps @ q # qs)) = flat ps @ ins_entry k v (ents q) @ flat qs"
  using chosen_split [OF assms] by (simp add: ins_entry_append_left ins_entry_append_right)

lemma flat_upd:
  assumes "chain_inv (ps @ q # qs)" "key_ok k" "ps = [] \<or> here q k" "\<forall>r \<in> set qs. \<not> here r k"
  shows "upd_entry k v (flat (ps @ q # qs)) = flat ps @ upd_entry k v (ents q) @ flat qs"
proof -
  have "k \<notin> fst ` set (flat ps)" "k \<notin> fst ` set (flat qs)" using chosen_split [OF assms] by auto
  then show ?thesis by (simp add: upd_entry_append upd_entry_idle)
qed

lemma flat_del:
  assumes "chain_inv (ps @ q # qs)" "key_ok k" "ps = [] \<or> here q k" "\<forall>r \<in> set qs. \<not> here r k"
  shows "del_entry k (flat (ps @ q # qs)) = flat ps @ del_entry k (ents q) @ flat qs"
proof -
  have "k \<notin> fst ` set (flat ps)" "k \<notin> fst ` set (flat qs)" using chosen_split [OF assms] by auto
  then show ?thesis by (simp add: del_entry_append del_entry_idle)
qed

lemma flat_from_key:
  assumes "chain_inv (ps @ q # qs)" "key_ok k" "ps = [] \<or> here q k" "\<forall>r \<in> set qs. \<not> here r k"
  shows "from_key k (flat (ps @ q # qs)) = from_key k (ents q) @ map snd (flat qs)"
  using chosen_split [OF assms]
  by (simp add: from_key_append from_key_below from_key_above less_imp_le)

text \<open>Any operation that replaces the entries of the whole chain by a sorted list keeps the
  chain well-formed, provided the new pages are.\<close>

lemma chain_inv_replace:
  "chain_inv (ps @ qs @ rs) \<Longrightarrow> (\<forall>q \<in> set qs'. page_inv q) \<Longrightarrow> al_sorted (flat (ps @ qs' @ rs))
     \<Longrightarrow> chain_inv (ps @ qs' @ rs)"
  by (auto simp: chain_inv_def)

text \<open>Splitting a page in two: a chosen position decides which half takes the key.\<close>

lemma split_insert:
  assumes "al_sorted es" "m < length es" "k \<notin> fst ` set es"
  shows "ins_entry k v es =
    (if fst (hd (drop m es)) \<le> k then take m es @ ins_entry k v (drop m es)
     else ins_entry k v (take m es) @ drop m es)"
proof -
  have es: "es = take m es @ drop m es" by simp
  have s: "al_sorted (take m es)" "al_sorted (drop m es)"
    "\<forall>x \<in> set (take m es). \<forall>y \<in> set (drop m es). fst x < fst y"
    using assms(1) es al_sorted_append [of "take m es" "drop m es"] by auto
  obtain d ds where d: "drop m es = d # ds" using assms(2) by (cases "drop m es") auto
  show ?thesis
  proof (cases "fst d \<le> k")
    case True
    then have "\<forall>x \<in> set (take m es). fst x < k" using s(3) d by (auto intro: less_le_trans)
    then show ?thesis using True d by (subst es) (simp add: ins_entry_append_left del: append_take_drop_id)
  next
    case False
    then have "\<forall>y \<in> set (drop m es). k < fst y" using s(2) d by auto
    then show ?thesis using False d by (subst es) (simp add: ins_entry_append_right del: append_take_drop_id)
  qed
qed

end

text \<open>The leaf is such a page, for every key but the marker of free slots.\<close>

lemma insertHere_page:
  "leaf_inv l \<Longrightarrow> k \<noteq> invalidKey \<Longrightarrow> insertHere l k \<longleftrightarrow> entries l \<noteq> [] \<and> fst (hd (entries l)) \<le> k"
  using insertHere_iff insertHere_empty by blast

interpretation leaf_page: ordered_page leaf_inv entries insertHere "\<lambda>k. k \<noteq> invalidKey"
  by unfold_locales (use al_sorted_entries insertHere_page in auto)

end
