(* ===== verification/Table_Rep.thy ===== *)
theory Table_Rep
  imports Table_Entry Page_Chain
begin

text \<open>
  The representation invariant of a leaf table. Entry \<open>i\<close> of the table owns a group of leaves:
  its trained leaf and the leaves of its synonym chain. \<open>table_rep\<close> says, for given chains,
  that the walks follow them, that no synonym index and no leaf is used twice, that every leaf
  was handed out by the pool and that the leaves of a group form a sorted chain of pages
  (\<^theory_text>\<open>ordered_page\<close>). It is kept by the three changes the operations are made of: storing
  a leaf, linking a new leaf into a chain and unlinking one.
\<close>

section \<open>Chains\<close>

fun chain_of :: "te list \<Rightarrow> nat \<Rightarrow> nat list \<Rightarrow> bool" where
  "chain_of syn s [] \<longleftrightarrow> s = 0"
| "chain_of syn s (x # xs) \<longleftrightarrow> s = x \<and> 0 < x \<and> x < 128 \<and> chain_of syn (unat (synonym_leaf (syn ! x))) xs"

fun chain_fuel :: "te list \<Rightarrow> nat \<Rightarrow> nat \<Rightarrow> nat list" where
  "chain_fuel syn 0 s = []"
| "chain_fuel syn (Suc n) s = (if s = 0 then [] else s # chain_fuel syn n (unat (synonym_leaf (syn ! s))))"

lemma chain_of_0 [simp]: "chain_of syn 0 ss \<longleftrightarrow> ss = []"
  by (cases ss) auto

lemma chain_fuel_eq: "chain_of syn s ss \<Longrightarrow> length ss \<le> n \<Longrightarrow> chain_fuel syn n s = ss"
proof (induction ss arbitrary: s n)
  case Nil
  then show ?case by (cases n) auto
next
  case (Cons x xs)
  then show ?case by (cases n) auto
qed

lemma chain_of_range: "chain_of syn s ss \<Longrightarrow> x \<in> set ss \<Longrightarrow> 0 < x \<and> x < 128"
  by (induction ss arbitrary: s) auto

lemma chain_of_cong:
  "(\<And>x. x \<in> set ss \<Longrightarrow> synonym_leaf (syn' ! x) = synonym_leaf (syn ! x)) \<Longrightarrow>
     chain_of syn' s ss = chain_of syn s ss"
  by (induction ss arbitrary: s) auto

text \<open>Linking a fresh index \<open>f\<close> behind the head of a chain, or behind \<open>x\<close> in it.\<close>

lemma chain_of_link_head:
  assumes "chain_of syn s ss" "f \<notin> set ss" "0 < f" "f < 128" "unat (synonym_leaf e) = s" "length syn = 128"
  shows "chain_of (syn[f := e]) f (f # ss)"
  using assms by (simp, subst chain_of_cong [of ss _ syn]) (auto simp: nth_list_update)

lemma chain_of_link:
  assumes "chain_of syn s (as @ x # bs)" "distinct (as @ x # bs)" "f \<notin> set (as @ x # bs)"
    "0 < f" "f < 128" "synonym_leaf e = synonym_leaf (syn ! x)" "length syn = 128"
  shows "chain_of ((set_synonym syn x (of_nat f))[f := e]) s (as @ x # f # bs)"
  using assms
proof (induction as arbitrary: s)
  case Nil
  then have "unat (of_nat f :: u8) = f" by (simp add: unat_of_nat take_bit_nat_eq_self)
  moreover have "chain_of ((set_synonym syn x (of_nat f))[f := e]) t bs = chain_of syn t bs" for t
    using Nil by (intro chain_of_cong) (auto simp: set_synonym_def nth_list_update)
  ultimately show ?case using Nil by (auto simp: set_synonym_def nth_list_update)
next
  case (Cons a as)
  then have "a \<noteq> x" "a \<noteq> f" by auto
  with Cons show ?case by (auto simp: set_synonym_def nth_list_update)
qed

lemma chain_of_unlink:
  assumes "chain_of syn s (as @ x # y # bs)" "distinct (as @ x # y # bs)" "length syn = 128"
  shows "chain_of (set_synonym syn x (synonym_leaf (syn ! y))) s (as @ x # bs)"
  using assms
proof (induction as arbitrary: s)
  case Nil
  then have "chain_of (set_synonym syn x (synonym_leaf (syn ! y))) t bs = chain_of syn t bs" for t
    by (intro chain_of_cong) (auto simp: set_synonym_def nth_list_update)
  with Nil show ?case by (auto simp: set_synonym_def)
next
  case (Cons a as)
  then have "a \<noteq> x" by auto
  with Cons show ?case by (auto simp: set_synonym_def nth_list_update)
qed

lemma syn_walk_chain:
  "chain_of syn (unat s) ss \<Longrightarrow> length syn = 128 \<Longrightarrow>
     syn_walk syn s acc = Some (Inr (acc @ map of_nat ss))"
proof (induction ss arbitrary: s acc)
  case Nil
  then have "s = 0" by (simp add: unat_eq_0)
  then show ?case by (subst syn_walk.simps) simp
next
  case (Cons x xs)
  let ?t = "synonym_leaf (syn ! x)"
  have x: "unat s = x" "s = of_nat x" "x < 128" "s \<noteq> 0" using Cons.prems(1) by auto
  have "chain_of syn (unat (ucast ?t :: u32)) xs" using Cons.prems(1) by simp
  from Cons.IH [OF this Cons.prems(2)] show ?case
    using x Cons.prems(2) by (subst syn_walk.simps) simp
qed

section \<open>Groups of leaves\<close>

definition base_num :: "leaf_table \<Rightarrow> nat \<Rightarrow> u64" where
  "base_num t i = ucast (leaf_num (table t ! i))"

definition syn_num :: "leaf_table \<Rightarrow> nat \<Rightarrow> u64" where
  "syn_num t s = ucast (leaf_num (SynonymTable t ! s))"

definition next_syn :: "leaf_table \<Rightarrow> nat" where
  "next_syn t = unat (leaf_num (SynonymTable t ! 0))"

definition group_of :: "leaf_table \<Rightarrow> nat list \<Rightarrow> nat \<Rightarrow> u64 list" where
  "group_of t ss i = base_num t i # map (syn_num t) ss"

abbreviation pages :: "leaf_pool \<Rightarrow> u64 list \<Rightarrow> leaf list" where
  "pages p ns \<equiv> map (leaf_of p) ns"

definition chain :: "leaf_table \<Rightarrow> nat \<Rightarrow> nat list" where
  "chain t i = chain_fuel (SynonymTable t) 128 (unat (synonym_leaf (table t ! i)))"

definition group_entries :: "leaf_pool \<Rightarrow> leaf_table \<Rightarrow> nat \<Rightarrow> entry list" where
  "group_entries p t i = concat (map entries (pages p (group_of t (chain t i) i)))"

definition table_rep :: "nat \<Rightarrow> leaf_pool \<Rightarrow> leaf_table \<Rightarrow> (nat \<Rightarrow> nat list) \<Rightarrow> bool" where
  "table_rep N p t G \<longleftrightarrow> pool_inv N p \<and> even N \<and> 2 \<le> N \<and> alloc_hdr p \<le> 2 ^ 48
     \<and> length (SynonymTable t) = 128 \<and> length (csLocks t) = length (table t)
     \<and> 1 \<le> next_syn t \<and> next_syn t \<le> 127
     \<and> (\<forall>i < length (table t). chain_of (SynonymTable t) (unat (synonym_leaf (table t ! i))) (G i)
          \<and> distinct (G i) \<and> set (G i) \<subseteq> {..<next_syn t}
          \<and> distinct (group_of t (G i) i) \<and> (\<forall>m \<in> set (group_of t (G i) i). m < used_hdr p)
          \<and> leaf_page.chain_inv (pages p (group_of t (G i) i)))
     \<and> (\<forall>i < length (table t). \<forall>j < i. set (G i) \<inter> set (G j) = {}
          \<and> set (group_of t (G i) i) \<inter> set (group_of t (G j) j) = {})"

text \<open>The invariant in executable form, over the chains as they are found in the table.\<close>

definition table_inv :: "nat \<Rightarrow> leaf_pool \<Rightarrow> leaf_table \<Rightarrow> bool" where
  "table_inv N p t \<longleftrightarrow> table_rep N p t (chain t)"

lemma table_repD:
  assumes "table_rep N p t G"
  shows "pool_inv N p" "even N" "2 \<le> N" "length (SynonymTable t) = 128" "length (csLocks t) = length (table t)"
    "1 \<le> next_syn t" "next_syn t \<le> 127" "alloc_hdr p \<le> 2 ^ 48"
  using assms by (auto simp: table_rep_def)

lemma table_rep_group:
  assumes "table_rep N p t G" "i < length (table t)"
  shows "chain_of (SynonymTable t) (unat (synonym_leaf (table t ! i))) (G i)" "distinct (G i)"
    "set (G i) \<subseteq> {..<next_syn t}" "distinct (group_of t (G i) i)"
    "\<And>m. m \<in> set (group_of t (G i) i) \<Longrightarrow> m < used_hdr p"
    "leaf_page.chain_inv (pages p (group_of t (G i) i))"
  using assms by (auto simp: table_rep_def)

lemma table_rep_disjoint:
  assumes "table_rep N p t G" "i < length (table t)" "j < length (table t)" "i \<noteq> j"
  shows "set (G i) \<inter> set (G j) = {}" "set (group_of t (G i) i) \<inter> set (group_of t (G j) j) = {}"
  using assms unfolding table_rep_def by (metis inf_commute nat_neq_iff)+

lemma table_rep_chain:
  assumes "table_rep N p t G" "i < length (table t)"
  shows "chain t i = G i"
proof -
  have "card (set (G i)) \<le> card {..<128::nat}"
    using chain_of_range [OF table_rep_group(1) [OF assms]] by (intro card_mono) auto
  then have "length (G i) \<le> 128" using table_rep_group(2) [OF assms] by (simp add: distinct_card)
  then show ?thesis using table_rep_group(1) [OF assms] by (simp add: chain_def chain_fuel_eq)
qed

lemma group_entries_eq:
  "table_rep N p t G \<Longrightarrow> i < length (table t) \<Longrightarrow>
     group_entries p t i = leaf_page.flat (pages p (group_of t (G i) i))"
  by (simp add: group_entries_def table_rep_chain leaf_page.flat_def)

lemma table_rep_inv: "table_rep N p t G \<Longrightarrow> table_inv N p t"
proof -
  assume rep: "table_rep N p t G"
  then have "chain t i = G i" if "i < length (table t)" for i using table_rep_chain that by blast
  then show ?thesis using rep unfolding table_inv_def table_rep_def by simp
qed

lemma used_le_alloc: "pool_inv N p \<Longrightarrow> m < used_hdr p \<Longrightarrow> m < alloc_hdr p"
  by (auto simp: pool_inv_def)

section \<open>Reading through the table\<close>

lemma te_leaf_ok:
  assumes "pool_inv N p" "ucast (leaf_num e) < used_hdr p"
  shows "te_leaf p e = Inr (slot_off p (ucast (leaf_num e)), leaf_of p (ucast (leaf_num e)))"
  using assms used_le_alloc [OF assms] by (simp add: te_leaf_def get_leaf_def used_num_def load_leaf less_imp_le)

lemma synonyms_ok:
  assumes "table_rep N p t G" "i < length (table t)"
  shows "synonyms t i = Inr (map of_nat (G i))"
proof -
  have "syn_walk (SynonymTable t) (ucast (synonym_leaf (table t ! i))) [] = Some (Inr (map of_nat (G i)))"
    using syn_walk_chain [where s = "ucast (synonym_leaf (table t ! i))" and acc = "[]"]
      table_rep_group(1) [OF assms] table_repD(4) [OF assms(1)] by simp
  then show ?thesis using assms(2) by (simp add: synonyms_def)
qed

lemma unat_of_nat_u32: "n < 128 \<Longrightarrow> unat (of_nat n :: u32) = n"
  by (simp add: unat_of_nat take_bit_nat_eq_self)

lemma syn_leaf_ok:
  assumes rep: "table_rep N p t G" "i < length (table t)" and s: "s \<in> set (G i)"
  shows "syn_leaf t p (of_nat s) = Inr (slot_off p (syn_num t s), leaf_of p (syn_num t s))"
proof -
  have "s < 128" using chain_of_range [OF table_rep_group(1) [OF rep] s] by simp
  moreover have "syn_num t s < used_hdr p"
    using table_rep_group(5) [OF rep] s by (simp add: group_of_def)
  ultimately show ?thesis
    using table_repD(1,4) [OF rep(1)] te_leaf_ok [of N p "SynonymTable t ! s"]
    by (simp add: syn_leaf_def unat_of_nat_u32 syn_num_def)
qed

lemma pick_syn_ok:
  assumes rep: "table_rep N p t G" "i < length (table t)" and "n \<le> length (G i)"
  shows "pick_syn t p (map of_nat (G i)) k n =
    Inr (map_option (\<lambda>j. (j, slot_off p (syn_num t (G i ! j)), leaf_of p (syn_num t (G i ! j))))
      (leaf_page.pick (pages p (map (syn_num t) (G i))) k n))"
  using assms(3) by (induction n) (auto simp: syn_leaf_ok [OF rep])

text \<open>The leaf the operations choose in a group, and where it lies in the chain.\<close>

lemma choose_ok:
  assumes rep: "table_rep N p t G" "i < length (table t)"
  obtains as m bs r where
    "pick_syn t p (map of_nat (G i)) k (length (G i)) = Inr r"
    "group_of t (G i) i = as @ m # bs"
    "choose_leaf r (slot_off p (base_num t i), leaf_of p (base_num t i)) = (slot_off p m, leaf_of p m)"
    "as = [] \<or> insertHere (leaf_of p m) k" "\<forall>b \<in> set bs. \<not> insertHere (leaf_of p b) k"
    "case r of None \<Rightarrow> as = [] | Some (j, _) \<Rightarrow> j < length (G i) \<and> length as = Suc j"
proof -
  let ?ms = "map (syn_num t) (G i)"
  let ?pk = "leaf_page.pick (pages p ?ms) k (length (G i))"
  note ev = pick_syn_ok [OF rep order_refl, of k]
  show ?thesis
  proof (cases ?pk)
    case None
    then have "\<forall>b \<in> set ?ms. \<not> insertHere (leaf_of p b) k"
      by (auto simp: leaf_page.pick_None in_set_conv_nth)
    then show ?thesis
      using that [of None "[]" "base_num t i" ?ms] ev None by (simp add: choose_leaf_def group_of_def)
  next
    case (Some j)
    then have j: "j < length (G i)" "insertHere (leaf_of p (?ms ! j)) k"
      "\<And>l. j < l \<Longrightarrow> l < length (G i) \<Longrightarrow> \<not> insertHere (leaf_of p (?ms ! l)) k"
      using leaf_page.pick_Some [OF Some] by auto
    have "?ms = take j ?ms @ ?ms ! j # drop (Suc j) ?ms"
      using j(1) by (intro id_take_nth_drop) simp
    then have "group_of t (G i) i = (base_num t i # take j ?ms) @ ?ms ! j # drop (Suc j) ?ms"
      by (simp add: group_of_def)
    moreover have "\<forall>b \<in> set (drop (Suc j) ?ms). \<not> insertHere (leaf_of p b) k"
      using j(3) by (auto simp: in_set_conv_nth)
    ultimately show ?thesis
      using that [of "Some (j, slot_off p (?ms ! j), leaf_of p (?ms ! j))" "base_num t i # take j ?ms"
          "?ms ! j" "drop (Suc j) ?ms"] ev Some j by (simp add: choose_leaf_def)
  qed
qed

text \<open>The entry of the table an operation goes to.\<close>

definition located :: "leaf_pool \<Rightarrow> leaf_table \<Rightarrow> u64 \<Rightarrow> nat \<Rightarrow> nat \<Rightarrow> nat" where
  "located p t k lo hi =
     (case find (\<lambda>i. insertHere (leaf_of p (base_num t i)) k) (rev [Suc lo..<Suc hi]) of
        Some i \<Rightarrow> i | None \<Rightarrow> lo)"

lemma located_Suc:
  "lo \<le> hi \<Longrightarrow> located p t k lo (Suc hi) =
     (if insertHere (leaf_of p (base_num t (Suc hi))) k then Suc hi else located p t k lo hi)"
  by (simp add: located_def)

lemma located_self [simp]: "located p t k lo lo = lo"
  by (simp add: located_def)

lemma located_range: "lo \<le> hi \<Longrightarrow> lo \<le> located p t k lo hi \<and> located p t k lo hi \<le> hi"
  by (induction hi rule: dec_induct) (auto simp: located_Suc)

lemma located_here:
  "lo \<le> hi \<Longrightarrow> located p t k lo hi \<noteq> lo \<Longrightarrow> insertHere (leaf_of p (base_num t (located p t k lo hi))) k"
  by (induction hi rule: dec_induct) (auto simp: located_Suc split: if_splits)

lemma located_above:
  "lo \<le> hi \<Longrightarrow> located p t k lo hi < i \<Longrightarrow> i \<le> hi \<Longrightarrow> \<not> insertHere (leaf_of p (base_num t i)) k"
  by (induction hi rule: dec_induct) (auto simp: located_Suc le_Suc_eq split: if_splits)

lemma base_ok:
  assumes rep: "table_rep N p t G" "i < length (table t)"
  shows "tbl_at t (int i) = Inr (table t ! i)"
    "te_leaf p (table t ! i) = Inr (slot_off p (base_num t i), leaf_of p (base_num t i))"
proof -
  have "base_num t i < used_hdr p" using table_rep_group(5) [OF rep] by (simp add: group_of_def)
  then show "te_leaf p (table t ! i) = Inr (slot_off p (base_num t i), leaf_of p (base_num t i))"
    using te_leaf_ok [OF table_repD(1) [OF rep(1)]] by (simp add: base_num_def)
qed (simp add: tbl_at_def assms(2))

lemma locate_ok:
  assumes "table_rep N p t G" "lo \<le> hi" "hi < length (table t)"
  shows "locate t p k (int lo) (int hi) =
     Inr (int (located p t k lo hi), slot_off p (base_num t (located p t k lo hi)),
          leaf_of p (base_num t (located p t k lo hi)))"
  using assms(2,3)
proof (induction hi rule: dec_induct)
  case base
  then show ?case by (subst locate.simps) (simp add: base_ok [OF assms(1)])
next
  case (step hi)
  have "int (Suc hi) - 1 = int hi" by simp
  with step show ?case
    by (subst locate.simps) (simp add: base_ok [OF assms(1), of "Suc hi", simplified] located_Suc)
qed

section \<open>Changing a table\<close>

lemma leaf_of_store_list:
  assumes "pool_inv N p" "m < used_hdr p" "\<forall>x \<in> set ns. x < used_hdr p" "m \<notin> set ns"
  shows "pages (store p (slot_off p m) l) ns = pages p ns"
  using assms by (auto intro!: leaf_of_store_other used_le_alloc)

lemma table_rep_store:
  assumes rep: "table_rep N p t G" "j < length (table t)"
    and grp: "group_of t (G j) j = as @ m # bs"
    and l: "leaf_inv l" "max_slot l = N" "leaf_page.chain_inv (pages p as @ l # pages p bs)"
  shows "table_rep N (store p (slot_off p m) l) t G"
    and "pages (store p (slot_off p m) l) (group_of t (G j) j) = pages p as @ l # pages p bs"
    and "i < length (table t) \<Longrightarrow> i \<noteq> j \<Longrightarrow>
           pages (store p (slot_off p m) l) (group_of t (G i) i) = pages p (group_of t (G i) i)"
proof -
  let ?p = "store p (slot_off p m) l"
  note pool = table_repD(1) [OF rep(1)]
  have used: "\<forall>x \<in> set (as @ m # bs). x < used_hdr p" and d: "distinct (as @ m # bs)"
    using table_rep_group(4,5) [OF rep] grp by auto
  then have m: "m < used_hdr p" by simp
  show own: "pages ?p (group_of t (G j) j) = pages p as @ l # pages p bs"
    using leaf_of_store_list [OF pool m, of as l] leaf_of_store_list [OF pool m, of bs l] used d
    unfolding grp by simp
  have other: "pages ?p (group_of t (G i) i) = pages p (group_of t (G i) i)"
    if "i < length (table t)" "i \<noteq> j" for i
  proof (rule leaf_of_store_list [OF pool m])
    show "\<forall>x \<in> set (group_of t (G i) i). x < used_hdr p" using table_rep_group(5) [OF rep(1) that(1)] by blast
    have "m \<in> set (group_of t (G j) j)" by (simp add: grp)
    then show "m \<notin> set (group_of t (G i) i)"
      using table_rep_disjoint(2) [OF rep(1) that(1) rep(2) that(2)] by blast
  qed
  then show "i < length (table t) \<Longrightarrow> i \<noteq> j \<Longrightarrow> pages ?p (group_of t (G i) i) = pages p (group_of t (G i) i)"
    by blast
  have "leaf_page.chain_inv (pages ?p (group_of t (G i) i))" if "i < length (table t)" for i
    using that own other l(3) table_rep_group(6) [OF rep(1)] by metis
  then show "table_rep N ?p t G"
    using rep(1) pool_inv_store [OF pool m l(1,2)] unfolding table_rep_def by simp
qed

text \<open>Linking the leaf \<open>f\<close> just handed out under the next free index, behind position \<open>|as|\<close>.\<close>

lemma link_frame:
  assumes rep: "table_rep N p t G" "j < length (table t)"
    and len: "length (table t') = length (table t)" "length (SynonymTable t') = 128"
      "length (csLocks t') = length (csLocks t)"
    and nxt: "next_syn t' = Suc (next_syn t)" "next_syn t < 127"
    and base: "\<And>i. i < length (table t) \<Longrightarrow> base_num t' i = base_num t i"
    and syn: "\<And>s. 0 < s \<Longrightarrow> s < next_syn t \<Longrightarrow> syn_num t' s = syn_num t s" "syn_num t' (next_syn t) = f"
    and f: "f = used_hdr p" "f < alloc_hdr p"
    and G': "G' = G(j := as @ next_syn t # bs)" "G j = as @ bs"
    and chains: "chain_of (SynonymTable t') (unat (synonym_leaf (table t' ! j))) (as @ next_syn t # bs)"
      "\<And>i. i < length (table t) \<Longrightarrow> i \<noteq> j \<Longrightarrow>
        chain_of (SynonymTable t') (unat (synonym_leaf (table t' ! i))) (G i)"
  shows "table_rep N (p\<lparr>used_hdr := used_hdr p + 1\<rparr>) t' G'"
    and "group_of t' (G' j) j = base_num t j # map (syn_num t) as @ f # map (syn_num t) bs"
    and "i < length (table t) \<Longrightarrow> i \<noteq> j \<Longrightarrow> group_of t' (G' i) i = group_of t (G i) i"
proof -
  let ?p = "p\<lparr>used_hdr := used_hdr p + 1\<rparr>"
  note pool = table_repD(1) [OF rep(1)] and bnd = table_rep_group(3) [OF rep]
  have lf: "leaf_of ?p = leaf_of p" by (simp add: leaf_of_def slot_off_def fun_eq_iff)
  have inv': "pool_inv N ?p" using fetch_new_leaf_ok(2) [OF pool] f by simp
  have ltm: "x < used_hdr p \<Longrightarrow> x < used_hdr p + 1" for x
    using f unat_u64_less [of "alloc_hdr p"] by (simp add: word_less_nat_alt unat_word_ariths)
  have ltf: "used_hdr p < used_hdr p + 1"
    using f unat_u64_less [of "alloc_hdr p"] by (simp add: word_less_nat_alt unat_word_ariths)
  have pos: "0 < s" if "i < length (table t)" "s \<in> set (G i)" for i s
    using chain_of_range [OF table_rep_group(1) [OF rep(1) that(1)] that(2)] by simp
  have asbs: "\<forall>s \<in> set (as @ bs). 0 < s \<and> s < next_syn t" using bnd pos [OF rep(2)] G'(2) by auto
  show own: "group_of t' (G' j) j = base_num t j # map (syn_num t) as @ f # map (syn_num t) bs"
    using asbs syn by (auto simp: G'(1) group_of_def base rep(2))
  have other: "group_of t' (G' i) i = group_of t (G i) i" if "i < length (table t)" "i \<noteq> j" for i
    using table_rep_group(3) [OF rep(1) that(1)] pos [OF that(1)] that syn(1)
    by (auto simp: G'(1) group_of_def base)
  then show "i < length (table t) \<Longrightarrow> i \<noteq> j \<Longrightarrow> group_of t' (G' i) i = group_of t (G i) i" by blast
  have own_set: "set (group_of t' (G' j) j) = insert f (set (group_of t (G j) j))"
    unfolding own by (auto simp: group_of_def G'(2))
  have fresh: "f \<notin> set (group_of t (G i) i)" if "i < length (table t)" for i
    using table_rep_group(5) [OF rep(1) that] f(1) by blast
  have fresh_syn: "next_syn t \<notin> set (G i)" if "i < length (table t)" for i
    using table_rep_group(3) [OF rep(1) that] by auto
  have empty: "leaf_inv (leaf_of p f)" "entries (leaf_of p f) = []"
    using pool_inv_leaf [OF pool, of f] f by auto
  have "leaf_page.chain_inv (pages p (group_of t (G j) j))" by (rule table_rep_group(6) [OF rep])
  then have pg: "leaf_page.chain_inv (pages p (group_of t' (G' j) j))"
    unfolding own using empty
    by (simp add: group_of_def G'(2) leaf_page.chain_inv_append)
  have "chain_of (SynonymTable t') (unat (synonym_leaf (table t' ! i))) (G' i)
      \<and> distinct (G' i) \<and> set (G' i) \<subseteq> {..<next_syn t'}
      \<and> distinct (group_of t' (G' i) i) \<and> (\<forall>m \<in> set (group_of t' (G' i) i). m < used_hdr ?p)
      \<and> leaf_page.chain_inv (pages ?p (group_of t' (G' i) i))" if i: "i < length (table t)" for i
  proof (cases "i = j")
    case True
    have "distinct (group_of t' (G' j) j)"
      unfolding own using table_rep_group(4) [OF rep] fresh [OF rep(2)]
      by (auto simp: group_of_def G'(2))
    moreover have "distinct (G' j)" "set (G' j) \<subseteq> {..<next_syn t'}"
      using table_rep_group(2,3) [OF rep] fresh_syn [OF rep(2)] nxt(1) by (auto simp: G')
    ultimately show ?thesis
      using True chains(1) pg own_set table_rep_group(5) [OF rep] ltm ltf f(1) by (auto simp: G'(1) lf)
  next
    case False
    note g = table_rep_group [OF rep(1) i]
    have "G' i = G i" using False by (simp add: G'(1))
    then show ?thesis
      using False i chains(2) g ltm nxt(1) other [OF i False] by (auto simp: lf)
  qed
  moreover have "set (G' a) \<inter> set (G' b) = {} \<and> set (group_of t' (G' a) a) \<inter> set (group_of t' (G' b) b) = {}"
    if ab: "a < length (table t)" "b < a" for a b
  proof -
    have b: "b < length (table t)" using ab by simp
    note dis = table_rep_disjoint [OF rep(1) ab(1) b]
    have set_G: "set (G' c) = (if c = j then insert (next_syn t) (set (G j)) else set (G c))" for c
      using G' by auto
    have set_g: "set (group_of t' (G' c) c) = (if c = j then insert f (set (group_of t (G j) j)) else set (group_of t (G c) c))"
      if "c < length (table t)" for c using own_set other [OF that] by simp
    show ?thesis
      using dis ab(2) fresh [OF ab(1)] fresh [OF b] fresh_syn [OF ab(1)] fresh_syn [OF b]
      unfolding set_G set_g [OF ab(1)] set_g [OF b] by auto
  qed
  ultimately show "table_rep N ?p t' G'"
    using rep(1) inv' nxt len unfolding table_rep_def by simp
qed

lemma ucast_48: "f < 2 ^ 48 \<Longrightarrow> ucast (ucast (f :: u64) :: 48 word) = f"
proof -
  assume "f < 2 ^ 48"
  then have "unat f < 2 ^ 48" by (simp add: word_less_nat_alt)
  then show ?thesis
    by (simp add: word_unat_eq_iff unsigned_ucast_eq unsigned_take_bit_eq take_bit_nat_eq_self)
qed

lemma next_syn_word:
  assumes "next_syn t \<le> 127"
  shows "leaf_num (SynonymTable t ! 0) = of_nat (next_syn t)"
    "unat (leaf_num (SynonymTable t ! 0) + 1) = Suc (next_syn t)"
    "ucast (leaf_num (SynonymTable t ! 0)) = (of_nat (next_syn t) :: u8)"
  using assms by (auto simp: next_syn_def unat_word_ariths word_unat_eq_iff unsigned_ucast_eq unat_of_nat)

lemma leaf_num_set_synonym:
  "i < length es \<Longrightarrow> leaf_num (set_synonym es x w ! i) = leaf_num (es ! i)"
  by (cases "i = x") (auto simp: set_synonym_def)

text \<open>The entry \<open>synonym_emplace_back\<close> links behind \<open>prev\<close>, and the table it leaves.\<close>

definition linked :: "u64 \<Rightarrow> te \<Rightarrow> te" where
  "linked f prev = (mk_te f 0 0)\<lparr>synonym_leaf := synonym_leaf prev\<rparr>"

definition bumped :: "leaf_table \<Rightarrow> te list" where
  "bumped t = (SynonymTable t)[0 := (SynonymTable t ! 0)\<lparr>leaf_num := leaf_num (SynonymTable t ! 0) + 1\<rparr>]"

lemma emplace_eval:
  assumes "length (SynonymTable t) = 128" "next_syn t < 127"
  shows "j < length (table t) \<Longrightarrow> synonym_emplace_back t True j f 0 0 =
      Inr (t\<lparr>table := set_synonym (table t) j (of_nat (next_syn t)),
             SynonymTable := (bumped t)[next_syn t := linked f (table t ! j)]\<rparr>, of_nat (next_syn t))"
    and "0 < x \<Longrightarrow> x < 128 \<Longrightarrow> synonym_emplace_back t False x f 0 0 =
      Inr (t\<lparr>SynonymTable := (set_synonym (bumped t) x (of_nat (next_syn t)))
               [next_syn t := linked f (SynonymTable t ! x)]\<rparr>, of_nat (next_syn t))"
proof -
  define h where "h = leaf_num (SynonymTable t ! 0)"
  have "h \<noteq> of_nat (kSynonymMax - 1)" using assms(2) by (auto simp: next_syn_def h_def kSynonymMax_def)
  moreover have "ucast h = (of_nat (next_syn t) :: u8)" "ucast h = (of_nat (next_syn t) :: u32)"
    unfolding h_def next_syn_def by (simp_all add: word_unat_eq_iff unsigned_ucast_eq unat_of_nat)
  moreover have "unat h = next_syn t" by (simp add: h_def next_syn_def)
  moreover have "vec_at (SynonymTable t) 0 = Inr (SynonymTable t ! 0)" using assms(1) by simp
  ultimately show "j < length (table t) \<Longrightarrow> synonym_emplace_back t True j f 0 0 =
      Inr (t\<lparr>table := set_synonym (table t) j (of_nat (next_syn t)),
             SynonymTable := (bumped t)[next_syn t := linked f (table t ! j)]\<rparr>, of_nat (next_syn t))"
    and "0 < x \<Longrightarrow> x < 128 \<Longrightarrow> synonym_emplace_back t False x f 0 0 =
      Inr (t\<lparr>SynonymTable := (set_synonym (bumped t) x (of_nat (next_syn t)))
               [next_syn t := linked f (SynonymTable t ! x)]\<rparr>, of_nat (next_syn t))"
    using assms unfolding synonym_emplace_back_def bumped_def linked_def Let_def
    by (simp_all flip: h_def add: set_synonym_def)
qed

lemma bumped_simps:
  assumes "length (SynonymTable t) = 128" "next_syn t \<le> 127"
  shows "length (bumped t) = 128" "0 < s \<Longrightarrow> bumped t ! s = SynonymTable t ! s"
    "synonym_leaf (bumped t ! s) = synonym_leaf (SynonymTable t ! s)"
    "unat (leaf_num (bumped t ! 0)) = Suc (next_syn t)"
  using assms next_syn_word(2) [OF assms(2)]
  by (auto simp: bumped_def) (cases "s = 0"; simp)

lemma set_synonym_simps:
  "length (set_synonym es x w) = length es"
  "s \<noteq> x \<Longrightarrow> set_synonym es x w ! s = es ! s"
  by (simp_all add: set_synonym_def)

lemma linked_simps:
  "synonym_leaf (linked f e) = synonym_leaf e" "f < 2 ^ 48 \<Longrightarrow> ucast (leaf_num (linked f e)) = f"
  by (simp_all add: linked_def mk_te_def ucast_48)

text \<open>Both ways of linking keep the invariant; the new chain is given by where the index goes.\<close>

lemma emplace_ok:
  assumes rep: "table_rep N p t G" "j < length (table t)" and nxt: "next_syn t < 127"
    and f: "f = used_hdr p" "f < alloc_hdr p" and G: "G j = as @ bs"
  shows "\<exists>t'. synonym_emplace_back t (as = []) (if as = [] then j else last as) f 0 0
        = Inr (t', of_nat (next_syn t))
    \<and> table_rep N (p\<lparr>used_hdr := used_hdr p + 1\<rparr>) t' (G(j := as @ next_syn t # bs))
    \<and> group_of t' (as @ next_syn t # bs) j = base_num t j # map (syn_num t) as @ f # map (syn_num t) bs
    \<and> (\<forall>i < length (table t). i \<noteq> j \<longrightarrow> group_of t' (G i) i = group_of t (G i) i)
    \<and> length (table t') = length (table t) \<and> csLocks t' = csLocks t \<and> next_syn t' = Suc (next_syn t)
    \<and> map te_lock (table t') = map te_lock (table t)"
proof -
  let ?x = "next_syn t" and ?G = "G(j := as @ next_syn t # bs)"
  note len = table_repD(4) [OF rep(1)] and pos = table_repD(6) [OF rep(1)] and nx = nxt [THEN less_imp_le]
  note bm = bumped_simps [OF len] and chG = table_rep_group(1) [OF rep(1)] and subG = table_rep_group(3) [OF rep(1)]
  have le: "?x \<le> 127" using nxt by simp
  have f48: "f < 2 ^ 48" using f(2) table_repD(8) [OF rep(1)] by (rule less_le_trans)
  have x: "0 < ?x" "?x < 128" "?x \<notin> set (as @ bs)"
    using pos nxt subG [OF rep(2)] G by auto
  have ux: "unat (of_nat ?x :: u8) = ?x" using nxt by (simp add: unat_of_nat take_bit_nat_eq_self)
  define t' where "t' = (if as = []
    then t\<lparr>table := set_synonym (table t) j (of_nat ?x), SynonymTable := (bumped t)[?x := linked f (table t ! j)]\<rparr>
    else t\<lparr>SynonymTable := (set_synonym (bumped t) (last as) (of_nat ?x))
             [?x := linked f (SynonymTable t ! last as)]\<rparr>)"
  have la: "0 < last as" "last as < 128" "last as \<noteq> ?x" "last as \<in> set (G j)" if "as \<noteq> []"
  proof -
    have "last as \<in> set as" using that by simp
    moreover from this have "last as \<noteq> ?x" using x(3) by (metis UnI1 set_append)
    ultimately show "0 < last as" "last as < 128" "last as \<noteq> ?x" "last as \<in> set (G j)"
      using chain_of_range [OF chG [OF rep(2)], of "last as"] G by auto
  qed
  have ev: "synonym_emplace_back t (as = []) (if as = [] then j else last as) f 0 0 = Inr (t', of_nat ?x)"
    using emplace_eval [OF len nxt, of _ f] rep(2) la by (auto simp: t'_def)
  have ln: "length (table t') = length (table t)" "length (SynonymTable t') = 128" "csLocks t' = csLocks t"
    using bm(1) [OF le] by (simp_all add: t'_def set_synonym_simps)
  have nx': "next_syn t' = Suc ?x"
    using bm(1,4) [OF le] x(1) la by (auto simp: t'_def next_syn_def set_synonym_simps)
  have tab: "leaf_num (table t' ! i) = leaf_num (table t ! i)" "te_lock (table t' ! i) = te_lock (table t ! i)"
    "i \<noteq> j \<Longrightarrow> synonym_leaf (table t' ! i) = synonym_leaf (table t ! i)" if "i < length (table t)" for i
    using that by (cases "i = j"; auto simp: t'_def set_synonym_def)+
  have syn_old: "syn_num t' s = syn_num t s" if "0 < s" "s < ?x" for s
    using that bm(1,2) [OF le] x(2) by (cases "s = last as") (auto simp: syn_num_def t'_def set_synonym_def)
  have syn_new: "syn_num t' ?x = f"
    using bm(1) [OF le] x(2) f48 by (simp add: syn_num_def t'_def set_synonym_simps linked_simps)
  have old: "chain_of (bumped t) s ss = chain_of (SynonymTable t) s ss" for s ss
    by (rule chain_of_cong) (simp add: bm(3) [OF le])
  have chain_j: "chain_of (SynonymTable t') (unat (synonym_leaf (table t' ! j))) (as @ ?x # bs)"
  proof (cases "as = []")
    case True
    then show ?thesis
      using chain_of_link_head [of "bumped t" _ bs ?x "linked f (table t ! j)"] chG [OF rep(2)] G x bm(1) [OF le]
        rep(2) ux by (simp add: t'_def set_synonym_def old linked_simps)
  next
    case False
    define as' where "as' = butlast as"
    have as: "as = as' @ [last as]" using False by (simp add: as'_def)
    then have Gj: "G j = as' @ last as # bs" using G by (metis append_Cons append_Nil append_assoc)
    have "chain_of (bumped t) (unat (synonym_leaf (table t ! j))) (as' @ last as # bs)"
      using chG [OF rep(2)] unfolding old Gj .
    moreover have "distinct (as' @ last as # bs)"
      using table_rep_group(2) [OF rep] unfolding Gj .
    moreover have "?x \<notin> set (as' @ last as # bs)"
      using subG [OF rep(2)] unfolding Gj by auto
    ultimately have "chain_of ((set_synonym (bumped t) (last as) (of_nat ?x))[?x := linked f (SynonymTable t ! last as)])
        (unat (synonym_leaf (table t ! j))) (as' @ last as # ?x # bs)"
      using x la [OF False] bm(1,2) [OF le] by (intro chain_of_link) (simp_all add: linked_simps)
    moreover have e: "as @ ?x # bs = as' @ last as # ?x # bs" using as by (metis append_Cons append_Nil append_assoc)
    ultimately show ?thesis unfolding e using False by (simp add: t'_def)
  qed
  have chain_i: "chain_of (SynonymTable t') (unat (synonym_leaf (table t' ! i))) (G i)"
    if i: "i < length (table t)" "i \<noteq> j" for i
  proof -
    have "synonym_leaf (SynonymTable t' ! y) = synonym_leaf (bumped t ! y)" if y: "y \<in> set (G i)" for y
    proof -
      have "as \<noteq> [] \<Longrightarrow> y \<noteq> last as"
        using la(4) table_rep_disjoint(1) [OF rep(1) i(1) rep(2) i(2)] y by auto
      moreover have "y \<noteq> ?x" using subG [OF i(1)] y by auto
      ultimately show ?thesis by (simp add: t'_def set_synonym_simps)
    qed
    then have "chain_of (SynonymTable t') s (G i) = chain_of (bumped t) s (G i)" for s
      by (rule chain_of_cong)
    then show ?thesis using chG [OF i(1)] tab(3) [OF i] old by simp
  qed
  have bases: "base_num t' i = base_num t i" if "i < length (table t)" for i
    using tab(1) [OF that] by (simp add: base_num_def)
  have locks: "map te_lock (table t') = map te_lock (table t)"
    using tab(2) ln(1) by (auto intro: nth_equalityI)
  note fr = link_frame [OF rep ln(1,2) arg_cong [OF ln(3), of length] nx' nxt bases syn_old syn_new f
      refl G chain_j chain_i]
  show ?thesis
    using ev fr(1,2) fr(3) ln(1,3) nx' locks by (intro exI [of _ t']) auto
qed

text \<open>Unlinking the synonym leaf at position \<open>length as\<close> of a chain.\<close>

lemma unlink_ok:
  assumes rep: "table_rep N p t G" "j < length (table t)" and G: "G j = as @ y # bs"
  shows "\<exists>t'. synonym_table_remove t (map of_nat (G j)) j (length as) = Inr t'
    \<and> table_rep N p t' (G(j := as @ bs))
    \<and> group_of t' (as @ bs) j = base_num t j # map (syn_num t) as @ map (syn_num t) bs
    \<and> (\<forall>i < length (table t). i \<noteq> j \<longrightarrow> group_of t' (G i) i = group_of t (G i) i)
    \<and> length (table t') = length (table t) \<and> csLocks t' = csLocks t \<and> next_syn t' = next_syn t
    \<and> map te_lock (table t') = map te_lock (table t)"
proof -
  note len = table_repD(4) [OF rep(1)] and chG = table_rep_group(1) [OF rep(1)]
    and subG = table_rep_group(3) [OF rep(1)]
  have rng: "0 < s \<and> s < 128" if "s \<in> set (G j)" for s
    using chain_of_range [OF chG [OF rep(2)] that] .
  have y: "0 < y" "y < 128" using rng [of y] G by auto
  define t' where "t' = (if as = []
    then t\<lparr>table := set_synonym (table t) j (synonym_leaf (SynonymTable t ! y))\<rparr>
    else t\<lparr>SynonymTable := set_synonym (SynonymTable t) (last as) (synonym_leaf (SynonymTable t ! y))\<rparr>)"
  have la: "0 < last as" "last as < 128" "last as \<in> set (G j)" if "as \<noteq> []"
    using rng [of "last as"] that G by auto
  have prev: "map of_nat (G j) ! (length as - Suc 0) = (of_nat (last as) :: u32)" if "as \<noteq> []"
    using that by (simp add: G nth_append last_conv_nth)
  have ev: "synonym_table_remove t (map of_nat (G j)) j (length as) = Inr t'"
    using len rep(2) y la prev
    by (cases "as = []") (auto simp: synonym_table_remove_def G nth_append unat_of_nat_u32 t'_def vec_at_def)
  have ln: "length (table t') = length (table t)" "length (SynonymTable t') = 128" "csLocks t' = csLocks t"
    using len by (simp_all add: t'_def set_synonym_simps)
  have leafs: "leaf_num (SynonymTable t' ! s) = leaf_num (SynonymTable t ! s)" for s
    using len la by (cases "s < 128"; cases "s = last as") (auto simp: t'_def set_synonym_def)
  then have sn: "syn_num t' = syn_num t" and nx: "next_syn t' = next_syn t"
    by (simp_all add: syn_num_def next_syn_def fun_eq_iff)
  have tab: "leaf_num (table t' ! i) = leaf_num (table t ! i)" "te_lock (table t' ! i) = te_lock (table t ! i)"
    "i \<noteq> j \<Longrightarrow> synonym_leaf (table t' ! i) = synonym_leaf (table t ! i)" if "i < length (table t)" for i
    using that by (cases "i = j"; auto simp: t'_def set_synonym_def)+
  have bases: "base_num t' i = base_num t i" if "i < length (table t)" for i
    using tab(1) [OF that] by (simp add: base_num_def)
  have chain_j: "chain_of (SynonymTable t') (unat (synonym_leaf (table t' ! j))) (as @ bs)"
  proof (cases "as = []")
    case True
    then show ?thesis using chG [OF rep(2)] G rep(2) by (simp add: t'_def set_synonym_def)
  next
    case False
    define as' where "as' = butlast as"
    have as: "as = as' @ [last as]" using False by (simp add: as'_def)
    then have Gj: "G j = as' @ last as # y # bs" using G by (metis append_Cons append_Nil append_assoc)
    have e: "as @ bs = as' @ last as # bs" using as by (metis append_Cons append_Nil append_assoc)
    show ?thesis
      using chain_of_unlink [of "SynonymTable t" "unat (synonym_leaf (table t ! j))" as' "last as" y bs]
        chG [OF rep(2)] table_rep_group(2) [OF rep] len
      unfolding Gj e using False by (simp add: t'_def)
  qed
  have chain_i: "chain_of (SynonymTable t') (unat (synonym_leaf (table t' ! i))) (G i)"
    if i: "i < length (table t)" "i \<noteq> j" for i
  proof -
    have "synonym_leaf (SynonymTable t' ! z) = synonym_leaf (SynonymTable t ! z)" if z: "z \<in> set (G i)" for z
    proof -
      have "as \<noteq> [] \<Longrightarrow> z \<noteq> last as"
        using la(3) table_rep_disjoint(1) [OF rep(1) i(1) rep(2) i(2)] z by auto
      then show ?thesis by (simp add: t'_def set_synonym_simps)
    qed
    then have "chain_of (SynonymTable t') s (G i) = chain_of (SynonymTable t) s (G i)" for s
      by (rule chain_of_cong)
    then show ?thesis using chG [OF i(1)] tab(3) [OF i] by simp
  qed
  have own: "group_of t' (as @ bs) j = base_num t j # map (syn_num t) as @ map (syn_num t) bs"
    by (simp add: group_of_def bases [OF rep(2)] sn)
  have other: "group_of t' (G i) i = group_of t (G i) i" if "i < length (table t)" for i
    by (simp add: group_of_def bases [OF that] sn)
  have grp: "group_of t (G j) j = base_num t j # map (syn_num t) as @ syn_num t y # map (syn_num t) bs"
    by (simp add: group_of_def G)
  let ?G = "G(j := as @ bs)"
  have sub: "set (?G i) \<subseteq> set (G i)" "set (group_of t' (?G i) i) \<subseteq> set (group_of t (G i) i)"
    if "i < length (table t)" for i
    using other [OF that] own grp G by auto
  have "chain_of (SynonymTable t') (unat (synonym_leaf (table t' ! i))) (?G i)
      \<and> distinct (?G i) \<and> set (?G i) \<subseteq> {..<next_syn t'}
      \<and> distinct (group_of t' (?G i) i) \<and> (\<forall>m \<in> set (group_of t' (?G i) i). m < used_hdr p)
      \<and> leaf_page.chain_inv (pages p (group_of t' (?G i) i))" if i: "i < length (table t)" for i
  proof (cases "i = j")
    case True
    note g = table_rep_group [OF rep]
    have "leaf_page.chain_inv (pages p (group_of t' (as @ bs) j))"
      using g(6) unfolding own grp by (auto simp: leaf_page.chain_inv_append)
    moreover have "distinct (group_of t' (as @ bs) j)" using g(4) unfolding own grp by auto
    moreover have "\<forall>m \<in> set (group_of t' (as @ bs) j). m < used_hdr p" using g(5) unfolding own grp by auto
    ultimately show ?thesis using True chain_j g(2,3) nx G by auto
  next
    case False
    then show ?thesis using table_rep_group [OF rep(1) i] chain_i [OF i] other [OF i] nx by simp
  qed
  moreover have "set (?G a) \<inter> set (?G b) = {} \<and> set (group_of t' (?G a) a) \<inter> set (group_of t' (?G b) b) = {}"
    if "a < length (table t)" "b < a" for a b
  proof -
    have b: "b < length (table t)" "a \<noteq> b" using that by auto
    have "A' \<subseteq> A \<Longrightarrow> B' \<subseteq> B \<Longrightarrow> A \<inter> B = {} \<Longrightarrow> A' \<inter> B' = {}" for A A' B B' :: "'x set" by blast
    then show ?thesis
      using table_rep_disjoint [OF rep(1) that(1) b] sub [OF that(1)] sub [OF b(1)] by metis
  qed
  ultimately have "table_rep N p t' ?G"
    using rep(1) ln nx unfolding table_rep_def by simp
  moreover have "map te_lock (table t') = map te_lock (table t)"
    using tab(2) ln(1) by (auto intro: nth_equalityI)
  ultimately show ?thesis using ev own other ln nx by blast
qed

text \<open>The locks are no part of the invariant.\<close>

lemma table_rep_cong:
  assumes "table_rep N p t G" "length (table t') = length (table t)" "SynonymTable t' = SynonymTable t"
    "length (csLocks t') = length (csLocks t)"
    "\<And>i. i < length (table t) \<Longrightarrow> synonym_leaf (table t' ! i) = synonym_leaf (table t ! i)"
    "\<And>i. i < length (table t) \<Longrightarrow> leaf_num (table t' ! i) = leaf_num (table t ! i)"
  shows "table_rep N p t' G" "\<And>i. i < length (table t) \<Longrightarrow> group_of t' ss i = group_of t ss i"
proof -
  have g: "group_of t' ss i = group_of t ss i" if "i < length (table t)" for i ss
    using assms(3) assms(6) [OF that] by (simp add: group_of_def base_num_def syn_num_def)
  then show "\<And>i. i < length (table t) \<Longrightarrow> group_of t' ss i = group_of t ss i" .
  show "table_rep N p t' G"
    using assms g unfolding table_rep_def by (simp add: next_syn_def)
qed

lemma set_lock_rep:
  assumes "table_rep N p t G"
  shows "table_rep N p (set_lock t j b) G"
    "\<And>i. i < length (table t) \<Longrightarrow> group_of (set_lock t j b) ss i = group_of t ss i"
proof -
  have "synonym_leaf (table (set_lock t j b) ! i) = synonym_leaf (table t ! i)"
    "leaf_num (table (set_lock t j b) ! i) = leaf_num (table t ! i)" if "i < length (table t)" for i
    using that by (cases "i = j"; simp add: set_lock_def)+
  then show "table_rep N p (set_lock t j b) G"
    "\<And>i. i < length (table t) \<Longrightarrow> group_of (set_lock t j b) ss i = group_of t ss i"
    using table_rep_cong [OF assms, of "set_lock t j b"] by (simp_all add: set_lock_def)
qed

lemma cs_rep:
  assumes "table_rep N p t G"
  shows "table_rep N p (t\<lparr>csLocks := (csLocks t)[j := w]\<rparr>) G"
    "\<And>i. i < length (table t) \<Longrightarrow> group_of (t\<lparr>csLocks := (csLocks t)[j := w]\<rparr>) ss i = group_of t ss i"
  using table_rep_cong [OF assms, of "t\<lparr>csLocks := (csLocks t)[j := w]\<rparr>"] by simp_all

end
