(* ===== verification/Table_Correct.thy ===== *)
theory Table_Correct
  imports Table_Rep
begin

text \<open>
  Correctness of the leaf table operations. Every operation first locates a table entry
  (\<open>located\<close>), then works on the group of leaves of that entry. The theorems say what it does
  to the sorted entries of that group, on every branch, that it leaves the other groups alone
  and keeps the invariant; \<open>group_page\<close> interprets the page contract a second time, on whole
  groups, which lifts the statements to a range of table entries.
\<close>

definition unlocked :: "leaf_table \<Rightarrow> bool" where
  "unlocked t \<longleftrightarrow> (\<forall>e \<in> set (table t). te_lock e = 0) \<and> (\<forall>w \<in> set (csLocks t). w = 0)"

lemma unlockedD:
  "unlocked t \<Longrightarrow> i < length (table t) \<Longrightarrow> te_lock (table t ! i) = 0"
  "unlocked t \<Longrightarrow> i < length (csLocks t) \<Longrightarrow> csLocks t ! i = 0"
  by (simp_all add: unlocked_def)

text \<open>The entries of every group but \<open>j\<close> are the same.\<close>

definition same_others :: "leaf_pool \<Rightarrow> leaf_table \<Rightarrow> leaf_pool \<Rightarrow> leaf_table \<Rightarrow> nat \<Rightarrow> bool" where
  "same_others p t p' t' j \<longleftrightarrow> length (table t') = length (table t)
     \<and> (\<forall>i < length (table t). i \<noteq> j \<longrightarrow> group_entries p' t' i = group_entries p t i)"

section \<open>Search\<close>

lemma search_syn_loop_ok:
  assumes rep: "table_rep N p t G" "i < length (table t)" and k: "k \<noteq> invalidKey" and "n \<le> length (G i)"
  shows "search_syn_loop t p (map of_nat (G i)) k n
    = Inr (map_of (leaf_page.flat (take n (pages p (map (syn_num t) (G i))))) k)"
  using assms(4)
proof (induction n)
  case (Suc n)
  let ?ps = "pages p (map (syn_num t) (G i))"
  let ?l = "leaf_of p (syn_num t (G i ! n))"
  have tk: "take (Suc n) ?ps = take n ?ps @ [?l]" using Suc.prems by (simp add: take_Suc_conv_app_nth)
  have "leaf_page.chain_inv (take (Suc n) ?ps @ drop (Suc n) ?ps)"
    using table_rep_group(6) [OF rep] by (simp add: group_of_def)
  then have inv: "leaf_page.chain_inv (take n ?ps @ [?l])" unfolding tk by (simp add: leaf_page.chain_inv_append)
  then have l: "leaf_inv ?l" by (simp add: leaf_page.chain_inv_append)
  have "k \<notin> fst ` set (leaf_page.flat (take n ?ps))" if "k \<in> fst ` set (entries ?l)"
    using inv that by (fastforce simp: leaf_page.chain_inv_append)
  then have "map_of (leaf_page.flat (take (Suc n) ?ps)) k =
      (case map_of (entries ?l) k of Some v \<Rightarrow> Some v | None \<Rightarrow> map_of (leaf_page.flat (take n ?ps)) k)"
    unfolding tk leaf_page.flat_simps append_Nil2 by (rule map_of_append_case)
  then show ?case
    using Suc syn_leaf_ok [OF rep, of "G i ! n"] search_map_of [OF l k]
    by (auto split: option.splits)
qed simp

lemma search_group:
  assumes rep: "table_rep N p t G" "i < length (table t)" and k: "k \<noteq> invalidKey"
  shows "(case leaf_search (leaf_of p (base_num t i)) k of Some v \<Rightarrow> Inr (Some v)
          | None \<Rightarrow> search_synonym t p k i) = Inr (map_of (group_entries p t i) k)"
proof -
  have l: "leaf_inv (leaf_of p (base_num t i))"
    using table_rep_group(6) [OF rep] by (simp add: group_of_def)
  have "search_synonym t p k i = Inr (map_of (leaf_page.flat (pages p (map (syn_num t) (G i)))) k)"
    using synonyms_ok [OF rep] search_syn_loop_ok [OF rep k order_refl]
    by (simp add: search_synonym_def)
  then show ?thesis
    using search_map_of [OF l k]
    by (auto simp: group_entries_eq [OF rep] group_of_def map_add_def split: option.splits)
qed

lemma lt_search_ok:
  assumes rep: "table_rep N p t G" and b: "lo \<le> hi" "hi < length (table t)" and k: "k \<noteq> invalidKey"
  shows "lt_search t p k (int lo) (int hi) = Inr (map_of (group_entries p t (located p t k lo hi)) k)"
proof -
  let ?j = "located p t k lo hi"
  have "?j < length (table t)" using located_range [OF b(1), of p t k] b(2) by simp
  from search_group [OF rep this k] show ?thesis
    using locate_ok [OF rep b, of k] b(2)
    by (simp add: lt_search_def in_table_int_def cong: option.case_cong)
qed

section \<open>Update\<close>

lemma lock_cycle:
  assumes "unlocked t" "j < length (table t)"
  shows "lock_leaf t j = Inr (set_lock t j 1)" "set_lock (set_lock t j 1) j 0 = t"
proof -
  have "te_lock (table t ! j) = 0" using unlockedD(1) [OF assms] .
  then have "(table t ! j)\<lparr>te_lock := 0\<rparr> = table t ! j" by (cases "table t ! j") simp
  then show "set_lock (set_lock t j 1) j 0 = t" using assms(2) by (simp add: set_lock_def)
  show "lock_leaf t j = Inr (set_lock t j 1)" using unlockedD(1) [OF assms] assms(2) by (simp add: lock_leaf_def)
qed

lemma unlock_leaf_ok: "j < length (table t) \<Longrightarrow> unlock_leaf t j = Inr (set_lock t j 0)"
  by (simp add: unlock_leaf_def)

text \<open>The chosen leaf of a group with everything the operations need of it.\<close>

lemma choose_group:
  assumes rep: "table_rep N p t G" "j < length (table t)" and k: "k \<noteq> invalidKey"
  obtains as m bs r where
    "pick_syn t p (map of_nat (G j)) k (length (G j)) = Inr r"
    "choose_leaf r (slot_off p (base_num t j), leaf_of p (base_num t j)) = (slot_off p m, leaf_of p m)"
    "case r of None \<Rightarrow> as = [] | Some (i, _) \<Rightarrow> i < length (G j) \<and> length as = Suc i"
    "group_of t (G j) j = as @ m # bs" "m < used_hdr p" "leaf_inv (leaf_of p m)" "max_slot (leaf_of p m) = N"
    "leaf_page.chain_inv (pages p as @ leaf_of p m # pages p bs)"
    "group_entries p t j = leaf_page.flat (pages p as) @ entries (leaf_of p m) @ leaf_page.flat (pages p bs)"
    "pages p as = [] \<or> insertHere (leaf_of p m) k" "\<forall>b \<in> set (pages p bs). \<not> insertHere b k"
proof -
  obtain as m bs r where ch: "pick_syn t p (map of_nat (G j)) k (length (G j)) = Inr r"
    "group_of t (G j) j = as @ m # bs"
    "choose_leaf r (slot_off p (base_num t j), leaf_of p (base_num t j)) = (slot_off p m, leaf_of p m)"
    "as = [] \<or> insertHere (leaf_of p m) k" "\<forall>b \<in> set bs. \<not> insertHere (leaf_of p b) k"
    "case r of None \<Rightarrow> as = [] | Some (i, _) \<Rightarrow> i < length (G j) \<and> length as = Suc i"
    by (rule choose_ok [OF rep, of k])
  note pool = table_repD(1) [OF rep(1)]
  have inv: "leaf_page.chain_inv (pages p as @ leaf_of p m # pages p bs)"
    using table_rep_group(6) [OF rep] unfolding ch(2) by simp
  have m: "m < used_hdr p" using table_rep_group(5) [OF rep, of m] ch(2) by simp
  show ?thesis
  proof (rule that [OF ch(1,3,6,2) m])
    show "leaf_inv (leaf_of p m)" "max_slot (leaf_of p m) = N"
      using pool_inv_leaf(2,3) [OF pool used_le_alloc [OF pool m]] .
    show "group_entries p t j = leaf_page.flat (pages p as) @ entries (leaf_of p m) @ leaf_page.flat (pages p bs)"
      using group_entries_eq [OF rep] by (simp add: ch(2))
  qed (use inv ch(4,5) in auto)
qed

text \<open>Storing a new version of one leaf of a group.\<close>

lemma store_group:
  assumes rep: "table_rep N p t G" "j < length (table t)" and grp: "group_of t (G j) j = as @ m # bs"
    and l: "leaf_inv l" "max_slot l = N"
    and srt: "al_sorted (leaf_page.flat (pages p as) @ entries l @ leaf_page.flat (pages p bs))"
  shows "table_rep N (store p (slot_off p m) l) t G"
    "pages (store p (slot_off p m) l) (group_of t (G j) j) = pages p as @ l # pages p bs"
    "group_entries (store p (slot_off p m) l) t j = leaf_page.flat (pages p as) @ entries l @ leaf_page.flat (pages p bs)"
    "same_others p t (store p (slot_off p m) l) t j"
proof -
  have "leaf_page.chain_inv (pages p as @ leaf_of p m # pages p bs)"
    using table_rep_group(6) [OF rep] unfolding grp by simp
  then have inv: "leaf_page.chain_inv (pages p as @ l # pages p bs)"
    using leaf_page.chain_inv_replace [of "pages p as" "[leaf_of p m]" "pages p bs" "[l]"] l(1) srt by simp
  note st = table_rep_store [OF rep grp l inv]
  show "table_rep N (store p (slot_off p m) l) t G" by (rule st(1))
  show "pages (store p (slot_off p m) l) (group_of t (G j) j) = pages p as @ l # pages p bs" by (rule st(2))
  show "group_entries (store p (slot_off p m) l) t j
      = leaf_page.flat (pages p as) @ entries l @ leaf_page.flat (pages p bs)"
    by (simp only: group_entries_eq [OF st(1) rep(2)] st(2) leaf_page.flat_simps)
  show "same_others p t (store p (slot_off p m) l) t j"
    unfolding same_others_def
    using st(3) group_entries_eq [OF st(1)] group_entries_eq [OF rep(1)] by metis
qed

lemma al_sorted_group: "table_rep N p t G \<Longrightarrow> j < length (table t) \<Longrightarrow> al_sorted (group_entries p t j)"
  using table_rep_group(6) by (simp add: group_entries_eq leaf_page.chain_inv_def)

lemma group_entries_cong:
  assumes "table_rep N p t G" "table_rep N p t' G" "i < length (table t)" "i < length (table t')"
    "group_of t' (G i) i = group_of t (G i) i"
  shows "group_entries p t' i = group_entries p t i"
  by (simp only: group_entries_eq [OF assms(1,3)] group_entries_eq [OF assms(2,4)] assms(5))

lemma update_synonym_ok:
  assumes rep: "table_rep N p t G" "j < length (table t)" and ul: "unlocked t" and k: "k \<noteq> invalidKey"
  shows "\<exists>p'. update_synonym t p k v j (slot_off p (base_num t j), leaf_of p (base_num t j))
        = Inr (t, p', k \<in> fst ` set (group_entries p t j))
     \<and> table_rep N p' t G \<and> group_entries p' t j = upd_entry k v (group_entries p t j)
     \<and> same_others p t p' t j"
proof -
  let ?t = "set_lock t j 1"
  have rep': "table_rep N p ?t G" "j < length (table ?t)"
    using set_lock_rep(1) [OF rep(1)] rep(2) by (simp_all add: set_lock_def)
  have nums: "group_of ?t (G j) j = group_of t (G j) j" "base_num ?t j = base_num t j"
    using set_lock_rep(2) [OF rep] by (simp_all add: group_of_def)
  from rep' k obtain as m bs r where ch: "pick_syn ?t p (map of_nat (G j)) k (length (G j)) = Inr r"
    "choose_leaf r (slot_off p (base_num ?t j), leaf_of p (base_num ?t j)) = (slot_off p m, leaf_of p m)"
    "case r of None \<Rightarrow> as = [] | Some (i, _) \<Rightarrow> i < length (G j) \<and> length as = Suc i"
    "group_of ?t (G j) j = as @ m # bs" "m < used_hdr p" "leaf_inv (leaf_of p m)" "max_slot (leaf_of p m) = N"
    "leaf_page.chain_inv (pages p as @ leaf_of p m # pages p bs)"
    "group_entries p ?t j = leaf_page.flat (pages p as) @ entries (leaf_of p m) @ leaf_page.flat (pages p bs)"
    "pages p as = [] \<or> insertHere (leaf_of p m) k" "\<forall>b \<in> set (pages p bs). \<not> insertHere b k"
    by (rule choose_group)
  let ?l = "leaf_of p m"
  obtain l' ok where u: "leaf_update ?l k v = (l', ok)" by fastforce
  note up = update_entries [OF ch(6) k, of v, unfolded u fst_conv snd_conv]
  note fl = leaf_page.flat_upd [OF ch(8) k ch(10,11), of v]
  have old: "group_entries p t j = leaf_page.flat (pages p as) @ entries ?l @ leaf_page.flat (pages p bs)"
    using group_entries_cong [OF rep(1) rep'(1) rep(2) rep'(2)] nums ch(9) by simp
  have new: "leaf_page.flat (pages p as) @ entries l' @ leaf_page.flat (pages p bs)
      = upd_entry k v (group_entries p t j)"
    using fl by (simp add: up(2) old)
  have grp: "group_of t (G j) j = as @ m # bs" using ch(4) nums by simp
  have "al_sorted (leaf_page.flat (pages p as) @ entries l' @ leaf_page.flat (pages p bs))"
    using al_sorted_group [OF rep] by (simp add: new)
  note st = store_group [OF rep grp up(1) up(4) [unfolded ch(7)] this]
  have "ok \<longleftrightarrow> k \<in> fst ` set (group_entries p t j)"
    using up(3) leaf_page.flat_mem [OF ch(8) k ch(10,11)] old by simp
  then have "update_synonym t p k v j (slot_off p (base_num t j), leaf_of p (base_num t j))
      = Inr (t, store p (slot_off p m) l', k \<in> fst ` set (group_entries p t j))"
    using ch(1,2) lock_cycle [OF ul rep(2)] unlock_leaf_ok [OF rep'(2)] synonyms_ok [OF rep']
    by (simp add: update_synonym_def nums u)
  with st new show ?thesis by auto
qed

section \<open>Removal\<close>

lemma unlocked_set_lock:
  assumes "unlocked t" "map te_lock (table t') = map te_lock (table (set_lock t j 1))" "csLocks t' = csLocks t"
  shows "unlocked (set_lock t' j 0)"
proof -
  have len: "length (table t') = length (table t)"
    using arg_cong [OF assms(2), of length] by (simp add: set_lock_def)
  have "te_lock (table (set_lock t' j 0) ! i) = 0" if i: "i < length (table t)" for i
  proof (cases "i = j")
    case False
    have "te_lock (table t' ! i) = te_lock (table (set_lock t j 1) ! i)"
      using arg_cong [OF assms(2), of "\<lambda>xs. xs ! i"] i len by (simp add: set_lock_def)
    then show ?thesis using False i len unlockedD(1) [OF assms(1) i] by (simp add: set_lock_def)
  qed (use i len in \<open>simp add: set_lock_def\<close>)
  moreover have "length (table (set_lock t' j 0)) = length (table t)" "csLocks (set_lock t' j 0) = csLocks t"
    using len assms(3) by (simp_all add: set_lock_def)
  ultimately show ?thesis
    using assms(1) unfolding unlocked_def all_set_conv_all_nth by simp
qed

lemma same_others_trans:
  "same_others p t p' t' j \<Longrightarrow> same_others p' t' p'' t'' j \<Longrightarrow> same_others p t p'' t'' j"
  by (simp add: same_others_def)

lemma same_others_cong:
  assumes "table_rep N p t G" "table_rep N p t' G'" "length (table t') = length (table t)"
    "\<forall>i < length (table t). i \<noteq> j \<longrightarrow> G' i = G i \<and> group_of t' (G' i) i = group_of t (G i) i"
  shows "same_others p t p t' j"
proof -
  have "group_entries p t' i = group_entries p t i" if i: "i < length (table t)" "i \<noteq> j" for i
  proof -
    have i': "i < length (table t')" using i(1) assms(3) by simp
    have "group_of t' (G' i) i = group_of t (G i) i" using assms(4) i by blast
    then show ?thesis by (simp only: group_entries_eq [OF assms(1) i(1)] group_entries_eq [OF assms(2) i'])
  qed
  then show ?thesis using assms(3) by (simp add: same_others_def)
qed

lemma leaf_remove_ok:
  assumes "leaf_inv l" "k \<noteq> invalidKey"
  obtains l' where "leaf_remove l k = Inr (l', k \<in> fst ` set (entries l))" "leaf_inv l'"
    "max_slot l' = max_slot l" "entries l' = del_entry k (entries l)"
proof (cases "k \<in> fst ` set (entries l)")
  case True
  show ?thesis by (rule remove_present [OF assms(1) True]) (use that True in auto)
next
  case False
  then show ?thesis using that [of l] remove_absent [OF assms False] assms by (simp add: del_entry_idle)
qed

text \<open>The synonym leaf of a group an operation on a key goes to: the last one that takes the
  key (none if only the trained leaf does), and the chain left when the leaf is unlinked if it
  is empty in \<open>p'\<close>.\<close>

definition syn_home :: "leaf_pool \<Rightarrow> leaf_table \<Rightarrow> u64 \<Rightarrow> nat \<Rightarrow> nat option" where
  "syn_home p t k j = find (\<lambda>s. insertHere (leaf_of p (syn_num t s)) k) (rev (chain t j))"

definition chain_left :: "leaf_pool \<Rightarrow> leaf_table \<Rightarrow> nat option \<Rightarrow> nat \<Rightarrow> nat list" where
  "chain_left p' t home j =
     (case home of
        Some s \<Rightarrow> if entries (leaf_of p' (syn_num t s)) = [] then remove1 s (chain t j) else chain t j
      | None \<Rightarrow> chain t j)"

lemma find_rev_split: "P y \<Longrightarrow> \<forall>z \<in> set ys. \<not> P z \<Longrightarrow> find P (rev (xs @ y # ys)) = Some y"
  by (induction ys rule: rev_induct) auto

lemma syn_home_ok:
  assumes rep: "table_rep N p t G" "j < length (table t)" and grp: "group_of t (G j) j = as @ m # bs"
    and r: "case r of None \<Rightarrow> as = [] | Some (i, _) \<Rightarrow> i < length (G j) \<and> length as = Suc i"
    and here: "pages p as = [] \<or> insertHere (leaf_of p m) k" "\<forall>b \<in> set (pages p bs). \<not> insertHere b k"
  shows "syn_home p t k j = map_option (\<lambda>(i, _). G j ! i) r"
    "r = Some (i, q) \<Longrightarrow> m = syn_num t (G j ! i)"
proof -
  have ch: "chain t j = G j" by (rule table_rep_chain [OF rep])
  have m: "m = syn_num t (G j ! i) \<and> bs = map (syn_num t) (drop (Suc i) (G j))" if r1: "r = Some (i, q)" for i q
  proof -
    have i: "i < length (G j)" "length as = Suc i" using r r1 by auto
    have "group_of t (G j) j
        = (base_num t j # map (syn_num t) (take i (G j))) @ syn_num t (G j ! i) # map (syn_num t) (drop (Suc i) (G j))"
      by (subst id_take_nth_drop [OF i(1)]) (simp add: group_of_def)
    then show ?thesis
      using grp i append_eq_append_conv [of as "base_num t j # map (syn_num t) (take i (G j))" "m # bs"] by auto
  qed
  show "r = Some (i, q) \<Longrightarrow> m = syn_num t (G j ! i)" using m by blast
  show "syn_home p t k j = map_option (\<lambda>(i, _). G j ! i) r"
  proof (cases r)
    case None
    then have "bs = map (syn_num t) (G j)" using r grp by (simp add: group_of_def)
    then show ?thesis using here(2) None by (simp add: syn_home_def ch find_None_iff)
  next
    case (Some a)
    obtain i q where a: "a = (i, q)" by fastforce
    have i: "i < length (G j)" "as \<noteq> []" using r Some a by auto
    have "find (\<lambda>s. insertHere (leaf_of p (syn_num t s)) k) (rev (take i (G j) @ G j ! i # drop (Suc i) (G j)))
        = Some (G j ! i)"
      using here m i Some a by (intro find_rev_split) auto
    then show ?thesis using Some a by (simp add: syn_home_def ch flip: id_take_nth_drop [OF i(1)])
  qed
qed

lemma remove_synonym_ok:
  assumes rep: "table_rep N p t G" "j < length (table t)" and ul: "unlocked t" and k: "k \<noteq> invalidKey"
  shows "\<exists>t' p' G'. remove_synonym t p k j (slot_off p (base_num t j), leaf_of p (base_num t j))
        = Inr (t', p', k \<in> fst ` set (group_entries p t j))
     \<and> table_rep N p' t' G' \<and> unlocked t' \<and> group_entries p' t' j = del_entry k (group_entries p t j)
     \<and> same_others p t p' t' j
     \<and> (\<forall>i < length (table t). chain t' i = (if i = j then chain_left p' t (syn_home p t k i) i else chain t i))"
proof -
  let ?t = "set_lock t j 1"
  have rep': "table_rep N p ?t G" "j < length (table ?t)"
    using set_lock_rep(1) [OF rep(1)] rep(2) by (simp_all add: set_lock_def)
  have nums: "group_of ?t (G i) i = group_of t (G i) i" "base_num ?t i = base_num t i"
    if "i < length (table t)" for i
    using set_lock_rep(2) [OF rep(1) that] by (simp_all add: group_of_def)
  have lent: "length (table ?t) = length (table t)" by (simp add: set_lock_def)
  from rep' k obtain as m bs r where ch: "pick_syn ?t p (map of_nat (G j)) k (length (G j)) = Inr r"
    "choose_leaf r (slot_off p (base_num ?t j), leaf_of p (base_num ?t j)) = (slot_off p m, leaf_of p m)"
    "case r of None \<Rightarrow> as = [] | Some (i, _) \<Rightarrow> i < length (G j) \<and> length as = Suc i"
    "group_of ?t (G j) j = as @ m # bs" "m < used_hdr p" "leaf_inv (leaf_of p m)" "max_slot (leaf_of p m) = N"
    "leaf_page.chain_inv (pages p as @ leaf_of p m # pages p bs)"
    "group_entries p ?t j = leaf_page.flat (pages p as) @ entries (leaf_of p m) @ leaf_page.flat (pages p bs)"
    "pages p as = [] \<or> insertHere (leaf_of p m) k" "\<forall>b \<in> set (pages p bs). \<not> insertHere b k"
    by (rule choose_group)
  let ?l = "leaf_of p m"
  obtain l' where rm: "leaf_remove ?l k = Inr (l', k \<in> fst ` set (entries ?l))" "leaf_inv l'"
    "max_slot l' = max_slot ?l" "entries l' = del_entry k (entries ?l)"
    by (rule leaf_remove_ok [OF ch(6) k])
  note fl = leaf_page.flat_del [OF ch(8) k ch(10,11)]
  have old: "group_entries p ?t j = group_entries p t j"
    using group_entries_cong [OF rep(1) rep'(1) rep(2) rep'(2)] nums(1) [OF rep(2)] by simp
  have new: "leaf_page.flat (pages p as) @ entries l' @ leaf_page.flat (pages p bs)
      = del_entry k (group_entries p t j)"
    using fl by (simp add: rm(4) ch(9) flip: old)
  have "al_sorted (leaf_page.flat (pages p as) @ entries l' @ leaf_page.flat (pages p bs))"
    using al_sorted_del_entry [OF al_sorted_group [OF rep]] by (simp add: new)
  note st = store_group [OF rep' ch(4) rm(2) rm(3) [unfolded ch(7)] this]
  let ?p = "store p (slot_off p m) l'"
  have oth: "same_others p t ?p ?t j"
    using st(4) same_others_cong [OF rep(1) rep'(1) lent, of j] nums(1) same_others_trans by metis
  have flag: "k \<in> fst ` set (entries ?l) \<longleftrightarrow> k \<in> fst ` set (group_entries p t j)"
    using leaf_page.flat_mem [OF ch(8) k ch(10,11)] ch(9) old by simp
  have sn: "syn_num ?t = syn_num t" by (simp add: fun_eq_iff syn_num_def set_lock_def)
  have chs: "chain ?t i = G i" "chain t i = G i" if "i < length (table t)" for i
    using table_rep_chain [OF rep'(1)] table_rep_chain [OF rep(1)] lent that by simp_all
  note home = syn_home_ok [OF rep' ch(4,3,10,11)]
  have hm: "syn_home p t k j = map_option (\<lambda>(i, _). G j ! i) r"
    using home(1) by (simp add: syn_home_def sn chs [OF rep(2)])
  have pm: "leaf_of ?p m = l'"
    using st(2) ch(4) by (simp add: append_eq_append_conv)
  show ?thesis
  proof (cases "isEmpty l' \<and> r \<noteq> None")
    case True
    then obtain i q where r: "r = Some (i, q)" by auto
    with ch(3) have i: "i < length (G j)" "length as = Suc i" by auto
    define as0 bs0 where "as0 = take i (G j)" and "bs0 = drop (Suc i) (G j)"
    have Gj: "G j = as0 @ G j ! i # bs0" and la: "length as0 = i"
      using i id_take_nth_drop [OF i(1)] by (simp_all add: as0_def bs0_def)
    have "group_of ?t (G j) j = (base_num ?t j # map (syn_num ?t) as0) @ syn_num ?t (G j ! i) # map (syn_num ?t) bs0"
      by (subst Gj) (simp add: group_of_def)
    then have split: "as = base_num ?t j # map (syn_num ?t) as0" "bs = map (syn_num ?t) bs0"
      using ch(4) i(2) la append_eq_append_conv [of as "base_num ?t j # map (syn_num ?t) as0" "m # bs"] by auto
    from unlink_ok [OF st(1) rep'(2) Gj, unfolded la] obtain t' where t':
      "synonym_table_remove ?t (map of_nat (G j)) j i = Inr t'" "table_rep N ?p t' (G(j := as0 @ bs0))"
      "group_of t' (as0 @ bs0) j = as @ bs"
      "\<forall>i < length (table ?t). i \<noteq> j \<longrightarrow> group_of t' (G i) i = group_of ?t (G i) i"
      "length (table t') = length (table ?t)" "csLocks t' = csLocks ?t"
      "map te_lock (table t') = map te_lock (table ?t)"
      unfolding split by auto
    let ?t' = "set_lock t' j 0"
    have rep2: "table_rep N ?p ?t' (G(j := as0 @ bs0))" by (rule set_lock_rep(1) [OF t'(2)])
    have j2: "j < length (table t')" using t'(5) rep'(2) by simp
    have g2: "group_of ?t' ss i = group_of t' ss i" if "i < length (table t')" for i ss
      using set_lock_rep(2) [OF t'(2) that] .
    have emp: "entries l' = []" using True rm(2) isEmpty_iff by simp
    have "distinct (as0 @ G j ! i # bs0)" using table_rep_group(2) [OF rep] by (simp only: Gj [symmetric])
    then have "remove1 (G j ! i) (as0 @ G j ! i # bs0) = as0 @ bs0" by (auto simp: remove1_append)
    then have "remove1 (G j ! i) (G j) = as0 @ bs0" by (simp only: Gj [symmetric])
    then have chn: "chain ?t' i' = (if i' = j then chain_left ?p t (syn_home p t k i') i' else chain t i')"
      if "i' < length (table t)" for i'
      using table_rep_chain [OF rep2, of i'] that t'(5) lent chs home(2) [OF r] emp pm sn
      by (simp add: hm r chain_left_def set_lock_def)
    note emp
    moreover have "pages ?p (as @ m # bs) = pages p as @ l' # pages p bs" using st(2) ch(4) by simp
    then have pp: "pages ?p as = pages p as" "pages ?p bs = pages p bs" by (auto simp: append_eq_append_conv)
    ultimately have "leaf_page.flat (pages ?p (as @ bs))
        = leaf_page.flat (pages p as) @ entries l' @ leaf_page.flat (pages p bs)"
      by (simp only: map_append pp leaf_page.flat_simps append_Nil)
    moreover have "group_entries ?p ?t' j = leaf_page.flat (pages ?p (group_of ?t' (as0 @ bs0) j))"
      using group_entries_eq [OF rep2] j2 by (simp add: set_lock_def)
    ultimately have "group_entries ?p ?t' j = del_entry k (group_entries p t j)"
      using g2 [OF j2] t'(3) new by simp
    moreover have "same_others ?p ?t ?p ?t' j"
      using t'(4,5) g2 by (intro same_others_cong [OF st(1) rep2]) (simp_all add: set_lock_def)
    then have "same_others p t ?p ?t' j" using oth same_others_trans by blast
    moreover have "unlocked ?t'"
      using unlocked_set_lock [OF ul t'(7)] t'(6) by (simp add: set_lock_def)
    moreover have "remove_synonym t p k j (slot_off p (base_num t j), leaf_of p (base_num t j))
        = Inr (?t', ?p, k \<in> fst ` set (group_entries p t j))"
      using ch(1,2) lock_cycle(1) [OF ul rep(2)] unlock_leaf_ok [OF j2] synonyms_ok [OF rep'] True r t'(1) rm(1) flag
      by (simp add: remove_synonym_def nums(2) [OF rep(2)] Let_def)
    ultimately show ?thesis using rep2 chn by blast
  next
    case False
    then have keep: "(if isEmpty l' then (case r of Some (i, q) \<Rightarrow> synonym_table_remove ?t ss j i | None \<Rightarrow> Inr ?t)
        else Inr ?t) = Inr ?t" for ss by (cases r) auto
    have "chain_left ?p t (syn_home p t k j) j = chain t j"
      using False home(2) pm rm(2) by (auto simp: hm chain_left_def sn isEmpty_iff split: option.split)
    moreover have "set_lock ?t j 0 = t" by (rule lock_cycle(2) [OF ul rep(2)])
    then have rep2: "table_rep N ?p t G" using set_lock_rep(1) [OF st(1), of j 0] by simp
    have "group_entries ?p t j = group_entries ?p ?t j"
      using group_entries_cong [OF rep2 st(1) rep(2) rep'(2)] nums(1) [OF rep(2)] by simp
    moreover have "same_others ?p ?t ?p t j"
      using nums(1) lent by (intro same_others_cong [OF st(1) rep2]) simp_all
    then have "same_others p t ?p t j" using oth same_others_trans by blast
    moreover have "remove_synonym t p k j (slot_off p (base_num t j), leaf_of p (base_num t j))
        = Inr (t, ?p, k \<in> fst ` set (group_entries p t j))"
      using ch(1,2) lock_cycle [OF ul rep(2)] unlock_leaf_ok [OF rep'(2)] synonyms_ok [OF rep'] keep rm(1) flag
      by (simp add: remove_synonym_def nums(2) [OF rep(2)] Let_def)
    ultimately show ?thesis using rep2 ul st(3) new by auto
  qed
qed

section \<open>Insertion\<close>

lemma move_half_eq:
  "mid + i + n \<le> length (keys cur) \<Longrightarrow> i + n \<le> length (keys nl) \<Longrightarrow> length (vals nl) = length (keys nl) \<Longrightarrow>
     length (vals cur) = length (keys cur) \<Longrightarrow> i + n \<le> mid \<Longrightarrow>
   move_half mid i n (nl, cur) =
     (nl\<lparr>keys := take i (keys nl) @ take n (drop (mid + i) (keys cur)) @ drop (i + n) (keys nl),
         vals := take i (vals nl) @ take n (drop (mid + i) (vals cur)) @ drop (i + n) (vals nl)\<rparr>,
      cur\<lparr>keys := take (mid + i) (keys cur) @ replicate n invalidKey @ drop (mid + i + n) (keys cur)\<rparr>)"
proof (induction n arbitrary: i nl cur)
  case (Suc n)
  let ?nl = "nl\<lparr>keys := (keys nl)[i := keys cur ! (mid + i)], vals := (vals nl)[i := vals cur ! (mid + i)]\<rparr>"
  let ?cur = "cur\<lparr>keys := (keys cur)[mid + i := invalidKey]\<rparr>"
  have IH: "move_half mid (Suc i) n (?nl, ?cur) =
     (?nl\<lparr>keys := take (Suc i) (keys ?nl) @ take n (drop (mid + Suc i) (keys ?cur)) @ drop (Suc i + n) (keys ?nl),
         vals := take (Suc i) (vals ?nl) @ take n (drop (mid + Suc i) (vals ?cur)) @ drop (Suc i + n) (vals ?nl)\<rparr>,
      ?cur\<lparr>keys := take (mid + Suc i) (keys ?cur) @ replicate n invalidKey @ drop (mid + Suc i + n) (keys ?cur)\<rparr>)"
    by (rule Suc.IH) (use Suc.prems in auto)
  have tk: "take (Suc i) (xs[i := x]) = take i xs @ [x]" if "i < length xs" for xs :: "u64 list" and i x
    using that by (simp add: take_Suc_conv_app_nth)
  have tn: "take (Suc n) (drop (mid + i) xs) = xs ! (mid + i) # take n (drop (Suc (mid + i)) xs)"
    if "mid + i < length xs" for xs :: "u64 list"
    using that by (simp flip: Cons_nth_drop_Suc)
  show ?case
    using Suc.prems by (simp add: IH tk tn drop_update_cancel)
qed simp

lemma split_leaf_ok:
  assumes cur: "leaf_inv cur" "max_slot cur = N" "isfull cur" and nl: "leaf_inv nl" "max_slot nl = N" "entries nl = []"
    and N: "even N" "2 \<le> N"
  obtains nl' cur' where "move_half (N div 2) 0 (N div 2) (nl, cur) = (nl', cur')"
    "leaf_inv nl'" "max_slot nl' = N" "entries nl' = drop (N div 2) (entries cur)"
    "leaf_inv cur'" "max_slot cur' = N" "entries cur' = take (N div 2) (entries cur)" "length (entries cur) = N"
proof -
  let ?h = "N div 2"
  have h: "?h + ?h = N" "?h < N" using N by auto
  note bc = leaf_inv_bounds [OF cur(1)] and bn = leaf_inv_bounds [OF nl(1)]
  have full: "keys cur = live cur" "length (live cur) = N" "invalidKey \<notin> set (live cur)" "sorted_wrt (<) (live cur)"
    using cur isfull_iff [OF cur(1)] by (auto simp: leaf_inv_def dest: live_not_invalid)
  have empty: "keys nl = replicate N invalidKey"
    using nl length_entries [OF nl(1)] by (auto simp: leaf_inv_def)
  define nl' where "nl' = nl\<lparr>keys := drop ?h (live cur) @ replicate ?h invalidKey, vals := drop ?h (vals cur) @ drop ?h (vals nl)\<rparr>"
  define cur' where "cur' = cur\<lparr>keys := take ?h (live cur) @ replicate ?h invalidKey\<rparr>"
  have mv: "move_half ?h 0 ?h (nl, cur) = (nl', cur')"
    using move_half_eq [of ?h 0 ?h cur nl] bc bn h full empty cur(2) nl(2)
    by (simp add: nl'_def cur'_def)
  have len: "length (vals cur) = N" "length (vals nl) = N" "N < 256"
    using bc bn cur(2) nl(2) by simp_all
  have no: "invalidKey \<notin> set (drop ?h (live cur))" "invalidKey \<notin> set (take ?h (live cur))"
    using full(3) by (auto dest: in_set_dropD in_set_takeD)
  have h2: "N - ?h = ?h" "0 < ?h" "?h + ?h < 256" "min N ?h = ?h" using h len(3) N(2) by simp_all
  have n: "leaf_inv nl'" "live nl' = drop ?h (live cur)"
    by (rule leaf_shape [where m = ?h, OF _ _ no(1)];
        use h2 len(1,2) full(2,4) in \<open>simp add: nl'_def sorted_wrt_drop\<close>)+
  have c: "leaf_inv cur'" "live cur' = take ?h (live cur)"
    by (rule leaf_shape [where m = ?h, OF _ _ no(2)];
        use h h2 len(1) full(2,4) in \<open>simp add: cur'_def sorted_wrt_take\<close>)+
  have vc: "length (vals cur) = N" using bc cur(2) by simp
  have "entries nl' = zip (drop ?h (live cur)) (drop ?h (vals cur) @ drop ?h (vals nl))"
    unfolding entries_def n(2) by (simp add: nl'_def)
  also have "\<dots> = drop ?h (entries cur)"
    using full(2) vc by (simp add: entries_def drop_zip zip_append2)
  finally have en: "entries nl' = drop ?h (entries cur)" .
  have "entries cur' = zip (take ?h (live cur)) (vals cur)"
    unfolding entries_def c(2) by (simp add: cur'_def)
  also have "\<dots> = take ?h (entries cur)"
    using full(2) vc take_zip [of ?h "live cur" "vals cur"] zip_append2 [of "take ?h (live cur)" "take ?h (vals cur)" "drop ?h (vals cur)"]
    by (simp add: entries_def)
  finally have ec: "entries cur' = take ?h (entries cur)" .
  have "max_slot nl' = N" "max_slot cur' = N"
    using full(2) h by (simp_all add: nl'_def cur'_def max_slot_def)
  moreover have "length (entries cur) = N" using length_entries [OF cur(1)] full(2) by simp
  ultimately show ?thesis using that mv n(1) c(1) en ec by blast
qed

text \<open>Inserting into a leaf of the group with room, where the chain's choice falls on it.\<close>

lemma insert_room:
  assumes rep: "table_rep N p t G" "j < length (table t)" and k: "k \<noteq> invalidKey"
    and grp: "group_of t (G j) j = as @ m # bs"
    and chosen: "as = [] \<or> insertHere (leaf_of p m) k" "\<forall>b \<in> set bs. \<not> insertHere (leaf_of p b) k"
    and room: "k \<notin> fst ` set (entries (leaf_of p m))" "\<not> isfull (leaf_of p m)"
  obtains l' pos where "insert_not_full (leaf_of p m) k v = Inr (l', pos)"
    "table_rep N (store p (slot_off p m) l') t G"
    "group_entries (store p (slot_off p m) l') t j = ins_entry k v (group_entries p t j)"
    "same_others p t (store p (slot_off p m) l') t j"
proof -
  let ?l = "leaf_of p m"
  have inv: "leaf_page.chain_inv (pages p as @ ?l # pages p bs)"
    using table_rep_group(6) [OF rep] unfolding grp by simp
  then have l: "leaf_inv ?l" by (simp add: leaf_page.chain_inv_append)
  have m: "m < used_hdr p" using table_rep_group(5) [OF rep, of m] grp by simp
  note pool = table_repD(1) [OF rep(1)]
  have N: "max_slot ?l = N" using pool_inv_leaf(3) [OF pool used_le_alloc [OF pool m]] .
  have ch: "pages p as = [] \<or> insertHere ?l k" "\<forall>b \<in> set (pages p bs). \<not> insertHere b k" using chosen by auto
  have "length (live ?l) \<noteq> max_slot ?l" using room(2) isfull_iff [OF l] by simp
  then obtain l' pos where ins: "insert_not_full ?l k v = Inr (l', pos)"
    using insert_not_full_cases [OF l k, of v] room(1) by simp
  note ok = insert_not_full_ok [OF l k ins]
  have old: "group_entries p t j = leaf_page.flat (pages p as @ ?l # pages p bs)"
    by (simp add: group_entries_eq [OF rep] grp)
  have new: "leaf_page.flat (pages p as) @ entries l' @ leaf_page.flat (pages p bs) = ins_entry k v (group_entries p t j)"
    using leaf_page.flat_ins [OF inv k ch, of v] ok(3) room by (simp add: old)
  have "k \<notin> fst ` set (group_entries p t j)"
    using leaf_page.flat_mem [OF inv k ch] room(1) old by simp
  then have "al_sorted (leaf_page.flat (pages p as) @ entries l' @ leaf_page.flat (pages p bs))"
    using al_sorted_ins_entry al_sorted_group [OF rep] by (simp only: new)
  note st = store_group [OF rep grp ok(1) ok(2) [unfolded N] this]
  show ?thesis using that [OF ins st(1)] st(3,4) new by simp
qed

lemma append_cancel_middle:
  "as @ m # bs = cs @ n # ds \<Longrightarrow> length as = length cs \<Longrightarrow> as = cs \<and> m = n \<and> bs = ds"
  by auto

lemma take_drop_append: "take n xs @ drop n xs @ ys = xs @ ys"
  by (simp flip: append_assoc)

lemma al_sorted_drop_middle: "al_sorted (a @ (x @ y) @ c) \<Longrightarrow> al_sorted (a @ x @ c)"
  by (auto simp: al_sorted_append)

text \<open>Splitting the chosen leaf when it is full.\<close>

lemma split_group:
  assumes rep: "table_rep N p t G" "j < length (table t)"
    and grp: "group_of t (G j) j = as @ m # bs"
    and r: "case r of None \<Rightarrow> as = [] | Some (i, q) \<Rightarrow> i < length (G j) \<and> length as = Suc i"
    and full: "isfull (leaf_of p m)" and nxt: "next_syn t < 127" and f: "used_hdr p < alloc_hdr p"
  obtains pf t1 x G1 nl nl' cur' where
    "fetch_new_leaf p = Inr (pf, slot_off p (used_hdr p), used_hdr p)"
    "(case r of None \<Rightarrow> synonym_emplace_back t True j (used_hdr p) 0 0
      | Some (i, q) \<Rightarrow> synonym_emplace_back t False (unat ((map of_nat (G j) ! i) :: u32)) (used_hdr p) 0 0) = Inr (t1, x)"
    "load pf (slot_off p (used_hdr p)) = Inr nl"
    "move_half (N div 2) 0 (N div 2) (nl, leaf_of p m) = (nl', cur')"
    "table_rep N (store (store pf (slot_off p m) cur') (slot_off p (used_hdr p)) nl') t1 G1"
    "group_of t1 (G1 j) j = as @ m # used_hdr p # bs" "length (table t1) = length (table t)"
    "pages (store (store pf (slot_off p m) cur') (slot_off p (used_hdr p)) nl') (as @ m # used_hdr p # bs)
       = pages p as @ cur' # nl' # pages p bs"
    "group_entries (store (store pf (slot_off p m) cur') (slot_off p (used_hdr p)) nl') t1 j = group_entries p t j"
    "same_others p t (store (store pf (slot_off p m) cur') (slot_off p (used_hdr p)) nl') t1 j"
    "csLocks t1 = csLocks t" "map te_lock (table t1) = map te_lock (table t)"
    "slot_off pf = slot_off p" "leaf_inv nl'" "leaf_inv cur'"
    "entries nl' = drop (N div 2) (entries (leaf_of p m))" "entries cur' = take (N div 2) (entries (leaf_of p m))"
    "\<not> isfull nl'" "\<not> isfull cur'" "length (entries (leaf_of p m)) = N" "2 \<le> N"
proof -
  let ?f = "used_hdr p" and ?pf = "p\<lparr>used_hdr := used_hdr p + 1\<rparr>" and ?l = "leaf_of p m"
  note pool = table_repD(1) [OF rep(1)] and N = table_repD(2,3) [OF rep(1)]
  note ft = fetch_new_leaf_ok [OF pool f]
  have lf: "leaf_of ?pf = leaf_of p" and so: "slot_off ?pf = slot_off p"
    by (simp_all add: leaf_of_def slot_off_def fun_eq_iff)
  have m: "m < used_hdr p" using table_rep_group(5) [OF rep, of m] grp by simp
  have l: "leaf_inv ?l" "max_slot ?l = N" using pool_inv_leaf(2,3) [OF pool used_le_alloc [OF pool m]] .
  have nl: "leaf_inv (leaf_of p ?f)" "max_slot (leaf_of p ?f) = N" "entries (leaf_of p ?f) = []"
    using pool_inv_leaf(2-4) [OF pool f] by simp_all
  obtain nl' cur' where sp: "move_half (N div 2) 0 (N div 2) (leaf_of p ?f, ?l) = (nl', cur')"
    "leaf_inv nl'" "max_slot nl' = N" "entries nl' = drop (N div 2) (entries ?l)"
    "leaf_inv cur'" "max_slot cur' = N" "entries cur' = take (N div 2) (entries ?l)" "length (entries ?l) = N"
    by (rule split_leaf_ok [OF l full nl N])
  obtain as0 bs0 where G: "G j = as0 @ bs0" "as @ [m] = base_num t j # map (syn_num t) as0" "bs = map (syn_num t) bs0"
    and em: "(case r of None \<Rightarrow> synonym_emplace_back t True j ?f 0 0
      | Some (i, q) \<Rightarrow> synonym_emplace_back t False (unat ((map of_nat (G j) ! i) :: u32)) ?f 0 0)
        = synonym_emplace_back t (as0 = []) (if as0 = [] then j else last as0) ?f 0 0"
  proof (cases r)
    case None
    then show ?thesis using that [of "[]" "G j"] grp r by (simp add: group_of_def)
  next
    case (Some q)
    then obtain i where i: "r = Some (i, snd q)" "i < length (G j)" "length as = Suc i"
      using r by (cases q) auto
    have Gj: "G j = take i (G j) @ G j ! i # drop (Suc i) (G j)" by (rule id_take_nth_drop [OF i(2)])
    have "as @ m # bs = (base_num t j # map (syn_num t) (take i (G j))) @ syn_num t (G j ! i) # map (syn_num t) (drop (Suc i) (G j))"
      unfolding grp [symmetric] by (subst Gj) (simp add: group_of_def)
    from append_cancel_middle [OF this] i have e: "as = base_num t j # map (syn_num t) (take i (G j))"
      "m = syn_num t (G j ! i)" "bs = map (syn_num t) (drop (Suc i) (G j))" by auto
    have "G j ! i < 128" using chain_of_range [OF table_rep_group(1) [OF rep], of "G j ! i"] i(2) by simp
    then have un: "unat (map of_nat (G j) ! i :: u32) = G j ! i" using i(2) by (simp add: unat_of_nat_u32)
    have ts: "take (Suc i) (G j) = take i (G j) @ [G j ! i]" using i(2) by (rule take_Suc_conv_app_nth)
    show ?thesis
    proof (rule that [of "take (Suc i) (G j)" "drop (Suc i) (G j)"])
      show "G j = take (Suc i) (G j) @ drop (Suc i) (G j)" by simp
    qed (use i e un in \<open>simp_all add: ts\<close>)
  qed
  obtain t1 where t1: "synonym_emplace_back t (as0 = []) (if as0 = [] then j else last as0) ?f 0 0 = Inr (t1, of_nat (next_syn t))"
    "table_rep N ?pf t1 (G(j := as0 @ next_syn t # bs0))"
    "group_of t1 (as0 @ next_syn t # bs0) j = base_num t j # map (syn_num t) as0 @ ?f # map (syn_num t) bs0"
    "\<forall>i < length (table t). i \<noteq> j \<longrightarrow> group_of t1 (G i) i = group_of t (G i) i"
    "length (table t1) = length (table t)" "csLocks t1 = csLocks t" "map te_lock (table t1) = map te_lock (table t)"
    using emplace_ok [OF rep nxt refl f G(1)] by blast
  let ?G1 = "G(j := as0 @ next_syn t # bs0)"
  have j1: "j < length (table t1)" using t1(5) rep(2) by simp
  have g1: "group_of t1 (?G1 j) j = as @ m # ?f # bs"
    using t1(3) G(2,3) by (metis append_Cons append_Nil append_assoc fun_upd_same)
  have inv: "leaf_page.chain_inv (pages p as @ ?l # pages p bs)"
    using table_rep_group(6) [OF rep] unfolding grp by simp
  have old: "group_entries p t j = leaf_page.flat (pages p as) @ entries ?l @ leaf_page.flat (pages p bs)"
    by (simp add: group_entries_eq [OF rep] grp)
  have halves: "entries ?l = take (N div 2) (entries ?l) @ drop (N div 2) (entries ?l)" by simp
  have srt: "al_sorted (leaf_page.flat (pages p as) @ (take (N div 2) (entries ?l) @ drop (N div 2) (entries ?l)) @ leaf_page.flat (pages p bs))"
    using al_sorted_group [OF rep] unfolding old by simp
  have "al_sorted (leaf_page.flat (pages ?pf as) @ entries cur' @ leaf_page.flat (pages ?pf (?f # bs)))"
    using al_sorted_drop_middle [OF srt] nl(3) by (simp add: lf sp(7))
  note s1 = store_group [OF t1(2) j1 g1 sp(5,6) this]
  let ?p1 = "store ?pf (slot_off ?pf m) cur'"
  have g1': "group_of t1 (?G1 j) j = (as @ [m]) @ ?f # bs" using g1 by simp
  have pg1: "pages ?p1 (as @ m # ?f # bs) = pages p as @ cur' # leaf_of p ?f # pages p bs"
    using s1(2) unfolding g1 by (simp add: lf)
  then have pg1': "pages ?p1 (as @ [m]) = pages p as @ [cur']" "pages ?p1 bs = pages p bs"
    by (auto simp: append_eq_append_conv)
  have "al_sorted (leaf_page.flat (pages ?p1 (as @ [m])) @ entries nl' @ leaf_page.flat (pages ?p1 bs))"
    using srt unfolding pg1' by (simp add: sp(4,7) take_drop_append)
  note s2 = store_group [OF s1(1) j1 g1' sp(2,3) this]
  have so1: "slot_off ?p1 = slot_off p" using so by simp
  let ?p2 = "store ?p1 (slot_off p ?f) nl'"
  have ge: "group_entries ?p2 t1 j = group_entries p t j"
    using s2(3) unfolding so1 pg1' old by (simp add: sp(4,7) take_drop_append)
  have "same_others ?pf t1 ?p2 t1 j"
    using same_others_trans [OF s1(4) s2(4)] by (simp only: so store_simps)
  moreover have "same_others p t ?pf t1 j"
  proof -
    have "group_entries ?pf t1 i = group_entries p t i" if "i < length (table t)" "i \<noteq> j" for i
      using that t1(4,5) by (simp add: group_entries_eq [OF t1(2)] group_entries_eq [OF rep(1)] lf)
    then show ?thesis using t1(5) by (simp add: same_others_def)
  qed
  ultimately have so2: "same_others p t ?p2 t1 j" using same_others_trans by blast
  have nf: "\<not> isfull nl'" "\<not> isfull cur'"
    using sp N isfull_iff length_entries by fastforce+
  have load: "load ?pf (slot_off p ?f) = Inr (leaf_of p ?f)"
    using load_leaf [OF pool f] by (simp add: load_def)
  have pg: "pages ?p2 (as @ m # ?f # bs) = pages p as @ cur' # nl' # pages p bs"
    using s2(2) pg1' unfolding g1' so1 so by (simp add: so)
  have tr: "table_rep N ?p2 t1 ?G1" using s2(1) by (simp only: so store_simps)
  show ?thesis
    by (rule that [OF ft(1) em [unfolded t1(1)] load sp(1) tr [unfolded so] g1 t1(5) pg [unfolded so]
          ge [unfolded so] so2 [unfolded so] t1(6,7) so sp(2,5,4,7) nf sp(8) N(2)])
qed

lemma cs_cycle:
  assumes "unlocked t" "j < length (csLocks t)"
  shows "cs_lock t j = Inr (t\<lparr>csLocks := (csLocks t)[j := 1]\<rparr>)"
    "csLocks t' = (csLocks t)[j := 1] \<Longrightarrow> cs_unlock t' j = Inr (t'\<lparr>csLocks := csLocks t\<rparr>)"
proof -
  have "csLocks t ! j = 0" using unlockedD(2) [OF assms] .
  then have "(csLocks t)[j := 0] = csLocks t" by (metis list_update_id)
  then show "csLocks t' = (csLocks t)[j := 1] \<Longrightarrow> cs_unlock t' j = Inr (t'\<lparr>csLocks := csLocks t\<rparr>)"
    using assms(2) by (simp add: cs_unlock_def)
  show "cs_lock t j = Inr (t\<lparr>csLocks := (csLocks t)[j := 1]\<rparr>)"
    using assms(2) \<open>csLocks t ! j = 0\<close> by (simp add: cs_lock_def)
qed

lemma unlocked_cong:
  "unlocked t \<Longrightarrow> map te_lock (table t') = map te_lock (table t) \<Longrightarrow> csLocks t' = csLocks t \<Longrightarrow> unlocked t'"
  unfolding unlocked_def by (metis (no_types, lifting) image_iff list.set_map)

lemma table_full_iff: "table_rep N p t G \<Longrightarrow> leaf_num (SynonymTable t ! 0) = of_nat (kSynonymMax - 1) \<longleftrightarrow> next_syn t = 127"
  by (simp add: next_syn_def kSynonymMax_def word_unat_eq_iff)

lemma here_take:
  assumes "leaf_inv l" "leaf_inv l'" "entries l' = take n (entries l)" "0 < n" "k \<noteq> invalidKey" "insertHere l k"
  shows "insertHere l' k"
  using assms insertHere_page by (cases "entries l") (auto simp: take_Cons' split: if_splits)

lemma insert_synonym_ok:
  assumes rep: "table_rep N p t G" "j < length (table t)" and ul: "unlocked t" and k: "k \<noteq> invalidKey"
    and base: "b = (slot_off p (base_num t j), leaf_of p (base_num t j))"
  shows "if next_syn t = 127 \<or> k \<in> fst ` set (group_entries p t j)
    then insert_synonym t p k v j b = Inr (t, p, False)
    else (\<exists>t' p' G'. insert_synonym t p k v j b = Inr (t', p', True) \<and> table_rep N p' t' G' \<and> unlocked t'
            \<and> group_entries p' t' j = ins_entry k v (group_entries p t j) \<and> same_others p t p' t' j)
       \<or> insert_synonym t p k v j b = Inl AssertFailed \<and> used_hdr p = alloc_hdr p"
proof (cases "next_syn t = 127")
  case True
  then show ?thesis
    using table_full_iff [OF rep(1)] table_repD(4) [OF rep(1)] by (simp add: insert_synonym_def)
next
  case notfull: False
  let ?t = "t\<lparr>csLocks := (csLocks t)[j := 1]\<rparr>"
  have rep': "table_rep N p ?t G" "j < length (table ?t)" using cs_rep(1) [OF rep(1)] rep(2) by simp_all
  have jl: "j < length (csLocks t)" using table_repD(5) [OF rep(1)] rep(2) by simp
  have nums: "group_of ?t ss i = group_of t ss i" "base_num ?t i = base_num t i" "next_syn ?t = next_syn t" for ss i
    by (simp_all add: group_of_def base_num_def syn_num_def next_syn_def fun_eq_iff)
  have head: "vec_at (SynonymTable t) 0 = Inr (SynonymTable t ! 0)"
    "leaf_num (SynonymTable t ! 0) \<noteq> 127"
    using table_full_iff [OF rep(1)] table_repD(4) [OF rep(1)] notfull by (simp_all add: kSynonymMax_def)
  note cs = cs_cycle [OF ul jl]
  have undo: "?t\<lparr>csLocks := csLocks t\<rparr> = t" by simp
  from rep' k obtain as m bs r where ch: "pick_syn ?t p (map of_nat (G j)) k (length (G j)) = Inr r"
    "choose_leaf r (slot_off p (base_num ?t j), leaf_of p (base_num ?t j)) = (slot_off p m, leaf_of p m)"
    "case r of None \<Rightarrow> as = [] | Some (i, _) \<Rightarrow> i < length (G j) \<and> length as = Suc i"
    "group_of ?t (G j) j = as @ m # bs" "m < used_hdr p" "leaf_inv (leaf_of p m)" "max_slot (leaf_of p m) = N"
    "leaf_page.chain_inv (pages p as @ leaf_of p m # pages p bs)"
    "group_entries p ?t j = leaf_page.flat (pages p as) @ entries (leaf_of p m) @ leaf_page.flat (pages p bs)"
    "pages p as = [] \<or> insertHere (leaf_of p m) k" "\<forall>b \<in> set (pages p bs). \<not> insertHere b k"
    by (rule choose_group)
  let ?l = "leaf_of p m"
  have old: "group_entries p ?t j = group_entries p t j"
    using group_entries_cong [OF rep(1) rep'(1) rep(2) rep'(2)] nums by simp
  have oth0: "same_others p t p ?t j"
    by (rule same_others_cong [OF rep(1) rep'(1)]) (simp_all add: nums)
  have mem: "leaf_contain ?l k \<longleftrightarrow> k \<in> fst ` set (group_entries p t j)"
    using leaf_page.flat_mem [OF ch(8) k ch(10,11)] ch(9) old contain_dom [OF ch(6) k] by simp
  note ev = insert_synonym_def kSynonymMax_def head cs(1) synonyms_ok [OF rep'] ch(1) ch(2) [unfolded nums] mem base
  have final: "\<exists>t' p' G'. Inr (t2\<lparr>csLocks := csLocks t\<rparr>, p2, True) = (Inr (t', p', True) :: (leaf_table \<times> leaf_pool \<times> bool) res)
      \<and> table_rep N p' t' G' \<and> unlocked t' \<and> group_entries p' t' j = ins_entry k v (group_entries p t j) \<and> same_others p t p' t' j"
    if "table_rep N p2 t2 G2" "length (table t2) = length (table t)" "csLocks t2 = (csLocks t)[j := 1]"
      "map te_lock (table t2) = map te_lock (table t)"
      "group_entries p2 t2 j = ins_entry k v (group_entries p t j)" "same_others p t p2 t2 j" for p2 t2 G2
  proof -
    let ?u = "t2\<lparr>csLocks := csLocks t\<rparr>"
    have u: "table_rep N p2 ?u G2" using table_rep_cong(1) [OF that(1), of ?u] that(3) by simp
    have g: "group_of ?u ss i = group_of t2 ss i" for ss i
      by (simp add: group_of_def base_num_def syn_num_def fun_eq_iff)
    have "group_entries p2 ?u j = group_entries p2 t2 j"
      using group_entries_cong [OF that(1) u] g that(2) rep(2) by simp
    moreover have "same_others p t p2 ?u j"
      using same_others_trans [OF that(6)] same_others_cong [OF that(1) u] g by simp
    moreover have "unlocked ?u" using unlocked_cong [OF ul] that(4) by simp
    ultimately show ?thesis using u that(5) by auto
  qed
  show ?thesis
  proof (cases "k \<in> fst ` set (group_entries p t j)")
    case True
    then show ?thesis using cs(2) [of ?t] undo by (simp add: ev)
  next
    case absent: False
    have kl: "k \<notin> fst ` set (entries ?l)" using mem contain_dom [OF ch(6) k] absent by simp
    show ?thesis
    proof (cases "isfull ?l")
      case False
      obtain l' pos where ins: "insert_not_full ?l k v = Inr (l', pos)"
        "table_rep N (store p (slot_off p m) l') ?t G"
        "group_entries (store p (slot_off p m) l') ?t j = ins_entry k v (group_entries p ?t j)"
        "same_others p ?t (store p (slot_off p m) l') ?t j"
        using insert_room [OF rep' k ch(4) _ _ kl False, of v] ch(10,11) by auto
      have "insert_synonym t p k v j b = Inr (?t\<lparr>csLocks := csLocks t\<rparr>, store p (slot_off p m) l', True)"
        using absent False ins(1) cs(2) [of ?t] by (simp add: ev)
      then show ?thesis
        using absent notfull final [OF ins(2)] ins(3,4) old same_others_trans [OF oth0 ins(4)] by simp
    next
      case full: True
      show ?thesis
      proof (cases "used_hdr p < alloc_hdr p")
        case False
        have "used_hdr p = alloc_hdr p" using False table_repD(1) [OF rep(1)] by (simp add: pool_inv_def)
        then show ?thesis
          using absent notfull full head fetch_new_leaf_none [OF table_repD(1) [OF rep(1)]] by (simp add: ev)
      next
        case room: True
        have nxt: "next_syn ?t < 127" using table_repD(7) [OF rep(1)] notfull nums(3) by simp
        let ?f = "used_hdr p"
        obtain pf t1 x G1 nl nl' cur' where sp:
          "fetch_new_leaf p = Inr (pf, slot_off p ?f, ?f)"
          "(case r of None \<Rightarrow> synonym_emplace_back ?t True j ?f 0 0
            | Some (i, q) \<Rightarrow> synonym_emplace_back ?t False (unat ((map of_nat (G j) ! i) :: u32)) ?f 0 0) = Inr (t1, x)"
          "load pf (slot_off p ?f) = Inr nl"
          "move_half (N div 2) 0 (N div 2) (nl, ?l) = (nl', cur')"
          "table_rep N (store (store pf (slot_off p m) cur') (slot_off p ?f) nl') t1 G1"
          "group_of t1 (G1 j) j = as @ m # ?f # bs" "length (table t1) = length (table ?t)"
          "pages (store (store pf (slot_off p m) cur') (slot_off p ?f) nl') (as @ m # ?f # bs)
             = pages p as @ cur' # nl' # pages p bs"
          "group_entries (store (store pf (slot_off p m) cur') (slot_off p ?f) nl') t1 j = group_entries p ?t j"
          "same_others p ?t (store (store pf (slot_off p m) cur') (slot_off p ?f) nl') t1 j"
          "csLocks t1 = csLocks ?t" "map te_lock (table t1) = map te_lock (table ?t)"
          "slot_off pf = slot_off p" "leaf_inv nl'" "leaf_inv cur'"
          "entries nl' = drop (N div 2) (entries ?l)" "entries cur' = take (N div 2) (entries ?l)"
          "\<not> isfull nl'" "\<not> isfull cur'" "length (entries ?l) = N" "2 \<le> N"
          by (rule split_group [OF rep' ch(4,3) full nxt room])
        let ?p = "store (store pf (slot_off p m) cur') (slot_off p ?f) nl'"
        have so: "slot_off ?p = slot_off p" using sp(13) by simp
        have pg: "pages ?p as = pages p as" "leaf_of ?p m = cur'" "leaf_of ?p ?f = nl'" "pages ?p bs = pages p bs"
          using sp(8) by (auto simp: append_eq_append_conv)
        have j1: "j < length (table t1)" using sp(7) rep(2) by simp
        have oth1: "same_others p t ?p t1 j" using same_others_trans [OF oth0 sp(10)] .
        have later: "\<forall>b \<in> set bs. \<not> insertHere (leaf_of ?p b) k" using ch(11) pg(4) by auto
        have sub: "k \<notin> fst ` set (entries nl')" "k \<notin> fst ` set (entries cur')"
          using kl sp(16,17) by (auto dest: in_set_takeD in_set_dropD)
        define tgt where "tgt = (if insertHere nl' k then ?f else m)"
        have tleaf: "leaf_of ?p tgt = (if insertHere nl' k then nl' else cur')"
          "slot_off p tgt = (if insertHere nl' k then slot_off p ?f else slot_off p m)"
          using pg(2,3) by (simp_all add: tgt_def)
        have "\<exists>as' bs'. group_of t1 (G1 j) j = as' @ tgt # bs' \<and> (as' = [] \<or> insertHere (leaf_of ?p tgt) k)
            \<and> (\<forall>b \<in> set bs'. \<not> insertHere (leaf_of ?p b) k)"
        proof (cases "insertHere nl' k")
          case True
          then show ?thesis using sp(6) later pg(3) by (intro exI [of _ "as @ [m]"] exI [of _ bs]) (simp add: tgt_def)
        next
          case False
          have "as = [] \<or> insertHere cur' k"
            using ch(10) here_take [OF ch(6) sp(15,17) _ k] sp(21) by auto
          then show ?thesis
            using False sp(6) later pg(2,3) by (intro exI [of _ as] exI [of _ "?f # bs"]) (simp add: tgt_def)
        qed
        then obtain as' bs' where tg: "group_of t1 (G1 j) j = as' @ tgt # bs'"
          "as' = [] \<or> insertHere (leaf_of ?p tgt) k" "\<forall>b \<in> set bs'. \<not> insertHere (leaf_of ?p b) k" by blast
        have tr: "k \<notin> fst ` set (entries (leaf_of ?p tgt))" "\<not> isfull (leaf_of ?p tgt)"
          using sub sp(18,19) by (simp_all add: tleaf(1))
        obtain l' pos where ins: "insert_not_full (leaf_of ?p tgt) k v = Inr (l', pos)"
          "table_rep N (store ?p (slot_off ?p tgt) l') t1 G1"
          "group_entries (store ?p (slot_off ?p tgt) l') t1 j = ins_entry k v (group_entries ?p t1 j)"
          "same_others ?p t1 (store ?p (slot_off ?p tgt) l') t1 j"
          by (rule insert_room [OF sp(5) j1 k tg tr])
        have "insert_synonym t p k v j b = Inr (t1\<lparr>csLocks := csLocks t\<rparr>, store ?p (slot_off ?p tgt) l', True)"
          using absent full head sp(1-4) ch(7) ins(1) cs(2) [of t1] sp(11)
          by (cases "insertHere nl' k") (simp_all add: ev sp(13) tleaf Let_def)
        then show ?thesis
          using absent notfull final [OF ins(2)] ins(3) sp(7,9,11,12) old same_others_trans [OF oth1 ins(4)]
          by simp
      qed
    qed
  qed
qed

section \<open>Range reads\<close>

text \<open>A result vector filled up to a limit.\<close>

definition fill :: "nat \<Rightarrow> u64 list \<Rightarrow> u64 list \<Rightarrow> u64 list" where
  "fill lim vs xs = vs @ take (lim - length vs) xs"

lemma fill_fill: "fill lim (fill lim vs xs) ys = fill lim vs (xs @ ys)"
  by (cases "length vs + length xs \<le> lim") (auto simp: fill_def)

lemma fill_idle: "\<not> length vs < lim \<Longrightarrow> fill lim vs xs = vs"
  by (simp add: fill_def)

lemma fill_Nil [simp]: "fill lim vs [] = vs"
  by (simp add: fill_def)

lemma range_fill: "leaf_inv l \<Longrightarrow> leaf_range l k n vs = fill (vec_limit n) vs (from_key k (entries l))"
  by (simp add: range_entries fill_def)

lemma from_key_flat: "from_key k (leaf_page.flat (q # ps)) = from_key k (entries q) @ from_key k (leaf_page.flat ps)"
  by (simp add: from_key_append)

lemma range_syn_loop_ok:
  assumes rep: "table_rep N p t G" "i < length (table t)" and "set ss \<subseteq> set (G i)"
  shows "range_syn_loop t p k n vs (map of_nat ss)
    = Inr (fill (vec_limit n) vs (from_key k (leaf_page.flat (pages p (map (syn_num t) ss)))))"
  using assms(3)
proof (induction ss arbitrary: vs)
  case Nil
  then show ?case by (simp add: from_key_def)
next
  case (Cons s ss)
  have "leaf_of p (syn_num t s) \<in> set (pages p (group_of t (G i) i))"
    using Cons.prems by (simp add: group_of_def)
  then have "leaf_inv (leaf_of p (syn_num t s))"
    using table_rep_group(6) [OF rep] by (simp only: leaf_page.chain_inv_def)
  then show ?case
    using Cons syn_leaf_ok [OF rep, of s]
    by (auto simp: range_fill fill_fill from_key_append fill_idle)
qed

lemma next_range_ok:
  assumes rep: "table_rep N p t G" "i < length (table t)"
  shows "next_range t p k n vs i
    = Inr (fill (vec_limit n) vs (from_key k (leaf_page.flat (pages p (map (syn_num t) (G i))))))"
  using synonyms_ok [OF rep] range_syn_loop_ok [OF rep order_refl] by (simp add: next_range_def)

lemma range_table_loop_ok:
  assumes rep: "table_rep N p t G"
  shows "range_table_loop t p k n vs (int i)
    = Inr (fill (vec_limit n) vs (from_key k (concat (map (group_entries p t) [i..<length (table t)]))))"
proof (induction "length (table t) - i" arbitrary: i vs)
  case 0
  then show ?case by (subst range_table_loop.simps) (simp add: in_table_int_def from_key_def)
next
  case (Suc d)
  then have i: "i < length (table t)" by simp
  let ?l = "leaf_of p (base_num t i)" and ?lim = "vec_limit n"
  let ?syn = "leaf_page.flat (pages p (map (syn_num t) (G i)))"
  have l: "leaf_inv ?l" using table_rep_group(6) [OF rep i] by (simp add: group_of_def)
  have ge: "group_entries p t i = entries ?l @ ?syn"
    by (simp add: group_entries_eq [OF rep i] group_of_def)
  have IH: "range_table_loop t p k n vs' (int i + 1)
      = Inr (fill ?lim vs' (from_key k (concat (map (group_entries p t) [Suc i..<length (table t)]))))" for vs'
    using Suc.hyps(1) [of "Suc i" vs'] Suc.hyps(2) by (simp add: add.commute)
  have up: "[i..<length (table t)] = i # [Suc i..<length (table t)]" using i by (rule upt_conv_Cons)
  show ?case
    using base_ok [OF rep i] i next_range_ok [OF rep i, of k n]
    by (subst range_table_loop.simps)
      (auto simp: in_table_int_def range_fill [OF l] Let_def IH fill_idle up ge from_key_append
        simp flip: fill_fill)
qed

definition range_found :: "leaf_pool \<Rightarrow> leaf_table \<Rightarrow> u64 \<Rightarrow> nat \<Rightarrow> nat \<Rightarrow> nat option" where
  "range_found p t k lo hi = find (\<lambda>i. insertHere (leaf_of p (base_num t i)) k) (rev [lo..<Suc hi])"

lemma range_locate_ok:
  assumes rep: "table_rep N p t G" and "lo \<le> hi" "hi < length (table t)"
  shows "range_locate t p k (int lo) (int hi) =
    Inr (map_option (\<lambda>i. (int i, slot_off p (base_num t i), leaf_of p (base_num t i))) (range_found p t k lo hi))"
  using assms(2,3)
proof (induction hi rule: dec_induct)
  case base
  have "range_locate t p k (int lo) (int lo - 1) = Inr None" by (subst range_locate.simps) simp
  with base show ?case
    by (subst range_locate.simps) (simp add: base_ok [OF rep] range_found_def)
next
  case (step hi)
  have "int (Suc hi) - 1 = int hi" by simp
  with step show ?case
    by (subst range_locate.simps) (simp add: base_ok [OF rep, of "Suc hi", simplified] range_found_def)
qed

lemma find_SomeD: "find P xs = Some x \<Longrightarrow> P x \<and> x \<in> set xs"
  by (induction xs) (auto split: if_splits)

lemma range_found_Some:
  "range_found p t k lo hi = Some i \<Longrightarrow> lo \<le> i \<and> i \<le> hi \<and> insertHere (leaf_of p (base_num t i)) k"
  unfolding range_found_def by (drule find_SomeD) (auto simp del: upt_Suc)

lemma range_synonym_ok:
  assumes rep: "table_rep N p t G" "j < length (table t)" and k: "k \<noteq> invalidKey"
  shows "range_synonym t p k n vs j (slot_off p (base_num t j), leaf_of p (base_num t j))
    = Inr (fill (vec_limit n) vs (from_key k (group_entries p t j)))"
proof -
  from rep k obtain as m bs r where ch: "pick_syn t p (map of_nat (G j)) k (length (G j)) = Inr r"
    "choose_leaf r (slot_off p (base_num t j), leaf_of p (base_num t j)) = (slot_off p m, leaf_of p m)"
    "case r of None \<Rightarrow> as = [] | Some (i, _) \<Rightarrow> i < length (G j) \<and> length as = Suc i"
    "group_of t (G j) j = as @ m # bs" "m < used_hdr p" "leaf_inv (leaf_of p m)" "max_slot (leaf_of p m) = N"
    "leaf_page.chain_inv (pages p as @ leaf_of p m # pages p bs)"
    "group_entries p t j = leaf_page.flat (pages p as) @ entries (leaf_of p m) @ leaf_page.flat (pages p bs)"
    "pages p as = [] \<or> insertHere (leaf_of p m) k" "\<forall>b \<in> set (pages p bs). \<not> insertHere b k"
    by (rule choose_group)
  let ?d = "case r of None \<Rightarrow> 0 | Some (i, q) \<Rightarrow> Suc i"
  have "length as = ?d" using ch(3) by (cases r) auto
  moreover have "bs = drop (Suc (length as)) (group_of t (G j) j)" by (simp add: ch(4))
  ultimately have bs: "bs = map (syn_num t) (drop ?d (G j))" by (simp add: group_of_def drop_map)
  have "range_syn_loop t p k n vs' (drop ?d (map of_nat (G j)))
      = Inr (fill (vec_limit n) vs' (from_key k (leaf_page.flat (pages p bs))))" for vs'
    using range_syn_loop_ok [OF rep, of "drop ?d (G j)"] set_drop_subset [of ?d "G j"]
    unfolding bs by (simp add: drop_map)
  moreover have "from_key k (leaf_page.flat (pages p as)) = []"
    using leaf_page.chosen_split(1) [OF ch(8) k ch(10,11)] by (rule from_key_below)
  ultimately show ?thesis
    using synonyms_ok [OF rep] ch(1,2)
    by (simp add: range_synonym_def range_fill [OF ch(6)] fill_fill ch(9) from_key_append)
qed

text \<open>The range read starts in the group found, or in the first one allowed, and runs to the
  end of the table.\<close>

lemma lt_range_ok:
  assumes rep: "table_rep N p t G" and b: "lo \<le> hi" "hi < length (table t)" and k: "k \<noteq> invalidKey"
  shows "lt_range t p k n vs (int lo) (int hi) = Inr (fill (vec_limit n) vs
    (from_key k (concat (map (group_entries p t)
       [(case range_found p t k lo hi of Some i \<Rightarrow> i | None \<Rightarrow> lo)..<length (table t)]))))"
proof (cases "range_found p t k lo hi")
  case None
  then show ?thesis
    using range_locate_ok [OF rep b, of k] range_table_loop_ok [OF rep] b(2)
    by (simp add: lt_range_def in_table_int_def)
next
  case (Some i)
  then have i: "i < length (table t)" using range_found_Some [OF Some] b(2) by simp
  have up: "[i..<length (table t)] = i # [Suc i..<length (table t)]" using i by (rule upt_conv_Cons)
  have "range_table_loop t p k n vs' (int i + 1) = Inr (fill (vec_limit n) vs'
      (from_key k (concat (map (group_entries p t) [Suc i..<length (table t)]))))" for vs'
    using range_table_loop_ok [OF rep, of k n vs' "Suc i"] by (simp add: add.commute)
  then show ?thesis
    using range_locate_ok [OF rep b, of k] b(2) Some range_synonym_ok [OF rep i k, of n vs]
    by (simp add: lt_range_def in_table_int_def up from_key_append fill_fill)
qed

section \<open>Groups as pages\<close>

text \<open>A group is a page of the same contract, whose test is that of its trained leaf. This
  needs the trained leaf not to be empty while its synonym leaves are not: \<open>remove\<close> does not
  keep that, see below.\<close>

definition group_inv :: "leaf list \<Rightarrow> bool" where
  "group_inv ps \<longleftrightarrow> ps \<noteq> [] \<and> leaf_page.chain_inv ps \<and> (entries (hd ps) = [] \<longrightarrow> leaf_page.flat ps = [])"

interpretation group_page: ordered_page group_inv leaf_page.flat "\<lambda>ps. insertHere (hd ps)" "\<lambda>k. k \<noteq> invalidKey"
proof unfold_locales
  show "group_inv ps \<Longrightarrow> al_sorted (leaf_page.flat ps)" for ps
    by (simp add: group_inv_def leaf_page.chain_inv_def)
  fix ps k assume inv: "group_inv ps" and k: "k \<noteq> invalidKey"
  then obtain l ls where ps: "ps = l # ls" "leaf_inv l" by (cases ps) (auto simp: group_inv_def)
  then show "insertHere (hd ps) k \<longleftrightarrow> leaf_page.flat ps \<noteq> [] \<and> fst (hd (leaf_page.flat ps)) \<le> k"
    using inv insertHere_page [OF ps(2) k] by (cases "entries l") (auto simp: group_inv_def)
qed

definition group_pages :: "leaf_pool \<Rightarrow> leaf_table \<Rightarrow> nat \<Rightarrow> nat \<Rightarrow> leaf list list" where
  "group_pages p t lo hi = map (\<lambda>i. pages p (group_of t (chain t i) i)) [lo..<Suc hi]"

text \<open>The entries \<open>lo..hi\<close> of the table as one sorted map.\<close>

definition span_entries :: "leaf_pool \<Rightarrow> leaf_table \<Rightarrow> nat \<Rightarrow> nat \<Rightarrow> entry list" where
  "span_entries p t lo hi = concat (map (group_entries p t) [lo..<Suc hi])"

definition span_ok :: "leaf_pool \<Rightarrow> leaf_table \<Rightarrow> nat \<Rightarrow> nat \<Rightarrow> bool" where
  "span_ok p t lo hi \<longleftrightarrow> al_sorted (span_entries p t lo hi) \<and>
     (\<forall>i \<in> set [lo..<Suc hi]. entries (leaf_of p (base_num t i)) = [] \<longrightarrow> group_entries p t i = [])"

lemma span_flat: "span_entries p t lo hi = group_page.flat (group_pages p t lo hi)"
  by (simp add: span_entries_def group_pages_def group_page.flat_def leaf_page.flat_def o_def
      group_entries_def [abs_def] del: upt_Suc)

lemma span_split:
  assumes rep: "table_rep N p t G" and b: "lo \<le> hi" "hi < length (table t)" and ok: "span_ok p t lo hi"
    and k: "k \<noteq> invalidKey"
  defines "j \<equiv> located p t k lo hi"
  shows "span_entries p t lo hi = concat (map (group_entries p t) [lo..<j]) @ group_entries p t j
      @ concat (map (group_entries p t) [Suc j..<Suc hi])"
    "\<forall>e \<in> set (concat (map (group_entries p t) [lo..<j])). fst e < k"
    "\<forall>e \<in> set (concat (map (group_entries p t) [Suc j..<Suc hi])). k < fst e"
proof -
  have j: "lo \<le> j" "j \<le> hi" using located_range [OF b(1), of p t k] by (simp_all add: j_def)
  then have up: "[lo..<Suc hi] = [lo..<j] @ j # [Suc j..<Suc hi]"
    by (metis upt_add_eq_append le_add_diff_inverse less_Suc_eq_le upt_conv_Cons le_SucI)
  then show split: "span_entries p t lo hi = concat (map (group_entries p t) [lo..<j]) @ group_entries p t j
      @ concat (map (group_entries p t) [Suc j..<Suc hi])" by (simp add: span_entries_def)
  let ?pg = "\<lambda>i. pages p (group_of t (chain t i) i)"
  have hd: "hd (?pg i) = leaf_of p (base_num t i)" for i by (simp add: group_of_def)
  have fl: "leaf_page.flat (?pg i) = group_entries p t i" for i by (simp add: group_entries_def leaf_page.flat_def)
  have flm: "group_page.flat (map ?pg is) = concat (map (group_entries p t) is)" for "is"
    by (simp add: group_page.flat_def fl o_def)
  have "group_inv (?pg i)" if "i \<in> set [lo..<Suc hi]" for i
  proof -
    have "i < length (table t)" using that b(2) by auto
    then have "leaf_page.chain_inv (?pg i)"
      using table_rep_group(6) [OF rep] table_rep_chain [OF rep] by simp
    moreover have "?pg i \<noteq> []" by (simp add: group_of_def)
    ultimately show ?thesis using ok that unfolding group_inv_def hd fl span_ok_def by blast
  qed
  then have "group_page.chain_inv (group_pages p t lo hi)"
    using ok unfolding group_page.chain_inv_def span_flat [symmetric] by (auto simp: group_pages_def span_ok_def)
  then have inv: "group_page.chain_inv (map ?pg [lo..<j] @ ?pg j # map ?pg [Suc j..<Suc hi])"
    unfolding group_pages_def up by simp
  have "map ?pg [lo..<j] = [] \<or> insertHere (hd (?pg j)) k"
    using located_here [OF b(1), of p t k] unfolding hd j_def by (cases "located p t k lo hi = lo") auto
  moreover have "\<forall>r \<in> set (map ?pg [Suc j..<Suc hi]). \<not> insertHere (hd r) k"
    using located_above [OF b(1), of p t k] unfolding j_def by (auto simp: hd simp del: upt_Suc)
  ultimately show "\<forall>e \<in> set (concat (map (group_entries p t) [lo..<j])). fst e < k"
    "\<forall>e \<in> set (concat (map (group_entries p t) [Suc j..<Suc hi])). k < fst e"
    using group_page.chosen_split [OF inv k] unfolding flm by blast+
qed

section \<open>An example table\<close>

text \<open>Two trained leaves of two slots, the first with one synonym leaf, and a free leaf.\<close>

definition ex_leaves :: "leaf list" where
  "ex_leaves = [\<lparr>keys = [10, 20], vals = [1, 2]\<rparr>, \<lparr>keys = [30, 40], vals = [3, 4]\<rparr>,
     \<lparr>keys = [5, invalidKey], vals = [9, 0]\<rparr>, \<lparr>keys = [invalidKey, invalidKey], vals = [0, 0]\<rparr>]"

definition ex_pool :: leaf_pool where
  "ex_pool = \<lparr>pool_lock = 0, total_sz = 144, cur_alloc_sz = 144, cur_alloc_num = 4, slot_sz = 32,
     used_hdr = 3, alloc_hdr = 4,
     heap = [16 \<mapsto> ex_leaves ! 0, 48 \<mapsto> ex_leaves ! 1, 80 \<mapsto> ex_leaves ! 2, 112 \<mapsto> ex_leaves ! 3]\<rparr>"

definition ex_table :: leaf_table where
  "ex_table = \<lparr>table = [mk_te 2 0 0, mk_te 0 1 0],
     SynonymTable = mk_te 2 0 0 # mk_te 1 0 0 # replicate 126 (mk_te 0 0 0), csLocks = [0, 0]\<rparr>"

lemma ex_leaves:
  "leaf_inv (ex_leaves ! 0)" "leaf_inv (ex_leaves ! 1)" "leaf_inv (ex_leaves ! 2)" "leaf_inv (ex_leaves ! 3)"
  "entries (ex_leaves ! 0) = [(10, 1), (20, 2)]" "entries (ex_leaves ! 1) = [(30, 3), (40, 4)]"
  "entries (ex_leaves ! 2) = [(5, 9)]" "entries (ex_leaves ! 3) = []"
  "max_slot (ex_leaves ! 0) = 2" "max_slot (ex_leaves ! 1) = 2" "max_slot (ex_leaves ! 2) = 2"
  "max_slot (ex_leaves ! 3) = 2"
  by code_simp+

lemma ex_leaf_of:
  "leaf_of ex_pool 0 = ex_leaves ! 0" "leaf_of ex_pool 1 = ex_leaves ! 1" "leaf_of ex_pool 2 = ex_leaves ! 2"
  "used_hdr ex_pool = 3" "alloc_hdr ex_pool = 4"
  by (simp_all add: leaf_of_def ex_pool_def slot_off_def)

lemma less_4: "(\<forall>i < 4. P i) \<longleftrightarrow> P 0 \<and> P 1 \<and> P 2 \<and> P (3::nat)"
  by (simp add: numeral_eq_Suc less_Suc_eq) blast

lemma less_2: "(\<forall>i < 2. P i) \<longleftrightarrow> P 0 \<and> P (1::nat)"
  by (auto simp: numeral_eq_Suc less_Suc_eq)

lemma ex_pool_inv: "pool_inv 2 ex_pool"
proof -
  have u: "unat (alloc_hdr ex_pool) = 4" "unat (used_hdr ex_pool) = 3" by (simp_all add: ex_pool_def)
  have h: "heap ex_pool (slot_off ex_pool 0) = Some (ex_leaves ! 0)"
    "heap ex_pool (slot_off ex_pool 1) = Some (ex_leaves ! 1)"
    "heap ex_pool (slot_off ex_pool 2) = Some (ex_leaves ! 2)"
    "heap ex_pool (slot_off ex_pool 3) = Some (ex_leaves ! 3)"
    by (simp_all add: ex_pool_def slot_off_def)
  show ?thesis unfolding pool_inv_def u less_4 using ex_leaves h by (simp add: ex_pool_def)
qed

lemma ex_chain:
  "chain ex_table 0 = []" "chain ex_table 1 = [1]"
  "group_of ex_table [] 0 = [2]" "group_of ex_table [1] 1 = [0, 1]" "base_num ex_table 0 = 2" "base_num ex_table 1 = 0"
  by code_simp+

lemma ex_len: "length (table ex_table) = 2" "next_syn ex_table = 2"
  by (simp_all add: ex_table_def next_syn_def mk_te_def)

lemma ex_used: "m \<in> set (group_of ex_table (chain ex_table 0) 0) \<Longrightarrow> m < 3"
  "m \<in> set (group_of ex_table (chain ex_table 1) 1) \<Longrightarrow> m < 3"
  by (auto simp: ex_chain simp del: One_nat_def)

lemma ex_inv: "table_inv 2 ex_pool ex_table" "unlocked ex_table"
proof -
  have t: "SynonymTable ex_table ! 1 = mk_te 1 0 0" "table ex_table ! 0 = mk_te 2 0 0" "table ex_table ! 1 = mk_te 0 1 0"
    "length (SynonymTable ex_table) = 128" "length (csLocks ex_table) = 2" by (simp_all add: ex_table_def)
  show "table_inv 2 ex_pool ex_table"
    unfolding table_inv_def table_rep_def ex_len less_2
    using ex_pool_inv ex_used
    by (auto simp: ex_chain ex_leaf_of ex_leaves t mk_te_def less_2_cases_iff simp del: One_nat_def)
  show "unlocked ex_table" by (simp add: unlocked_def ex_table_def mk_te_def)
qed

lemma ex_groups: "group_entries ex_pool ex_table 0 = [(5, 9)]"
  "group_entries ex_pool ex_table 1 = [(10, 1), (20, 2), (30, 3), (40, 4)]"
  by (simp_all add: group_entries_def ex_chain ex_leaf_of ex_leaves del: One_nat_def)

lemma ex_span: "span_entries ex_pool ex_table 0 1 = [(5, 9), (10, 1), (20, 2), (30, 3), (40, 4)]"
  "span_ok ex_pool ex_table 0 1"
proof -
  have l: "[0..<Suc 1] = [0, 1]" by simp
  show e: "span_entries ex_pool ex_table 0 1 = [(5, 9), (10, 1), (20, 2), (30, 3), (40, 4)]"
    unfolding span_entries_def l by (simp add: ex_groups del: One_nat_def)
  show "span_ok ex_pool ex_table 0 1"
    unfolding span_ok_def e l by (simp add: ex_chain ex_leaf_of ex_leaves del: One_nat_def)
qed

lemmas ex_span_Suc = ex_span [unfolded One_nat_def]

section \<open>Properties\<close>

lemma table_inv_rep: "table_inv N p t \<Longrightarrow> table_rep N p t (chain t)"
  by (simp add: table_inv_def)

text \<open>An operation on the located group, seen on the whole span of entries it was given.\<close>

lemma span_change:
  assumes same: "same_others p t p' t' (located p t k lo hi)" and b: "lo \<le> hi" "hi < length (table t)"
  shows "span_entries p' t' lo hi = concat (map (group_entries p t) [lo..<located p t k lo hi])
     @ group_entries p' t' (located p t k lo hi) @ concat (map (group_entries p t) [Suc (located p t k lo hi)..<Suc hi])"
proof -
  let ?j = "located p t k lo hi"
  have j: "lo \<le> ?j" "?j \<le> hi" using located_range [OF b(1), of p t k] by simp_all
  then have up: "[lo..<Suc hi] = [lo..<?j] @ ?j # [Suc ?j..<Suc hi]"
    by (metis upt_add_eq_append le_add_diff_inverse less_Suc_eq_le upt_conv_Cons le_SucI)
  have "group_entries p' t' i = group_entries p t i" if "i \<noteq> ?j" "i < length (table t)" for i
    using same that by (simp add: same_others_def)
  then have "map (group_entries p' t') [lo..<?j] = map (group_entries p t) [lo..<?j]"
    "map (group_entries p' t') [Suc ?j..<Suc hi] = map (group_entries p t) [Suc ?j..<Suc hi]"
    using j b(2) by (auto simp del: upt_Suc)
  then show ?thesis by (simp only: span_entries_def up map_append list.map concat_append concat.simps)
qed

lemma lt_search_span:
  assumes "table_inv N p t" "lo \<le> hi" "hi < length (table t)" "span_ok p t lo hi" "k \<noteq> invalidKey"
  shows "lt_search t p k (int lo) (int hi) = Inr (map_of (span_entries p t lo hi) k)"
proof -
  note rep = table_inv_rep [OF assms(1)]
  note sp = span_split [OF rep assms(2-5)]
  have "k \<notin> fst ` set (concat (map (group_entries p t) [lo..<located p t k lo hi]))"
    "k \<notin> fst ` set (concat (map (group_entries p t) [Suc (located p t k lo hi)..<Suc hi]))"
    using sp(2,3) by blast+
  then have "map_of (span_entries p t lo hi) k = map_of (group_entries p t (located p t k lo hi)) k"
    unfolding sp(1) by (metis map_of_append_disjoint)
  then show ?thesis using lt_search_ok [OF rep assms(2,3,5)] by simp
qed

text \<open>C10: a search over the entries \<open>lo..hi\<close> of a well-formed table finds exactly what the
  sorted map of those entries holds.\<close>

theorem lt_search_correct:
  assumes "table_inv N p t" "lo \<le> hi" "hi < length (table t)" "span_ok p t lo hi" "k \<noteq> invalidKey"
  shows "lt_search t p k (int lo) (int hi) = Inr (map_of (span_entries p t lo hi) k)"
  by (rule lt_search_span [OF assms])

theorem lt_search_correct_witness:
  "lt_search ex_table ex_pool 30 0 1 = Inr (Some 3) \<and> lt_search ex_table ex_pool 45 0 1 = Inr None"
  using lt_search_correct [OF ex_inv(1) _ _ ex_span(2), of 30] lt_search_correct [OF ex_inv(1) _ _ ex_span(2), of 45]
  by (simp add: ex_span_Suc ex_len invalidKey_def)

text \<open>C11: \<open>insert\<close> over the entries \<open>lo..hi\<close>. Nothing changes and the answer is false when
  the synonym table is used up or the key is there. Otherwise the pair is inserted into the
  sorted entries, splitting a full leaf into itself and a new synonym leaf, with every other
  entry of the table untouched and all locks free again; or the call aborts, which it can do
  only if no leaf is left in the pool.\<close>

theorem lt_insert_correct:
  assumes "table_inv N p t" "unlocked t" "lo \<le> hi" "hi < length (table t)" "span_ok p t lo hi" "k \<noteq> invalidKey"
  shows "if next_syn t = 127 \<or> k \<in> dom (map_of (span_entries p t lo hi))
    then lt_insert t p k v (int lo) (int hi) = Inr (t, p, False)
    else (\<exists>t' p'. lt_insert t p k v (int lo) (int hi) = Inr (t', p', True) \<and> table_inv N p' t' \<and> unlocked t'
            \<and> span_entries p' t' lo hi = ins_entry k v (span_entries p t lo hi)
            \<and> same_others p t p' t' (located p t k lo hi))
       \<or> lt_insert t p k v (int lo) (int hi) = Inl AssertFailed \<and> used_num p = allocated_num p"
proof -
  let ?j = "located p t k lo hi"
  note rep = table_inv_rep [OF assms(1)]
  note sp = span_split [OF rep assms(3-6)]
  have j: "?j < length (table t)" using located_range [OF assms(3), of p t k] assms(4) by simp
  have dom: "k \<in> dom (map_of (span_entries p t lo hi)) \<longleftrightarrow> k \<in> fst ` set (group_entries p t ?j)"
    using sp(2,3) unfolding dom_map_of_entries sp(1) by auto
  have run: "lt_insert t p k v (int lo) (int hi)
      = insert_synonym t p k v ?j (slot_off p (base_num t ?j), leaf_of p (base_num t ?j))"
    using locate_ok [OF rep assms(3,4), of k] assms(3,4) by (simp add: lt_insert_def in_table_int_def)
  have ins: "span_entries p' t' lo hi = ins_entry k v (span_entries p t lo hi)"
    if "group_entries p' t' ?j = ins_entry k v (group_entries p t ?j)" "same_others p t p' t' ?j" for p' t'
    unfolding span_change [OF that(2) assms(3,4)] sp(1) using sp(2,3)
    by (simp only: that(1) ins_entry_append_left ins_entry_append_right)
  show ?thesis
    using insert_synonym_ok [OF rep j assms(2,6) refl, of v] ins table_rep_inv
    unfolding run dom used_num_def allocated_num_def by (simp split: if_splits) blast
qed

theorem lt_insert_correct_witness:
  "\<exists>t' p'. lt_insert ex_table ex_pool 35 9 0 1 = Inr (t', p', True)
     \<and> span_entries p' t' 0 1 = [(5, 9), (10, 1), (20, 2), (30, 3), (35, 9), (40, 4)]"
proof -
  have "used_num ex_pool \<noteq> allocated_num ex_pool" by (simp add: used_num_def allocated_num_def ex_leaf_of)
  then show ?thesis
    using lt_insert_correct [OF ex_inv _ _ ex_span(2), where k = 35 and v = 9]
    by (simp add: ex_span_Suc ex_len invalidKey_def) blast
qed

lemma lt_update_remove_span:
  assumes "table_inv N p t" "unlocked t" "lo \<le> hi" "hi < length (table t)" "span_ok p t lo hi" "k \<noteq> invalidKey"
  shows "(\<exists>p'. lt_update t p k v (int lo) (int hi) = Inr (t, p', k \<in> dom (map_of (span_entries p t lo hi)))
        \<and> table_inv N p' t \<and> span_entries p' t lo hi = upd_entry k v (span_entries p t lo hi))
     \<and> (\<exists>t' p'. lt_remove t p k (int lo) (int hi) = Inr (t', p', k \<in> dom (map_of (span_entries p t lo hi)))
        \<and> table_inv N p' t' \<and> unlocked t' \<and> span_entries p' t' lo hi = del_entry k (span_entries p t lo hi)
        \<and> same_others p t p' t' (located p t k lo hi)
        \<and> (\<forall>i < length (table t). chain t' i
             = (if i = located p t k lo hi then chain_left p' t (syn_home p t k i) i else chain t i)))"
proof -
  let ?j = "located p t k lo hi"
  note rep = table_inv_rep [OF assms(1)]
  note sp = span_split [OF rep assms(3-6)]
  have j: "?j < length (table t)" using located_range [OF assms(3), of p t k] assms(4) by simp
  have dom: "k \<in> dom (map_of (span_entries p t lo hi)) \<longleftrightarrow> k \<in> fst ` set (group_entries p t ?j)"
    using sp(2,3) unfolding dom_map_of_entries sp(1) by auto
  have no: "k \<notin> fst ` set (concat (map (group_entries p t) [lo..<?j]))"
    "k \<notin> fst ` set (concat (map (group_entries p t) [Suc ?j..<Suc hi]))"
    using sp(2,3) by blast+
  have run: "lt_update t p k v (int lo) (int hi)
      = update_synonym t p k v ?j (slot_off p (base_num t ?j), leaf_of p (base_num t ?j))"
    "lt_remove t p k (int lo) (int hi)
      = remove_synonym t p k ?j (slot_off p (base_num t ?j), leaf_of p (base_num t ?j))"
    using locate_ok [OF rep assms(3,4), of k] assms(3,4)
    by (simp_all add: lt_update_def lt_remove_def in_table_int_def)
  have upd: "span_entries p' t' lo hi = upd_entry k v (span_entries p t lo hi)"
    if "group_entries p' t' ?j = upd_entry k v (group_entries p t ?j)" "same_others p t p' t' ?j" for p' t'
    unfolding span_change [OF that(2) assms(3,4)] sp(1)
    by (simp only: that(1) upd_entry_append upd_entry_idle [OF no(1)] upd_entry_idle [OF no(2)])
  have del: "span_entries p' t' lo hi = del_entry k (span_entries p t lo hi)"
    if "group_entries p' t' ?j = del_entry k (group_entries p t ?j)" "same_others p t p' t' ?j" for p' t'
    unfolding span_change [OF that(2) assms(3,4)] sp(1)
    by (simp only: that(1) del_entry_append del_entry_idle [OF no(1)] del_entry_idle [OF no(2)])
  show ?thesis
    using update_synonym_ok [OF rep j assms(2,6), of v] remove_synonym_ok [OF rep j assms(2,6)]
      upd del table_rep_inv unfolding run dom by blast
qed

text \<open>C12: \<open>update\<close> and \<open>remove\<close> over the entries \<open>lo..hi\<close> replace the value of exactly the
  given key, respectively delete exactly that key, say whether it was there, and leave the
  other entries and the locks as they were. \<open>remove\<close> unlinks from its group's chain of synonym
  leaves the leaf it went to, if that leaf is empty then (the trained leaf of a group is in no
  chain), and changes no chain otherwise.\<close>

theorem lt_update_remove_correct:
  assumes "table_inv N p t" "unlocked t" "lo \<le> hi" "hi < length (table t)" "span_ok p t lo hi" "k \<noteq> invalidKey"
  shows "(\<exists>p'. lt_update t p k v (int lo) (int hi) = Inr (t, p', k \<in> dom (map_of (span_entries p t lo hi)))
        \<and> table_inv N p' t \<and> span_entries p' t lo hi = upd_entry k v (span_entries p t lo hi))
     \<and> (\<exists>t' p'. lt_remove t p k (int lo) (int hi) = Inr (t', p', k \<in> dom (map_of (span_entries p t lo hi)))
        \<and> table_inv N p' t' \<and> unlocked t' \<and> span_entries p' t' lo hi = del_entry k (span_entries p t lo hi)
        \<and> same_others p t p' t' (located p t k lo hi)
        \<and> (\<forall>i < length (table t). chain t' i
             = (if i = located p t k lo hi then chain_left p' t (syn_home p t k i) i else chain t i)))"
  using assms by (rule lt_update_remove_span)

theorem lt_update_remove_correct_witness:
  "\<exists>t' p'. lt_remove ex_table ex_pool 30 0 1 = Inr (t', p', True)
     \<and> span_entries p' t' 0 1 = [(5, 9), (10, 1), (20, 2), (40, 4)]"
  using lt_update_remove_correct [OF ex_inv _ _ ex_span(2), where k = 30 and v = 9]
  by (auto simp: ex_span_Suc ex_len invalidKey_def del_entry_def)

text \<open>C13: a range read starts in the last group of \<open>lo..hi\<close> whose trained leaf takes the key
  (in group \<open>lo\<close> if there is none) and returns the values from the key on, in table order to
  the end of the table, until the result is full.\<close>

theorem lt_range_correct:
  assumes "table_inv N p t" "lo \<le> hi" "hi < length (table t)" "k \<noteq> invalidKey"
  shows "\<exists>s. (case range_found p t k lo hi of Some i \<Rightarrow> s = i \<and> lo \<le> s \<and> s \<le> hi | None \<Rightarrow> s = lo) \<and>
    lt_range t p k n vs (int lo) (int hi)
      = Inr (vs @ take (vec_limit n - length vs)
               (from_key k (concat (map (group_entries p t) [s..<length (table t)]))))"
  using lt_range_ok [OF table_inv_rep [OF assms(1)] assms(2-4), of n vs] range_found_Some [of p t k lo hi]
  by (cases "range_found p t k lo hi") (auto simp: fill_def)

theorem lt_range_correct_witness:
  "lt_range ex_table ex_pool 15 100 [] 0 1 = Inr [2, 3, 4]"
proof -
  have "range_found ex_pool ex_table 15 0 1 = Some 1"
    by (simp add: range_found_def ex_chain [unfolded One_nat_def] ex_leaf_of insertHere_page ex_leaves invalidKey_def)
  moreover have "vec_limit 100 = 100" using vec_limit_of_nat [of 100] by simp
  moreover have "[1..<2] = [1::nat]" by (simp add: numeral_2_eq_2)
  ultimately show ?thesis
    using lt_range_correct [OF ex_inv(1), of 0 1 15 100 "[]"]
    by (simp add: ex_len ex_groups [unfolded One_nat_def] from_key_def invalidKey_def)
qed

end
