(* ===== verification/Machine_Float.thy ===== *)
theory Machine_Float
  imports Complex_Main "HOL-Library.Log_Nat" Rolex_Prelude
begin

text \<open>
  Floating-point numbers as the code computes with them: a \<open>double\<close> is its IEEE-754 bit
  pattern (\<open>u64\<close>), a finite one denotes a rational, and every operation rounds its exact
  result to the nearest representable number, ties to even (x86-64, SSE2). A \<open>long double\<close>
  is the rational value of an 80-bit extended number; the values of the program stay far from
  the ends of its 15-bit exponent range, so only the 64-bit significand is modelled.

  The lemmas bound the error of a rounding and show that small integers are exact.
\<close>

section \<open>Rounding\<close>

definition pow2 :: "int \<Rightarrow> rat" where
  "pow2 e = (if 0 \<le> e then of_int (2 ^ nat e) else 1 / of_int (2 ^ nat (- e)))"

lemma pow2_powi [simp]: "pow2 e = 2 powi e"
  by (simp add: pow2_def power_int_def inverse_eq_divide power_one_over)

text \<open>The position of the leading bit: \<open>2 ^ ilog2 x \<le> |x| < 2 ^ (ilog2 x + 1)\<close>.\<close>

definition ilog2 :: "rat \<Rightarrow> int" where
  "ilog2 x = (let (n, d) = quotient_of \<bar>x\<bar>; k = bitlen n - bitlen d
              in if pow2 k \<le> \<bar>x\<bar> then k else k - 1)"

text \<open>Nearest integer, ties to even.\<close>

definition rne :: "rat \<Rightarrow> int" where
  "rne x = (let f = \<lfloor>x\<rfloor>; r = x - of_int f
            in if r < 1 / 2 then f else if r > 1 / 2 then f + 1 else if even f then f else f + 1)"

definition round_unit :: "int \<Rightarrow> rat \<Rightarrow> rat" where
  "round_unit e x = of_int (rne (x / pow2 e)) * pow2 e"

text \<open>Rounding to \<open>p\<close> significant bits, and to a \<open>double\<close> with its least exponent.\<close>

definition round_bits :: "nat \<Rightarrow> rat \<Rightarrow> rat" where
  "round_bits p x = (if x = 0 then 0 else round_unit (ilog2 x + 1 - int p) x)"

definition ldbl :: "rat \<Rightarrow> rat" where
  "ldbl = round_bits 64"

definition dround :: "rat \<Rightarrow> rat option" where
  "dround x =
     (let r = (if x = 0 then 0 else round_unit (max (ilog2 x) (- 1022) - 52) x)
      in if r = 0 \<or> ilog2 r < 1024 then Some r else None)"

section \<open>Bit patterns\<close>

type_synonym double = u64

definition dval :: "double \<Rightarrow> rat option" where
  "dval b =
     (let e = uint (drop_bit 52 b) mod 2048; m = uint (take_bit 52 b);
          q = (if e = 0 then - 1074 else e - 1075); n = (if e = 0 then m else m + 2 ^ 52);
          a = of_int n * pow2 q
      in if e = 2047 then None else Some (if bit b 63 then - a else a))"

definition double_of :: "rat \<Rightarrow> double" where
  "double_of x =
     (let s = (if x < 0 then push_bit 63 1 else 0 :: u64) in
      case dround x of
        None \<Rightarrow> s + of_int (2047 * 2 ^ 52)
      | Some r \<Rightarrow>
          if r = 0 then s
          else let e = max (ilog2 r) (- 1022); m = \<lfloor>\<bar>r\<bar> / pow2 (e - 52)\<rfloor>
               in s + of_int (if m < 2 ^ 52 then m else (e + 1022) * 2 ^ 52 + m))"

section \<open>Errors\<close>

lemma powi_pos: "(0 :: rat) < 2 powi e"
  by (simp add: zero_less_power_int)

lemma rne_error: "\<bar>of_int (rne x) - x\<bar> \<le> 1 / 2"
proof -
  have "of_int \<lfloor>x\<rfloor> \<le> x" "x < of_int \<lfloor>x\<rfloor> + 1" by (rule of_int_floor_le, rule floor_correct [THEN conjunct2, simplified])
  then show ?thesis unfolding rne_def Let_def by auto
qed

lemma rne_of_int [simp]: "rne (of_int i) = i"
  by (simp add: rne_def)

lemma rne_mono: assumes "x \<le> y" shows "rne x \<le> rne y"
proof (rule ccontr)
  assume "\<not> rne x \<le> rne y"
  then have "of_int (rne y) + 1 \<le> (of_int (rne x) :: rat)" by linarith
  moreover have "\<bar>of_int (rne x) - x\<bar> \<le> 1 / 2" "\<bar>of_int (rne y) - y\<bar> \<le> 1 / 2" by (rule rne_error)+
  ultimately have "x = y" using assms by linarith
  with \<open>\<not> rne x \<le> rne y\<close> show False by simp
qed

lemma round_unit_error: "\<bar>round_unit e x - x\<bar> \<le> 2 powi e / 2"
proof -
  have "\<bar>of_int (rne (x / 2 powi e)) - x / 2 powi e\<bar> * 2 powi e \<le> 1 / 2 * 2 powi e"
    by (rule mult_right_mono [OF rne_error]) (simp add: powi_pos less_imp_le)
  moreover have "\<bar>of_int (rne (x / 2 powi e)) - x / 2 powi e\<bar> * 2 powi e = \<bar>round_unit e x - x\<bar>"
    using powi_pos [of e] by (simp add: round_unit_def abs_mult_pos left_diff_distrib flip: abs_mult_pos')
  ultimately show ?thesis by simp
qed

lemma round_unit_int: "round_unit e (of_int i * 2 powi e) = of_int i * 2 powi e"
  using powi_pos [of e] by (simp add: round_unit_def)

lemma round_unit_mono: "x \<le> y \<Longrightarrow> round_unit e x \<le> round_unit e y"
  unfolding round_unit_def pow2_powi using powi_pos [of e]
  by (intro mult_right_mono) (simp_all add: rne_mono divide_right_mono)

lemma ilog2_bounds:
  assumes "x \<noteq> 0"
  shows "2 powi ilog2 x \<le> \<bar>x\<bar>" "\<bar>x\<bar> < 2 powi (ilog2 x + 1)"
proof -
  obtain n d where q: "quotient_of \<bar>x\<bar> = (n, d)" by (cases "quotient_of \<bar>x\<bar>")
  have d: "d > 0" by (rule quotient_of_denom_pos [OF q])
  then have xd: "\<bar>x\<bar> * of_int d = of_int n" using quotient_of_div [OF q] by simp
  have n: "n > 0"
  proof -
    have "0 < \<bar>x\<bar> * of_int d" using assms d by simp
    then show ?thesis unfolding xd by simp
  qed
  let ?a = "bitlen n" and ?b = "bitlen d"
  have b: "0 < ?a" "0 < ?b" using n d bitlen_nonneg [of n] bitlen_nonneg [of d]
    by (metis bitlen_eq_zero_iff order.order_iff_strict linorder_not_less)+
  have rat: "of_int (2 ^ nat i) = (2 powi i :: rat)" if "0 \<le> i" for i
    using that by (simp add: power_int_def)
  have "of_int (2 ^ nat (?a - 1)) \<le> (of_int n :: rat)" "of_int n < (of_int (2 ^ nat ?a) :: rat)"
       "of_int (2 ^ nat (?b - 1)) \<le> (of_int d :: rat)" "of_int d < (of_int (2 ^ nat ?b) :: rat)"
    using bitlen_bounds [OF n] bitlen_bounds [OF d] by (simp_all only: of_int_le_iff of_int_less_iff)
  then have nb: "2 powi (?a - 1) \<le> (of_int n :: rat)" "of_int n < (2 powi ?a :: rat)"
      "2 powi (?b - 1) \<le> (of_int d :: rat)" "of_int d < (2 powi ?b :: rat)"
    using b by (simp_all only: rat)
  let ?k = "?a - ?b"
  have lo: "2 powi (?k - 1) \<le> \<bar>x\<bar>"
  proof (rule mult_right_le_imp_le [of _ "of_int d"])
    have "2 powi (?k - 1) * of_int d \<le> 2 powi (?k - 1) * (2 powi ?b :: rat)"
      using nb(4) by (intro mult_left_mono) auto
    also have "\<dots> = 2 powi (?a - 1)" by (simp flip: power_int_add)
    also have "\<dots> \<le> of_int n" by (rule nb)
    finally show "2 powi (?k - 1) * of_int d \<le> \<bar>x\<bar> * of_int d" by (simp only: xd)
  qed (use d in simp)
  have hi: "\<bar>x\<bar> < 2 powi (?k + 1)"
  proof (rule mult_right_less_imp_less [of _ "of_int d"])
    have "of_int n < (2 powi ?a :: rat)" by (rule nb)
    also have "\<dots> = 2 powi (?k + 1) * 2 powi (?b - 1)" by (simp flip: power_int_add)
    also have "\<dots> \<le> 2 powi (?k + 1) * of_int d" using nb(3) by (intro mult_left_mono) auto
    finally show "\<bar>x\<bar> * of_int d < 2 powi (?k + 1) * of_int d" by (simp only: xd)
  qed (use d in simp)
  show "2 powi ilog2 x \<le> \<bar>x\<bar>" "\<bar>x\<bar> < 2 powi (ilog2 x + 1)"
    using lo hi by (auto simp: ilog2_def q Let_def not_le)
qed

text \<open>Rounding to \<open>p\<close> bits has a relative error of at most \<open>2 ^ - p\<close>.\<close>

lemma round_bits_error: "\<bar>round_bits p x - x\<bar> \<le> \<bar>x\<bar> * 2 powi (- int p)"
proof (cases "x = 0")
  case False
  have "\<bar>round_bits p x - x\<bar> \<le> 2 powi (ilog2 x + 1 - int p) / 2"
    using False round_unit_error by (simp add: round_bits_def)
  also have "ilog2 x + 1 - int p = ilog2 x + - int p + 1" by simp
  also have "2 powi (ilog2 x + - int p + 1) / 2 = (2 powi ilog2 x * 2 powi (- int p) :: rat)"
    by (subst power_int_add_1, simp, subst power_int_add) simp_all
  also have "\<dots> \<le> \<bar>x\<bar> * 2 powi (- int p)"
    using ilog2_bounds(1) [OF False] by (intro mult_right_mono) auto
  finally show ?thesis .
qed (simp add: round_bits_def)

lemma dround_error:
  assumes "dround x = Some r" "2 powi (- 1022) \<le> \<bar>x\<bar>"
  shows "\<bar>r - x\<bar> \<le> \<bar>x\<bar> * 2 powi (- 53)"
proof -
  have x: "x \<noteq> 0" using assms(2) by auto
  have "- 1022 \<le> ilog2 x"
  proof (rule ccontr)
    assume "\<not> - 1022 \<le> ilog2 x"
    then have "(2 :: rat) powi (ilog2 x + 1) \<le> 2 powi (- 1022)" by (intro power_int_increasing) auto
    with ilog2_bounds(2) [OF x] assms(2) show False by linarith
  qed
  then have "r = round_bits 53 x" using assms(1) x by (auto simp: dround_def round_bits_def Let_def split: if_splits)
  with round_bits_error [of 53 x] show ?thesis by simp
qed

text \<open>Below \<open>2 ^ 53\<close> rounding to a \<open>double\<close> never crosses an integer, so integers are exact.\<close>

lemma dround_int_bounds:
  assumes "\<bar>y\<bar> < 2 ^ 53"
  obtains r where "dround y = Some r" "\<And>i. y \<le> of_int i \<Longrightarrow> r \<le> of_int i" "\<And>i. of_int i \<le> y \<Longrightarrow> of_int i \<le> r"
proof (cases "y = 0")
  case True
  then show thesis by (intro that [of 0]) (auto simp: dround_def)
next
  case False
  let ?e = "max (ilog2 y) (- 1022) - 52"
  have "ilog2 y < 53"
  proof (rule ccontr)
    assume "\<not> ilog2 y < 53"
    then have "(2 :: rat) powi 53 \<le> 2 powi ilog2 y" by (intro power_int_increasing) auto
    with ilog2_bounds(1) [OF False] assms show False by simp
  qed
  then have e: "?e \<le> 0" by simp
  have fix_int: "round_unit ?e (of_int i) = of_int i" for i
  proof -
    have "of_int i = of_int (i * 2 ^ nat (- ?e)) * (2 powi ?e :: rat)"
    proof -
      have "(2 :: rat) ^ nat (- ?e) * 2 powi ?e = 2 powi (int (nat (- ?e)) + ?e)"
        unfolding power_int_of_nat [symmetric] by (rule power_int_add [symmetric]) simp
      also have "int (nat (- ?e)) + ?e = 0" using e by simp
      finally have one: "(2 :: rat) ^ nat (- ?e) * 2 powi ?e = 1" by (simp only: power_int_0_right)
      show ?thesis by (simp only: of_int_mult of_int_power of_int_numeral mult.assoc one mult_1_right)
    qed
    then show ?thesis by (metis round_unit_int)
  qed
  let ?r = "round_unit ?e y"
  have up: "?r \<le> of_int i" if "y \<le> of_int i" for i using round_unit_mono [OF that, of ?e] fix_int by simp
  have low: "of_int i \<le> ?r" if "of_int i \<le> y" for i using round_unit_mono [OF that, of ?e] fix_int by simp
  have "?r \<le> of_int (2 ^ 53)" by (rule up) (use assms in simp)
  moreover have "of_int (- (2 ^ 53)) \<le> ?r" by (rule low) (use assms in simp)
  ultimately have "\<bar>?r\<bar> \<le> 2 ^ 53" by auto
  also have "(2 :: rat) ^ 53 = 2 powi 53" by simp
  also have "\<dots> < 2 powi 1024" by (rule power_int_strict_increasing) auto
  finally have lt: "\<bar>?r\<bar> < 2 powi 1024" .
  have "?r = 0 \<or> ilog2 ?r < 1024"
  proof (rule ccontr)
    assume *: "\<not> (?r = 0 \<or> ilog2 ?r < 1024)"
    then have "(2 :: rat) powi 1024 \<le> 2 powi ilog2 ?r" by (intro power_int_increasing) auto
    with lt ilog2_bounds(1) [of ?r] * show False by simp
  qed
  then have "dround y = Some ?r" using False by (simp add: dround_def Let_def)
  then show thesis using that up low by blast
qed

lemma dround_of_int: "\<bar>i\<bar> < 2 ^ 53 \<Longrightarrow> dround (of_int i) = Some (of_int i)"
proof -
  assume "\<bar>i\<bar> < 2 ^ 53"
  then have "of_int \<bar>i\<bar> < (of_int (2 ^ 53) :: rat)" by (simp only: of_int_less_iff)
  then have "\<bar>of_int i :: rat\<bar> < 2 ^ 53" by simp
  then obtain r where r: "dround (of_int i) = Some r" "\<And>j. of_int i \<le> (of_int j :: rat) \<Longrightarrow> r \<le> of_int j"
      "\<And>j. of_int j \<le> (of_int i :: rat) \<Longrightarrow> of_int j \<le> r"
    by (rule dround_int_bounds) blast
  have "r = of_int i" by (rule antisym) (rule r(2) r(3), simp)+
  with r(1) show ?thesis by simp
qed

text \<open>The conversion of a 64-bit integer to \<open>double\<close> never overflows, and a large one stays large.\<close>

lemma dround_i64:
  assumes "\<bar>i\<bar> \<le> 2 ^ 63"
  obtains r where "dround (of_int i) = Some r" "\<bar>r\<bar> \<le> 2 ^ 64" "2 ^ 53 \<le> i \<Longrightarrow> 2 ^ 52 < r"
    "\<bar>i\<bar> < 2 ^ 53 \<Longrightarrow> r = of_int i"
proof (cases "\<bar>i\<bar> < 2 ^ 53")
  case True
  have "of_int \<bar>i\<bar> \<le> (of_int (2 ^ 63) :: rat)" using assms by (simp only: of_int_le_iff)
  then show ?thesis using that [OF dround_of_int [OF True]] True by simp
next
  case False
  let ?x = "of_int i :: rat" and ?e = "max (ilog2 (of_int i)) (- 1022) - 52"
  have x0: "?x \<noteq> 0" using False by auto
  have "of_int (2 ^ 53) \<le> (of_int \<bar>i\<bar> :: rat)" "of_int \<bar>i\<bar> \<le> (of_int (2 ^ 63) :: rat)"
    using False assms by (simp_all only: of_int_le_iff not_less)
  then have b: "2 ^ 53 \<le> \<bar>?x\<bar>" "\<bar>?x\<bar> \<le> 2 ^ 63" by simp_all
  have lg: "2 powi ilog2 ?x \<le> \<bar>?x\<bar>" "\<bar>?x\<bar> < 2 powi (ilog2 ?x + 1)" using ilog2_bounds [OF x0] by simp_all
  have "0 \<le> ilog2 ?x"
  proof (rule ccontr)
    assume "\<not> 0 \<le> ilog2 ?x"
    then have "(2 :: rat) powi (ilog2 ?x + 1) \<le> 2 powi 0" by (intro power_int_increasing) simp_all
    then show False using lg(2) b(1) by simp
  qed
  then have e: "?e = ilog2 ?x - 52" by simp
  have "(2 :: rat) powi ?e \<le> 2 powi (ilog2 ?x)" unfolding e by (intro power_int_increasing) simp_all
  then have "\<bar>round_unit ?e ?x - ?x\<bar> \<le> \<bar>?x\<bar>"
    using round_unit_error [of ?e ?x] lg(1) abs_ge_zero [of "round_unit ?e ?x - ?x"] by linarith
  moreover have "\<bar>round_unit ?e ?x\<bar> \<le> \<bar>round_unit ?e ?x - ?x\<bar> + \<bar>?x\<bar>"
    using abs_triangle_ineq [of "round_unit ?e ?x - ?x" ?x] by simp
  ultimately have r: "\<bar>round_unit ?e ?x\<bar> \<le> 2 ^ 64" using b(2) by simp
  have err: "\<bar>round_unit ?e ?x - ?x\<bar> \<le> \<bar>?x\<bar> / 2 ^ 53"
  proof -
    have "(2 :: rat) powi ?e = 2 powi (ilog2 ?x) / 2 ^ 52"
      unfolding e by (subst power_int_diff) simp_all
    then show ?thesis using round_unit_error [of ?e ?x] lg(1) by (simp add: field_simps)
  qed
  have "ilog2 (round_unit ?e ?x) < 1024" if "round_unit ?e ?x \<noteq> 0"
  proof (rule ccontr)
    assume "\<not> ilog2 (round_unit ?e ?x) < 1024"
    then have "(2 :: rat) powi 1024 \<le> 2 powi (ilog2 (round_unit ?e ?x))" by (intro power_int_increasing) simp_all
    then have "(2 :: rat) powi 1024 \<le> 2 ^ 64" using ilog2_bounds(1) [OF that] r by linarith
    then show False by simp
  qed
  then have d: "dround ?x = Some (round_unit ?e ?x)" using x0 by (auto simp: dround_def Let_def)
  have "2 ^ 52 < round_unit ?e ?x" if "2 ^ 53 \<le> i"
  proof -
    have "of_int (2 ^ 53) \<le> ?x" using that by (simp only: of_int_le_iff)
    then have "2 ^ 53 \<le> ?x" by simp
    moreover from this have "- (round_unit ?e ?x - ?x) \<le> ?x / 2 ^ 53" using abs_le_D2 [OF err] by simp
    ultimately show ?thesis by simp
  qed
  then show ?thesis using that [OF d r] False by simp
qed

lemma dround_of_nat: "n < 2 ^ 53 \<Longrightarrow> dround (of_nat n) = Some (of_nat n)"
  using dround_of_int [of "int n"] by simp

end
