(* ===== verification/Byte_Memory.thy ===== *)
theory Byte_Memory
  imports Marshal
begin

text \<open>
  Byte-addressed memory: reading with \<open>memcpy\<close> from a buffer, beside \<open>mem_put\<close> of
  \<^theory_text>\<open>Marshal\<close>, and the laws of reads after writes, for single words and for whole objects.
  A pointer into a buffer is an offset; access beyond the end is undefined behaviour.
\<close>

section \<open>Reads and writes\<close>

definition mem_get :: "bytes \<Rightarrow> nat \<Rightarrow> nat \<Rightarrow> bytes res" where
  "mem_get m off n = (if off + n \<le> length m then Inr (take n (drop off m)) else Inl UB)"

text \<open>Reading and writing an object of type \<open>T\<close>.\<close>

definition obj_get :: "'a pod \<Rightarrow> bytes \<Rightarrow> nat \<Rightarrow> 'a res" where
  "obj_get p m off = rbind (mem_get m off (size_of p)) (\<lambda>bs. Inr (of_bytes p bs))"

definition obj_put :: "'a pod \<Rightarrow> bytes \<Rightarrow> nat \<Rightarrow> 'a \<Rightarrow> bytes res" where
  "obj_put p m off x = mem_put m off (to_bytes p x)"

section \<open>Laws\<close>

lemma mem_put_Inr_iff [res_iff]:
  "mem_put m off bs = Inr m' \<longleftrightarrow>
     off + length bs \<le> length m \<and> m' = take off m @ bs @ drop (off + length bs) m"
  by (auto simp: mem_put_def)

lemma mem_get_Inr_iff [res_iff]:
  "mem_get m off n = Inr bs \<longleftrightarrow> off + n \<le> length m \<and> bs = take n (drop off m)"
  by (auto simp: mem_get_def)

lemma mem_put_ok: "off + length bs \<le> length m \<Longrightarrow> \<exists>m'. mem_put m off bs = Inr m' \<and> length m' = length m"
  by (simp add: mem_put_def)

lemma mem_put_length: "mem_put m off bs = Inr m' \<Longrightarrow> length m' = length m"
  by (auto simp: res_iff)

lemma mem_get_put_same: "mem_put m off bs = Inr m' \<Longrightarrow> n = length bs \<Longrightarrow> mem_get m' off n = Inr bs"
  by (auto simp: res_iff)

lemma mem_get_put_other:
  assumes "mem_put m off bs = Inr m'" "a + n \<le> off \<or> off + length bs \<le> a"
  shows "mem_get m' a n = mem_get m a n"
proof -
  have len: "length m' = length m" by (rule mem_put_length [OF assms(1)])
  have m': "off + length bs \<le> length m" "m' = take off m @ bs @ drop (off + length bs) m"
    using assms(1) by (auto simp: res_iff)
  have "take n (drop a m') = take n (drop a m)" if le: "a + n \<le> length m"
  proof (rule nth_equalityI)
    show "length (take n (drop a m')) = length (take n (drop a m))" by (simp add: len)
    fix i assume "i < length (take n (drop a m'))"
    then have i: "i < n" "a + i < length m" by (auto simp: len)
    have "m' ! (a + i) = m ! (a + i)"
      using assms(2) i le m'(1) by (auto simp: m'(2) nth_append)
    with i len show "take n (drop a m') ! i = take n (drop a m) ! i" by simp
  qed
  then show ?thesis by (simp add: mem_get_def len)
qed

context pod_codec
begin

lemma obj_put_ok: "off + size_of p \<le> length m \<Longrightarrow> \<exists>m'. obj_put p m off x = Inr m' \<and> length m' = length m"
  using mem_put_ok [of off "to_bytes p x" m] by (simp add: obj_put_def len)

lemma obj_put_length: "obj_put p m off x = Inr m' \<Longrightarrow> length m' = length m"
  by (auto simp: obj_put_def intro: mem_put_length)

lemma obj_put_bound: "obj_put p m off x = Inr m' \<Longrightarrow> off + size_of p \<le> length m"
  by (simp add: obj_put_def res_iff len)

lemma obj_get_put_same: "obj_put p m off x = Inr m' \<Longrightarrow> obj_get p m' off = Inr x"
  by (simp add: obj_get_def obj_put_def mem_get_put_same len inv)

lemma mem_get_put_other_obj:
  "obj_put p m off x = Inr m' \<Longrightarrow> a + n \<le> off \<or> off + size_of p \<le> a \<Longrightarrow> mem_get m' a n = mem_get m a n"
  by (rule mem_get_put_other [where off = off and bs = "to_bytes p x"]) (simp_all add: obj_put_def len)

lemma obj_get_ok: "off + size_of p \<le> length m \<Longrightarrow> \<exists>x. obj_get p m off = Inr x"
  by (simp add: obj_get_def mem_get_def)

lemma obj_get_short: "length m < off + size_of p \<Longrightarrow> obj_get p m off = Inl UB"
  by (simp add: obj_get_def mem_get_def)

end

lemma obj_get_other:
  "mem_get m' a (size_of q) = mem_get m a (size_of q) \<Longrightarrow> obj_get q m' a = obj_get q m a"
  by (simp add: obj_get_def)

end
