(* ===== verification/Model_Alloc.thy ===== *)
theory Model_Alloc
  imports Byte_Memory
begin

text \<open>
  The model region, \<^verbatim>\<open>rolex/model_allocator.hpp\<close>, and the search over the keys of the upper
  models, \<^verbatim>\<open>rolex/rolex_util.hh\<close>.

  The region starts with a word for the number of models; then come the keys of the models,
  in its second 16 MB their offsets, and from \<open>kUpperModel\<close> on the serialized submodels. A
  pointer is an offset into the region, whose bytes are part of the allocator's state. The lemmas show that the search is
  the lower bound for two and more models (and undefined for one), that everything the
  allocator hands out is disjoint and in the region, and where the bound on the models is off
  by one.
\<close>

section \<open>Branchless binary search\<close>

definition kUpperModel :: u64 where
  "kUpperModel = 32 * 1024 * 1024"

text \<open>\<open>__builtin_clz\<close> counts the leading zeros and is undefined at 0.\<close>

definition clz :: "u32 \<Rightarrow> nat" where
  "clz x = length (takeWhile (\<lambda>i. \<not> bit x i) (rev [0..<32]))"

definition bsr :: "u32 \<Rightarrow> nat res" where
  "bsr x = (if x = 0 then Inl UB else Inr (31 - clz x))"

definition arr_at :: "'a list \<Rightarrow> int \<Rightarrow> 'a res" where
  "arr_at arr i = (if i < 0 then Inl UB else vec_at arr (nat i))"

fun bs_loop :: "u64 list \<Rightarrow> u64 \<Rightarrow> int \<Rightarrow> nat \<Rightarrow> int res" where
  "bs_loop arr key pos step =
     (if step > 0 then
        rbind (arr_at arr (pos + int step)) (\<lambda>a.
          bs_loop arr key (if a < key then pos + int step else pos) (step div 2))
      else Inr pos)"

declare bs_loop.simps [simp del]

definition binary_search_branchless :: "u64 list \<Rightarrow> i32 \<Rightarrow> u64 \<Rightarrow> i32 res" where
  "binary_search_branchless arr n key =
     rbind (bsr (n - 1)) (\<lambda>logstep.
       let step = 2 ^ logstep; pos = - 1 in
       rbind (arr_at arr (pos + sint n - int step)) (\<lambda>a.
         let pos = (if a < key then pos + sint n - int step else pos) in
         rbind (bs_loop arr key pos (step div 2)) (\<lambda>pos.
           let pos = pos + 1 in
           rbind (arr_at arr pos) (\<lambda>a. Inr (if a \<ge> key then of_int pos else n)))))"

section \<open>The allocator\<close>

record model_pool =
  mem_pool :: bytes
  m_total_sz :: u64
  m_cur_alloc_sz :: u64
  upper_alloc_num :: u64
  max_upper_num :: u64

definition ModelAllocator :: "bytes \<Rightarrow> u64 \<Rightarrow> model_pool res" where
  "ModelAllocator m t =
     rassert (t > kUpperModel)
       (rbind (obj_put u64_pod m 0 0) (\<lambda>m.
          Inr \<lparr>mem_pool = m, m_total_sz = t, m_cur_alloc_sz = kUpperModel, upper_alloc_num = 0,
               max_upper_num = min ((kUpperModel div 2 - 8) div 8) (kUpperModel div 2 div 8)\<rparr>))"

definition get_upper :: "model_pool \<Rightarrow> u64 \<Rightarrow> nat \<times> nat" where
  "get_upper p idx = (8 + unat (idx * 8), unat (kUpperModel div 2) + unat (8 * idx))"

definition alloc_upper :: "model_pool \<Rightarrow> (model_pool \<times> nat \<times> nat) res" where
  "alloc_upper p =
     (if upper_alloc_num p > max_upper_num p then Inl AssertFailed
      else let alloc_num = upper_alloc_num p in
        Inr (p\<lparr>upper_alloc_num := alloc_num + 1\<rparr>,
             8 + unat (8 * alloc_num), unat (8 * alloc_num) + unat (kUpperModel div 2)))"

definition alloc_submodel :: "model_pool \<Rightarrow> usize \<Rightarrow> (model_pool \<times> nat \<times> u64) res" where
  "alloc_submodel p alloc_size =
     (if m_cur_alloc_sz p + ucast alloc_size > m_total_sz p then Inl AssertFailed
      else let res = m_cur_alloc_sz p in
        Inr (p\<lparr>m_cur_alloc_sz := res + ucast alloc_size\<rparr>, unat res, res))"

definition get_total_ptr :: "model_pool \<Rightarrow> nat" where
  "get_total_ptr p = 0"

definition get_submodel :: "model_pool \<Rightarrow> u64 \<Rightarrow> nat" where
  "get_submodel p off = unat off"

section \<open>The search is the lower bound\<close>

lemma clz_highest:
  assumes "x \<noteq> 0"
  shows "clz x < 32 \<and> bit x (31 - clz x) \<and> (\<forall>j. 31 - clz x < j \<longrightarrow> \<not> bit x j)"
proof -
  let ?P = "\<lambda>i. \<not> bit x i" and ?is = "rev [0..<32]"
  have at: "?is ! i = 31 - i" if "i < 32" for i using that by (simp add: rev_nth)
  obtain j where j: "bit x j" using assms by (metis bit_eqI bit_0_eq bot_apply bot_bool_def)
  have below: "i < 32" if "bit x i" for i using bit_imp_le_length [OF that] by simp
  have lt: "clz x < 32"
  proof (rule ccontr)
    assume "\<not> clz x < 32"
    then have "takeWhile ?P ?is = ?is"
      by (metis clz_def diff_zero length_rev length_takeWhile_le length_upt linorder_not_less
          le_antisym takeWhile_eq_take take_all order_refl)
    then have "\<forall>i \<in> set ?is. ?P i" by (metis takeWhile_eq_all_conv)
    with j below [OF j] show False by simp
  qed
  have "\<not> ?P (?is ! clz x)"
    unfolding clz_def by (rule nth_length_takeWhile) (use lt in \<open>simp add: clz_def\<close>)
  then have "bit x (31 - clz x)" using at [OF lt] by simp
  moreover have "\<not> bit x j" if "31 - clz x < j" for j
  proof (cases "j < 32")
    case True
    then have i: "31 - j < clz x" using that by linarith
    have "takeWhile ?P ?is ! (31 - j) \<in> set (takeWhile ?P ?is)"
      using i by (simp add: clz_def)
    then have "?P (takeWhile ?P ?is ! (31 - j))" by (blast dest: set_takeWhileD)
    then show ?thesis using i True at [of "31 - j"] by (simp add: takeWhile_nth clz_def)
  next
    case False
    then show ?thesis using below by blast
  qed
  ultimately show ?thesis using lt by blast
qed

lemma bsr_bounds:
  assumes "x \<noteq> 0"
  obtains l where "bsr x = Inr l" "2 ^ l \<le> unat x" "unat x < 2 ^ Suc l" "l < 32"
proof -
  let ?l = "31 - clz x"
  note h = clz_highest [OF assms]
  have "bit (unat x) ?l" using h by (simp add: bit_unsigned_iff)
  then have "odd (unat x div 2 ^ ?l)" by (simp add: bit_iff_odd)
  then have "unat x div 2 ^ ?l \<noteq> 0" by (metis even_zero)
  then have lo: "2 ^ ?l \<le> unat x" by (simp add: div_eq_0_iff)
  have "drop_bit (Suc ?l) (unat x) = 0"
  proof (rule bit_eqI)
    fix n
    show "bit (drop_bit (Suc ?l) (unat x)) n = bit (0::nat) n"
      using h by (simp add: bit_drop_bit_eq bit_unsigned_iff)
  qed
  then have hi: "unat x < 2 ^ Suc ?l" by (simp add: drop_bit_eq_div div_eq_0_iff)
  show thesis by (rule that [OF _ lo hi]) (simp_all add: bsr_def assms)
qed

text \<open>The number of keys below \<open>key\<close>, the position \<open>std::lower_bound\<close> returns.\<close>

definition lower_bound :: "u64 list \<Rightarrow> u64 \<Rightarrow> nat" where
  "lower_bound arr key = length (filter (\<lambda>k. k < key) arr)"

lemma lower_bound_le: "lower_bound arr key \<le> length arr"
  by (simp add: lower_bound_def)

lemma nth_less_lower_bound:
  "sorted arr \<Longrightarrow> i < length arr \<Longrightarrow> arr ! i < key \<longleftrightarrow> i < lower_bound arr key"
proof (induction arr arbitrary: i)
  case Nil
  then show ?case by simp
next
  case (Cons a arr)
  have "filter (\<lambda>k. k < key) arr = []" if "\<not> a < key"
    using that Cons.prems(1) by (auto simp: filter_empty_conv)
  with Cons show ?case by (cases i) (auto simp: lower_bound_def dest: nth_mem)
qed

lemma arr_at_nat: "0 \<le> i \<Longrightarrow> nat i < length arr \<Longrightarrow> arr_at arr i = Inr (arr ! nat i)"
  by (simp add: arr_at_def)

lemma bs_loop_correct:
  assumes "\<And>i. i < m \<Longrightarrow> arr ! i < key \<longleftrightarrow> i < c"
    and "m \<le> length arr" "- 1 \<le> pos" "pos < int c" "int c \<le> pos + 2 ^ j" "pos + 2 ^ j \<le> int m"
  shows "bs_loop arr key pos (2 ^ j div 2) = Inr (int c - 1)"
  using assms(3-)
proof (induction j arbitrary: pos)
  case 0
  then have "pos = int c - 1" by simp
  then show ?case by (subst bs_loop.simps) simp
next
  case (Suc j)
  let ?q = "pos + 2 ^ j"
  have q: "0 \<le> ?q" "nat ?q < m" "int (nat ?q) = ?q"
    using Suc.prems by (auto simp: nat_less_iff intro: order_trans [of _ "pos + 1"])
  then have at: "arr_at arr ?q = Inr (arr ! nat ?q)" using assms(2) q(1,2) by (simp add: arr_at_def not_less)
  have cmp: "arr ! nat ?q < key \<longleftrightarrow> ?q < int c" using assms(1) q by (metis of_nat_less_iff)
  have ih: "bs_loop arr key (if arr ! nat ?q < key then ?q else pos) (2 ^ j div 2) = Inr (int c - 1)"
    by (rule Suc.IH) (use Suc.prems cmp q in \<open>auto simp: not_less\<close>)
  have half: "2 ^ Suc j div 2 = (2 ^ j :: nat)" by simp
  show ?case
    using ih unfolding half by (subst bs_loop.simps) (auto simp: at split: if_splits)
qed

lemma binary_search_lower_bound:
  assumes srt: "sorted arr" and n: "2 \<le> length arr" "length arr < 2 ^ 31"
  shows "binary_search_branchless arr (of_nat (length arr)) key = Inr (of_nat (lower_bound arr key))"
proof -
  let ?n = "length arr" and ?c = "lower_bound arr key"
  have w: "unat (of_nat ?n - 1 :: u32) = ?n - 1"
  proof -
    have "(of_nat ?n - 1 :: u32) = of_nat (?n - 1)" using n by (simp add: of_nat_diff)
    moreover have "unat (of_nat (?n - 1) :: u32) = ?n - 1"
      unfolding unat_of_nat using n by (simp add: take_bit_nat_eq_self)
    ultimately show ?thesis by (simp only:)
  qed
  then have nz: "(of_nat ?n - 1 :: u32) \<noteq> 0" using n by (metis One_nat_def diff_is_0_eq not_less_eq_eq
        numeral_2_eq_2 unat_0)
  obtain l where l: "bsr (of_nat ?n - 1) = Inr l" "2 ^ l \<le> ?n - 1" "?n - 1 < 2 ^ Suc l" "l < 32"
    using bsr_bounds [OF nz] unfolding w by metis
  define c' where "c' = min ?c (?n - 1)"
  have s: "sint (of_nat ?n :: i32) = int ?n" using n by (intro sint_of_nat_i32) simp
  let ?q = "- 1 + int ?n - 2 ^ l"
  have l': "2 ^ l \<le> int ?n - 1" "int ?n - 1 < 2 * 2 ^ l"
  proof -
    have "int (2 ^ l) \<le> int (?n - 1)" "int (?n - 1) < int (2 ^ Suc l)"
      using l(2,3) by (simp_all only: of_nat_le_iff of_nat_less_iff)
    then show "2 ^ l \<le> int ?n - 1" "int ?n - 1 < 2 * 2 ^ l" using n by auto
  qed
  have q: "0 \<le> ?q" "nat ?q < ?n - 1" "int (nat ?q) = ?q" using l' n by auto
  have cmp: "arr ! i < key \<longleftrightarrow> i < c'" if "i < ?n - 1" for i
    using nth_less_lower_bound [OF srt, of i key] that by (auto simp: c'_def)
  have cq: "arr ! nat ?q < key \<longleftrightarrow> ?q < int c'" using cmp [OF q(2)] q(3) by (metis of_nat_less_iff)
  have c'le: "int c' \<le> int ?n - 1" using n by (auto simp: c'_def)
  have at: "arr_at arr ?q = Inr (arr ! nat ?q)" by (rule arr_at_nat) (use q n in linarith)+
  have loop: "bs_loop arr key (if arr ! nat ?q < key then ?q else - 1) (2 ^ l div 2) = Inr (int c' - 1)"
  proof (cases "arr ! nat ?q < key")
    case True
    have "bs_loop arr key ?q (2 ^ l div 2) = Inr (int c' - 1)"
      by (rule bs_loop_correct [where m = "?n - 1", OF cmp])
        (use True cq q(1) c'le l' n in \<open>linarith+\<close>)
    with True show ?thesis by (simp only: if_True)
  next
    case False
    have "bs_loop arr key (- 1) (2 ^ l div 2) = Inr (int c' - 1)"
      by (rule bs_loop_correct [where m = "?n - 1", OF cmp])
        (use False cq q(1) c'le l' n in \<open>linarith+\<close>)
    with False show ?thesis by (simp only: if_False)
  qed
  have at': "arr_at arr (int c') = Inr (arr ! c')" using n by (simp add: arr_at_def c'_def)
  have fin: "(if arr ! c' \<ge> key then of_int (int c') else of_nat ?n :: i32) = of_nat ?c"
  proof (cases "?c < ?n")
    case True
    then have "c' = ?c" by (simp add: c'_def)
    moreover have "key \<le> arr ! ?c" using nth_less_lower_bound [OF srt True, of key] by simp
    ultimately show ?thesis by simp
  next
    case False
    then have "?c = ?n" "c' = ?n - 1" using lower_bound_le [of arr key] by (auto simp: c'_def)
    moreover have "arr ! (?n - 1) < key"
      using nth_less_lower_bound [OF srt, of "?n - 1" key] n \<open>?c = ?n\<close> by simp
    ultimately show ?thesis by (simp add: not_le [symmetric])
  qed
  have e: "int (2 ^ l) = 2 ^ l" "int c' - 1 + 1 = int c'" by simp_all
  show ?thesis
    unfolding binary_search_branchless_def l(1) rbind.simps Let_def s e at loop at' fin ..
qed

text \<open>C14: on two and more sorted keys \<open>binary_search_branchless\<close> stays inside the array and
  returns the number of keys below \<open>key\<close>, as \<open>std::lower_bound\<close> does; on a single key it takes
  the logarithm of 0, which is undefined.\<close>

theorem binary_search_correct:
  assumes "sorted arr" "arr \<noteq> []" "length arr < 2 ^ 31"
  shows "binary_search_branchless arr (of_nat (length arr)) key
    = (if length arr = 1 then Inl UB else Inr (of_nat (lower_bound arr key)))"
proof (cases "length arr = 1")
  case True
  then show ?thesis by (simp add: binary_search_branchless_def bsr_def)
next
  case False
  moreover from this have "2 \<le> length arr" using assms(2) by (cases arr rule: list.exhaust; cases "tl arr") auto
  ultimately show ?thesis using binary_search_lower_bound [of arr key] assms by simp
qed

theorem binary_search_correct_witness:
  "binary_search_branchless [3, 8, 9] (of_nat (length [3, 8, 9 :: u64])) 8 = Inr 1"
  using binary_search_correct [of "[3, 8, 9]" 8] by (simp add: lower_bound_def)

section \<open>What the allocator hands out\<close>

lemma upper_is_get_upper:
  "alloc_upper p = Inr (p', ks) \<Longrightarrow> ks = get_upper p (upper_alloc_num p)"
  by (auto simp: alloc_upper_def get_upper_def Let_def ac_simps split: if_splits)

datatype m_op = Upper | Submodel usize

text \<open>A run of the allocator, with the ranges (offset and length) handed out.\<close>

fun m_run :: "model_pool \<Rightarrow> m_op list \<Rightarrow> (model_pool \<times> (nat \<times> nat) list) res" where
  "m_run p [] = Inr (p, [])"
| "m_run p (Upper # ops) =
     rbind (alloc_upper p) (\<lambda>(p, k, off).
     rbind (m_run p ops) (\<lambda>(p, rs). Inr (p, (k, 8) # (off, 8) # rs)))"
| "m_run p (Submodel sz # ops) =
     rbind (alloc_submodel p sz) (\<lambda>(p, ptr, off).
     rbind (m_run p ops) (\<lambda>(p, rs). Inr (p, (ptr, unat sz) # rs)))"

definition disj_range :: "nat \<times> nat \<Rightarrow> nat \<times> nat \<Rightarrow> bool" where
  "disj_range r q \<longleftrightarrow> fst r + snd r \<le> fst q \<or> fst q + snd q \<le> fst r"

text \<open>The three areas that are still free, in bytes.\<close>

definition in_free :: "model_pool \<Rightarrow> nat \<times> nat \<Rightarrow> bool" where
  "in_free p r \<longleftrightarrow>
     (8 + 8 * unat (upper_alloc_num p) \<le> fst r \<and> fst r + snd r \<le> 16777216)
   \<or> (16777216 + 8 * unat (upper_alloc_num p) \<le> fst r \<and> fst r + snd r \<le> 33554432)
   \<or> (unat (m_cur_alloc_sz p) \<le> fst r \<and> fst r + snd r \<le> unat (m_total_sz p))"

definition m_wf :: "model_pool \<Rightarrow> bool" where
  "m_wf p \<longleftrightarrow> kUpperModel \<le> m_cur_alloc_sz p \<and> m_cur_alloc_sz p \<le> m_total_sz p
     \<and> unat (m_total_sz p) + 2 ^ 32 \<le> 2 ^ 64"

lemma unat_kUpperModel: "unat kUpperModel = 33554432" "unat (kUpperModel div 2) = 16777216"
  by (simp_all add: kUpperModel_def unat_div)

lemma alloc_upper_step:
  assumes "m_wf p" "unat (upper_alloc_num p) < 2097151" "alloc_upper p = Inr (p', k, off)"
  shows "m_wf p'" "unat (upper_alloc_num p') = Suc (unat (upper_alloc_num p))"
    "k = 8 + 8 * unat (upper_alloc_num p)" "off = 16777216 + 8 * unat (upper_alloc_num p)"
    "m_cur_alloc_sz p' = m_cur_alloc_sz p" "m_total_sz p' = m_total_sz p"
proof -
  have e: "unat (8 * upper_alloc_num p) = 8 * unat (upper_alloc_num p)"
    using assms(2) unat_mult_lem [of 8 "upper_alloc_num p"] by simp
  show "m_wf p'" "k = 8 + 8 * unat (upper_alloc_num p)" "off = 16777216 + 8 * unat (upper_alloc_num p)"
    "m_cur_alloc_sz p' = m_cur_alloc_sz p" "m_total_sz p' = m_total_sz p"
    using assms(1,3) e
    by (auto simp: alloc_upper_def Let_def m_wf_def unat_kUpperModel split: if_splits)
  have "unat (upper_alloc_num p + 1) = Suc (unat (upper_alloc_num p))"
    using assms(2) unat_add_lem [of "upper_alloc_num p" 1] by simp
  with assms(3) show "unat (upper_alloc_num p') = Suc (unat (upper_alloc_num p))"
    by (auto simp: alloc_upper_def Let_def split: if_splits)
qed

lemma alloc_submodel_step:
  assumes "m_wf p" "alloc_submodel p sz = Inr (p', ptr, off)"
  shows "m_wf p'" "ptr = unat (m_cur_alloc_sz p)" "off = m_cur_alloc_sz p"
    "unat (m_cur_alloc_sz p') = unat (m_cur_alloc_sz p) + unat sz"
    "unat (m_cur_alloc_sz p) + unat sz \<le> unat (m_total_sz p)"
    "m_total_sz p' = m_total_sz p" "upper_alloc_num p' = upper_alloc_num p"
proof -
  have "unat (m_cur_alloc_sz p) + unat sz < 2 ^ 64"
    using assms(1) unat_u32_less [of sz] by (simp add: m_wf_def word_le_nat_alt)
  then have e: "unat (m_cur_alloc_sz p + ucast sz) = unat (m_cur_alloc_sz p) + unat sz"
    using unat_add_lem [of "m_cur_alloc_sz p" "ucast sz"] by simp
  show "m_wf p'" "ptr = unat (m_cur_alloc_sz p)" "off = m_cur_alloc_sz p"
    "unat (m_cur_alloc_sz p') = unat (m_cur_alloc_sz p) + unat sz"
    "unat (m_cur_alloc_sz p) + unat sz \<le> unat (m_total_sz p)"
    "m_total_sz p' = m_total_sz p" "upper_alloc_num p' = upper_alloc_num p"
    using assms e
    by (auto simp: alloc_submodel_def Let_def m_wf_def word_le_nat_alt word_less_nat_alt
        split: if_splits)
qed

lemma m_run_disjoint:
  "m_run p ops = Inr (p', rs) \<Longrightarrow> m_wf p
    \<Longrightarrow> unat (upper_alloc_num p) + length (filter (\<lambda>op. op = Upper) ops) \<le> 2097151
    \<Longrightarrow> (\<forall>r \<in> set rs. in_free p r) \<and> sorted_wrt disj_range rs"
proof (induction p ops arbitrary: p' rs rule: m_run.induct)
  case (1 p)
  then show ?case by simp
next
  case (2 p ops)
  then obtain q k off rs' where q: "alloc_upper p = Inr (q, k, off)" "m_run q ops = Inr (p', rs')"
      "rs = (k, 8) # (off, 8) # rs'"
    by (auto simp: res_iff)
  have lt: "unat (upper_alloc_num p) < 2097151" using 2 by simp
  note step = alloc_upper_step [OF 2(3) lt q(1)]
  have ih: "(\<forall>r \<in> set rs'. in_free q r) \<and> sorted_wrt disj_range rs'"
    using 2 q(2) step by (intro "2.IH" [OF q(1) refl refl]) auto
  have wf: "33554432 \<le> unat (m_cur_alloc_sz p)"
    using 2(3) by (simp add: m_wf_def word_le_nat_alt unat_kUpperModel)
  have "in_free p r \<and> disj_range (k, 8) r \<and> disj_range (off, 8) r" if "r \<in> set rs'" for r
    using ih that wf lt by (auto simp: in_free_def disj_range_def step)
  moreover have "in_free p (k, 8)" "in_free p (off, 8)" "disj_range (k, 8) (off, 8)"
    using lt by (auto simp: in_free_def disj_range_def step)
  ultimately show ?case using ih by (auto simp: q(3))
next
  case (3 p sz ops)
  then obtain q ptr off rs' where q: "alloc_submodel p sz = Inr (q, ptr, off)" "m_run q ops = Inr (p', rs')"
      "rs = (ptr, unat sz) # rs'"
    by (auto simp: res_iff)
  note step = alloc_submodel_step [OF 3(3) q(1)]
  have ih: "(\<forall>r \<in> set rs'. in_free q r) \<and> sorted_wrt disj_range rs'"
    using 3 q(2) step by (intro "3.IH" [OF q(1) refl refl]) auto
  have wf: "33554432 \<le> unat (m_cur_alloc_sz p)"
    using 3(3) by (simp add: m_wf_def word_le_nat_alt unat_kUpperModel)
  have "in_free p r \<and> disj_range (ptr, unat sz) r" if "r \<in> set rs'" for r
    using ih that wf by (auto simp: in_free_def disj_range_def step)
  moreover have "in_free p (ptr, unat sz)"
    using step by (auto simp: in_free_def)
  ultimately show ?case using ih by (auto simp: q(3))
qed

lemma ModelAllocator_wf:
  assumes "ModelAllocator m t = Inr p" "unat t + 2 ^ 32 \<le> 2 ^ 64"
  shows "m_wf p" "upper_alloc_num p = 0" "m_total_sz p = t" "max_upper_num p = 2097151"
  using assms by (auto simp: ModelAllocator_def res_iff m_wf_def kUpperModel_def)

text \<open>C15: whatever sequence of upper and submodel allocations a fresh model allocator serves, the
  key slots, the offset slots and the submodels are pairwise disjoint, after the word that
  counts the models and inside the region, as long as there are at most 2097151 upper models.\<close>

theorem model_alloc_disjoint:
  assumes "ModelAllocator m t = Inr p" "unat t + 2 ^ 32 \<le> 2 ^ 64"
    and "m_run p ops = Inr (p', rs)" "length (filter (\<lambda>op. op = Upper) ops) \<le> 2097151"
  shows "sorted_wrt disj_range rs \<and> (\<forall>(off, n) \<in> set rs. 8 \<le> off \<and> off + n \<le> unat t)"
proof -
  note wf = ModelAllocator_wf [OF assms(1,2)]
  have "(\<forall>r \<in> set rs. in_free p r) \<and> sorted_wrt disj_range rs"
    using m_run_disjoint [OF assms(3) wf(1)] assms(4) wf(2) by simp
  moreover have "33554432 \<le> unat (m_cur_alloc_sz p)" "33554432 \<le> unat t"
    using wf(1,3) by (auto simp: m_wf_def word_le_nat_alt unat_kUpperModel)
  ultimately show ?thesis using wf(3) by (fastforce simp: in_free_def)
qed

definition ex_region :: model_pool where
  "ex_region = \<lparr>mem_pool = replicate 8 0, m_total_sz = kUpperModel + 1000, m_cur_alloc_sz = kUpperModel,
     upper_alloc_num = 0, max_upper_num = 2097151\<rparr>"

lemma ex_region: "ModelAllocator (replicate 8 0) (kUpperModel + 1000) = Inr ex_region"
  by code_simp

lemma ex_run: "m_run ex_region [Submodel 200, Upper]
    = Inr (ex_region\<lparr>m_cur_alloc_sz := kUpperModel + 200, upper_alloc_num := 1\<rparr>,
        [(33554432, 200), (8, 8), (16777216, 8)])"
  by (simp add: ex_region_def alloc_submodel_def alloc_upper_def kUpperModel_def)

theorem model_alloc_disjoint_witness:
  "\<exists>p rs. m_run ex_region [Submodel 200, Upper] = Inr (p, rs) \<and> length rs = 3
     \<and> sorted_wrt disj_range rs \<and> (\<forall>(off, n) \<in> set rs. off + n \<le> 33555432)"
  using model_alloc_disjoint [OF ex_region _ ex_run] unfolding ex_run
  by (simp add: kUpperModel_def)

text \<open>The check of \<open>alloc_upper\<close> lets one upper model too many through: when the key slots are
  used up the next key is placed on the offset of the first model.\<close>

lemma alloc_upper_overrun:
  assumes "ModelAllocator m t = Inr p" "upper_alloc_num q = max_upper_num p" "max_upper_num q = max_upper_num p"
  shows "\<exists>q' off. alloc_upper q = Inr (q', snd (get_upper p 0), off)"
  using assms
  by (auto simp: ModelAllocator_def res_iff alloc_upper_def get_upper_def kUpperModel_def Let_def)

lemma alloc_upper_overrun_witness:
  "\<exists>q' off. alloc_upper (ex_region\<lparr>upper_alloc_num := 2097151\<rparr>) = Inr (q', 16777216, off)"
  using alloc_upper_overrun [OF ex_region, of "ex_region\<lparr>upper_alloc_num := 2097151\<rparr>"]
  by (simp add: ex_region_def get_upper_def kUpperModel_def)

end
