(* ===== verification/Submodel.thy ===== *)
theory Submodel
  imports Table_Correct Table_Entry Machine_Float Model_Alloc
begin

text \<open>
  The submodel of ROLEX, \<^verbatim>\<open>rolex/submodel.hpp\<close>: a linear model that predicts the position of
  a key, and the leaf table with the data. Instances as in \<^verbatim>\<open>rolex/trait.hpp\<close>: keys and
  values are \<open>u64\<close>, a leaf has 64 slots, \<open>Epsilon\<close> is 32.

  A member of type \<open>double\<close> is its bit pattern. Conversions of a floating-point value outside
  the range of the integer type are undefined behaviour; an infinity or a NaN anywhere in
  \<open>predict\<close> ends in such a conversion.
\<close>

section \<open>The linear model\<close>

definition kEpsilon :: nat where "kEpsilon = 32"
definition kLeafSlots :: u64 where "kLeafSlots = 64"

record lr_model =
  slope :: double
  intercept :: double

definition lr_deserialize :: "bytes \<Rightarrow> lr_model res" where
  "lr_deserialize seria =
     rassert (length seria = 16)
       (rbind (deserialize u64_pod seria (length seria)) (\<lambda>s.
        rbind (deserialize u64_pod (drop 8 seria) (length seria)) (\<lambda>i.
          Inr \<lparr>slope = s, intercept = i\<rparr>)))"

definition lr_serialize :: "lr_model \<Rightarrow> bytes res" where
  "lr_serialize m =
     rbind (serialize_to u64_pod (slope m)) (\<lambda>a.
     rbind (serialize_to u64_pod (intercept m)) (\<lambda>b. Inr (a @ b)))"

text \<open>\<open>static_cast<int64_t>\<close> and \<open>static_cast<size_t>\<close> of a \<open>double\<close>: truncation towards 0.\<close>

definition truncate_rat :: "rat \<Rightarrow> int" where
  "truncate_rat x = (if x < 0 then \<lceil>x\<rceil> else \<lfloor>x\<rfloor>)"

definition d_to_i64 :: "rat \<Rightarrow> int res" where
  "d_to_i64 x = (let i = truncate_rat x in if - (2 ^ 63) \<le> i \<and> i < 2 ^ 63 then Inr i else Inl UB)"

definition d_to_size :: "rat \<Rightarrow> nat res" where
  "d_to_size x = (let i = truncate_rat x in if 0 \<le> i \<and> i < 2 ^ 64 then Inr (nat i) else Inl UB)"

definition d_fin :: "'a option \<Rightarrow> 'a res" where
  "d_fin r = (case r of None \<Rightarrow> Inl UB | Some x \<Rightarrow> Inr x)"

text \<open>The macros, on a \<open>double\<close> position.\<close>

definition SUB_EPS :: "rat \<Rightarrow> rat res" where
  "SUB_EPS x = (if x \<le> of_nat kEpsilon then Inr 0 else d_fin (dround (x - of_nat kEpsilon)))"

definition ADD_EPS :: "rat \<Rightarrow> u64 \<Rightarrow> rat res" where
  "ADD_EPS x sz =
     rbind (d_fin (dround (x + of_nat kEpsilon))) (\<lambda>y.
     rbind (d_fin (dround (y + 2))) (\<lambda>z.
     rbind (d_fin (dround (of_int (uint sz)))) (\<lambda>s.
       if z \<ge> s then d_fin (dround (of_int (uint (sz - 1)))) else Inr z)))"

record ApproxPos =
  ap_pos :: nat
  ap_lo :: nat
  ap_hi :: nat

text \<open>\<open>auto pos = int64_t(slope * k) + intercept\<close>: the product in \<open>double\<close>, truncated, then
  converted back to add the intercept.\<close>

definition lr_position :: "lr_model \<Rightarrow> u64 \<Rightarrow> rat res" where
  "lr_position m k =
     rbind (d_fin (dval (slope m))) (\<lambda>s.
     rbind (d_fin (dround (of_int (uint k)))) (\<lambda>kd.
     rbind (d_fin (dround (s * kd))) (\<lambda>prod.
     rbind (d_to_i64 prod) (\<lambda>q.
     rbind (d_fin (dval (intercept m))) (\<lambda>c.
     rbind (d_fin (dround (of_int q))) (\<lambda>qd. d_fin (dround (qd + c))))))))"

definition predict :: "lr_model \<Rightarrow> u64 \<Rightarrow> u64 \<Rightarrow> ApproxPos res" where
  "predict m k sz =
     rbind (lr_position m k) (\<lambda>p.
     rbind (SUB_EPS p) (\<lambda>l.
     rbind (ADD_EPS p sz) (\<lambda>h.
       let l = (if l > h then h else l) in
       rbind (d_to_size p) (\<lambda>pn. rbind (d_to_size l) (\<lambda>ln. rbind (d_to_size h) (\<lambda>hn.
         Inr \<lparr>ap_pos = pn, ap_lo = ln, ap_hi = hn\<rparr>))))))"

section \<open>The submodel\<close>

record submodel =
  model :: lr_model
  ltable :: leaf_table
  capacity :: u64

text \<open>The loop of the constructor over the \<open>n\<close> entries left from index \<open>i\<close> on; the current leaf
  is a pointer, the index an \<open>int\<close>.\<close>

fun train_loop ::
    "u64 list \<Rightarrow> u64 list \<Rightarrow> nat \<Rightarrow> nat \<Rightarrow> nat \<Rightarrow> leaf_table \<Rightarrow> leaf_pool \<Rightarrow> u64 \<Rightarrow> (leaf_table \<times> leaf_pool) res" where
  "train_loop ks vs start 0 i t p ptr = Inr (t, p)"
| "train_loop ks vs start (Suc n) i t p ptr =
     rbind (load p ptr) (\<lambda>cur.
     rbind (if isfull cur
            then rbind (fetch_new_leaf p) (\<lambda>(p, ptr, num). Inr (fst (train_emplace_back t num 0 0), p, ptr))
            else Inr (t, p, ptr)) (\<lambda>(t, p, ptr).
     rbind (load p ptr) (\<lambda>cur.
     rbind (vec_at ks (start + i)) (\<lambda>k.
     rbind (vec_at vs (start + i)) (\<lambda>v.
     rbind (insert_not_full cur k v) (\<lambda>(cur', _).
       if i + 1 \<ge> 2 ^ 31 then Inl UB
       else train_loop ks vs start n (i + 1) t (store p ptr cur') ptr))))))"

definition SubModel ::
    "double \<Rightarrow> double \<Rightarrow> u64 list \<Rightarrow> u64 list \<Rightarrow> nat \<Rightarrow> nat \<Rightarrow> te list \<Rightarrow> leaf_pool \<Rightarrow> (submodel \<times> leaf_pool) res" where
  "SubModel s c ks vs start sz raw p =
     rassert (sz > 0)
       (rbind (fetch_new_leaf p) (\<lambda>(p, ptr, num).
        rbind (train_loop ks vs start sz 0 (fst (train_emplace_back (LeafTable raw) num 0 0)) p ptr) (\<lambda>(t, p).
          Inr (\<lparr>model = \<lparr>slope = s, intercept = c\<rparr>, ltable = t, capacity = of_nat sz\<rparr>, p))))"

text \<open>The size of the table is an \<open>i32\<close>: \<open>std::string(cur_ptr, ltable_size)\<close> of a negative size throws,
  and reads beyond the end when the claimed size is larger than the input.\<close>

definition sub_string :: "bytes \<Rightarrow> int \<Rightarrow> bytes res" where
  "sub_string b n = (if n < 0 then Inl Thrown else if length b < nat n then Inl UB else Inr (take (nat n) b))"

definition SubModel_deserialize :: "bytes \<Rightarrow> te list \<Rightarrow> submodel res" where
  "SubModel_deserialize seria raw =
     rassert (length seria \<ge> 16 + 8 + 4)
       (rbind (lr_deserialize (take 16 seria)) (\<lambda>m.
        let cur_ptr = drop 16 seria in
        rbind (deserialize u64_pod cur_ptr (length seria)) (\<lambda>cap.
        let cur_ptr = drop 8 cur_ptr in
        rbind (deserialize i32_pod cur_ptr (length seria)) (\<lambda>ltable_size.
        let cur_ptr = drop 4 cur_ptr in
        rassert (of_nat (length seria) = 16 + 8 + 4 + (scast ltable_size :: u64))
          (rbind (sub_string cur_ptr (sint ltable_size)) (\<lambda>ltableSeria.
           rbind (lt_deserialize (LeafTable raw) ltableSeria) (\<lambda>t.
             Inr \<lparr>model = m, ltable = t, capacity = cap\<rparr>)))))))"

definition SubModel_serialize :: "submodel \<Rightarrow> bytes res" where
  "SubModel_serialize sm =
     rbind (lr_serialize (model sm)) (\<lambda>a.
     rbind (serialize_to u64_pod (capacity sm)) (\<lambda>b.
     rbind (lt_serialize (ltable sm)) (\<lambda>ltableSeria.
     rbind (serialize_to i32_pod (of_nat (length ltableSeria))) (\<lambda>c.
       Inr (a @ b @ c @ ltableSeria)))))"

section \<open>Operations of the memory node\<close>

text \<open>\<open>lo /= max_slot()\<close>, \<open>hi /= max_slot()\<close> and the casts to \<open>int\<close>.\<close>

definition leaf_window :: "ApproxPos \<Rightarrow> int \<times> int" where
  "leaf_window a =
     (let l = ap_lo a div unat kLeafSlots; h = ap_hi a div unat kLeafSlots
      in (max (sint (of_nat l :: i32)) 0, max (sint (of_nat h :: i32)) 0))"

definition sm_search :: "submodel \<Rightarrow> leaf_pool \<Rightarrow> u64 \<Rightarrow> u64 option res" where
  "sm_search sm p key =
     rbind (predict (model sm) key (capacity sm)) (\<lambda>a.
       case leaf_window a of (l, h) \<Rightarrow> lt_search (ltable sm) p key l h)"

definition sm_update :: "submodel \<Rightarrow> leaf_pool \<Rightarrow> u64 \<Rightarrow> u64 \<Rightarrow> (submodel \<times> leaf_pool \<times> bool) res" where
  "sm_update sm p key val =
     rbind (predict (model sm) key (capacity sm)) (\<lambda>a.
       case leaf_window a of (l, h) \<Rightarrow>
       rbind (lt_update (ltable sm) p key val l h) (\<lambda>(t, p, ok). Inr (sm\<lparr>ltable := t\<rparr>, p, ok)))"

definition sm_insert :: "submodel \<Rightarrow> leaf_pool \<Rightarrow> u64 \<Rightarrow> u64 \<Rightarrow> (submodel \<times> leaf_pool \<times> bool) res" where
  "sm_insert sm p key val =
     rbind (predict (model sm) key (capacity sm)) (\<lambda>a.
       case leaf_window a of (l, h) \<Rightarrow>
       rbind (lt_insert (ltable sm) p key val l h) (\<lambda>(t, p, ok). Inr (sm\<lparr>ltable := t\<rparr>, p, ok)))"

definition sm_remove :: "submodel \<Rightarrow> leaf_pool \<Rightarrow> u64 \<Rightarrow> (submodel \<times> leaf_pool \<times> bool) res" where
  "sm_remove sm p key =
     rbind (predict (model sm) key (capacity sm)) (\<lambda>a.
       case leaf_window a of (l, h) \<Rightarrow>
       rbind (lt_remove (ltable sm) p key l h) (\<lambda>(t, p, ok). Inr (sm\<lparr>ltable := t\<rparr>, p, ok)))"

definition sm_range :: "submodel \<Rightarrow> leaf_pool \<Rightarrow> u64 \<Rightarrow> i32 \<Rightarrow> u64 list \<Rightarrow> u64 list res" where
  "sm_range sm p key n vs =
     rbind (predict (model sm) key (capacity sm)) (\<lambda>a.
       case leaf_window a of (l, h) \<Rightarrow> lt_range (ltable sm) p key n vs l h)"

section \<open>The operation of the compute node\<close>

definition sm_get_leaf_addr :: "submodel \<Rightarrow> u64 \<Rightarrow> (nat \<times> te) list \<Rightarrow> (nat \<times> te) list res" where
  "sm_get_leaf_addr sm key leaves =
     rbind (predict (model sm) key (capacity sm)) (\<lambda>a.
       get_leaf_addr (ltable sm) (unat (of_nat (ap_lo a div unat kLeafSlots) :: usize))
         (unat (of_nat (ap_hi a div unat kLeafSlots) :: usize)) leaves)"

end
