(* ===== verification/Training.thy ===== *)
theory Training
  imports Submodel
begin

text \<open>
  The constructor of a submodel and its predictions. The lemmas show that training stores the
  sorted input in consecutive leaves of a well-formed leaf table, that the predicted window
  contains the position of a key whenever the linear model is at most \<open>Epsilon\<close> off and above -1,
  and that the two together make such a key findable; a key outside of the window is missed.
\<close>

section \<open>The constructor\<close>

text \<open>The state of the training loop: \<open>m\<close> leaves from number \<open>u\<close> on hold the entries read so
  far, each but the last of them full.\<close>

definition trained ::
    "nat \<Rightarrow> u64 \<Rightarrow> te list \<Rightarrow> nat \<Rightarrow> entry list \<Rightarrow> leaf_table \<Rightarrow> leaf_pool \<Rightarrow> bool" where
  "trained N u syn m es t p \<longleftrightarrow> 1 \<le> m \<and> pool_inv N p
     \<and> table t = map (\<lambda>j. mk_te (u + of_nat j) 0 0) [0..<m] \<and> SynonymTable t = syn \<and> csLocks t = replicate m 0
     \<and> unat (used_hdr p) = unat u + m
     \<and> (\<forall>j < m. entries (leaf_of p (u + of_nat j)) = take N (drop (N * j) es))
     \<and> N * (m - 1) \<le> length es \<and> length es \<le> N * m"

lemma trainedD:
  assumes "trained N u syn m es t p"
  shows "1 \<le> m" "pool_inv N p" "table t = map (\<lambda>j. mk_te (u + of_nat j) 0 0) [0..<m]"
    "unat (used_hdr p) = unat u + m" "N * (m - 1) \<le> length es" "length es \<le> N * m"
    "\<And>j. j < m \<Longrightarrow> entries (leaf_of p (u + of_nat j)) = take N (drop (N * j) es)"
  using assms by (auto simp: trained_def)

lemma trained_num:
  assumes "trained N u syn m es t p" "j < m"
  shows "unat (u + of_nat j) = unat u + j" "u + of_nat j < used_hdr p" "u + of_nat j < alloc_hdr p"
proof -
  have "unat u + m < 2 ^ 64" using trainedD(4) [OF assms(1)] unat_u64_less [of "used_hdr p"] by simp
  then show u: "unat (u + of_nat j) = unat u + j"
    using assms(2) unat_add_lem [of u "of_nat j"] by (simp add: unat_of_nat_u64)
  then show *: "u + of_nat j < used_hdr p"
    using trainedD(4) [OF assms(1)] assms(2) by (simp add: word_less_nat_alt)
  show "u + of_nat j < alloc_hdr p" by (rule used_le_alloc [OF trainedD(2) [OF assms(1)] *])
qed

lemma trained_last:
  assumes tr: "trained N u syn m es t p"
  defines "l \<equiv> leaf_of p (u + of_nat (m - 1))"
  shows "load p (slot_off p (u + of_nat (m - 1))) = Inr l" "leaf_inv l" "max_slot l = N"
    "entries l = drop (N * (m - 1)) es" "isfull l \<longleftrightarrow> length es = N * m"
proof -
  have m: "m - 1 < m" using trainedD(1) [OF tr] by simp
  note a = trained_num(3) [OF tr m]
  show "load p (slot_off p (u + of_nat (m - 1))) = Inr l" "leaf_inv l" "max_slot l = N"
    unfolding l_def using load_leaf [OF trainedD(2) [OF tr] a] pool_inv_leaf [OF trainedD(2) [OF tr] a] by simp_all
  have le: "length es - N * (m - 1) \<le> N"
    using trainedD(1,6) [OF tr] by (cases m) auto
  with trainedD(7) [OF tr m] show en: "entries l = drop (N * (m - 1)) es" by (simp add: l_def)
  show "isfull l \<longleftrightarrow> length es = N * m"
    using isfull_iff [OF \<open>leaf_inv l\<close>] length_entries [OF \<open>leaf_inv l\<close>] \<open>max_slot l = N\<close> en le
      trainedD(1,5,6) [OF tr] by (cases m) auto
qed

text \<open>A full last leaf is followed by a new, empty one.\<close>

lemma trained_fetch:
  assumes tr: "trained N u syn m es t p" and full: "length es = N * m" and room: "used_hdr p < alloc_hdr p"
  shows "fetch_new_leaf p = Inr (p\<lparr>used_hdr := used_hdr p + 1\<rparr>, slot_off p (u + of_nat m), u + of_nat m)"
    "trained N u syn (Suc m) es (fst (train_emplace_back t (u + of_nat m) 0 0)) (p\<lparr>used_hdr := used_hdr p + 1\<rparr>)"
proof -
  let ?p = "p\<lparr>used_hdr := used_hdr p + 1\<rparr>"
  note pool = trainedD(2) [OF tr]
  have used: "used_hdr p = u + of_nat m"
    by (rule word_unat_eq_iff [THEN iffD2], subst trainedD(4) [OF tr])
      (use unat_u64_less [of "used_hdr p"] trainedD(4) [OF tr] unat_add_lem [of u "of_nat m"]
        in \<open>simp add: unat_of_nat_u64\<close>)
  show "fetch_new_leaf p = Inr (?p, slot_off p (u + of_nat m), u + of_nat m)"
    using fetch_new_leaf_ok(1) [OF pool room] used by simp
  have same: "leaf_of ?p n = leaf_of p n" for n by (simp add: leaf_of_def slot_off_def)
  have "unat (used_hdr p + 1) = unat (used_hdr p) + 1"
    using room unat_u64_less [of "alloc_hdr p"] unat_add_lem [of "used_hdr p" 1] by (simp add: word_less_nat_alt)
  moreover have "entries (leaf_of p (u + of_nat j)) = take N (drop (N * j) es)" if "j < Suc m" for j
  proof (cases "j = m")
    case True
    then show ?thesis using pool_inv_leaf(4) [OF pool room] used full by simp
  next
    case False
    then show ?thesis using that trainedD(7) [OF tr] by simp
  qed
  ultimately show "trained N u syn (Suc m) es (fst (train_emplace_back t (u + of_nat m) 0 0)) ?p"
    using tr full fetch_new_leaf_ok(2) [OF pool room]
    by (auto simp: trained_def same train_emplace_back_def Let_def replicate_append_same)
qed

lemma insert_not_full_returns:
  "leaf_inv l \<Longrightarrow> k \<noteq> invalidKey \<Longrightarrow> \<exists>l' r. insert_not_full l k v = Inr (l', r)"
  by (simp add: insert_not_full_cases)

text \<open>A larger key goes to the end of a last leaf with room.\<close>

lemma trained_insert:
  assumes tr: "trained N u syn m es t p" and room: "length es < N * m"
    and k: "\<forall>e \<in> set es. fst e < k" "k \<noteq> invalidKey"
  defines "num \<equiv> u + of_nat (m - 1)"
  shows "\<exists>l' r. insert_not_full (leaf_of p num) k v = Inr (l', r)
    \<and> trained N u syn m (es @ [(k, v)]) t (store p (slot_off p num) l')"
proof -
  let ?l = "leaf_of p num"
  note last = trained_last [OF tr, folded num_def] and pool = trainedD(2) [OF tr]
  have m: "m - 1 < m" "1 \<le> m" using trainedD(1) [OF tr] by simp_all
  note num = trained_num(2,3) [OF tr m(1), folded num_def]
  obtain l' r where ins: "insert_not_full ?l k v = Inr (l', r)"
    using insert_not_full_returns [OF last(2) k(2)] by blast
  have below: "\<forall>e \<in> set (drop (N * (m - 1)) es). fst e < k" using k(1) by (auto dest: in_set_dropD)
  note l' = insert_not_full_ok [OF last(2) k(2) ins]
  have "k \<notin> fst ` set (entries ?l)" using below by (auto simp: last(4))
  then have en: "entries l' = drop (N * (m - 1)) es @ [(k, v)]"
    using l'(3) last(4,5) room ins_entry_append_left [OF below, of v "[]"] by simp
  let ?p = "store p (slot_off p num) l'"
  have other: "leaf_of ?p (u + of_nat j) = leaf_of p (u + of_nat j)" if "j < m - 1" for j
  proof (rule leaf_of_store_other [OF pool num(2)])
    show "u + of_nat j < alloc_hdr p" using trained_num(3) [OF tr, of j] that by simp
    show "num \<noteq> u + of_nat j"
      using trained_num(1) [OF tr, of j] trained_num(1) [OF tr m(1)] that by (auto simp: num_def)
  qed
  have "entries (leaf_of ?p (u + of_nat j)) = take N (drop (N * j) (es @ [(k, v)]))" if "j < m" for j
  proof (cases "j = m - 1")
    case True
    then have "leaf_of ?p (u + of_nat j) = l'" by (simp add: num_def)
    then show ?thesis using True en trainedD(5,6) [OF tr] room m by (cases m) auto
  next
    case False
    then have j: "j < m - 1" using that by simp
    then have "N * (j + 1) \<le> N * (m - 1)" by (intro mult_le_mono2) simp
    then have "N * j + N \<le> length es" using trainedD(5) [OF tr] by simp
    then show ?thesis using trainedD(7) [OF tr that] other [OF j] by simp
  qed
  moreover have "pool_inv N ?p" by (rule pool_inv_store [OF pool num(1) l'(1)]) (simp add: l'(2) last(3))
  ultimately have "trained N u syn m (es @ [(k, v)]) t ?p" using tr room by (auto simp: trained_def)
  with ins show ?thesis by blast
qed

text \<open>The loop, over the entries it has to store.\<close>

definition input_entries :: "u64 list \<Rightarrow> u64 list \<Rightarrow> nat \<Rightarrow> nat \<Rightarrow> entry list" where
  "input_entries ks vs start n = take n (drop start (zip ks vs))"

lemma input_entries_nth:
  assumes "start + n \<le> length ks" "start + n \<le> length vs"
  shows "length (input_entries ks vs start n) = n"
    "i < n \<Longrightarrow> input_entries ks vs start n ! i = (ks ! (start + i), vs ! (start + i))"
  using assms by (simp_all add: input_entries_def)

lemma train_loop_ok:
  assumes "trained N u syn m (take i es) t p" "i + n = length es"
    and es: "es = input_entries ks vs start (length es)" "start + length es \<le> length ks" "start + length es \<le> length vs"
    and srt: "al_sorted es" "\<forall>e \<in> set es. fst e \<noteq> invalidKey"
    and room: "unat u * N + length es \<le> N * unat (alloc_hdr p)" "length es < 2 ^ 31"
  shows "\<exists>t' p' m'. train_loop ks vs start n i t p (slot_off p (u + of_nat (m - 1))) = Inr (t', p')
    \<and> trained N u syn m' es t' p' \<and> alloc_hdr p' = alloc_hdr p"
  using assms(1,2,8)
proof (induction n arbitrary: i m t p)
  case 0
  then show ?case by auto
next
  case (Suc n)
  note tr = Suc.prems(1)
  have i: "i < length es" using Suc.prems(2) by simp
  have e: "es ! i = (ks ! (start + i), vs ! (start + i))"
    using input_entries_nth(2) [OF es(2,3), of i] i by (subst es(1)) simp
  let ?k = "ks ! (start + i)" and ?v = "vs ! (start + i)"
  have tk: "take (Suc i) es = take i es @ [(?k, ?v)]" using i e by (simp add: take_Suc_conv_app_nth)
  have k: "\<forall>x \<in> set (take i es). fst x < ?k" "?k \<noteq> invalidKey"
  proof -
    have "al_sorted (take i es @ [(?k, ?v)])"
      using srt(1) by (subst (asm) append_take_drop_id [of "Suc i", symmetric]) (simp add: tk al_sorted_append)
    then show "\<forall>x \<in> set (take i es). fst x < ?k" by (simp add: al_sorted_append)
    show "?k \<noteq> invalidKey" using srt(2) nth_mem [OF i] e by force
  qed
  obtain m2 t2 p2 where step: "(if isfull (leaf_of p (u + of_nat (m - 1)))
        then rbind (fetch_new_leaf p) (\<lambda>(p, ptr, num). Inr (fst (train_emplace_back t num 0 0), p, ptr))
        else Inr (t, p, slot_off p (u + of_nat (m - 1)))) = Inr (t2, p2, slot_off p2 (u + of_nat (m2 - 1)))"
      and tr2: "trained N u syn m2 (take i es) t2 p2" "i < N * m2" "alloc_hdr p2 = alloc_hdr p"
  proof (cases "i = N * m")
    case True
    have "N * (unat u + m) < N * unat (alloc_hdr p)"
      using Suc.prems(3) i True by (simp add: algebra_simps)
    then have room: "used_hdr p < alloc_hdr p"
      using trainedD(4) [OF tr] by (simp add: word_less_nat_alt)
    note f = trained_fetch [OF tr _ room]
    have N: "0 < N" using pool_inv_leaf(2,3) [OF trainedD(2) [OF tr] room] by (auto simp: leaf_inv_def)
    show ?thesis
      by (rule that [of "fst (train_emplace_back t (u + of_nat m) 0 0)" "p\<lparr>used_hdr := used_hdr p + 1\<rparr>" "Suc m"])
        (use True i f trained_last(5) [OF tr] N in \<open>auto simp: slot_off_def\<close>)
  next
    case False
    show ?thesis
      by (rule that [of t p m]) (use False i tr trainedD(6) [OF tr] trained_last(5) [OF tr] in auto)
  qed
  let ?num = "u + of_nat (m2 - 1)"
  obtain l' r where ins: "insert_not_full (leaf_of p2 ?num) ?k ?v = Inr (l', r)"
      and tr3: "trained N u syn m2 (take i es @ [(?k, ?v)]) t2 (store p2 (slot_off p2 ?num) l')"
    using trained_insert [OF tr2(1) _ k, of ?v] tr2(2) i by auto
  have "\<exists>t' p' m'. train_loop ks vs start n (Suc i) t2 (store p2 (slot_off p2 ?num) l')
        (slot_off (store p2 (slot_off p2 ?num) l') (u + of_nat (m2 - 1))) = Inr (t', p')
      \<and> trained N u syn m' es t' p' \<and> alloc_hdr p' = alloc_hdr (store p2 (slot_off p2 ?num) l')"
    by (rule Suc.IH) (use tr3 tk Suc.prems tr2(3) in auto)
  moreover have "Suc i < 2 ^ 31" using i room(2) by simp
  ultimately show ?case
    unfolding train_loop.simps trained_last(1) [OF tr] rbind.simps step prod.case
    using trained_last(1) [OF tr2(1)] es(2,3) i ins tr2(3) by (simp add: not_le)
qed

section \<open>The trained table\<close>

lemma trained_group:
  assumes tr: "trained N u syn m es t p" and h: "alloc_hdr p \<le> 2 ^ 48" and j: "j < m"
  shows "base_num t j = u + of_nat j" "group_of t [] j = [u + of_nat j]"
proof -
  have "u + of_nat j < 2 ^ 48" using trained_num(3) [OF tr j] h by simp
  then show *: "base_num t j = u + of_nat j"
    using j trainedD(3) [OF tr] by (simp add: base_num_def mk_te_def ucast_48)
  show "group_of t [] j = [u + of_nat j]" by (simp add: group_of_def *)
qed

lemma slice_concat:
  "l \<le> h \<Longrightarrow> concat (map (\<lambda>j. take N (drop (N * j) xs)) [l..<h]) = take (N * (h - l)) (drop (N * l) xs)"
proof (induction h rule: dec_induct)
  case base
  then show ?case by simp
next
  case (step h)
  then have "N * (Suc h - l) = N * (h - l) + N" "N * h = N * (h - l) + N * l"
    by (simp_all add: Suc_diff_le flip: distrib_left)
  moreover have "take (N * (h - l) + N) (drop (N * l) xs)
      = take (N * (h - l)) (drop (N * l) xs) @ take N (drop (N * (h - l)) (drop (N * l) xs))"
    by (rule take_add)
  ultimately show ?case using step by simp
qed

lemma trained_rep:
  assumes tr: "trained N u syn m es t p" and N: "even N" and h: "alloc_hdr p \<le> 2 ^ 48"
    and syn: "length syn = 128" "leaf_num (syn ! 0) = 1" and srt: "al_sorted es"
  shows "table_rep N p t (\<lambda>_. [])" "unlocked t" "length (table t) = m"
    "\<And>j. j < m \<Longrightarrow> group_entries p t j = take N (drop (N * j) es)"
proof -
  have len: "length (table t) = m" using trainedD(3) [OF tr] by simp
  have N2: "2 \<le> N"
  proof -
    have "leaf_inv (leaf_of p (u + of_nat 0))" "max_slot (leaf_of p (u + of_nat 0)) = N"
      using pool_inv_leaf(2,3) [OF trainedD(2) [OF tr] trained_num(3) [OF tr, of 0]] trainedD(1) [OF tr] by simp_all
    then show ?thesis using N by (auto simp: leaf_inv_def elim!: evenE)
  qed
  have group: "group_of t [] j = [u + of_nat j]" if "j < m" for j using trained_group(2) [OF tr h that] .
  have dist: "u + of_nat i \<noteq> u + of_nat j" if "i < m" "j < i" for i j
    using trained_num(1) [OF tr, of i] trained_num(1) [OF tr, of j] that by (metis add_left_cancel less_trans nat_neq_iff)
  have inv: "leaf_inv (leaf_of p (u + of_nat j))" if "j < m" for j
    by (rule pool_inv_leaf(2) [OF trainedD(2) [OF tr] trained_num(3) [OF tr that]])
  show rep: "table_rep N p t (\<lambda>_. [])"
    unfolding table_rep_def
  proof (intro conjI allI impI ballI)
    fix i j assume i: "i < length (table t)" and j: "j < i"
    then show "set (group_of t [] i) \<inter> set (group_of t [] j) = {}"
      using dist [of i j] group [of i] group [of j] by (simp add: len)
  next
    fix i assume i: "i < length (table t)"
    then show "chain_of (SynonymTable t) (unat (synonym_leaf (table t ! i))) []"
      using trainedD(3) [OF tr] by (simp add: mk_te_def)
    show "leaf_page.chain_inv (pages p (group_of t [] i))"
      using i group inv by (simp add: len)
    show "distinct (group_of t [] i)" using group i by (simp add: len)
    show "x < used_hdr p" if "x \<in> set (group_of t [] i)" for x
      using that group [of i] i trained_num(2) [OF tr, of i] by (simp add: len)
  qed (use tr N N2 h syn in \<open>auto simp: trained_def next_syn_def\<close>)
  show "unlocked t" using tr by (auto simp: unlocked_def trained_def mk_te_def)
  show "length (table t) = m" by (rule len)
  show "group_entries p t j = take N (drop (N * j) es)" if j: "j < m" for j
    using group_entries_eq [OF rep, of j] group [OF j] j trainedD(7) [OF tr j] by (simp add: len)
qed

lemma trained_span:
  assumes tr: "trained N u syn m es t p" and N: "even N" and h: "alloc_hdr p \<le> 2 ^ 48"
    and syn: "length syn = 128" "leaf_num (syn ! 0) = 1" and srt: "al_sorted es"
    and lh: "l \<le> k" "k < m"
  shows "span_entries p t l k = take (N * (Suc k - l)) (drop (N * l) es)" "span_ok p t l k"
proof -
  note rep = trained_rep [OF tr N h syn srt]
  have "map (group_entries p t) [l..<Suc k] = map (\<lambda>j. take N (drop (N * j) es)) [l..<Suc k]"
    using rep(4) lh by (intro map_cong) auto
  then show sp: "span_entries p t l k = take (N * (Suc k - l)) (drop (N * l) es)"
    unfolding span_entries_def using slice_concat [of l "Suc k" N es] lh by (simp only: le_SucI)
  have "al_sorted (take a (drop b es))" for a b
    using srt by (simp add: al_sorted_def sorted_wrt_take sorted_wrt_drop flip: take_map drop_map)
  moreover have "group_entries p t i = entries (leaf_of p (base_num t i))" if "i \<le> k" for i
    using group_entries_eq [OF rep(1), of i] trained_group [OF tr h, of i] that lh rep(3) by simp
  ultimately show "span_ok p t l k" using sp by (auto simp: span_ok_def)
qed

lemma SubModel_ok:
  fixes ks vs start sz
  defines "es \<equiv> input_entries ks vs start sz"
  assumes pool: "pool_inv N p" and sz: "0 < sz" "sz < 2 ^ 31" "start + sz \<le> length ks" "start + sz \<le> length vs"
    and srt: "al_sorted es" "\<forall>e \<in> set es. fst e \<noteq> invalidKey"
    and room: "unat (used_hdr p) * N + sz \<le> N * unat (alloc_hdr p)"
  shows "\<exists>t p' m. SubModel s c ks vs start sz raw p
      = Inr (\<lparr>model = \<lparr>slope = s, intercept = c\<rparr>, ltable = t, capacity = of_nat sz\<rparr>, p')
    \<and> trained N (used_hdr p) (SynonymTable (LeafTable raw)) m es t p' \<and> alloc_hdr p' = alloc_hdr p"
proof -
  let ?u = "used_hdr p" and ?t = "fst (train_emplace_back (LeafTable raw) (used_hdr p) 0 0)"
  let ?p = "p\<lparr>used_hdr := ?u + 1\<rparr>"
  have "N * unat ?u < N * unat (alloc_hdr p)" using room sz(1) unfolding mult.commute [of _ N] by linarith
  then have lt: "?u < alloc_hdr p" by (simp add: word_less_nat_alt)
  have len: "length es = sz" using input_entries_nth(1) [OF sz(3,4)] by (simp add: es_def)
  have "unat (?u + 1) = unat ?u + 1"
    using lt unat_u64_less [of "alloc_hdr p"] unat_add_lem [of ?u 1] by (simp add: word_less_nat_alt)
  moreover have "entries (leaf_of ?p ?u) = []"
    using pool_inv_leaf(4) [OF pool lt] by (simp add: leaf_of_def slot_off_def)
  ultimately have "trained N ?u (SynonymTable (LeafTable raw)) 1 (take 0 es) ?t ?p"
    using fetch_new_leaf_ok(2) [OF pool lt]
    by (simp add: trained_def train_emplace_back_def LeafTable_def Let_def)
  from train_loop_ok [OF this _ _ _ _ srt, of sz ks vs start]
  have "\<exists>t' p' m'. train_loop ks vs start sz 0 ?t ?p (slot_off ?p (?u + of_nat (1 - 1))) = Inr (t', p')
    \<and> trained N ?u (SynonymTable (LeafTable raw)) m' es t' p' \<and> alloc_hdr p' = alloc_hdr ?p"
    using sz room input_entries_nth(1) [OF sz(3,4)] by (simp add: es_def)
  then show ?thesis
    using fetch_new_leaf_ok(1) [OF pool lt] sz(1) by (auto simp: SubModel_def slot_off_def)
qed

section \<open>Predictions\<close>

lemma d_to_size_bounds:
  assumes "- 1 < x" "x < 2 ^ 53"
  obtains n where "d_to_size x = Inr n" "\<And>i. x \<le> of_nat i \<Longrightarrow> n \<le> i" "\<And>i. of_nat i \<le> x \<Longrightarrow> i \<le> n"
    "\<And>i. x < of_nat i \<Longrightarrow> 0 < i \<Longrightarrow> n < i"
proof -
  let ?i = "truncate_rat x"
  have i0: "0 \<le> ?i" using assms(1) by (simp add: truncate_rat_def le_ceiling_iff)
  have "x < of_int (2 ^ 53)" using assms(2) by simp
  then have "?i \<le> 2 ^ 53" unfolding truncate_rat_def by (auto simp: ceiling_le_iff floor_le_iff)
  then have d: "d_to_size x = Inr (nat ?i)" using i0 by (simp add: d_to_size_def Let_def)
  show thesis
  proof (rule that [OF d])
    fix i :: nat
    show "nat ?i \<le> i" if "x \<le> of_nat i"
      using that floor_mono [OF that] by (auto simp: truncate_rat_def ceiling_le_iff)
    show "i \<le> nat ?i" if "of_nat i \<le> x"
      using that floor_mono [OF that] order_trans [OF of_nat_0_le_iff that] by (auto simp: truncate_rat_def)
    show "nat ?i < i" if "x < of_nat i" "0 < i"
    proof (cases "x < 0")
      case True
      then have "?i \<le> 0" by (simp add: truncate_rat_def)
      with that show ?thesis by simp
    next
      case False
      then show ?thesis using that i0 by (simp add: truncate_rat_def floor_less_iff nat_less_iff)
    qed
  qed
qed

text \<open>The two bounds around a position \<open>x\<close> that is at most \<open>Epsilon\<close> away from \<open>i\<close>.\<close>

lemma SUB_EPS_bounds:
  assumes "\<bar>x - of_nat i\<bar> \<le> of_nat kEpsilon" "i < 2 ^ 52"
  obtains l where "SUB_EPS x = Inr l" "0 \<le> l" "l \<le> of_nat i"
proof (cases "x \<le> of_nat kEpsilon")
  case True
  then show thesis by (intro that [of 0]) (simp_all add: SUB_EPS_def)
next
  case False
  have "of_nat i < (of_nat (2 ^ 52) :: rat)" using assms(2) by (simp only: of_nat_less_iff)
  then have "\<bar>x - of_nat kEpsilon\<bar> < 2 ^ 53" using False assms(1) by (simp add: abs_if split: if_splits)
  then obtain r where r: "dround (x - of_nat kEpsilon) = Some r"
      "\<And>j. x - of_nat kEpsilon \<le> of_int j \<Longrightarrow> r \<le> of_int j"
      "\<And>j. of_int j \<le> x - of_nat kEpsilon \<Longrightarrow> of_int j \<le> r"
    by (rule dround_int_bounds) blast
  have "r \<le> of_int (int i)" by (rule r(2)) (use assms(1) in \<open>simp add: abs_if split: if_splits\<close>)
  moreover have "of_int 0 \<le> r" by (rule r(3)) (use False in simp)
  ultimately show thesis using False r(1) by (intro that [of r]) (simp_all add: SUB_EPS_def d_fin_def)
qed

lemma ADD_EPS_bounds:
  assumes x: "\<bar>x - of_nat i\<bar> \<le> of_nat kEpsilon" and sz: "i < sz" "sz \<le> 2 ^ 52"
  obtains h where "ADD_EPS x (of_nat sz) = Inr h" "of_nat i \<le> h" "h < of_nat sz"
proof -
  have i: "of_nat i + 1 \<le> (of_nat sz :: rat)" using sz(1) by (simp flip: of_nat_Suc)
  have s: "of_nat sz \<le> (of_nat (2 ^ 52) :: rat)" using sz(2) by (simp only: of_nat_le_iff)
  let ?x = "x + of_nat kEpsilon"
  have xb: "of_nat i \<le> ?x" "?x \<le> of_nat i + 64" "\<bar>?x\<bar> < 2 ^ 53"
    using x i s by (simp_all add: abs_if kEpsilon_def split: if_splits)
  from xb(3) obtain y where y: "dround ?x = Some y" "\<And>j. ?x \<le> of_int j \<Longrightarrow> y \<le> of_int j"
      "\<And>j. of_int j \<le> ?x \<Longrightarrow> of_int j \<le> y"
    by (rule dround_int_bounds) blast
  have yb: "of_nat i \<le> y" "y \<le> of_nat i + 64"
    using y(2) [of "int i + 64"] y(3) [of "int i"] xb by simp_all
  then have "\<bar>y + 2\<bar> < 2 ^ 53" using i s by simp
  then obtain z where z: "dround (y + 2) = Some z" "\<And>j. of_int j \<le> y + 2 \<Longrightarrow> of_int j \<le> z"
    by (rule dround_int_bounds) blast
  have zb: "of_nat i \<le> z" using z(2) [of "int i"] yb by simp
  have szw: "unat (of_nat sz :: u64) = sz" using sz by (intro unat_of_nat_u64) simp
  have "unat (of_nat (sz - 1) :: u64) = sz - 1" using sz by (intro unat_of_nat_u64) simp
  then have sz1: "unat (of_nat sz - 1 :: u64) = sz - 1" using sz(1) by (simp add: of_nat_diff)
  have d: "dround (of_nat sz) = Some (of_nat sz)" "dround (of_nat (sz - 1)) = Some (of_nat (sz - 1))"
    by (rule dround_of_nat, use sz in simp)+
  have ui: "of_int (uint (of_nat sz :: u64)) = (of_nat sz :: rat)"
    "of_int (uint (of_nat sz - 1 :: u64)) = (of_nat (sz - 1) :: rat)"
    using szw sz1 by (metis of_int_of_nat_eq uint_nat)+
  have ui1: "(unsigned (of_nat sz :: u64) :: rat) = of_nat sz" using ui(1) by simp
  have ui2: "(unsigned (of_nat sz - 1 :: u64) :: rat) = of_nat (sz - 1)" using ui(2) by simp
  show thesis
    by (rule that [of "if z \<ge> of_nat sz then of_nat (sz - 1) else z"])
      (use sz(1) zb in \<open>auto simp: ADD_EPS_def y(1) z(1) ui1 ui2 [unfolded One_nat_def] d [unfolded One_nat_def] d_fin_def not_le
        simp del: of_nat_diff\<close>)
qed

lemma predict_window:
  assumes lr: "lr_position m k = Inr x" "- 1 < x" and x: "\<bar>x - of_nat i\<bar> \<le> of_nat kEpsilon"
    and sz: "i < sz" "sz \<le> 2 ^ 52"
  obtains a where "predict m k (of_nat sz) = Inr a" "ap_lo a \<le> i" "i \<le> ap_hi a" "ap_hi a < sz"
proof -
  obtain l where l: "SUB_EPS x = Inr l" "0 \<le> l" "l \<le> of_nat i" using SUB_EPS_bounds [OF x, of thesis] sz by auto
  obtain h where h: "ADD_EPS x (of_nat sz) = Inr h" "of_nat i \<le> h" "h < of_nat sz"
    using ADD_EPS_bounds [OF x sz, of thesis] by auto
  have "of_nat sz \<le> (of_nat 4503599627370496 :: rat)" using sz(2) by (simp only: of_nat_le_iff) simp
  then have s: "of_nat sz \<le> (4503599627370496 :: rat)" "of_nat i < (of_nat sz :: rat)"
    using sz(1) by (simp_all only: of_nat_numeral of_nat_less_iff)
  have p53: "(2 :: rat) ^ 53 = 9007199254740992" by simp
  have "x - of_nat i \<le> of_nat kEpsilon" by (rule order_trans [OF abs_ge_self x])
  then have xi: "x \<le> of_nat i + 32" by (simp add: kEpsilon_def)
  have b: "x < 2 ^ 53" unfolding p53 using s xi by linarith
  have b2: "l < 2 ^ 53" unfolding p53 using s l(3) by linarith
  have b3: "h < 2 ^ 53" unfolding p53 using s h(3) by linarith
  obtain pn where pn: "d_to_size x = Inr pn" by (rule d_to_size_bounds [OF lr(2) b])
  have "- 1 < l" using l(2) by simp
  then obtain ln where "d_to_size l = Inr ln" "\<And>j. l \<le> of_nat j \<Longrightarrow> ln \<le> j"
    by (rule d_to_size_bounds [OF _ b2]) blast
  with l(3) have ln: "d_to_size l = Inr ln" "ln \<le> i" by simp_all
  have "0 \<le> h" by (rule order_trans [OF of_nat_0_le_iff h(2)])
  then have "- 1 < h" by simp
  then obtain hn where "d_to_size h = Inr hn"
      "\<And>j. of_nat j \<le> h \<Longrightarrow> j \<le> hn" "\<And>j. h < of_nat j \<Longrightarrow> 0 < j \<Longrightarrow> hn < j"
    by (rule d_to_size_bounds [OF _ b3]) blast
  with h(2,3) sz(1) have hn: "d_to_size h = Inr hn" "i \<le> hn" "hn < sz" by simp_all
  have "\<not> l > h" using l h by simp
  then show thesis
    using that [of "\<lparr>ap_pos = pn, ap_lo = ln, ap_hi = hn\<rparr>"] lr(1) l(1) h(1) pn ln hn by (simp add: predict_def)
qed

section \<open>Correctness of a trained submodel\<close>

text \<open>C16: with room in the pool the constructor of a submodel returns, and leaves a well-formed,
  unlocked leaf table whose entries, in table order, are exactly the sorted input.\<close>

theorem SubModel_train_correct:
  assumes "pool_inv N p" "even N" "alloc_hdr p \<le> 2 ^ 48" "length raw = 128"
    and "0 < sz" "sz < 2 ^ 31" "start + sz \<le> length ks" "start + sz \<le> length vs"
    and "al_sorted (input_entries ks vs start sz)" "\<forall>e \<in> set (input_entries ks vs start sz). fst e \<noteq> invalidKey"
    and "unat (used_hdr p) * N + sz \<le> N * unat (alloc_hdr p)"
  shows "\<exists>sm p' h. SubModel s c ks vs start sz raw p = Inr (sm, p')
    \<and> table_inv N p' (ltable sm) \<and> unlocked (ltable sm) \<and> length (table (ltable sm)) = Suc h
    \<and> span_ok p' (ltable sm) 0 h \<and> span_entries p' (ltable sm) 0 h = input_entries ks vs start sz"
proof -
  let ?es = "input_entries ks vs start sz" and ?syn = "SynonymTable (LeafTable raw)"
  obtain t p' m where ok: "SubModel s c ks vs start sz raw p
        = Inr (\<lparr>model = \<lparr>slope = s, intercept = c\<rparr>, ltable = t, capacity = of_nat sz\<rparr>, p')"
      and tr: "trained N (used_hdr p) ?syn m ?es t p'" "alloc_hdr p' = alloc_hdr p"
    using SubModel_ok [OF assms(1,5-11)] by blast
  have syn: "length ?syn = 128" "leaf_num (?syn ! 0) = 1" using assms(4) by (simp_all add: LeafTable_def)
  have h: "alloc_hdr p' \<le> 2 ^ 48" using assms(3) tr(2) by simp
  note rep = trained_rep [OF tr(1) assms(2) h syn assms(9)]
  have m: "0 \<le> m - 1" "m - 1 < m" "Suc (m - 1) = m" using trainedD(1) [OF tr(1)] by simp_all
  note sp = trained_span [OF tr(1) assms(2) h syn assms(9) m(1,2)]
  have "span_entries p' t 0 (m - 1) = ?es" using sp(1) trainedD(6) [OF tr(1)] m(3) by simp
  then show ?thesis
    using ok table_rep_inv [OF rep(1)] rep(2,3) m(3) sp(2) by (intro exI [of _ "m - 1"] exI) auto
qed

lemma ex_pool64: "\<exists>p. pool_inv 64 p \<and> used_hdr p = 0 \<and> alloc_hdr p = 3"
proof -
  have "\<exists>p. prealloc_leaves 3 (\<lambda>_. \<lparr>keys = replicate 64 0, vals = replicate 64 0\<rparr>) (pool_init 10000 1024) = Inr p
      \<and> pool_inv 64 p \<and> used_hdr p = 0 \<and> alloc_hdr p = 3"
    using prealloc_leaves_cases [of "\<lambda>_. \<lparr>keys = replicate 64 0, vals = replicate 64 0\<rparr>" 64 1024 10000 3]
    by (simp add: max_slot_def) blast
  then show ?thesis by blast
qed

lemma ex_input: "input_entries [5, 7, 9] [50, 70, 90] 0 3 = [(5, 50), (7, 70), (9, 90)]"
  by (simp add: input_entries_def)

theorem SubModel_train_correct_witness:
  "\<exists>p sm p' h. SubModel 0 0 [5, 7, 9] [50, 70, 90] 0 3 (replicate 128 (mk_te 0 0 0)) p = Inr (sm, p')
     \<and> span_entries p' (ltable sm) 0 h = [(5, 50), (7, 70), (9, 90)]"
proof -
  obtain p where p: "pool_inv 64 p" "used_hdr p = 0" "alloc_hdr p = 3" using ex_pool64 by blast
  show ?thesis
    using SubModel_train_correct [OF p(1), of "replicate 128 (mk_te 0 0 0)" 3 0 "[5, 7, 9]" "[50, 70, 90]" 0 0]
    by (simp add: ex_input p invalidKey_def) blast
qed

lemma leaf_window_div:
  "ap_lo a < 2 ^ 31 \<Longrightarrow> ap_hi a < 2 ^ 31 \<Longrightarrow> leaf_window a = (int (ap_lo a div 64), int (ap_hi a div 64))"
  by (simp add: leaf_window_def kLeafSlots_def sint_of_nat_i32 div_less_dividend less_le_trans
      order_le_less_trans [OF div_le_dividend])

lemma nth_in_slice:
  assumes "i < length xs" "N * l \<le> i" "i < N * (Suc h)" "l \<le> h"
  shows "xs ! i \<in> set (take (N * (Suc h - l)) (drop (N * l) xs))"
proof -
  have "N * (Suc h - l) = N * Suc h - N * l" by (rule diff_mult_distrib2)
  then have lt: "i - N * l < N * (Suc h - l)" "i - N * l < length xs - N * l"
    using assms by simp_all
  then have "i - N * l < length (take (N * (Suc h - l)) (drop (N * l) xs))" by simp
  then have "take (N * (Suc h - l)) (drop (N * l) xs) ! (i - N * l) \<in> set (take (N * (Suc h - l)) (drop (N * l) xs))"
    by (rule nth_mem)
  with lt assms(2) show ?thesis by simp
qed

lemma slice_only:
  assumes "e \<in> set (take (N * (Suc h - l)) (drop (N * l) xs))" "l \<le> h" "0 < N"
  obtains q where "q < length xs" "xs ! q = e" "l \<le> q div N" "q div N \<le> h"
proof -
  obtain j where j: "j < N * (Suc h - l)" "j < length xs - N * l" "xs ! (N * l + j) = e"
    using assms(1) by (auto simp: in_set_conv_nth)
  have "N * l + j < N * Suc h"
    using j(1) assms(2) diff_mult_distrib2 [of N "Suc h" l] by simp
  then have "(N * l + j) div N \<le> h"
    using assms(3) by (metis less_Suc_eq_le less_mult_imp_div_less mult.commute)
  moreover have "l \<le> (N * l + j) div N" using assms(3) by simp
  ultimately show thesis using that [of "N * l + j"] j by simp
qed

lemma truncate_mono: "x \<le> y \<Longrightarrow> truncate_rat x \<le> truncate_rat y"
proof -
  assume xy: "x \<le> y"
  have "\<lceil>x\<rceil> \<le> \<lfloor>y\<rfloor>" if "x < 0" "0 \<le> y"
    by (rule order_trans [of _ 0]) (use that in \<open>simp_all add: ceiling_le_iff\<close>)
  then show ?thesis using xy by (auto simp: truncate_rat_def ceiling_mono floor_mono)
qed

text \<open>A predicted window is in order and ends before the size.\<close>

lemma predict_range:
  assumes "predict m k (of_nat sz) = Inr a" "0 < sz" "sz \<le> 2 ^ 52"
  shows "ap_lo a \<le> ap_hi a" "ap_hi a < sz"
proof -
  have szw: "unat (of_nat sz :: u64) = sz" using assms(3) by (intro unat_of_nat_u64) simp
  have "unat (of_nat (sz - 1) :: u64) = sz - 1" using assms(3) by (intro unat_of_nat_u64) simp
  then have sz1: "unat (of_nat sz - 1 :: u64) = sz - 1" using assms(2) by (simp add: of_nat_diff)
  have d: "dround (of_nat sz) = Some (of_nat sz)" "dround (of_nat (sz - 1)) = Some (of_nat (sz - 1))"
    by (rule dround_of_nat, use assms(3) in simp)+
  have u: "of_int (uint (of_nat sz :: u64)) = (of_nat sz :: rat)"
    "of_int (uint (of_nat sz - 1 :: u64)) = (of_nat (sz - 1) :: rat)"
    using szw sz1 by (metis of_int_of_nat_eq uint_nat)+
  obtain x l h where x: "lr_position m k = Inr x" "ADD_EPS x (of_nat sz) = Inr h"
    "d_to_size (if l > h then h else l) = Inr (ap_lo a)" "d_to_size h = Inr (ap_hi a)"
    using assms(1) by (auto simp: predict_def res_iff Let_def)
  have t: "truncate_rat (if l > h then h else l) = int (ap_lo a)" "truncate_rat h = int (ap_hi a)"
    using x(3,4) by (auto simp: d_to_size_def Let_def split: if_splits)
  have "truncate_rat (if l > h then h else l) \<le> truncate_rat h" by (rule truncate_mono) auto
  then show "ap_lo a \<le> ap_hi a" unfolding t by simp
  have sf: "(of_nat (sz - 1) :: rat) < of_nat sz" using assms(2) by simp
  have "h < of_nat sz"
    using x(2) u d sf by (auto simp: ADD_EPS_def res_iff d_fin_def split: option.splits if_splits)
  then have "truncate_rat h < int sz"
    using assms(2) by (auto simp: truncate_rat_def floor_less_iff ceiling_le_iff intro: le_less_trans [of _ 0])
  then show "ap_hi a < sz" unfolding t by simp
qed

text \<open>What a freshly trained submodel answers for its \<open>i\<close>-th key: the leaf of the entry is
  number \<open>i div 64\<close> of the table, and the search sees the leaves of the predicted window.\<close>

lemma trained_search:
  assumes "pool_inv 64 p" "alloc_hdr p \<le> 2 ^ 48" "length raw = 128"
    and "0 < sz" "sz < 2 ^ 31" "start + sz \<le> length ks" "start + sz \<le> length vs"
    and "al_sorted (input_entries ks vs start sz)" "\<forall>e \<in> set (input_entries ks vs start sz). fst e \<noteq> invalidKey"
    and "unat (used_hdr p) * 64 + sz \<le> 64 * unat (alloc_hdr p)"
    and "i < sz"
  shows "\<exists>sm p'. SubModel s c ks vs start sz raw p = Inr (sm, p')
    \<and> sm_search sm p' (ks ! (start + i)) =
        rbind (predict \<lparr>slope = s, intercept = c\<rparr> (ks ! (start + i)) (of_nat sz)) (\<lambda>a.
          Inr (if ap_lo a div 64 \<le> i div 64 \<and> i div 64 \<le> ap_hi a div 64 then Some (vs ! (start + i)) else None))"
proof -
  let ?es = "input_entries ks vs start sz" and ?syn = "SynonymTable (LeafTable raw)"
  let ?k = "ks ! (start + i)" and ?v = "vs ! (start + i)" and ?m = "\<lparr>slope = s, intercept = c\<rparr>"
  obtain t p' m where ok: "SubModel s c ks vs start sz raw p
        = Inr (\<lparr>model = ?m, ltable = t, capacity = of_nat sz\<rparr>, p')"
      and tr: "trained 64 (used_hdr p) ?syn m ?es t p'" "alloc_hdr p' = alloc_hdr p"
    using SubModel_ok [OF assms(1,4-10)] by blast
  have syn: "length ?syn = 128" "leaf_num (?syn ! 0) = 1" using assms(3) by (simp_all add: LeafTable_def)
  have ev: "even (64 :: nat)" by simp
  have h48: "alloc_hdr p' \<le> 2 ^ 48" using assms(2) tr(2) by simp
  note rep = trained_rep [OF tr(1) ev h48 syn assms(8)]
  note es = input_entries_nth [OF assms(6,7)]
  have found: "lt_search t p' ?k (fst (leaf_window a)) (snd (leaf_window a))
      = Inr (if ap_lo a div 64 \<le> i div 64 \<and> i div 64 \<le> ap_hi a div 64 then Some ?v else None)"
    if a: "predict ?m ?k (of_nat sz) = Inr a" for a
  proof -
    let ?l = "ap_lo a div 64" and ?h = "ap_hi a div 64"
    note r = predict_range [OF a assms(4) order_less_imp_le [OF order_less_trans [OF assms(5)]], simplified]
    have lh: "?l \<le> ?h" using r(1) by (simp add: div_le_mono)
    have hm: "?h < m" using r(2) trainedD(6) [OF tr(1)] es(1) by simp
    note sp = trained_span [OF tr(1) ev h48 syn assms(8) lh hm]
    have "?k \<noteq> invalidKey" using assms(9,11) es nth_mem [of i ?es] by fastforce
    then have run: "lt_search t p' ?k (int ?l) (int ?h) = Inr (map_of (span_entries p' t ?l ?h) ?k)"
      using lt_search_span [OF table_rep_inv [OF rep(1)] lh _ sp(2)] hm rep(3) by simp
    have win: "leaf_window a = (int ?l, int ?h)"
      using r assms(5) by (intro leaf_window_div) simp_all
    have ei: "?es ! i = (?k, ?v)" "i < length ?es" using es assms(11) by simp_all
    have dist: "distinct (map fst ?es)" using assms(8) by (rule al_sorted_distinct)
    have "map_of (span_entries p' t ?l ?h) ?k
        = (if ?l \<le> i div 64 \<and> i div 64 \<le> ?h then Some ?v else None)"
    proof (cases "?l \<le> i div 64 \<and> i div 64 \<le> ?h")
      case True
      then have "64 * ?l \<le> i" "i < 64 * Suc ?h" by (auto simp: div_le_dividend less_Suc_eq_le)
      then have "?es ! i \<in> set (span_entries p' t ?l ?h)"
        unfolding sp(1) by (rule nth_in_slice [OF ei(2) _ _ lh])
      then show ?thesis
        using True sp(2) ei(1) by (simp add: span_ok_def al_sorted_distinct)
    next
      case False
      have "?k \<notin> fst ` set (span_entries p' t ?l ?h)"
      proof
        assume "?k \<in> fst ` set (span_entries p' t ?l ?h)"
        then obtain e where "e \<in> set (take (64 * (Suc ?h - ?l)) (drop (64 * ?l) ?es))" and e: "fst e = ?k"
          unfolding sp(1) by auto
        then obtain q where q: "q < length ?es" "?es ! q = e" "?l \<le> q div 64" "q div 64 \<le> ?h"
          using lh by (elim slice_only) simp_all
        then have "map fst ?es ! q = map fst ?es ! i" using e ei by simp
        then have "q = i"
          using nth_eq_iff_index_eq [OF dist, of q i] q(1) ei(2) by (simp only: length_map)
        then show False using q False by simp
      qed
      then have "map_of (span_entries p' t ?l ?h) ?k = None" by (simp add: map_of_eq_None_iff)
      then show ?thesis using False by auto
    qed
    then show ?thesis using run win by simp
  qed
  have "sm_search \<lparr>model = ?m, ltable = t, capacity = of_nat sz\<rparr> p' ?k
      = rbind (predict ?m ?k (of_nat sz)) (\<lambda>a.
          Inr (if ap_lo a div 64 \<le> i div 64 \<and> i div 64 \<le> ap_hi a div 64 then Some ?v else None))"
    using found by (cases "predict ?m ?k (of_nat sz)") (simp_all add: sm_search_def split_beta)
  then show ?thesis using ok by blast
qed

text \<open>A key whose predicted position is -1 or less makes \<open>predict\<close> convert a negative position
  to \<open>size_t\<close>.\<close>

lemma predict_negative:
  assumes "lr_position m k = Inr x" "x \<le> - 1"
  shows "predict m k sz = Inl UB"
proof -
  have "d_to_size x = Inl UB"
    using assms(2) by (auto simp: d_to_size_def truncate_rat_def Let_def le_ceiling_iff)
  moreover have "SUB_EPS x = Inr 0" using assms(2) by (simp add: SUB_EPS_def kEpsilon_def)
  ultimately show ?thesis
    using assms(1) by (cases "ADD_EPS x sz") (auto simp: predict_def ADD_EPS_def rbind_Inl_iff d_fin_def Let_def
        split: option.splits if_splits)
qed

lemma ex_below: "lr_position \<lparr>slope = 0x3FF0000000000000, intercept = 0xC059000000000000\<rparr> 10 = Inr (- 90)"
  by code_simp

lemma predict_negative_witness:
  "predict \<lparr>slope = 0x3FF0000000000000, intercept = 0xC059000000000000\<rparr> 10 50 = Inl UB"
  by (rule predict_negative [OF ex_below]) simp

text \<open>C17: the trained keys within \<open>Epsilon\<close>. If the linear model puts the key of the \<open>i\<close>-th
  entry at a position \<open>x\<close> at most \<open>Epsilon\<close> away from \<open>i\<close>, a search of the freshly trained
  submodel returns its value, provided that \<open>x\<close> is above -1; a position of -1 or less, which
  \<open>Epsilon\<close> allows for the first entries, is undefined behaviour.\<close>

theorem trained_lookup:
  assumes "pool_inv 64 p" "alloc_hdr p \<le> 2 ^ 48" "length raw = 128"
    and "0 < sz" "sz < 2 ^ 31" "start + sz \<le> length ks" "start + sz \<le> length vs"
    and "al_sorted (input_entries ks vs start sz)" "\<forall>e \<in> set (input_entries ks vs start sz). fst e \<noteq> invalidKey"
    and "unat (used_hdr p) * 64 + sz \<le> 64 * unat (alloc_hdr p)"
    and "i < sz" "lr_position \<lparr>slope = s, intercept = c\<rparr> (ks ! (start + i)) = Inr x"
    and "\<bar>x - of_nat i\<bar> \<le> of_nat kEpsilon"
  shows "\<exists>sm p'. SubModel s c ks vs start sz raw p = Inr (sm, p')
    \<and> sm_search sm p' (ks ! (start + i)) = (if - 1 < x then Inr (Some (vs ! (start + i))) else Inl UB)"
proof (cases "- 1 < x")
  case True
  obtain a where "predict \<lparr>slope = s, intercept = c\<rparr> (ks ! (start + i)) (of_nat sz) = Inr a"
    "ap_lo a \<le> i" "i \<le> ap_hi a"
    by (rule predict_window [OF assms(12) True assms(13,11)]) (use assms(5) in simp)
  then show ?thesis using trained_search [OF assms(1-11), of s c] True by (simp add: div_le_mono)
next
  case False
  then show ?thesis
    using trained_search [OF assms(1-11), of s c] predict_negative [OF assms(12)] by simp
qed

lemma ex_position: "lr_position \<lparr>slope = 0x3FF0000000000000, intercept = 0xC014000000000000\<rparr> 7 = Inr 2"
  by code_simp

theorem trained_lookup_witness:
  "\<exists>p sm p'. SubModel 0x3FF0000000000000 0xC014000000000000 [5, 7, 9] [50, 70, 90] 0 3 (replicate 128 (mk_te 0 0 0)) p = Inr (sm, p')
     \<and> sm_search sm p' 7 = Inr (Some 70)"
proof -
  obtain p where p: "pool_inv 64 p" "used_hdr p = 0" "alloc_hdr p = 3" using ex_pool64 by blast
  show ?thesis
    using trained_lookup [OF p(1), of "replicate 128 (mk_te 0 0 0)" 3 0 "[5, 7, 9]" "[50, 70, 90]" 1
        "0x3FF0000000000000" "0xC014000000000000" 2]
    by (simp add: ex_input p invalidKey_def ex_position kEpsilon_def) blast
qed

text \<open>C18: the trained keys in general. Whatever line a submodel is trained with, when \<open>predict\<close>
  returns a window for the \<open>i\<close>-th trained key, the search returns the value of the key if the
  leaf \<open>i div 64\<close> that holds it is one of the leaves of the window, and says that the key is
  not there otherwise. The second case happens with an exact line, for large keys, where
  \<open>double\<close> has too few bits: of the keys \<open>2 ^ 62 + i\<close>, \<open>i < 128\<close>, on the line of slope 1 and
  intercept \<open>- 2 ^ 62\<close>, key number 100 is not found.\<close>

theorem trained_key_missed:
  assumes "pool_inv 64 p" "alloc_hdr p \<le> 2 ^ 48" "length raw = 128"
    and "0 < sz" "sz < 2 ^ 31" "start + sz \<le> length ks" "start + sz \<le> length vs"
    and "al_sorted (input_entries ks vs start sz)" "\<forall>e \<in> set (input_entries ks vs start sz). fst e \<noteq> invalidKey"
    and "unat (used_hdr p) * 64 + sz \<le> 64 * unat (alloc_hdr p)"
    and "i < sz" "predict \<lparr>slope = s, intercept = c\<rparr> (ks ! (start + i)) (of_nat sz) = Inr a"
  shows "\<exists>sm p'. SubModel s c ks vs start sz raw p = Inr (sm, p')
    \<and> sm_search sm p' (ks ! (start + i))
      = Inr (if ap_lo a div 64 \<le> i div 64 \<and> i div 64 \<le> ap_hi a div 64 then Some (vs ! (start + i)) else None)"
  using trained_search [OF assms(1-11), of s c] assms(12) by simp

text \<open>The keys of the example, and the window \<open>predict\<close> gives for number 100.\<close>

definition ex_large :: "u64 list" where
  "ex_large = map (\<lambda>i. of_nat (2 ^ 62 + i)) [0..<128]"

lemma ex_large_window:
  "predict \<lparr>slope = 0x3FF0000000000000, intercept = 0xC3D0000000000000\<rparr> (2 ^ 62 + 100) (of_nat 128)
     = Inr \<lparr>ap_pos = 0, ap_lo = 0, ap_hi = 34\<rparr>"
  "dval 0x3FF0000000000000 = Some 1" "dval 0xC3D0000000000000 = Some (- (2 ^ 62))"
  by code_simp+

lemma ex_large_input:
  "input_entries ex_large ex_large 0 128 = map (\<lambda>i. (of_nat (2 ^ 62 + i), of_nat (2 ^ 62 + i))) [0..<128]"
  by (simp add: input_entries_def ex_large_def zip_map_map zip_same_conv_map del: of_nat_add)

lemma ex_large_unat: "i < 128 \<Longrightarrow> unat (of_nat (2 ^ 62 + i) :: u64) = 2 ^ 62 + i"
  by (rule unat_of_nat_u64) simp

lemma ex_large_ok:
  "al_sorted (input_entries ex_large ex_large 0 128)"
  "\<forall>e \<in> set (input_entries ex_large ex_large 0 128). fst e \<noteq> invalidKey"
  "length ex_large = 128" "ex_large ! 100 = 2 ^ 62 + 100"
proof -
  show "al_sorted (input_entries ex_large ex_large 0 128)"
    unfolding ex_large_input al_sorted_def sorted_wrt_iff_nth_less
    using ex_large_unat by (auto simp: word_less_nat_alt simp del: of_nat_add)
  have "unat invalidKey \<noteq> 2 ^ 62 + i" if "i < 128" for i
    using that by (simp add: invalidKey_def unsigned_minus_1_eq_mask mask_eq_exp_minus_1)
  then have "(of_nat (2 ^ 62 + i) :: u64) \<noteq> invalidKey" if "i < 128" for i
    using ex_large_unat [OF that] that by metis
  then show "\<forall>e \<in> set (input_entries ex_large ex_large 0 128). fst e \<noteq> invalidKey"
    unfolding ex_large_input by (auto simp del: of_nat_add)
qed (simp_all add: ex_large_def)

theorem trained_key_missed_witness:
  "\<exists>p sm p'. SubModel 0x3FF0000000000000 0xC3D0000000000000 ex_large ex_large 0 128 (replicate 128 (mk_te 0 0 0)) p = Inr (sm, p')
     \<and> sm_search sm p' (ex_large ! 100) = Inr None"
proof -
  obtain p where p: "pool_inv 64 p" "used_hdr p = 0" "alloc_hdr p = 3" using ex_pool64 by blast
  let ?a = "\<lparr>ap_pos = 0, ap_lo = 0, ap_hi = 34\<rparr>" and ?raw = "replicate 128 (mk_te 0 0 0)"
  have "predict \<lparr>slope = 0x3FF0000000000000, intercept = 0xC3D0000000000000\<rparr> (ex_large ! (0 + 100)) (of_nat 128) = Inr ?a"
    unfolding add_0 ex_large_ok(4) by (rule ex_large_window(1))
  from trained_key_missed [OF p(1) _ _ _ _ _ _ ex_large_ok(1,2) _ _ this, of ?raw]
  have "\<exists>sm p'. SubModel 0x3FF0000000000000 0xC3D0000000000000 ex_large ex_large 0 128 ?raw p = Inr (sm, p')
      \<and> sm_search sm p' (ex_large ! (0 + 100)) = Inr None"
    using p ex_large_ok(3) by simp
  then show ?thesis unfolding add_0 by blast
qed

end
