(* ===== verification/Plr.thy ===== *)
theory Plr
  imports Machine_Float "HOL-Library.Signed_Division"
begin

text \<open>
  The streaming piecewise linear regression, \<^verbatim>\<open>rolex/plr.hpp\<close>, with \<open>X\<close> and \<open>Y\<close> both
  \<open>u64\<close> (\<open>PLR<K, size_t>\<close>): points are added by increasing \<open>x\<close> as long as one line passes
  within \<open>epsilon\<close> of all of them. The state keeps the line of least and the line of greatest
  slope (\<open>rectangle\<close>) and the hulls of the upper and of the lower ends of the error bars.

  Differences and their products are \<open>__int128\<close>; a result outside of 128 bits is signed overflow
  (\<open>i128\<close>), which cannot happen as long as the \<open>y\<close> of the points (positions in the data, plus
  \<open>epsilon\<close>) stay below \<open>2 ^ 62\<close> (\<^theory_text>\<open>i128_mult\<close>, \<^theory_text>\<open>i128_det\<close> below).
  \<open>long double\<close> results are rounded (\<open>ldbl\<close>). \<^theory_text>\<open>Plr_Correct\<close> holds the proofs.
\<close>

section \<open>Points and slopes\<close>

record slope_t =
  dx :: int
  dy :: int

record point =
  px :: u64
  py :: u64

text \<open>Signed 128-bit arithmetic.\<close>

definition i128 :: "int \<Rightarrow> int res" where
  "i128 x = (if - (2 ^ 127) \<le> x \<and> x < 2 ^ 127 then Inr x else Inl UB)"

definition i128_less :: "int \<Rightarrow> int \<Rightarrow> int \<Rightarrow> int \<Rightarrow> bool res" where
  "i128_less a b c d = rbind (i128 (a * b)) (\<lambda>u. rbind (i128 (c * d)) (\<lambda>v. Inr (u < v)))"

definition i128_det :: "int \<Rightarrow> int \<Rightarrow> int \<Rightarrow> int \<Rightarrow> int res" where
  "i128_det a b c d = rbind (i128 (a * b)) (\<lambda>u. rbind (i128 (c * d)) (\<lambda>v. i128 (u - v)))"

definition slope_less :: "slope_t \<Rightarrow> slope_t \<Rightarrow> bool res" where
  "slope_less s p = i128_less (dy s) (dx p) (dx s) (dy p)"

definition slope_greater :: "slope_t \<Rightarrow> slope_t \<Rightarrow> bool res" where
  "slope_greater s p = i128_less (dx s) (dy p) (dy s) (dx p)"

definition slope_eq :: "slope_t \<Rightarrow> slope_t \<Rightarrow> bool res" where
  "slope_eq s p = rbind (i128 (dy s * dx p)) (\<lambda>u. rbind (i128 (dx s * dy p)) (\<lambda>v. Inr (u = v)))"

definition slope_neq :: "slope_t \<Rightarrow> slope_t \<Rightarrow> bool res" where
  "slope_neq s p = rbind (i128 (dy s * dx p)) (\<lambda>u. rbind (i128 (dx s * dy p)) (\<lambda>v. Inr (u \<noteq> v)))"

text \<open>The conversion to \<open>long double\<close>. The functions on \<open>long double\<close> take the rounding \<open>rd\<close> of
  every operation as an argument; the code's is \<open>ldbl\<close>, the identity gives the exact values.\<close>

definition slope_ld :: "(rat \<Rightarrow> rat) \<Rightarrow> slope_t \<Rightarrow> rat" where
  "slope_ld rd s = rd (rd (of_int (dy s)) / rd (of_int (dx s)))"

definition point_minus :: "point \<Rightarrow> point \<Rightarrow> slope_t" where
  "point_minus q p = \<lparr>dx = uint (px q) - uint (px p), dy = uint (py q) - uint (py p)\<rparr>"

definition cross :: "point \<Rightarrow> point \<Rightarrow> point \<Rightarrow> int res" where
  "cross Q A B =
     (let OA = point_minus A Q; OB = point_minus B Q in i128_det (dx OA) (dy OB) (dy OA) (dx OB))"

section \<open>The state\<close>

record plr =
  epsilon :: u64
  lower :: "point list"
  upper :: "point list"
  first_x :: u64
  last_x :: u64
  lower_start :: nat
  upper_start :: nat
  points_in_hull :: nat
  rectangle :: "point list"

text \<open>\<open>epsilon < 0\<close> never holds of an unsigned number; \<open>reserve\<close> has no effect on the contents.\<close>

definition PLR :: "u64 \<Rightarrow> plr" where
  "PLR eps = \<lparr>epsilon = eps, lower = [], upper = [], first_x = 0, last_x = 0, lower_start = 0,
     upper_start = 0, points_in_hull = 0, rectangle = replicate 4 \<lparr>px = 0, py = 0\<rparr>\<rparr>"

text \<open>The scans for the extreme slope from \<open>p\<close>, over the points after the start with their
  index: \<open>min_scan\<close> on the lower hull, \<open>max_scan\<close> on the upper hull.\<close>

fun min_scan :: "point list \<Rightarrow> point \<Rightarrow> slope_t \<Rightarrow> nat \<Rightarrow> nat \<Rightarrow> nat res" where
  "min_scan [] p1 mn min_i i = Inr min_i"
| "min_scan (q # qs) p1 mn min_i i =
     (let val = point_minus q p1 in
      rbind (slope_greater val mn) (\<lambda>g.
        if g then Inr min_i else min_scan qs p1 val i (Suc i)))"

fun max_scan :: "point list \<Rightarrow> point \<Rightarrow> slope_t \<Rightarrow> nat \<Rightarrow> nat \<Rightarrow> nat res" where
  "max_scan [] p2 mx max_i i = Inr max_i"
| "max_scan (q # qs) p2 mx max_i i =
     (let val = point_minus q p2 in
      rbind (slope_less val mx) (\<lambda>l.
        if l then Inr max_i else max_scan qs p2 val i (Suc i)))"

text \<open>The hull updates: the size the hull is cut to before the new point is pushed.\<close>

fun upper_end :: "point list \<Rightarrow> nat \<Rightarrow> point \<Rightarrow> nat \<Rightarrow> nat res" where
  "upper_end us start p1 e =
     (if e \<ge> start + 2 then
        rbind (cross (us ! (e - 2)) (us ! (e - 1)) p1) (\<lambda>c.
          if c \<le> 0 then upper_end us start p1 (e - 1) else Inr e)
      else Inr e)"

fun lower_end :: "point list \<Rightarrow> nat \<Rightarrow> point \<Rightarrow> nat \<Rightarrow> nat res" where
  "lower_end ls start p2 e =
     (if e \<ge> start + 2 then
        rbind (cross (ls ! (e - 2)) (ls ! (e - 1)) p2) (\<lambda>c.
          if c \<ge> 0 then lower_end ls start p2 (e - 1) else Inr e)
      else Inr e)"

declare upper_end.simps [simp del] lower_end.simps [simp del]

text \<open>The two blocks of \<open>add_point\<close> that tighten the greatest and the least slope.\<close>

definition tighten_max :: "plr \<Rightarrow> point \<Rightarrow> plr res" where
  "tighten_max s p1 =
     rbind (vec_at (lower s) (lower_start s)) (\<lambda>q.
     rbind (min_scan (drop (Suc (lower_start s)) (lower s)) p1 (point_minus q p1)
              (lower_start s) (Suc (lower_start s))) (\<lambda>min_i.
     rbind (upper_end (upper s) (upper_start s) p1 (length (upper s))) (\<lambda>e.
       Inr (s\<lparr>rectangle := (rectangle s)[1 := lower s ! min_i, 3 := p1], lower_start := min_i,
              upper := take e (upper s) @ [p1]\<rparr>))))"

definition tighten_min :: "plr \<Rightarrow> point \<Rightarrow> plr res" where
  "tighten_min s p2 =
     rbind (vec_at (upper s) (upper_start s)) (\<lambda>q.
     rbind (max_scan (drop (Suc (upper_start s)) (upper s)) p2 (point_minus q p2)
              (upper_start s) (Suc (upper_start s))) (\<lambda>max_i.
     rbind (lower_end (lower s) (lower_start s) p2 (length (lower s))) (\<lambda>e.
       Inr (s\<lparr>rectangle := (rectangle s)[0 := upper s ! max_i, 2 := p2], upper_start := max_i,
              lower := take e (lower s) @ [p2]\<rparr>))))"

text \<open>The ends of the error bar of a point, saturating at the bounds of \<open>Y\<close>.\<close>

definition bar_high :: "u64 \<Rightarrow> u64 \<Rightarrow> u64" where
  "bar_high eps y = (if y \<ge> - 1 - eps then - 1 else y + eps)"

definition bar_low :: "u64 \<Rightarrow> u64 \<Rightarrow> u64" where
  "bar_low eps y = (if y \<le> 0 + eps then 0 else y - eps)"

definition add_point :: "plr \<Rightarrow> u64 \<Rightarrow> u64 \<Rightarrow> (plr \<times> bool) res" where
  "add_point s x y =
     (if points_in_hull s > 0 \<and> x \<le> last_x s then Inl Thrown
      else
        let s = s\<lparr>last_x := x\<rparr>;
            p1 = \<lparr>px = x, py = bar_high (epsilon s) y\<rparr>;
            p2 = \<lparr>px = x, py = bar_low (epsilon s) y\<rparr>;
            rect = rectangle s in
        if points_in_hull s = 0 then
          Inr (s\<lparr>first_x := x, rectangle := rect[0 := p1, 1 := p2], upper := [p1], lower := [p2],
                 upper_start := 0, lower_start := 0, points_in_hull := 1\<rparr>, True)
        else if points_in_hull s = 1 then
          Inr (s\<lparr>rectangle := rect[2 := p2, 3 := p1], upper := upper s @ [p1], lower := lower s @ [p2],
                 points_in_hull := 2\<rparr>, True)
        else
          let slope1 = point_minus (rect ! 2) (rect ! 0);
              slope2 = point_minus (rect ! 3) (rect ! 1) in
          rbind (slope_less (point_minus p1 (rect ! 2)) slope1) (\<lambda>outside_line1.
          rbind (slope_greater (point_minus p2 (rect ! 3)) slope2) (\<lambda>outside_line2.
          if outside_line1 \<or> outside_line2 then Inr (s\<lparr>points_in_hull := 0\<rparr>, False)
          else
            rbind (rbind (slope_less (point_minus p1 (rect ! 1)) slope2) (\<lambda>l. if l then tighten_max s p1 else Inr s)) (\<lambda>s.
            rbind (rbind (slope_greater (point_minus p2 (rectangle s ! 0)) slope1) (\<lambda>g. if g then tighten_min s p2 else Inr s)) (\<lambda>s.
              Inr (s\<lparr>points_in_hull := points_in_hull s + 1\<rparr>, True))))))"

definition reset :: "plr \<Rightarrow> plr" where
  "reset s = s\<lparr>points_in_hull := 0, lower := [], upper := []\<rparr>"

section \<open>Segments\<close>

record segment =
  seg_rect :: "point list"
  seg_first :: u64

definition get_segment :: "plr \<Rightarrow> segment" where
  "get_segment s =
     (let r = rectangle s in
      if points_in_hull s = 1 then \<lparr>seg_rect = [r ! 0, r ! 1, r ! 0, r ! 1], seg_first = first_x s\<rparr>
      else \<lparr>seg_rect = [r ! 0, r ! 1, r ! 2, r ! 3], seg_first = first_x s\<rparr>)"

definition one_point :: "segment \<Rightarrow> bool" where
  "one_point g \<longleftrightarrow> (let r = seg_rect g in
     px (r ! 0) = px (r ! 2) \<and> py (r ! 0) = py (r ! 2) \<and> px (r ! 1) = px (r ! 3) \<and> py (r ! 1) = py (r ! 3))"

definition get_first_x :: "segment \<Rightarrow> u64" where
  "get_first_x g = seg_first g"

definition get_intersection :: "(rat \<Rightarrow> rat) \<Rightarrow> segment \<Rightarrow> (rat \<times> rat) res" where
  "get_intersection rd g =
     (let r = seg_rect g; p0 = r ! 0; p1 = r ! 1; p2 = r ! 2; p3 = r ! 3;
          slope1 = point_minus p2 p0; slope2 = point_minus p3 p1 in
      rbind (if one_point g then Inr True else slope_eq slope1 slope2) (\<lambda>same.
      if same then Inr (of_int (uint (px p0)), of_int (uint (py p0)))
      else
        let p0p1 = point_minus p1 p0 in
        rbind (i128_det (dx slope1) (dy slope2) (dy slope1) (dx slope2)) (\<lambda>a.
        rbind (i128_det (dx p0p1) (dy slope2) (dy p0p1) (dx slope2)) (\<lambda>n.
          let b = rd (rd (of_int n) / rd (of_int a));
              i_x = rd (of_int (uint (px p0)) + rd (b * rd (of_int (dx slope1))));
              i_y = rd (of_int (uint (py p0)) + rd (b * rd (of_int (dy slope1))))
          in Inr (i_x, i_y)))))"

definition get_slope_range :: "(rat \<Rightarrow> rat) \<Rightarrow> segment \<Rightarrow> rat \<times> rat" where
  "get_slope_range rd g =
     (let r = seg_rect g in
      if one_point g then (0, 1)
      else (slope_ld rd (point_minus (r ! 2) (r ! 0)), slope_ld rd (point_minus (r ! 3) (r ! 1))))"

definition get_slope_intercept :: "(rat \<Rightarrow> rat) \<Rightarrow> segment \<Rightarrow> (rat \<times> rat) res" where
  "get_slope_intercept rd g =
     (if one_point g then Inr (0, of_int (uint ((py (seg_rect g ! 0) + py (seg_rect g ! 1)) div 2)))
      else rbind (get_intersection rd g) (\<lambda>(i_x, i_y).
        case get_slope_range rd g of (min_slope, max_slope) \<Rightarrow>
        let slope = rd (rd (min_slope + max_slope) / 2);
            intercept = rd (i_y - rd (i_x * slope))
        in Inr (slope, intercept)))"

text \<open>For integral \<open>X\<close> and \<open>Y\<close> the function returns in the \<open>if constexpr\<close>; a slope over no
  distance would divide by 0.\<close>

definition get_floating_point_segment :: "segment \<Rightarrow> u64 \<Rightarrow> (rat \<times> int) res" where
  "get_floating_point_segment g origin =
     (let r = seg_rect g in
      if one_point g then Inr (0, uint ((py (r ! 0) + py (r ! 1)) div 2))
      else
        let slope = point_minus (r ! 3) (r ! 1) in
        rbind (i128 (dy slope * (uint origin - uint (px (r ! 1))))) (\<lambda>intercept_n.
        let intercept_d = dx slope;
            rounding_term = ((if (intercept_n < 0) \<noteq> (intercept_d < 0) then - 1 else 1) * intercept_d) sdiv 2 in
        rbind (i128 (intercept_n + rounding_term)) (\<lambda>n.
        if intercept_d = 0 then Inl UB
        else
          rbind (i128 (n sdiv intercept_d)) (\<lambda>q.
          rbind (i128 (q + uint (py (r ! 1)))) (\<lambda>intercept. Inr (slope_ld ldbl slope, intercept))))))"

section \<open>Segmentation\<close>

text \<open>\<open>make_segmentation(n, epsilon, in, out)\<close>; \<open>out\<close> collects the segments. The loop is over
  the inputs still to come.\<close>

fun seg_loop :: "(u64 \<times> u64) list \<Rightarrow> u64 \<times> u64 \<Rightarrow> plr \<Rightarrow> segment list \<Rightarrow> nat \<Rightarrow> (plr \<times> segment list \<times> nat) res" where
  "seg_loop [] p opt out c = Inr (opt, out, c)"
| "seg_loop (next_p # qs) p opt out c =
     (if fst next_p = fst p then seg_loop qs p opt out c
      else
        rbind (add_point opt (fst next_p) (snd next_p)) (\<lambda>(opt, ok).
          if ok then seg_loop qs next_p opt out c
          else
            rbind (add_point opt (fst next_p) (snd next_p)) (\<lambda>(opt', _).
              seg_loop qs next_p opt' (out @ [get_segment opt]) (c + 1))))"

definition make_segmentation :: "u64 \<Rightarrow> (u64 \<times> u64) list \<Rightarrow> (segment list \<times> nat) res" where
  "make_segmentation eps ps =
     (case ps of [] \<Rightarrow> Inr ([], 0)
      | p # qs \<Rightarrow>
          rbind (add_point (PLR eps) (fst p) (snd p)) (\<lambda>(opt, _).
          rbind (seg_loop qs p opt [] 0) (\<lambda>(opt, out, c).
            Inr (out @ [get_segment opt], c + 1))))"

section \<open>Widths\<close>

lemma uint_u64: "0 \<le> uint (x :: u64)" "uint (x :: u64) < 2 ^ 64"
  using uint_lt2p [of x] by simp_all

lemma point_minus_fits:
  assumes "uint (py p) < 2 ^ 62" "uint (py q) < 2 ^ 62"
  shows "\<bar>dx (point_minus p q)\<bar> < 2 ^ 64" "\<bar>dy (point_minus p q)\<bar> < 2 ^ 62"
  unfolding point_minus_def slope_t.simps abs_less_iff
  using assms uint_u64 [of "px p"] uint_u64 [of "px q"] uint_u64 [of "py p"] uint_u64 [of "py q"]
  by linarith+

text \<open>Every product of a slope comparison fits into 128 bits, and so does a difference of two.\<close>

lemma mult_fits: "\<bar>a\<bar> < 2 ^ 64 \<Longrightarrow> \<bar>b\<bar> < 2 ^ 62 \<Longrightarrow> \<bar>a * b\<bar> < (2 :: int) ^ 126"
  using mult_strict_mono [of "\<bar>a\<bar>" "2 ^ 64" "\<bar>b\<bar>" "2 ^ 62"] by (simp add: abs_mult)

lemma i128_abs: "\<bar>x\<bar> < 2 ^ 127 \<Longrightarrow> i128 x = Inr x"
  unfolding i128_def abs_less_iff by simp

lemma i128_mult:
  assumes "\<bar>a\<bar> < 2 ^ 64" "\<bar>b\<bar> < 2 ^ 62"
  shows "i128 (a * b) = Inr (a * b)" "i128 (b * a) = Inr (b * a)"
  using mult_fits [OF assms] by (simp_all add: i128_abs mult.commute)

lemma i128_det_eq:
  assumes "\<bar>a\<bar> < 2 ^ 64" "\<bar>b\<bar> < 2 ^ 62" "\<bar>d\<bar> < 2 ^ 64" "\<bar>c\<bar> < 2 ^ 62"
  shows "i128_det a b c d = Inr (a * b - c * d)"
proof -
  have "\<bar>a * b\<bar> < 2 ^ 126" "\<bar>c * d\<bar> < 2 ^ 126" using mult_fits [OF assms(1,2)] mult_fits [OF assms(3,4)] by (simp_all add: mult.commute)
  then have "\<bar>a * b - c * d\<bar> < 2 ^ 127" unfolding abs_less_iff by simp
  then show ?thesis by (simp add: i128_det_def i128_mult [OF assms(1,2)] i128_mult [OF assms(3,4)] i128_abs)
qed

definition small_point :: "point \<Rightarrow> bool" where
  "small_point q \<longleftrightarrow> uint (py q) < 2 ^ 62"

lemma cross_eq:
  assumes "small_point p" "small_point q" "small_point r"
  shows "cross p q r = Inr (dx (point_minus q p) * dy (point_minus r p) - dy (point_minus q p) * dx (point_minus r p))"
  unfolding cross_def Let_def
  by (rule i128_det_eq) (use assms point_minus_fits [of q p] point_minus_fits [of r p] in \<open>simp_all add: small_point_def\<close>)

lemma slope_ops_eq:
  assumes "small_point p" "small_point q" "small_point r" "small_point v"
  defines "s \<equiv> point_minus q p" and "t \<equiv> point_minus v r"
  shows "slope_less s t = Inr (dy s * dx t < dx s * dy t)" "slope_greater s t = Inr (dy s * dx t > dx s * dy t)"
    "slope_eq s t = Inr (dy s * dx t = dx s * dy t)"
proof -
  have f: "\<bar>dx s\<bar> < 2 ^ 64" "\<bar>dy s\<bar> < 2 ^ 62" "\<bar>dx t\<bar> < 2 ^ 64" "\<bar>dy t\<bar> < 2 ^ 62"
    using point_minus_fits [of q p] point_minus_fits [of v r] assms(1-4) by (simp_all add: s_def t_def small_point_def)
  note m = i128_mult [OF f(1,4)] i128_mult [OF f(3,2)]
  show "slope_less s t = Inr (dy s * dx t < dx s * dy t)" "slope_greater s t = Inr (dy s * dx t > dx s * dy t)"
    "slope_eq s t = Inr (dy s * dx t = dx s * dy t)"
    by (simp_all add: slope_less_def slope_greater_def slope_eq_def i128_less_def m)
qed

end
