(* ===== verification/Plr_Geometry.thy ===== *)
theory Plr_Geometry
  imports Complex_Main
begin

text \<open>
  The geometry behind the piecewise linear regression: lines over bars \<open>D\<close> to \<open>U\<close> (sets of
  lower and of upper ends), the lines of least and of greatest slope, and the hull of the
  lower ends. The hull of the upper ends is the hull of the lower ends of the mirrored points
  (\<open>mirror\<close>), so every lemma is proved once.

  A line of slope \<open>m\<close> and intercept \<open>a\<close> is above the point \<open>(x, y)\<close> if \<open>y \<le> m * x + a\<close>.
\<close>

type_synonym pt = "int \<times> int"

definition at_line :: "rat \<Rightarrow> rat \<Rightarrow> int \<Rightarrow> rat" where
  "at_line m a x = m * of_int x + a"

definition above :: "rat \<Rightarrow> rat \<Rightarrow> pt \<Rightarrow> bool" where
  "above m a q \<longleftrightarrow> of_int (snd q) \<le> at_line m a (fst q)"

definition below :: "rat \<Rightarrow> rat \<Rightarrow> pt \<Rightarrow> bool" where
  "below m a q \<longleftrightarrow> at_line m a (fst q) \<le> of_int (snd q)"

definition on_line :: "rat \<Rightarrow> rat \<Rightarrow> pt \<Rightarrow> bool" where
  "on_line m a q \<longleftrightarrow> at_line m a (fst q) = of_int (snd q)"

definition mirror :: "pt \<Rightarrow> pt" where
  "mirror q = (fst q, - snd q)"

lemma mirror_simps [simp]: "fst (mirror q) = fst q" "snd (mirror q) = - snd q" "mirror (mirror q) = q"
  by (simp_all add: mirror_def)

lemma mirror_image_less: "A \<subseteq> mirror ` U \<Longrightarrow> \<forall>u \<in> U. fst u < x \<Longrightarrow> \<forall>q \<in> A. fst q < x"
proof
  fix q assume "A \<subseteq> mirror ` U" "\<forall>u \<in> U. fst u < x" "q \<in> A"
  then obtain u where "u \<in> U" "q = mirror u" by blast
  then show "fst q < x" using \<open>\<forall>u \<in> U. fst u < x\<close> by simp
qed

lemma mirror_line [simp]:
  "above (- m) (- a) (mirror q) \<longleftrightarrow> below m a q" "below (- m) (- a) (mirror q) \<longleftrightarrow> above m a q"
  "on_line (- m) (- a) (mirror q) \<longleftrightarrow> on_line m a q" "at_line (- m) (- a) x = - at_line m a x"
  by (auto simp: above_def below_def on_line_def at_line_def)

lemma on_line_above: "on_line m a q \<Longrightarrow> above m a q" "on_line m a q \<Longrightarrow> below m a q"
  by (simp_all add: on_line_def above_def below_def)

lemma on_above_le: "on_line m a q \<Longrightarrow> above m' a' q \<Longrightarrow> at_line m a (fst q) \<le> at_line m' a' (fst q)"
  by (simp add: on_line_def above_def)

lemma below_on_le: "below m a q \<Longrightarrow> on_line m' a' q \<Longrightarrow> at_line m a (fst q) \<le> at_line m' a' (fst q)"
  by (simp add: on_line_def below_def)

lemma above_le: "above m a q \<Longrightarrow> at_line m a (fst q) \<le> at_line m' a' (fst q) \<Longrightarrow> above m' a' q"
  by (simp add: above_def)

lemma below_le: "below m a q \<Longrightarrow> at_line m' a' (fst q) \<le> at_line m a (fst q) \<Longrightarrow> below m' a' q"
  by (simp add: below_def)

text \<open>Two lines: which one is above the other on either side of a point.\<close>

lemma line_right:
  assumes "at_line m a x \<le> at_line m' a' x" "m \<le> m'" "x \<le> z"
  shows "at_line m a z \<le> at_line m' a' z"
proof -
  have "m * (of_int z - of_int x) \<le> m' * (of_int z - of_int x)"
    using assms(2,3) by (intro mult_right_mono) simp_all
  with assms(1) show ?thesis by (simp add: at_line_def algebra_simps)
qed

lemma line_left:
  assumes "at_line m a x \<le> at_line m' a' x" "m' \<le> m" "z \<le> x"
  shows "at_line m a z \<le> at_line m' a' z"
proof -
  have "m' * (of_int x - of_int z) \<le> m * (of_int x - of_int z)"
    using assms(2,3) by (intro mult_right_mono) simp_all
  with assms(1) show ?thesis by (simp add: at_line_def algebra_simps)
qed

lemma line_slope:
  assumes "at_line m a x \<le> at_line m' a' x" "at_line m' a' z \<le> at_line m a z" "x < z"
  shows "m' \<le> m"
proof (rule ccontr)
  assume "\<not> m' \<le> m"
  then have "m * (of_int z - of_int x) < m' * (of_int z - of_int x)"
    using assms(3) by (intro mult_strict_right_mono) simp_all
  with assms(1,2) show False by (simp add: at_line_def algebra_simps)
qed

text \<open>The line through two points.\<close>

definition slope_of :: "pt \<Rightarrow> pt \<Rightarrow> rat" where
  "slope_of p q = of_int (snd q - snd p) / of_int (fst q - fst p)"

definition icept_of :: "pt \<Rightarrow> pt \<Rightarrow> rat" where
  "icept_of p q = of_int (snd p) - slope_of p q * of_int (fst p)"

lemma line_through:
  assumes "fst p < fst q"
  shows "on_line (slope_of p q) (icept_of p q) p" "on_line (slope_of p q) (icept_of p q) q"
proof -
  show "on_line (slope_of p q) (icept_of p q) p" by (simp add: on_line_def at_line_def icept_of_def)
  have "slope_of p q * (of_int (fst q) - of_int (fst p)) = of_int (snd q) - of_int (snd p)"
    using assms by (simp add: slope_of_def)
  then show "on_line (slope_of p q) (icept_of p q) q"
    by (simp add: on_line_def at_line_def icept_of_def algebra_simps)
qed

lemma slope_of_mirror: "slope_of (mirror p) (mirror q) = - slope_of p q"
  by (simp add: slope_of_def minus_divide_left)

lemma icept_of_mirror: "icept_of (mirror p) (mirror q) = - icept_of p q"
  by (simp add: icept_of_def slope_of_mirror)

text \<open>A point left of \<open>q\<close> is on or below the line through \<open>p\<close> and \<open>q\<close> exactly if its own slope
  to \<open>q\<close> is no smaller.\<close>

lemma slope_above:
  assumes "fst p < fst q" "fst r < fst q"
  shows "above (slope_of p q) (icept_of p q) r \<longleftrightarrow> slope_of p q \<le> slope_of r q"
proof -
  let ?m = "slope_of p q"
  have "at_line ?m (icept_of p q) (fst r) = of_int (snd q) - ?m * (of_int (fst q) - of_int (fst r))"
    using line_through(2) [OF assms(1)] by (simp add: on_line_def at_line_def algebra_simps)
  then have "above ?m (icept_of p q) r \<longleftrightarrow> ?m * (of_int (fst q) - of_int (fst r)) \<le> of_int (snd q) - of_int (snd r)"
    by (auto simp: above_def)
  also have "\<dots> \<longleftrightarrow> ?m \<le> slope_of r q"
    using assms(2) by (simp add: slope_of_def pos_le_divide_eq)
  finally show ?thesis .
qed

lemma slope_line:
  assumes "on_line m a p" "fst p < fst q"
  shows "slope_of p q < m \<longleftrightarrow> \<not> below m a q" "m < slope_of p q \<longleftrightarrow> \<not> above m a q"
proof -
  have d: "0 < (of_int (fst q - fst p) :: rat)" using assms(2) by simp
  have e: "at_line m a (fst q) = of_int (snd p) + m * of_int (fst q - fst p)"
    using assms(1) by (simp add: on_line_def at_line_def algebra_simps)
  show "slope_of p q < m \<longleftrightarrow> \<not> below m a q" "m < slope_of p q \<longleftrightarrow> \<not> above m a q"
    unfolding slope_of_def below_def above_def e pos_divide_less_eq [OF d] pos_less_divide_eq [OF d]
    by auto
qed

section \<open>Hulls\<close>

definition icross :: "pt \<Rightarrow> pt \<Rightarrow> pt \<Rightarrow> int" where
  "icross p q r = (fst q - fst p) * (snd r - snd p) - (snd q - snd p) * (fst r - fst p)"

lemma icross_mirror: "icross (mirror p) (mirror q) (mirror r) = - icross p q r"
  by (simp add: icross_def algebra_simps)

text \<open>A point \<open>q\<close> between \<open>p\<close> and \<open>r\<close> that makes no right turn lies under every line above both.\<close>

lemma icross_above:
  assumes "fst p < fst q" "fst q < fst r" "icross p q r \<ge> 0" "above m a p" "above m a r"
  shows "above m a q"
proof -
  let ?x = "\<lambda>p. of_int (fst p) :: rat" and ?y = "\<lambda>p. of_int (snd p) :: rat"
  have c: "0 \<le> (?x q - ?x p) * (?y r - ?y p) - (?y q - ?y p) * (?x r - ?x p)"
  proof -
    have "(0 :: rat) \<le> of_int (icross p q r)" using assms(3) by simp
    then show ?thesis by (simp add: icross_def)
  qed
  have "(?x r - ?x q) * ?y p \<le> (?x r - ?x q) * at_line m a (fst p)"
    "(?x q - ?x p) * ?y r \<le> (?x q - ?x p) * at_line m a (fst r)"
    using assms by (auto intro!: mult_left_mono simp: above_def)
  with c have "(?x r - ?x p) * ?y q \<le> (?x r - ?x p) * at_line m a (fst q)"
    by (simp add: at_line_def algebra_simps)
  then show ?thesis using assms(1,2) by (simp add: above_def mult_le_cancel_left)
qed

text \<open>The points of a hull go to the right and turn right.\<close>

fun chain :: "pt list \<Rightarrow> bool" where
  "chain [] \<longleftrightarrow> True"
| "chain [p] \<longleftrightarrow> True"
| "chain [p, q] \<longleftrightarrow> fst p < fst q"
| "chain (p # q # r # ps) \<longleftrightarrow> fst p < fst q \<and> icross p q r < 0 \<and> chain (q # r # ps)"

lemma chain_Cons: "chain (p # ps) \<Longrightarrow> chain ps"
  by (cases "p # ps" rule: chain.cases) auto

lemma chain_drop: "chain ps \<Longrightarrow> chain (drop k ps)"
proof (induction k arbitrary: ps)
  case (Suc k)
  then show ?case by (cases ps) (auto dest: chain_Cons)
qed simp

lemma chain_increasing: "chain ps \<Longrightarrow> sorted_wrt (<) (map fst ps)"
proof (induction ps rule: chain.induct)
  case (4 p q r ps)
  then show ?case by (auto intro: less_trans)
qed auto

lemma chain_snoc:
  "chain (ps @ [p, q]) \<Longrightarrow> fst q < fst r \<Longrightarrow> icross p q r < 0 \<Longrightarrow> chain (ps @ [p, q, r])"
proof (induction ps rule: chain.induct)
  case (2 a)
  then show ?case by auto
next
  case (3 a b)
  then show ?case by auto
next
  case (4 a b c ps)
  then show ?case by auto
qed auto

lemma chain_butlast: "chain (ps @ [p]) \<Longrightarrow> chain ps"
proof (induction ps rule: chain.induct)
  case (3 a b)
  then show ?case by auto
next
  case (4 a b c ps)
  then show ?case by auto
qed auto

lemma chain_prefix: "chain (xs @ ys) \<Longrightarrow> chain xs"
  by (induction ys rule: rev_induct) (auto intro: chain_butlast simp flip: append_assoc)

section \<open>The scan for the extreme slope\<close>

fun iscan :: "pt list \<Rightarrow> pt \<Rightarrow> pt \<Rightarrow> nat \<Rightarrow> nat" where
  "iscan [] P v i = i"
| "iscan (q # qs) P v i = (if slope_of q P > slope_of v P then i else iscan qs P q (Suc i))"

lemma slope_of_less:
  assumes "fst p < fst q" "fst r < fst s"
  shows "slope_of p q < slope_of r s
    \<longleftrightarrow> (snd q - snd p) * (fst s - fst r) < (snd s - snd r) * (fst q - fst p)"
proof -
  have pos: "0 < (of_int (fst q - fst p) :: rat)" "0 < (of_int (fst s - fst r) :: rat)" using assms by simp_all
  have "slope_of p q < slope_of r s \<longleftrightarrow> (of_int (snd q - snd p) * of_int (fst s - fst r) :: rat)
      < of_int (snd s - snd r) * of_int (fst q - fst p)"
    unfolding slope_of_def
    by (simp only: pos_divide_less_eq [OF pos(1)] times_divide_eq_left pos_less_divide_eq [OF pos(2)])
  then show ?thesis by (simp only: of_int_mult [symmetric] of_int_less_iff)
qed

lemma slope_step:
  assumes "fst p < fst q" "fst q < fst P"
  shows "slope_of p P < slope_of q P \<longleftrightarrow> icross p q P > 0"
  using assms by (subst slope_of_less) (auto simp: icross_def algebra_simps)

text \<open>Once the slope to \<open>P\<close> grows along a hull it keeps growing.\<close>

lemma icross_chain:
  assumes "fst p < fst q" "fst q < fst r" "fst r < fst P" "icross p q r < 0" "icross p q P > 0"
  shows "icross q r P > 0"
proof -
  have "(fst q - fst p) * icross q r P = (fst r - fst q) * icross p q P - (fst P - fst q) * icross p q r"
    by (simp add: icross_def algebra_simps)
  moreover have "0 < (fst r - fst q) * icross p q P" "(fst P - fst q) * icross p q r < 0"
    using assms by (simp_all add: mult_pos_neg)
  ultimately have "0 < (fst q - fst p) * icross q r P" by linarith
  with assms(1) show ?thesis by (simp add: zero_less_mult_iff)
qed

lemma chain_growing:
  assumes "chain (p # q # ps)" "\<forall>r \<in> set (p # q # ps). fst r < fst P" "slope_of p P < slope_of q P"
  shows "\<forall>r \<in> set (q # ps). slope_of p P < slope_of r P"
  using assms
proof (induction ps arbitrary: p q)
  case (Cons r ps)
  have x: "fst p < fst q" "fst q < fst r" "fst q < fst P" "fst r < fst P" "icross p q r < 0" "chain (q # r # ps)"
    using Cons.prems(1,2) chain_increasing [OF Cons.prems(1)] by auto
  have "icross p q P > 0" using Cons.prems(3) slope_step [OF x(1,3)] by simp
  then have "icross q r P > 0" by (rule icross_chain [OF x(1,2,4,5)])
  then have lt: "slope_of q P < slope_of r P" using slope_step [OF x(2,4)] by simp
  have "\<forall>s \<in> set (r # ps). slope_of q P < slope_of s P"
    by (rule Cons.IH [OF x(6) _ lt]) (use Cons.prems(2) in simp)
  with Cons.prems(3) show ?case by (auto intro: less_trans)
qed simp

lemma iscan_min:
  assumes "chain (v # qs)" "\<forall>r \<in> set (v # qs). fst r < fst P"
  shows "\<exists>j \<le> length qs. iscan qs P v i = i + j
    \<and> (\<forall>r \<in> set (v # qs). slope_of ((v # qs) ! j) P \<le> slope_of r P)"
  using assms
proof (induction qs arbitrary: v i)
  case (Cons q qs)
  show ?case
  proof (cases "slope_of q P > slope_of v P")
    case True
    then show ?thesis using chain_growing [OF Cons.prems True] by (intro exI [of _ 0]) (auto intro: less_imp_le)
  next
    case False
    obtain j where j: "j \<le> length qs" "iscan qs P q (Suc i) = Suc i + j"
        "\<forall>r \<in> set (q # qs). slope_of ((q # qs) ! j) P \<le> slope_of r P"
      using Cons.IH [of q "Suc i"] Cons.prems by (auto dest: chain_Cons)
    then show ?thesis using False by (intro exI [of _ "Suc j"]) auto
  qed
qed simp

section \<open>Cutting a hull\<close>

text \<open>The number of points of a hull that stay when \<open>P\<close> is appended.\<close>

fun itrim :: "pt list \<Rightarrow> pt \<Rightarrow> nat \<Rightarrow> nat" where
  "itrim ws P n =
     (if n \<ge> 2 \<and> icross (ws ! (n - 2)) (ws ! (n - 1)) P \<ge> 0 then itrim ws P (n - 1) else n)"

declare itrim.simps [simp del]

lemma itrim_correct:
  assumes "chain (take n ws)" "1 \<le> n" "n \<le> length ws" "\<forall>r \<in> set ws. fst r < fst P"
  shows "1 \<le> itrim ws P n \<and> itrim ws P n \<le> n \<and> chain (take (itrim ws P n) ws @ [P])
    \<and> (\<forall>m a. (\<forall>v \<in> set (take (itrim ws P n) ws). above m a v) \<and> above m a P
          \<longrightarrow> (\<forall>v \<in> set (take n ws). above m a v))"
  using assms
proof (induction n)
  case (Suc n)
  have tk: "take (Suc n) ws = take n ws @ [ws ! n]" using Suc.prems by (simp add: take_Suc_conv_app_nth)
  have xP: "fst (ws ! i) < fst P" if "i < length ws" for i using that Suc.prems(4) by simp
  show ?case
  proof (cases "Suc n \<ge> 2 \<and> icross (ws ! (Suc n - 2)) (ws ! (Suc n - 1)) P \<ge> 0")
    case True
    then have n: "1 \<le> n" "itrim ws P (Suc n) = itrim ws P n" by (simp_all add: itrim.simps [of ws P "Suc n"])
    have le: "n \<le> length ws" using Suc.prems(3) by simp
    note ih = Suc.IH [OF chain_butlast [OF Suc.prems(1) [unfolded tk]] n(1) le Suc.prems(4)]
    have new: "above m a (ws ! n)" if "\<forall>v \<in> set (take n ws). above m a v" "above m a P" for m a
    proof (rule icross_above)
      show "fst (ws ! (n - 1)) < fst (ws ! n)"
        using sorted_wrt_nth_less [OF chain_increasing [OF Suc.prems(1)], of "n - 1" n] n(1) Suc.prems(3)
        by simp
      show "fst (ws ! n) < fst P" using xP Suc.prems(3) by simp
      show "icross (ws ! (n - 1)) (ws ! n) P \<ge> 0" using True n(1) by (simp add: numeral_2_eq_2)
      have "take n ws ! (n - 1) \<in> set (take n ws)" using n(1) Suc.prems(3) by (intro nth_mem) simp
      then have "ws ! (n - 1) \<in> set (take n ws)" using n(1) by simp
      with that(1) show "above m a (ws ! (n - 1))" by blast
    qed (rule that)
    have un: "set (take (Suc n) ws) = insert (ws ! n) (set (take n ws))" by (simp add: tk)
    show ?thesis unfolding n(2) un ball_simps using ih new le_SucI by blast
  next
    case False
    then have e: "itrim ws P (Suc n) = Suc n" by (subst itrim.simps) (rule if_not_P)
    have "chain (take (Suc n) ws @ [P])"
    proof (cases n)
      case 0
      then show ?thesis using Suc.prems xP [of 0] by (cases ws) auto
    next
      case (Suc k)
      have two: "take (Suc n) ws = take k ws @ [ws ! k, ws ! n]"
        using tk Suc Suc.prems(3) by (simp add: take_Suc_conv_app_nth)
      have "icross (ws ! k) (ws ! n) P < 0" using False Suc by (simp add: numeral_2_eq_2)
      then show ?thesis
        using chain_snoc [of "take k ws" "ws ! k" "ws ! n" P] Suc.prems(1,3) two xP [of n] by simp
    qed
    then show ?thesis using e by simp
  qed
qed simp

section \<open>The extreme lines\<close>

text \<open>Both lines pass over all lower and under all upper ends.\<close>

definition two_sided :: "pt set \<Rightarrow> pt set \<Rightarrow> rat \<Rightarrow> rat \<Rightarrow> rat \<Rightarrow> rat \<Rightarrow> bool" where
  "two_sided D U m1 a1 m2 a2 \<longleftrightarrow> m1 \<le> m2 \<and> (\<forall>d \<in> D. above m1 a1 d \<and> above m2 a2 d)
     \<and> (\<forall>u \<in> U. below m1 a1 u \<and> below m2 a2 u)"

lemma two_sided_mirror:
  "two_sided D U m1 a1 m2 a2 \<Longrightarrow> two_sided (mirror ` U) (mirror ` D) (- m2) (- a2) (- m1) (- a1)"
  by (auto simp: two_sided_def)

text \<open>The hull \<open>V\<close> stands for all lower ends \<open>D\<close>, for lines of slopes between the extremes.\<close>

definition stands_for :: "pt set \<Rightarrow> pt set \<Rightarrow> rat \<Rightarrow> rat \<Rightarrow> bool" where
  "stands_for V D m1 m2 \<longleftrightarrow>
     (\<forall>m a. m1 \<le> m \<and> m \<le> m2 \<and> (\<forall>v \<in> V. above m a v) \<longrightarrow> (\<forall>d \<in> D. above m a d))"

lemma stands_for_range: "stands_for V D m1 m2 \<Longrightarrow> m1 \<le> m1' \<Longrightarrow> m2' \<le> m2 \<Longrightarrow> stands_for V D m1' m2'"
  unfolding stands_for_def by (meson order_trans)

text \<open>A new end point \<open>P\<close> between the lines, and the line from \<open>P\<close> that touches the hull at
  \<open>K\<close>: it lies between the old lines in slope and is two-sided again.\<close>

lemma tighten:
  assumes ts: "two_sided D U m1 a1 m2 a2" and V: "V \<subseteq> D" "stands_for V D m1 m2"
    and R: "R \<in> V" "on_line m2 a2 R" and x: "\<forall>q \<in> D \<union> U. fst q < fst P"
    and P: "above (- m1) (- a1) (mirror P)" "\<not> below m2 a2 P"
    and K: "K \<in> V" "on_line m a K" "on_line m a P" "\<forall>v \<in> V. above m a v"
  shows "m1 \<le> m" "m \<le> m2" "\<forall>d \<in> D. above m a d" "\<forall>u \<in> U. below m a u"
proof -
  have P: "at_line m1 a1 (fst P) \<le> at_line m a (fst P)" "at_line m a (fst P) \<le> at_line m2 a2 (fst P)"
    using assms(7,8) K(3) by (auto simp: below_def on_line_def not_le)
  have KD: "K \<in> D" and xK: "fst K < fst P" and xR: "fst R < fst P" using K(1) R(1) V(1) x by auto
  have K1: "at_line m a (fst K) \<le> at_line m1 a1 (fst K)" "at_line m a (fst K) \<le> at_line m2 a2 (fst K)"
    using ts KD K(2) unfolding two_sided_def by (blast intro: on_above_le)+
  show m1: "m1 \<le> m" by (rule line_slope [OF K1(1) P(1) xK])
  have "at_line m2 a2 (fst R) \<le> at_line m a (fst R)" using R K(4) by (blast intro: on_above_le)
  then show m2: "m \<le> m2" using line_slope [OF _ P(2) xR] by blast
  show "\<forall>d \<in> D. above m a d" using V(2) m1 m2 K(4) by (auto simp: stands_for_def)
  show "\<forall>u \<in> U. below m a u"
  proof
    fix u assume u: "u \<in> U"
    then have b: "at_line m1 a1 (fst u) \<le> of_int (snd u)" "at_line m2 a2 (fst u) \<le> of_int (snd u)"
      using ts by (auto simp: two_sided_def below_def)
    show "below m a u"
    proof (cases "fst u \<le> fst K")
      case True
      have "at_line m a (fst u) \<le> at_line m1 a1 (fst u)" by (rule line_left [OF K1(1) m1 True])
      with b show ?thesis by (simp add: below_def)
    next
      case False
      have "at_line m a (fst u) \<le> at_line m2 a2 (fst u)"
        by (rule line_right [OF K1(2) m2]) (use False in simp)
      with b show ?thesis by (simp add: below_def)
    qed
  qed
qed

text \<open>Points of the hull left of the touching point are no longer needed.\<close>

lemma drop_left:
  assumes sf: "stands_for (set V) D m1 m2" and ch: "chain V" and k: "k < length V"
    and l: "on_line m a (V ! k)" "\<forall>v \<in> set V. above m a v" and m: "m \<le> m2"
  shows "stands_for (set (drop k V)) D m1 m"
  unfolding stands_for_def
proof (intro allI impI)
  fix n b assume n: "m1 \<le> n \<and> n \<le> m \<and> (\<forall>v \<in> set (drop k V). above n b v)"
  have "drop k V ! 0 \<in> set (drop k V)" using k by (intro nth_mem) simp
  then have Vk: "above n b (V ! k)" using n k by auto
  have inc: "sorted_wrt (<) (map fst V)" by (rule chain_increasing [OF ch])
  have left: "above n b v" if v: "v \<in> set (take k V)" for v
  proof -
    obtain i where i: "i < k" "v = V ! i" using v by (auto simp: in_set_conv_nth)
    then have x: "fst v \<le> fst (V ! k)" using sorted_wrt_nth_less [OF inc, of i k] k by simp
    have "at_line m a (fst v) \<le> at_line n b (fst v)"
      by (rule line_left [OF on_above_le [OF l(1) Vk] _ x]) (use n in blast)
    then show ?thesis using l(2) v by (blast intro: above_le dest: in_set_takeD)
  qed
  have "set V = set (take k V) \<union> set (drop k V)" by (metis append_take_drop_id set_append)
  then have "\<forall>v \<in> set V. above n b v" using left n by blast
  moreover have "n \<le> m2" using n m by (blast intro: order_trans)
  ultimately show "\<forall>d \<in> D. above n b d" using sf n unfolding stands_for_def by blast
qed

text \<open>A new lower end that the line of least slope already covers.\<close>

lemma extend_covered:
  assumes "stands_for V D m1 m2" "r \<in> D" "on_line m1 a1 r" "fst r < fst P" "above m1 a1 P"
  shows "stands_for V (insert P D) m1 m2"
  unfolding stands_for_def
proof (intro allI impI)
  fix m a assume m: "m1 \<le> m \<and> m \<le> m2 \<and> (\<forall>v \<in> V. above m a v)"
  then have D: "\<forall>d \<in> D. above m a d" using assms(1) unfolding stands_for_def by blast
  then have le: "at_line m1 a1 (fst r) \<le> at_line m a (fst r)" using assms(2,3) by (blast intro: on_above_le)
  have "at_line m1 a1 (fst P) \<le> at_line m a (fst P)"
    by (rule line_right [OF le conjunct1 [OF m] less_imp_le [OF assms(4)]])
  then have "above m a P" by (rule above_le [OF assms(5)])
  with D show "\<forall>d \<in> insert P D. above m a d" by simp
qed

text \<open>A new lower end that is pushed onto the cut hull.\<close>

lemma extend_pushed:
  assumes "stands_for (set V) D m1 m2"
    and "\<forall>m a. (\<forall>v \<in> set W. above m a v) \<and> above m a P \<longrightarrow> (\<forall>v \<in> set V. above m a v)"
  shows "stands_for (set (W @ [P])) (insert P D) m1 m2"
  unfolding stands_for_def
proof (intro allI impI)
  fix m a assume m: "m1 \<le> m \<and> m \<le> m2 \<and> (\<forall>v \<in> set (W @ [P]). above m a v)"
  then have W: "\<forall>v \<in> set W. above m a v" "above m a P" by auto
  with assms(2) have "\<forall>v \<in> set V. above m a v" by blast
  with assms(1) m W(2) show "\<forall>d \<in> insert P D. above m a d" unfolding stands_for_def by blast
qed

text \<open>Every line through all bars has a slope between the extremes and leaves between them.\<close>

lemma between_extremes:
  assumes r: "r0 \<in> U" "r2 \<in> D" "on_line m1 a1 r0" "on_line m1 a1 r2" "fst r0 < fst r2"
    and l: "\<forall>d \<in> D. above m a d" "\<forall>u \<in> U. below m a u"
  shows "m1 \<le> m" "fst r2 \<le> z \<Longrightarrow> at_line m1 a1 z \<le> at_line m a z"
proof -
  have a: "at_line m a (fst r0) \<le> at_line m1 a1 (fst r0)" "at_line m1 a1 (fst r2) \<le> at_line m a (fst r2)"
    using r l below_on_le on_above_le by blast+
  show m: "m1 \<le> m" by (rule line_slope [OF a r(5)])
  show "at_line m1 a1 z \<le> at_line m a z" if "fst r2 \<le> z" by (rule line_right [OF a(2) m that])
qed

section \<open>One new point\<close>

text \<open>The hull \<open>V\<close> of the lower ends may already have been cut to \<open>S\<close> and extended by points
  \<open>ext\<close> straight below the new end \<open>P\<close>; the scan of \<open>S\<close> finds the touching line.\<close>

lemma scan_step:
  assumes ts: "two_sided D U m1 a1 m2 a2" and V: "set V \<subseteq> D" "stands_for (set V) D m1 m2"
    and S: "S \<noteq> []" "hd S = r" "set S \<subseteq> set V" "chain (S @ ext)" and r: "on_line m2 a2 r"
    and cut: "\<forall>m a. (\<forall>v \<in> set S. above m a v) \<and> above m a P \<longrightarrow> (\<forall>v \<in> set V. above m a v)"
    and ext: "\<forall>e \<in> set ext. fst e = fst P \<and> snd e \<le> snd P" and sf: "stands_for (set (S @ ext)) Dn m1 m2"
    and x: "\<forall>q \<in> D \<union> U. fst q < fst P"
    and P: "below m1 a1 P" "\<not> below m2 a2 P"
  defines "j \<equiv> iscan (tl S) P (hd S) 0"
  defines "m \<equiv> slope_of (S ! j) P" and "a \<equiv> icept_of (S ! j) P"
  shows "j < length S" "S ! j \<in> D" "fst (S ! j) < fst P" "on_line m a (S ! j)" "on_line m a P"
    "m1 \<le> m" "m \<le> m2" "\<forall>d \<in> D. above m a d" "\<forall>u \<in> U. below m a u"
    "stands_for (set (drop j (S @ ext))) Dn m1 m"
proof -
  have S': "S = hd S # tl S" using S(1) by simp
  have xS: "\<forall>q \<in> set S. fst q < fst P" using S(3) V(1) x by blast
  have scan: "j < length S" "\<forall>q \<in> set S. slope_of (S ! j) P \<le> slope_of q P"
  proof -
    obtain i where i: "i \<le> length (tl S)" "j = i" "\<forall>q \<in> set S. slope_of (S ! i) P \<le> slope_of q P"
      using iscan_min [of "hd S" "tl S" P 0] chain_prefix [OF S(4)] xS unfolding S' [symmetric] j_def by auto
    then show "j < length S" "\<forall>q \<in> set S. slope_of (S ! j) P \<le> slope_of q P"
      using S(1) by (simp_all add: less_Suc_eq_le [symmetric])
  qed
  then have K: "S ! j \<in> set S" by simp
  show "j < length S" by (rule scan)
  show KD: "S ! j \<in> D" using K S(3) V(1) by blast
  show xK: "fst (S ! j) < fst P" using K xS by blast
  show on: "on_line m a (S ! j)" "on_line m a P"
    unfolding m_def a_def by (rule line_through [OF xK])+
  have "above m a q" if "q \<in> set S" for q
    using slope_above [OF xK, of q] that scan(2) xS unfolding m_def a_def by blast
  then have aS: "\<forall>v \<in> set S. above m a v" by blast
  then have aV: "\<forall>v \<in> set V. above m a v" using cut on_line_above(1) [OF on(2)] by blast
  have "hd S \<in> set S" using S(1) by simp
  then have rV: "r \<in> set V" using S(2,3) by blast
  have P1: "above (- m1) (- a1) (mirror P)" using P(1) by simp
  have KV: "S ! j \<in> set V" using K S(3) by blast
  note t = tighten [OF ts V rV r x P1 P(2) KV on aV]
  show "m1 \<le> m" "m \<le> m2" "\<forall>d \<in> D. above m a d" "\<forall>u \<in> U. below m a u" by (rule t)+
  have "above m a e" if "e \<in> set ext" for e
  proof -
    have "snd e \<le> snd P" "fst e = fst P" using ext that by auto
    then show ?thesis using on(2) by (simp add: above_def on_line_def)
  qed
  then have aT: "\<forall>v \<in> set (S @ ext). above m a v" using aS by auto
  show "stands_for (set (drop j (S @ ext))) Dn m1 m"
    by (rule drop_left [OF sf S(4) _ _ aT t(2)]) (use scan(1) on(1) in \<open>simp_all add: nth_append\<close>)
qed

text \<open>Pushing a lower end onto its hull.\<close>

lemma push_step:
  assumes V: "V \<noteq> []" "chain V" "stands_for (set V) D m1 m2" and x: "\<forall>q \<in> set V. fst q < fst P"
  defines "W \<equiv> take (itrim V P (length V)) V"
  shows "W \<noteq> []" "hd W = hd V" "set W \<subseteq> set V" "chain (W @ [P])" "stands_for (set (W @ [P])) (insert P D) m1 m2"
    "\<forall>m a. (\<forall>v \<in> set W. above m a v) \<and> above m a P \<longrightarrow> (\<forall>v \<in> set V. above m a v)"
proof -
  have len: "1 \<le> length V" using V(1) by (cases V) auto
  have e: "take (length V) V = V" by simp
  note it = itrim_correct [of "length V" V P, unfolded e, OF V(2) len order_refl x, folded W_def]
  have t: "1 \<le> itrim V P (length V)" "chain (W @ [P])"
    "\<forall>m a. (\<forall>v \<in> set W. above m a v) \<and> above m a P \<longrightarrow> (\<forall>v \<in> set V. above m a v)"
    using it by blast+
  show "W \<noteq> []" using t(1) V(1) by (simp add: W_def)
  show "hd W = hd V" using t(1) by (simp add: W_def)
  show "set W \<subseteq> set V" by (simp add: W_def set_take_subset)
  show "chain (W @ [P])" by (rule t)
  show "stands_for (set (W @ [P])) (insert P D) m1 m2" by (rule extend_pushed [OF V(3) t(3)])
  show "\<forall>m a. (\<forall>v \<in> set W. above m a v) \<and> above m a P \<longrightarrow> (\<forall>v \<in> set V. above m a v)" by (rule t)
qed

section \<open>The state of the regression\<close>

text \<open>The lines of least slope through \<open>r0, r2\<close> and of greatest slope through \<open>r1, r3\<close>, the hull
  \<open>V\<close> of the lower and the mirrored hull \<open>Vu\<close> of the upper ends.\<close>

definition hull_side :: "pt list \<Rightarrow> pt \<Rightarrow> pt set \<Rightarrow> rat \<Rightarrow> rat \<Rightarrow> bool" where
  "hull_side V r D m1 m2 \<longleftrightarrow> V \<noteq> [] \<and> hd V = r \<and> set V \<subseteq> D \<and> chain V \<and> stands_for (set V) D m1 m2"

definition line_on :: "rat \<Rightarrow> rat \<Rightarrow> pt \<Rightarrow> pt \<Rightarrow> bool" where
  "line_on m a p q \<longleftrightarrow> on_line m a p \<and> on_line m a q \<and> fst p < fst q"

definition frame ::
    "pt set \<Rightarrow> pt set \<Rightarrow> rat \<Rightarrow> rat \<Rightarrow> rat \<Rightarrow> rat \<Rightarrow> pt \<Rightarrow> pt \<Rightarrow> pt \<Rightarrow> pt \<Rightarrow> pt list \<Rightarrow> pt list \<Rightarrow> bool" where
  "frame D U m1 a1 m2 a2 r0 r1 r2 r3 V Vu \<longleftrightarrow> two_sided D U m1 a1 m2 a2
     \<and> r0 \<in> U \<and> r1 \<in> D \<and> r2 \<in> D \<and> r3 \<in> U \<and> line_on m1 a1 r0 r2 \<and> line_on m2 a2 r1 r3
     \<and> hull_side V r1 D m1 m2 \<and> hull_side Vu (mirror r0) (mirror ` U) (- m2) (- m1)"

text \<open>Tightening the greatest slope (if the new bar forces it) and updating the upper hull.\<close>

definition after_max ::
    "pt set \<Rightarrow> pt set \<Rightarrow> rat \<Rightarrow> rat \<Rightarrow> pt \<Rightarrow> pt list \<Rightarrow> pt \<Rightarrow> pt \<Rightarrow> rat \<Rightarrow> rat \<Rightarrow> pt \<Rightarrow> pt \<Rightarrow> pt list \<Rightarrow> pt list \<Rightarrow> pt list \<Rightarrow> bool"
  where
  "after_max D U m1 m2 r0 Vu P1 P2 m a r1 r3 V Q ext \<longleftrightarrow>
     m1 \<le> m \<and> m \<le> m2 \<and> (\<forall>d \<in> D. above m a d) \<and> (\<forall>u \<in> U. below m a u) \<and> below m a P1 \<and> above m a P2
     \<and> r1 \<in> D \<and> r3 \<in> insert P1 U \<and> line_on m a r1 r3 \<and> hull_side V r1 D m1 m
     \<and> Q \<noteq> [] \<and> hd Q = mirror r0 \<and> set Q \<subseteq> set Vu \<and> chain (Q @ ext) \<and> ext \<in> {[], [mirror P1]}
     \<and> stands_for (set (Q @ ext)) (insert (mirror P1) (mirror ` U)) (- m2) (- m1)
     \<and> (\<forall>n b. (\<forall>v \<in> set Q. above n b v) \<and> above n b (mirror P2) \<longrightarrow> (\<forall>v \<in> set Vu. above n b v))"

lemma above_lower: "above m a P \<Longrightarrow> fst Q = fst P \<Longrightarrow> snd Q \<le> snd P \<Longrightarrow> above m a Q"
  by (auto simp: above_def intro: order_trans [rotated])

lemma below_higher: "below m a P \<Longrightarrow> fst Q = fst P \<Longrightarrow> snd P \<le> snd Q \<Longrightarrow> below m a Q"
  by (auto simp: below_def intro: order_trans)

lemma hd_drop_nth: "j < length V \<Longrightarrow> hd (drop j V) = V ! j"
  by (simp add: hd_drop_conv_nth)

lemma max_taken:
  assumes fr: "frame D U m1 a1 m2 a2 r0 r1 r2 r3 V Vu" and x: "\<forall>q \<in> D \<union> U. fst q < fst P1"
    and P: "fst P2 = fst P1" "snd P2 < snd P1" "below m1 a1 P1" "\<not> below m2 a2 P1"
  defines "j \<equiv> iscan (tl V) P1 (hd V) 0"
  shows "j < length V" "after_max D U m1 m2 r0 Vu P1 P2 (slope_of (V ! j) P1) (icept_of (V ! j) P1) (V ! j) P1
    (drop j V) (take (itrim Vu (mirror P1) (length Vu)) Vu) [mirror P1]"
proof -
  have ts: "two_sided D U m1 a1 m2 a2" and r1: "on_line m2 a2 r1"
    and V: "V \<noteq> []" "hd V = r1" "set V \<subseteq> D" "chain V" "stands_for (set V) D m1 m2"
    and Vu: "Vu \<noteq> []" "hd Vu = mirror r0" "set Vu \<subseteq> mirror ` U" "chain Vu" "stands_for (set Vu) (mirror ` U) (- m2) (- m1)"
    using fr by (auto simp: frame_def hull_side_def line_on_def)
  have ch: "chain (V @ [])" and sf: "stands_for (set (V @ [])) D m1 m2" using V by simp_all
  note sc = scan_step [OF ts V(3,5,1,2) order_refl ch r1 _ _ sf x P(3,4), folded j_def]
  have sc: "j < length V" "V ! j \<in> D" "fst (V ! j) < fst P1" "on_line (slope_of (V ! j) P1) (icept_of (V ! j) P1) (V ! j)"
    "on_line (slope_of (V ! j) P1) (icept_of (V ! j) P1) P1" "m1 \<le> slope_of (V ! j) P1" "slope_of (V ! j) P1 \<le> m2"
    "\<forall>d \<in> D. above (slope_of (V ! j) P1) (icept_of (V ! j) P1) d"
    "\<forall>u \<in> U. below (slope_of (V ! j) P1) (icept_of (V ! j) P1) u"
    "stands_for (set (drop j V)) D m1 (slope_of (V ! j) P1)"
    using sc by simp_all
  show "j < length V" by (rule sc)
  have "\<forall>q \<in> set Vu. fst q < fst (mirror P1)"
    by (rule mirror_image_less [OF Vu(3)]) (use x in simp)
  note ps = push_step [OF Vu(1,4,5) this]
  let ?W = "take (itrim Vu (mirror P1) (length Vu)) Vu"
  have hs: "hull_side (drop j V) (V ! j) D m1 (slope_of (V ! j) P1)"
    using sc(1,10) V(3,4) by (simp add: hull_side_def hd_drop_nth chain_drop) (blast dest: in_set_dropD)
  have up: "above n b (mirror P1)" if "above n b (mirror P2)" for n b
    by (rule above_lower [OF that]) (use P(1,2) in simp_all)
  have cut: "\<forall>n b. (\<forall>v \<in> set ?W. above n b v) \<and> above n b (mirror P2) \<longrightarrow> (\<forall>v \<in> set Vu. above n b v)"
    using ps(6) up by blast
  have aP2: "above (slope_of (V ! j) P1) (icept_of (V ! j) P1) P2"
    by (rule above_lower [OF on_line_above(1) [OF sc(5)]]) (use P(1,2) in simp_all)
  have lo: "line_on (slope_of (V ! j) P1) (icept_of (V ! j) P1) (V ! j) P1"
    unfolding line_on_def by (intro conjI; rule sc)
  have hd: "hd ?W = mirror r0" using ps(2) Vu(2) by simp
  have e: "[mirror P1] \<in> {[], [mirror P1]}" by simp
  show "after_max D U m1 m2 r0 Vu P1 P2 (slope_of (V ! j) P1) (icept_of (V ! j) P1) (V ! j) P1
      (drop j V) ?W [mirror P1]"
    unfolding after_max_def
    by (intro conjI; fact sc ps hs cut aP2 lo hd e insertI1 on_line_above(2) [OF sc(5)])
qed

lemma max_not_taken:
  assumes fr: "frame D U m1 a1 m2 a2 r0 r1 r2 r3 V Vu" and x: "\<forall>q \<in> D \<union> U. fst q < fst P1"
    and P: "below m2 a2 P1" "above m2 a2 P2"
  shows "after_max D U m1 m2 r0 Vu P1 P2 m2 a2 r1 r3 V Vu []"
proof -
  have Vu: "stands_for (set Vu) (mirror ` U) (- m2) (- m1)" and r3: "r3 \<in> U" "on_line m2 a2 r3"
    using fr by (auto simp: frame_def hull_side_def line_on_def)
  have "fst r3 < fst P1" using x r3 by blast
  then have "stands_for (set Vu) (insert (mirror P1) (mirror ` U)) (- m2) (- m1)"
    using r3 P by (intro extend_covered [OF Vu, where r = "mirror r3" and ?a1.0 = "- a2"]) auto
  then show ?thesis
    using fr P by (auto simp: after_max_def frame_def hull_side_def two_sided_def)
qed

text \<open>The same for the least slope, on the mirrored points, after the greatest one.\<close>

lemma extremes_ordered:
  assumes "r1 \<in> D" "on_line m2 a2 r1" "\<forall>d \<in> D. above m1 a1 d" "on_line m1 a1 P2" "above m2 a2 P2" "fst r1 < fst P2"
  shows "m1 \<le> m2"
  by (rule line_slope [OF on_above_le [OF assms(2)] on_above_le [OF assms(4,5)] assms(6)]) (use assms(1,3) in blast)

lemma min_taken:
  assumes fr: "frame D U m1 a1 m2 a2 r0 r1 r2 r3 V0 Vu" and x: "\<forall>q \<in> D \<union> U. fst q < fst P1"
    and P: "fst P2 = fst P1" "snd P2 < snd P1" "above m2 a2 P2" "\<not> above m1 a1 P2"
    and mx: "after_max D U m1 m2 r0 Vu P1 P2 m a s1 s3 V Q ext"
  defines "j \<equiv> iscan (tl Q) (mirror P2) (hd Q) 0"
  defines "r \<equiv> mirror (Q ! j)"
  shows "j < length Q" "frame (insert P2 D) (insert P1 U) (slope_of r P2) (icept_of r P2) m a r s1 P2 s3
    (take (itrim V P2 (length V)) V @ [P2]) (drop j (Q @ ext))"
proof -
  have ts: "two_sided D U m1 a1 m2 a2" and r0: "on_line m1 a1 r0"
    and Vu: "set Vu \<subseteq> mirror ` U" "stands_for (set Vu) (mirror ` U) (- m2) (- m1)"
    using fr by (auto simp: frame_def hull_side_def line_on_def)
  have m: "m1 \<le> m" "m \<le> m2" "\<forall>d \<in> D. above m a d" "\<forall>u \<in> U. below m a u" "below m a P1" "above m a P2"
    and s: "s1 \<in> D" "s3 \<in> insert P1 U" "line_on m a s1 s3"
    and V: "V \<noteq> []" "hd V = s1" "set V \<subseteq> D" "chain V" "stands_for (set V) D m1 m"
    and Q: "Q \<noteq> []" "hd Q = mirror r0" "set Q \<subseteq> set Vu" "chain (Q @ ext)" "ext \<in> {[], [mirror P1]}"
      "stands_for (set (Q @ ext)) (insert (mirror P1) (mirror ` U)) (- m2) (- m1)"
      "\<forall>n b. (\<forall>v \<in> set Q. above n b v) \<and> above n b (mirror P2) \<longrightarrow> (\<forall>v \<in> set Vu. above n b v)"
    using mx unfolding after_max_def hull_side_def by blast+
  have x': "\<forall>q \<in> mirror ` U \<union> mirror ` D. fst q < fst (mirror P2)" using x P(1) by (simp add: ball_Un)
  have ext: "\<forall>e \<in> set ext. fst e = fst (mirror P2) \<and> snd e \<le> snd (mirror P2)" using Q(5) P(1,2) by auto
  have on0: "on_line (- m1) (- a1) (mirror r0)" using r0 by simp
  have b: "below (- m2) (- a2) (mirror P2)" "\<not> below (- m1) (- a1) (mirror P2)" using P(3,4) by simp_all
  let ?m = "slope_of r P2" and ?a = "icept_of r P2"
  have neg: "slope_of (Q ! j) (mirror P2) = - ?m" "icept_of (Q ! j) (mirror P2) = - ?a"
    using slope_of_mirror [of r P2] icept_of_mirror [of r P2] by (simp_all add: r_def)
  note sc = scan_step [OF two_sided_mirror [OF ts] Vu Q(1,2,3,4) on0 Q(7) ext Q(6) x' b, folded j_def, unfolded neg]
  show "j < length Q" by (rule sc)
  have r: "r \<in> U" "fst r < fst P2" using sc(2,3) by (auto simp: r_def)
  have on: "on_line ?m ?a r" "on_line ?m ?a P2"
    using sc(4,5) mirror_line(3) [of ?m ?a r] mirror_line(3) [of ?m ?a P2] by (simp_all add: r_def)
  have mm: "m1 \<le> ?m" "?m \<le> m2" using sc(6,7) by simp_all
  have fD: "\<forall>d \<in> D. above ?m ?a d" and fU: "\<forall>u \<in> U. below ?m ?a u"
    using sc(8,9) by auto
  have le: "?m \<le> m"
    by (rule extremes_ordered [OF s(1) _ fD on(2) m(6)]) (use s x P(1) in \<open>auto simp: line_on_def\<close>)
  have bP1: "below ?m ?a P1" by (rule below_higher [OF on_line_above(2) [OF on(2)]]) (use P(1,2) in simp_all)
  have ts': "two_sided (insert P2 D) (insert P1 U) ?m ?a m a"
    unfolding two_sided_def using le fD fU m on_line_above(1) [OF on(2)] bP1 by blast
  have xV: "\<forall>q \<in> set V. fst q < fst P2" using V(3) x P(1) by auto
  note ps = push_step [OF V(1,4,5) xV]
  have hV: "hull_side (take (itrim V P2 (length V)) V @ [P2]) s1 (insert P2 D) ?m m"
    unfolding hull_side_def using ps(1-4) V(2,3) stands_for_range [OF ps(5) mm(1) order_refl]
    by (simp add: hd_append) blast
  have "set (drop j (Q @ ext)) \<subseteq> insert (mirror P1) (mirror ` U)"
    using Q(3,5) Vu(1) by (auto dest!: in_set_dropD)
  then have hQ: "hull_side (drop j (Q @ ext)) (mirror r) (mirror ` insert P1 U) (- m) (- ?m)"
    unfolding hull_side_def using sc(1) chain_drop [OF Q(4), of j] stands_for_range [OF sc(10), of "- m" "- ?m"] m(2)
    by (simp add: hd_drop_nth nth_append r_def)
  show "frame (insert P2 D) (insert P1 U) ?m ?a m a r s1 P2 s3
      (take (itrim V P2 (length V)) V @ [P2]) (drop j (Q @ ext))"
    unfolding frame_def using ts' r on s hV hQ by (simp add: line_on_def)
qed

lemma min_not_taken:
  assumes fr: "frame D U m1 a1 m2 a2 r0 r1 r2 r3 V0 Vu" and x: "\<forall>q \<in> D \<union> U. fst q < fst P1"
    and P: "fst P2 = fst P1" "below m1 a1 P1" "above m1 a1 P2"
    and mx: "after_max D U m1 m2 r0 Vu P1 P2 m a s1 s3 V Q ext"
  shows "frame (insert P2 D) (insert P1 U) m1 a1 m a r0 s1 r2 s3 V (Q @ ext)"
proof -
  have ts: "two_sided D U m1 a1 m2 a2" and r: "r0 \<in> U" "r2 \<in> D" "line_on m1 a1 r0 r2"
    and Vu: "set Vu \<subseteq> mirror ` U"
    using fr by (auto simp: frame_def hull_side_def)
  have m: "m1 \<le> m" "m \<le> m2" "\<forall>d \<in> D. above m a d" "\<forall>u \<in> U. below m a u" "below m a P1" "above m a P2"
    and s: "s1 \<in> D" "s3 \<in> insert P1 U" "line_on m a s1 s3" "hull_side V s1 D m1 m"
    and Q: "Q \<noteq> []" "hd Q = mirror r0" "set Q \<subseteq> set Vu" "chain (Q @ ext)" "ext \<in> {[], [mirror P1]}"
      "stands_for (set (Q @ ext)) (insert (mirror P1) (mirror ` U)) (- m2) (- m1)"
    using mx unfolding after_max_def by blast+
  have r2: "on_line m1 a1 r2" "fst r2 < fst P2" using r x P(1) by (auto simp: line_on_def)
  have hV: "hull_side V s1 (insert P2 D) m1 m"
    using s(4) extend_covered [OF _ r(2) r2 P(3)] by (auto simp: hull_side_def)
  have hQ: "hull_side (Q @ ext) (mirror r0) (mirror ` insert P1 U) (- m) (- m1)"
    unfolding hull_side_def using Q Vu stands_for_range [OF Q(6), of "- m" "- m1"] m(2) by auto
  have "two_sided (insert P2 D) (insert P1 U) m1 a1 m a"
    unfolding two_sided_def using ts m P(2,3) by (auto simp: two_sided_def)
  then show ?thesis unfolding frame_def using r s hV hQ by blast
qed

end
