(* ===== verification/Plr_Correct.thy ===== *)
theory Plr_Correct
  imports Plr Plr_Geometry
begin

text \<open>
  Correctness of the piecewise linear regression: \<open>add_point\<close> never leaves its vectors, throws
  exactly on a key that is not larger than the last one, and accepts a point exactly if one
  line passes through the error bars of all points since the last reset; the segment it
  returns is such a line. The geometry is in \<^theory_text>\<open>Plr_Geometry\<close>.
\<close>

section \<open>Points of the code\<close>

definition ipt :: "point \<Rightarrow> pt" where
  "ipt q = (uint (px q), uint (py q))"

definition mpt :: "point \<Rightarrow> pt" where
  "mpt q = mirror (ipt q)"

lemma ipt_simps [simp]: "fst (ipt q) = uint (px q)" "snd (ipt q) = uint (py q)"
  "fst (mpt q) = uint (px q)" "snd (mpt q) = - uint (py q)" "mirror (ipt q) = mpt q" "mirror (mpt q) = ipt q"
  by (simp_all add: ipt_def mpt_def)

lemma point_minus_simps [simp]:
  "dx (point_minus q p) = uint (px q) - uint (px p)" "dy (point_minus q p) = uint (py q) - uint (py p)"
  by (simp_all add: point_minus_def)

lemma small_ipt: "small_point q \<longleftrightarrow> snd (ipt q) < 2 ^ 62"
  by (simp add: small_point_def)

lemma cross_ipt:
  "small_point a \<Longrightarrow> small_point b \<Longrightarrow> small_point c \<Longrightarrow> cross a b c = Inr (icross (ipt a) (ipt b) (ipt c))"
  by (simp add: cross_eq icross_def)

lemma cross_mpt:
  "small_point a \<Longrightarrow> small_point b \<Longrightarrow> small_point c \<Longrightarrow> cross a b c = Inr (- icross (mpt a) (mpt b) (mpt c))"
  using icross_mirror [of "ipt a" "ipt b" "ipt c"] by (simp add: cross_ipt)

text \<open>The comparison operators, between differences with positive and with negative \<open>dx\<close>.\<close>

lemma slope_less_iff:
  assumes "small_point r" "small_point q" "small_point a" "small_point b" "px r < px q" "px a < px b"
  shows "slope_less (point_minus q r) (point_minus b a) = Inr (slope_of (ipt r) (ipt q) < slope_of (ipt a) (ipt b))"
  unfolding slope_ops_eq [OF assms(1-4)]
  by (subst slope_of_less) (use assms in \<open>simp_all add: word_less_def mult.commute\<close>)

lemma slope_greater_iff:
  assumes "small_point r" "small_point q" "small_point a" "small_point b" "px r < px q" "px a < px b"
  shows "slope_greater (point_minus q r) (point_minus b a) = Inr (slope_of (ipt a) (ipt b) < slope_of (ipt r) (ipt q))"
  unfolding slope_ops_eq [OF assms(1-4)]
  by (subst slope_of_less) (use assms in \<open>simp_all add: word_less_def mult.commute\<close>)

lemma scan_greater_iff:
  assumes "small_point P" "small_point q" "small_point v" "px q < px P" "px v < px P"
  shows "slope_greater (point_minus q P) (point_minus v P) = Inr (slope_of (ipt v) (ipt P) < slope_of (ipt q) (ipt P))"
  unfolding slope_ops_eq [OF assms(1,2,1,3)]
  by (subst slope_of_less) (use assms in \<open>auto simp: word_less_def algebra_simps\<close>)

lemma scan_less_iff:
  assumes "small_point P" "small_point q" "small_point v" "px q < px P" "px v < px P"
  shows "slope_less (point_minus q P) (point_minus v P) = Inr (slope_of (mpt v) (mpt P) < slope_of (mpt q) (mpt P))"
  unfolding slope_ops_eq [OF assms(1,2,1,3)]
  by (subst slope_of_less) (use assms in \<open>auto simp: word_less_def algebra_simps\<close>)

section \<open>The loops\<close>

lemma iscan_shift: "iscan qs P v i = i + iscan qs P v 0"
proof (induction qs arbitrary: v i)
  case (Cons q qs)
  have "iscan qs P q (Suc i) = Suc i + iscan qs P q 0" "iscan qs P q (Suc 0) = Suc 0 + iscan qs P q 0"
    by (rule Cons.IH)+
  then show ?case by simp
qed simp

lemma iscan_le: "iscan qs P v 0 \<le> length qs"
proof (induction qs arbitrary: v)
  case (Cons q qs)
  then show ?case using iscan_shift [of qs P q "Suc 0"] Cons.IH [of q] by simp
qed simp

lemma min_scan_eq:
  "small_point p1 \<Longrightarrow> \<forall>q \<in> set (v # qs). small_point q \<and> px q < px p1 \<Longrightarrow>
     min_scan qs p1 (point_minus v p1) i (Suc i) = Inr (i + iscan (map ipt qs) (ipt p1) (ipt v) 0)"
proof (induction qs arbitrary: v i)
  case (Cons q qs)
  then show ?case
    using scan_greater_iff [of p1 q v] iscan_shift [of "map ipt qs" "ipt p1" "ipt q" "Suc 0"]
    by (simp add: Let_def)
qed simp

lemma max_scan_eq:
  "small_point p2 \<Longrightarrow> \<forall>q \<in> set (v # qs). small_point q \<and> px q < px p2 \<Longrightarrow>
     \<forall>e \<in> set ext. small_point e \<and> px e = px p2 \<and> py p2 < py e \<Longrightarrow>
     max_scan (qs @ ext) p2 (point_minus v p2) i (Suc i) = Inr (i + iscan (map mpt qs) (mpt p2) (mpt v) 0)"
proof (induction qs arbitrary: v i)
  case Nil
  show ?case
  proof (cases ext)
    case (Cons e es)
    have e: "px e = px p2" "uint (py p2) < uint (py e)" "uint (px v) < uint (px p2)"
      "small_point e" "small_point p2" "small_point v"
      using Nil unfolding Cons by (auto simp only: list.set ball_simps word_less_def)
    have "(uint (py e) - uint (py p2)) * (uint (px v) - uint (px p2)) < 0"
      by (rule mult_pos_neg) (use e(2,3) in simp_all)
    then have "slope_less (point_minus e p2) (point_minus v p2) = Inr True"
      by (simp add: slope_ops_eq [OF e(5,4,5,6)] e(1))
    then show ?thesis by (simp add: Cons Let_def)
  qed simp
next
  case (Cons q qs)
  then show ?case
    using scan_less_iff [of p2 q v] iscan_shift [of "map mpt qs" "mpt p2" "mpt q" "Suc 0"]
    by (simp add: Let_def)
qed

lemma lower_end_eq:
  assumes "start < e" "e \<le> length ls" "small_point p" "\<forall>i. start \<le> i \<longrightarrow> i < length ls \<longrightarrow> small_point (ls ! i)"
  shows "lower_end ls start p e = Inr (start + itrim (map ipt (drop start ls)) (ipt p) (e - start))"
  using assms
proof (induction "e - start" arbitrary: e)
  case (Suc n)
  show ?case
  proof (cases "start + 2 \<le> e")
    case True
    then have "e - start \<ge> 2" "start + (e - start - 2) = e - 2" "start + (e - start - 1) = e - 1"
      "e - start - 2 < length ls - start" "e - start - 1 < length ls - start"
      using Suc.prems by auto
    moreover have "small_point (ls ! (e - 2))" "small_point (ls ! (e - 1))" using True Suc.prems by auto
    moreover have "lower_end ls start p (e - 1) = Inr (start + itrim (map ipt (drop start ls)) (ipt p) (e - 1 - start))"
      by (rule Suc.hyps(1)) (use True Suc in auto)
    ultimately show ?thesis
      using True by (subst lower_end.simps, subst itrim.simps) (simp add: cross_ipt [OF _ _ Suc.prems(3)] diff_commute)
  next
    case False
    then have "e = Suc start" using Suc.prems by simp
    then show ?thesis by (subst lower_end.simps, subst itrim.simps) simp
  qed
qed simp

lemma upper_end_eq:
  assumes "start < e" "e \<le> length us" "small_point p" "\<forall>i. start \<le> i \<longrightarrow> i < length us \<longrightarrow> small_point (us ! i)"
  shows "upper_end us start p e = Inr (start + itrim (map mpt (drop start us)) (mpt p) (e - start))"
  using assms
proof (induction "e - start" arbitrary: e)
  case (Suc n)
  show ?case
  proof (cases "start + 2 \<le> e")
    case True
    then have "e - start \<ge> 2" "start + (e - start - 2) = e - 2" "start + (e - start - 1) = e - 1"
      "e - start - 2 < length us - start" "e - start - 1 < length us - start"
      using Suc.prems by auto
    moreover have "small_point (us ! (e - 2))" "small_point (us ! (e - 1))" using True Suc.prems by auto
    moreover have "upper_end us start p (e - 1) = Inr (start + itrim (map mpt (drop start us)) (mpt p) (e - 1 - start))"
      by (rule Suc.hyps(1)) (use True Suc in auto)
    ultimately show ?thesis
      using True by (subst upper_end.simps, subst itrim.simps) (simp add: cross_mpt [OF _ _ Suc.prems(3)] diff_commute)
  next
    case False
    then have "e = Suc start" using Suc.prems by simp
    then show ?thesis by (subst upper_end.simps, subst itrim.simps) simp
  qed
qed simp

section \<open>The two blocks of add_point\<close>

lemma hd_tl_drop: "i < length xs \<Longrightarrow> drop i xs = xs ! i # drop (Suc i) xs"
  by (rule Cons_nth_drop_Suc [symmetric])

lemma small_from: "\<forall>q \<in> set (drop k xs). small_point q \<Longrightarrow> \<forall>i. k \<le> i \<longrightarrow> i < length xs \<longrightarrow> small_point (xs ! i)"
proof (intro allI impI)
  fix i assume h: "\<forall>q \<in> set (drop k xs). small_point q" "k \<le> i" "i < length xs"
  then have "drop k xs ! (i - k) = xs ! i" "i - k < length (drop k xs)" by simp_all
  then show "small_point (xs ! i)" using h(1) nth_mem by metis
qed

lemma tighten_max_ok:
  assumes ls: "lower_start s < length (lower s)" and us: "upper_start s < length (upper s)"
  defines "V \<equiv> map ipt (drop (lower_start s) (lower s))" and "Vu \<equiv> map mpt (drop (upper_start s) (upper s))"
  assumes x: "\<forall>q \<in> set V. fst q < fst (ipt p1)"
    and sm: "small_point p1" "\<forall>q \<in> set (drop (lower_start s) (lower s)). small_point q"
      "\<forall>q \<in> set (drop (upper_start s) (upper s)). small_point q"
  defines "j \<equiv> iscan (tl V) (ipt p1) (hd V) 0"
  defines "n \<equiv> itrim Vu (mpt p1) (length Vu)"
  shows "tighten_max s p1 = Inr (s\<lparr>rectangle := (rectangle s)[1 := lower s ! (lower_start s + j), 3 := p1],
      lower_start := lower_start s + j, upper := take (upper_start s + n) (upper s) @ [p1]\<rparr>)"
proof -
  have V: "V = map ipt (lower s ! lower_start s # drop (Suc (lower_start s)) (lower s))"
    unfolding V_def hd_tl_drop [OF ls] ..
  have "\<forall>q \<in> set (lower s ! lower_start s # drop (Suc (lower_start s)) (lower s)). small_point q \<and> px q < px p1"
    using x sm(2) unfolding V hd_tl_drop [OF ls] by (auto simp: word_less_def)
  then have "min_scan (drop (Suc (lower_start s)) (lower s)) p1 (point_minus (lower s ! lower_start s) p1)
      (lower_start s) (Suc (lower_start s)) = Inr (lower_start s + j)"
    by (subst min_scan_eq [OF sm(1)]) (simp_all add: j_def V)
  moreover have "upper_end (upper s) (upper_start s) p1 (length (upper s)) = Inr (upper_start s + n)"
    using upper_end_eq [OF us order_refl sm(1) small_from [OF sm(3)]] by (simp add: n_def Vu_def)
  ultimately show ?thesis using ls by (simp add: tighten_max_def Let_def)
qed

lemma tighten_min_ok:
  assumes ls: "lower_start s < length (lower s)" and us: "drop (upper_start s) (upper s) = Q @ ext" "Q \<noteq> []"
  defines "V \<equiv> map ipt (drop (lower_start s) (lower s))" and "S \<equiv> map mpt Q"
  assumes x: "\<forall>q \<in> set S. fst q < fst (mpt p2)" and ext: "\<forall>e \<in> set ext. small_point e \<and> px e = px p2 \<and> py p2 < py e"
    and sm: "small_point p2" "\<forall>q \<in> set Q. small_point q" "\<forall>q \<in> set (drop (lower_start s) (lower s)). small_point q"
  defines "j \<equiv> iscan (tl S) (mpt p2) (hd S) 0"
  defines "n \<equiv> itrim V (ipt p2) (length V)"
  shows "tighten_min s p2 = Inr (s\<lparr>rectangle := (rectangle s)[0 := upper s ! (upper_start s + j), 2 := p2],
      upper_start := upper_start s + j, lower := take (lower_start s + n) (lower s) @ [p2]\<rparr>)"
proof -
  have lt: "upper_start s < length (upper s)" using us by (metis append_is_Nil_conv drop_all not_le)
  have Q: "Q = hd Q # tl Q" using us(2) by simp
  have h: "upper s ! upper_start s = hd Q" "drop (Suc (upper_start s)) (upper s) = tl Q @ ext"
    using hd_tl_drop [OF lt] us Q by (metis append_Cons list.inject)+
  have "\<forall>q \<in> set (hd Q # tl Q). small_point q \<and> px q < px p2"
    using x sm(2) unfolding S_def Q [symmetric] by (auto simp: word_less_def)
  then have "max_scan (drop (Suc (upper_start s)) (upper s)) p2 (point_minus (upper s ! upper_start s) p2)
      (upper_start s) (Suc (upper_start s)) = Inr (upper_start s + j)"
    unfolding h using us(2) ext by (subst max_scan_eq [OF sm(1)]) (simp_all add: j_def S_def map_tl hd_map)
  moreover have "lower_end (lower s) (lower_start s) p2 (length (lower s)) = Inr (lower_start s + n)"
    using lower_end_eq [OF ls order_refl sm(1) small_from [OF sm(3)]] by (simp add: n_def V_def)
  ultimately show ?thesis using lt by (simp add: tighten_min_def Let_def)
qed

section \<open>The invariant\<close>

definition rect_pt :: "plr \<Rightarrow> nat \<Rightarrow> pt" where
  "rect_pt s i = ipt (rectangle s ! i)"

definition low_pts :: "plr \<Rightarrow> pt list" where
  "low_pts s = map ipt (drop (lower_start s) (lower s))"

definition up_pts :: "plr \<Rightarrow> pt list" where
  "up_pts s = map mpt (drop (upper_start s) (upper s))"

definition plr_frame :: "plr \<Rightarrow> pt set \<Rightarrow> pt set \<Rightarrow> bool" where
  "plr_frame s D U \<longleftrightarrow> length (rectangle s) = 4 \<and>
     frame D U (slope_of (rect_pt s 0) (rect_pt s 2)) (icept_of (rect_pt s 0) (rect_pt s 2))
       (slope_of (rect_pt s 1) (rect_pt s 3)) (icept_of (rect_pt s 1) (rect_pt s 3))
       (rect_pt s 0) (rect_pt s 1) (rect_pt s 2) (rect_pt s 3) (low_pts s) (up_pts s)"

lemma drop_take_snoc: "i \<le> length xs \<Longrightarrow> drop i (take (i + n) xs @ [p]) = take n (drop i xs) @ [p]"
  by (simp add: drop_take)

lemma starts_in_range:
  "low_pts s \<noteq> [] \<Longrightarrow> lower_start s < length (lower s)" "up_pts s \<noteq> [] \<Longrightarrow> upper_start s < length (upper s)"
  by (auto simp: low_pts_def up_pts_def)

text \<open>Bars below \<open>2 ^ 62\<close>, and the points of the state that lie on them.\<close>

definition small_bars :: "pt set \<Rightarrow> pt set \<Rightarrow> bool" where
  "small_bars D U \<longleftrightarrow> (\<forall>q \<in> D \<union> U. snd q < 2 ^ 62)"

lemma small_members:
  assumes "small_bars D U"
  shows "ipt q \<in> D \<Longrightarrow> small_point q" "ipt q \<in> U \<Longrightarrow> small_point q" "mpt q \<in> mirror ` U \<Longrightarrow> small_point q"
proof -
  show "ipt q \<in> D \<Longrightarrow> small_point q" and u: "ipt q \<in> U \<Longrightarrow> small_point q" for q
    using assms unfolding small_bars_def small_ipt by blast+
  assume "mpt q \<in> mirror ` U"
  then obtain v where "v \<in> U" "mpt q = mirror v" by blast
  then have "ipt q = v" by (metis ipt_simps(6) mirror_simps(3))
  then show "small_point q" using u \<open>v \<in> U\<close> by blast
qed

lemma small_state:
  assumes "plr_frame s D U" "small_bars D U"
  shows "\<forall>i < 4. small_point (rectangle s ! i)"
    and "\<forall>q \<in> set (drop (lower_start s) (lower s)). small_point q"
    and "\<forall>q \<in> set (drop (upper_start s) (upper s)). small_point q"
proof -
  have r: "ipt (rectangle s ! 0) \<in> U" "ipt (rectangle s ! 1) \<in> D" "ipt (rectangle s ! 2) \<in> D" "ipt (rectangle s ! 3) \<in> U"
    and l: "set (low_pts s) \<subseteq> D" and u: "set (up_pts s) \<subseteq> mirror ` U"
    using assms(1) by (auto simp: plr_frame_def frame_def hull_side_def rect_pt_def)
  note m = small_members [OF assms(2)]
  have "small_point (rectangle s ! 0)" "small_point (rectangle s ! 1)" "small_point (rectangle s ! 2)" "small_point (rectangle s ! 3)"
    using r m by blast+
  moreover have "i < 4 \<Longrightarrow> i = 0 \<or> i = 1 \<or> i = 2 \<or> i = 3" for i :: nat by linarith
  ultimately show "\<forall>i < 4. small_point (rectangle s ! i)" by metis
  show "\<forall>q \<in> set (drop (lower_start s) (lower s)). small_point q" using l m(1) by (auto simp: low_pts_def)
  show "\<forall>q \<in> set (drop (upper_start s) (upper s)). small_point q" using u m(3) by (auto simp: up_pts_def)
qed

text \<open>The first block, whether it changes anything or not.\<close>

lemma max_block:
  assumes fr: "plr_frame s D U" and p: "px p2 = px p1" "py p2 < py p1" "\<forall>q \<in> D \<union> U. fst q < fst (ipt p1)"
    and b: "below (slope_of (rect_pt s 0) (rect_pt s 2)) (icept_of (rect_pt s 0) (rect_pt s 2)) (ipt p1)"
      "above (slope_of (rect_pt s 1) (rect_pt s 3)) (icept_of (rect_pt s 1) (rect_pt s 3)) (ipt p2)"
    and sm: "small_bars D U" "small_point p1" "small_point p2"
  shows "\<exists>s' Q ext. rbind (slope_less (point_minus p1 (rectangle s ! 1)) (point_minus (rectangle s ! 3) (rectangle s ! 1)))
        (\<lambda>l. if l then tighten_max s p1 else Inr s) = Inr s'
    \<and> length (rectangle s') = 4 \<and> rectangle s' ! 0 = rectangle s ! 0 \<and> rectangle s' ! 2 = rectangle s ! 2
    \<and> drop (upper_start s') (upper s') = Q @ ext \<and> ext \<in> {[], [p1]}
    \<and> (epsilon s' = epsilon s \<and> last_x s' = last_x s \<and> first_x s' = first_x s \<and> points_in_hull s' = points_in_hull s)
    \<and> after_max D U (slope_of (rect_pt s 0) (rect_pt s 2)) (slope_of (rect_pt s 1) (rect_pt s 3))
        (rect_pt s 0) (up_pts s) (ipt p1) (ipt p2)
        (slope_of (rect_pt s' 1) (rect_pt s' 3)) (icept_of (rect_pt s' 1) (rect_pt s' 3))
        (rect_pt s' 1) (rect_pt s' 3) (low_pts s') (map mpt Q) (map mpt ext)"
proof -
  let ?m1 = "slope_of (rect_pt s 0) (rect_pt s 2)" and ?a1 = "icept_of (rect_pt s 0) (rect_pt s 2)"
  let ?m2 = "slope_of (rect_pt s 1) (rect_pt s 3)" and ?a2 = "icept_of (rect_pt s 1) (rect_pt s 3)"
  have l4: "length (rectangle s) = 4"
    and f: "frame D U ?m1 ?a1 ?m2 ?a2 (rect_pt s 0) (rect_pt s 1) (rect_pt s 2) (rect_pt s 3) (low_pts s) (up_pts s)"
    using fr by (auto simp: plr_frame_def)
  have r1: "on_line ?m2 ?a2 (rect_pt s 1)" "fst (rect_pt s 1) < fst (ipt p1)" "fst (rect_pt s 1) < fst (rect_pt s 3)"
    using f p(3) by (auto simp: frame_def line_on_def)
  note st = small_state [OF fr sm(1)]
  have cond: "slope_less (point_minus p1 (rectangle s ! 1)) (point_minus (rectangle s ! 3) (rectangle s ! 1))
      = Inr (\<not> below ?m2 ?a2 (ipt p1))"
    using slope_less_iff [of "rectangle s ! 1" p1 "rectangle s ! 1" "rectangle s ! 3"] slope_line(1) [OF r1(1,2)] r1(2,3) st(1) sm(2)
    by (simp add: rect_pt_def word_less_def)
  have P: "fst (ipt p2) = fst (ipt p1)" "snd (ipt p2) < snd (ipt p1)" using p by (simp_all add: word_less_def)
  have ne: "low_pts s \<noteq> []" "up_pts s \<noteq> []" "set (low_pts s) \<subseteq> D" using f by (auto simp: frame_def hull_side_def)
  show ?thesis
  proof (cases "below ?m2 ?a2 (ipt p1)")
    case True
    note mx = max_not_taken [OF f p(3) True b(2)]
    show ?thesis
      by (rule exI [of _ s], rule exI [of _ "drop (upper_start s) (upper s)"], rule exI [of _ "[]"])
        (use True cond l4 mx in \<open>simp add: up_pts_def\<close>)
  next
    case False
    let ?j = "iscan (tl (low_pts s)) (ipt p1) (hd (low_pts s)) 0"
    let ?n = "itrim (up_pts s) (mpt p1) (length (up_pts s))"
    let ?s = "s\<lparr>rectangle := (rectangle s)[1 := lower s ! (lower_start s + ?j), 3 := p1],
      lower_start := lower_start s + ?j, upper := take (upper_start s + ?n) (upper s) @ [p1]\<rparr>"
    note mx = max_taken [OF f p(3) P b(1) False]
    have "\<forall>q \<in> set (low_pts s). fst q < fst (ipt p1)" using ne(3) p(3) by blast
    then have run: "tighten_max s p1 = Inr ?s"
      using tighten_max_ok [OF starts_in_range(1) [OF ne(1)] starts_in_range(2) [OF ne(2)], of p1] sm(2) st(2,3)
      by (simp add: low_pts_def up_pts_def)
    have low: "low_pts ?s = drop ?j (low_pts s)" by (simp add: low_pts_def drop_map add.commute)
    have r: "rect_pt ?s 1 = low_pts s ! ?j" "rect_pt ?s 3 = ipt p1"
      using l4 mx(1) by (simp_all add: rect_pt_def low_pts_def)
    have up: "drop (upper_start s) (take (upper_start s + ?n) (upper s) @ [p1]) = take ?n (drop (upper_start s) (upper s)) @ [p1]"
      using starts_in_range(2) [OF ne(2)] by (intro drop_take_snoc) simp
    have q: "map mpt (take ?n (drop (upper_start s) (upper s))) = take ?n (up_pts s)" by (simp add: up_pts_def take_map)
    show ?thesis
    proof (rule exI [of _ ?s], rule exI [of _ "take ?n (drop (upper_start s) (upper s))"], rule exI [of _ "[p1]"], intro conjI)
      show "drop (upper_start ?s) (upper ?s) = take ?n (drop (upper_start s) (upper s)) @ [p1]" using up by simp
      show "after_max D U ?m1 ?m2 (rect_pt s 0) (up_pts s) (ipt p1) (ipt p2)
        (slope_of (rect_pt ?s 1) (rect_pt ?s 3)) (icept_of (rect_pt ?s 1) (rect_pt ?s 3))
        (rect_pt ?s 1) (rect_pt ?s 3) (low_pts ?s) (map mpt (take ?n (drop (upper_start s) (upper s)))) (map mpt [p1])"
        unfolding r low q using mx(2) by simp
    qed (use False cond run l4 in simp_all)
  qed
qed

lemma min_block:
  assumes fr: "plr_frame s D U" and p: "px p2 = px p1" "py p2 < py p1" "\<forall>q \<in> D \<union> U. fst q < fst (ipt p1)"
    and b: "below (slope_of (rect_pt s 0) (rect_pt s 2)) (icept_of (rect_pt s 0) (rect_pt s 2)) (ipt p1)"
      "above (slope_of (rect_pt s 1) (rect_pt s 3)) (icept_of (rect_pt s 1) (rect_pt s 3)) (ipt p2)"
    and s': "length (rectangle s') = 4" "rectangle s' ! 0 = rectangle s ! 0" "rectangle s' ! 2 = rectangle s ! 2"
      "drop (upper_start s') (upper s') = Q @ ext" "ext \<in> {[], [p1]}"
    and mx: "after_max D U (slope_of (rect_pt s 0) (rect_pt s 2)) (slope_of (rect_pt s 1) (rect_pt s 3))
        (rect_pt s 0) (up_pts s) (ipt p1) (ipt p2)
        (slope_of (rect_pt s' 1) (rect_pt s' 3)) (icept_of (rect_pt s' 1) (rect_pt s' 3))
        (rect_pt s' 1) (rect_pt s' 3) (low_pts s') (map mpt Q) (map mpt ext)"
    and sm: "small_bars D U" "small_point p1" "small_point p2"
  shows "\<exists>s''. rbind (slope_greater (point_minus p2 (rectangle s' ! 0)) (point_minus (rectangle s ! 2) (rectangle s ! 0)))
        (\<lambda>g. if g then tighten_min s' p2 else Inr s') = Inr s''
    \<and> plr_frame s'' (insert (ipt p2) D) (insert (ipt p1) U)
    \<and> epsilon s'' = epsilon s' \<and> last_x s'' = last_x s' \<and> first_x s'' = first_x s' \<and> points_in_hull s'' = points_in_hull s'"
proof -
  let ?m1 = "slope_of (rect_pt s 0) (rect_pt s 2)" and ?a1 = "icept_of (rect_pt s 0) (rect_pt s 2)"
  let ?m2 = "slope_of (rect_pt s 1) (rect_pt s 3)" and ?a2 = "icept_of (rect_pt s 1) (rect_pt s 3)"
  let ?m = "slope_of (rect_pt s' 1) (rect_pt s' 3)" and ?a = "icept_of (rect_pt s' 1) (rect_pt s' 3)"
  have f: "frame D U ?m1 ?a1 ?m2 ?a2 (rect_pt s 0) (rect_pt s 1) (rect_pt s 2) (rect_pt s 3) (low_pts s) (up_pts s)"
    using fr by (auto simp: plr_frame_def)
  have r: "rect_pt s' 0 = rect_pt s 0" "rect_pt s' 2 = rect_pt s 2" using s' by (simp_all add: rect_pt_def)
  have P: "fst (ipt p2) = fst (ipt p1)" "snd (ipt p2) < snd (ipt p1)" using p by (simp_all add: word_less_def)
  have r0: "on_line ?m1 ?a1 (rect_pt s 0)" "fst (rect_pt s 0) < fst (ipt p2)" "fst (rect_pt s 0) < fst (rect_pt s 2)"
    using f p(1,3) by (auto simp: frame_def line_on_def)
  note st = small_state(1) [OF fr sm(1)]
  have cond: "slope_greater (point_minus p2 (rectangle s' ! 0)) (point_minus (rectangle s ! 2) (rectangle s ! 0))
      = Inr (\<not> above ?m1 ?a1 (ipt p2))"
    using slope_greater_iff [of "rectangle s ! 0" p2 "rectangle s ! 0" "rectangle s ! 2"] slope_line(2) [OF r0(1,2)] r0(2,3) st sm(3)
    by (simp add: s'(2) rect_pt_def word_less_def)
  have up: "up_pts s' = map mpt Q @ map mpt ext" using s'(4) by (simp add: up_pts_def)
  show ?thesis
  proof (cases "above ?m1 ?a1 (ipt p2)")
    case True
    have "frame (insert (ipt p2) D) (insert (ipt p1) U) ?m1 ?a1 ?m ?a (rect_pt s 0) (rect_pt s' 1) (rect_pt s 2)
        (rect_pt s' 3) (low_pts s') (map mpt Q @ map mpt ext)"
      by (rule min_not_taken [OF f p(3) P(1) b(1) True mx])
    then have "plr_frame s' (insert (ipt p2) D) (insert (ipt p1) U)"
      unfolding plr_frame_def using s'(1) by (simp add: r up)
    then show ?thesis using cond True by simp
  next
    case False
    let ?j = "iscan (tl (map mpt Q)) (mpt p2) (hd (map mpt Q)) 0"
    let ?n = "itrim (low_pts s') (ipt p2) (length (low_pts s'))"
    let ?s = "s'\<lparr>rectangle := (rectangle s')[0 := upper s' ! (upper_start s' + ?j), 2 := p2],
      upper_start := upper_start s' + ?j, lower := take (lower_start s' + ?n) (lower s') @ [p2]\<rparr>"
    note mn = min_taken [OF f p(3) P b(2) False mx, simplified ipt_simps]
    have Q: "Q \<noteq> []" "low_pts s' \<noteq> []" using mx by (auto simp: after_max_def hull_side_def)
    have lt: "lower_start s' < length (lower s')" by (rule starts_in_range(1) [OF Q(2)])
    have "set (map mpt Q) \<subseteq> mirror ` U" using mx f unfolding after_max_def frame_def hull_side_def by blast
    then have xQ: "\<forall>q \<in> set (map mpt Q). fst q < fst (mpt p2)"
      by (rule mirror_image_less) (use p(1,3) in simp)
    have ext: "\<forall>e \<in> set ext. small_point e \<and> px e = px p2 \<and> py p2 < py e" using s'(5) p(1,2) sm(2) by auto
    have "set (map mpt Q) \<subseteq> mirror ` U" "set (low_pts s') \<subseteq> D"
      using mx f unfolding after_max_def frame_def hull_side_def by blast+
    then have smQ: "\<forall>q \<in> set Q. small_point q" "\<forall>q \<in> set (drop (lower_start s') (lower s')). small_point q"
      using small_members(1,3) [OF sm(1)] by (auto simp: low_pts_def)
    have run: "tighten_min s' p2 = Inr ?s"
      using tighten_min_ok [OF lt s'(4) Q(1) xQ ext sm(3) smQ] by (simp add: low_pts_def)
    have j: "?j < length Q" using mn(1) by simp
    have idx: "upper s' ! (upper_start s' + ?j) = Q ! ?j"
    proof -
      have "upper_start s' \<le> length (upper s')" using starts_in_range(2) [of s'] Q(1) up by auto
      then have "upper s' ! (upper_start s' + ?j) = (Q @ ext) ! ?j" by (simp flip: s'(4))
      then show ?thesis using j by (simp add: nth_append)
    qed
    have rr: "rect_pt ?s 0 = mirror (map mpt Q ! ?j)" "rect_pt ?s 2 = ipt p2" "rect_pt ?s 1 = rect_pt s' 1"
      "rect_pt ?s 3 = rect_pt s' 3"
      using s'(1) j idx by (simp_all add: rect_pt_def)
    have "drop (lower_start s') (take (lower_start s' + ?n) (lower s') @ [p2]) = take ?n (drop (lower_start s') (lower s')) @ [p2]"
      using lt by (intro drop_take_snoc) simp
    then have low: "low_pts ?s = take ?n (low_pts s') @ [ipt p2]" by (simp add: low_pts_def take_map)
    have "drop (?j + upper_start s') (upper s') = drop ?j (Q @ ext)" by (simp flip: s'(4))
    then have ups: "up_pts ?s = drop ?j (map mpt Q @ map mpt ext)"
      by (simp add: up_pts_def add.commute drop_map del: drop_append)
        (simp flip: map_append drop_map del: drop_append)
    have "plr_frame ?s (insert (ipt p2) D) (insert (ipt p1) U)"
      unfolding plr_frame_def rr low ups using mn(2) s'(1) by simp
    then show ?thesis using cond False run by simp
  qed
qed

section \<open>Adding points\<close>

definition bars_low :: "u64 \<Rightarrow> (u64 \<times> u64) list \<Rightarrow> pt set" where
  "bars_low eps ps = (\<lambda>p. (uint (fst p), uint (bar_low eps (snd p)))) ` set ps"

definition bars_high :: "u64 \<Rightarrow> (u64 \<times> u64) list \<Rightarrow> pt set" where
  "bars_high eps ps = (\<lambda>p. (uint (fst p), uint (bar_high eps (snd p)))) ` set ps"

definition fits :: "u64 \<Rightarrow> (u64 \<times> u64) list \<Rightarrow> rat \<Rightarrow> rat \<Rightarrow> bool" where
  "fits eps ps m a \<longleftrightarrow> (\<forall>d \<in> bars_low eps ps. above m a d) \<and> (\<forall>u \<in> bars_high eps ps. below m a u)"

lemma uint_bar_high: "uint (bar_high eps y) = min (2 ^ 64 - 1) (uint y + uint eps)"
proof -
  have m: "uint (- 1 :: u64) = 2 ^ 64 - 1" by (simp add: unsigned_minus_1_eq_mask mask_eq_exp_minus_1)
  have d: "uint (- 1 - eps) = 2 ^ 64 - 1 - uint eps"
    using uint_sub_lem [of eps "- 1"] uint_u64 [of eps] by (simp add: m)
  show ?thesis
    using uint_add_lem [of y eps] uint_u64 [of y] uint_u64 [of eps]
    by (auto simp: bar_high_def word_le_def d m min_def)
qed

lemma uint_bar_low: "uint (bar_low eps y) = max 0 (uint y - uint eps)"
  using uint_sub_lem [of eps y] by (auto simp: bar_low_def word_le_def max_def)

lemma bar_order: "eps \<noteq> 0 \<Longrightarrow> bar_low eps y < bar_high eps y"
proof -
  assume "eps \<noteq> 0"
  then have "0 < uint eps" using uint_0_iff [of eps] uint_u64(1) [of eps] by (simp add: order.strict_iff_order)
  then show ?thesis
    unfolding word_less_def uint_bar_low uint_bar_high using uint_u64 [of y] uint_u64(2) [of eps] by linarith
qed

text \<open>The state after the points \<open>ps\<close> were accepted since the last reset.\<close>

definition plr_ok :: "plr \<Rightarrow> (u64 \<times> u64) list \<Rightarrow> bool" where
  "plr_ok s ps \<longleftrightarrow> length (rectangle s) = 4 \<and> points_in_hull s = length ps
     \<and> (ps \<noteq> [] \<longrightarrow> last_x s = fst (last ps)) \<and> (\<forall>p \<in> set ps. fst p \<le> last_x s)
     \<and> (\<forall>p. ps = [p] \<longrightarrow>
          rectangle s ! 0 = \<lparr>px = fst p, py = bar_high (epsilon s) (snd p)\<rparr>
        \<and> rectangle s ! 1 = \<lparr>px = fst p, py = bar_low (epsilon s) (snd p)\<rparr>
        \<and> upper s = [rectangle s ! 0] \<and> lower s = [rectangle s ! 1] \<and> upper_start s = 0 \<and> lower_start s = 0)
     \<and> (2 \<le> length ps \<longrightarrow> plr_frame s (bars_low (epsilon s) ps) (bars_high (epsilon s) ps))"

lemma bars_snoc:
  "bars_low eps (ps @ [(x, y)]) = insert (ipt \<lparr>px = x, py = bar_low eps y\<rparr>) (bars_low eps ps)"
  "bars_high eps (ps @ [(x, y)]) = insert (ipt \<lparr>px = x, py = bar_high eps y\<rparr>) (bars_high eps ps)"
  by (auto simp: bars_low_def bars_high_def ipt_def)

lemma bars_less:
  assumes "\<forall>p \<in> set ps. fst p < x"
  shows "\<forall>q \<in> bars_low eps ps \<union> bars_high eps ps. fst q < uint x"
  using assms by (auto simp: bars_low_def bars_high_def word_less_def)

text \<open>Two bars always have a line through them.\<close>

lemma first_two:
  assumes "px p1 = px p2" "px q1 = px q2" "px p1 < px q1" "py p2 < py p1" "py q2 < py q1"
    and "length (rectangle s) = 4"
    and "rectangle s ! 0 = p1" "rectangle s ! 1 = p2" "rectangle s ! 2 = q2" "rectangle s ! 3 = q1"
    and "lower s = [p2, q2]" "upper s = [p1, q1]" "lower_start s = 0" "upper_start s = 0"
  shows "plr_frame s {ipt p2, ipt q2} {ipt p1, ipt q1}"
proof -
  let ?m1 = "slope_of (ipt p1) (ipt q2)" and ?a1 = "icept_of (ipt p1) (ipt q2)"
  let ?m2 = "slope_of (ipt p2) (ipt q1)" and ?a2 = "icept_of (ipt p2) (ipt q1)"
  have x: "fst (ipt p1) < fst (ipt q2)" "fst (ipt p2) < fst (ipt q1)" using assms by (simp_all add: word_less_def)
  note l1 = line_through [OF x(1)] and l2 = line_through [OF x(2)]
  have y: "snd (ipt p2) \<le> snd (ipt p1)" "snd (ipt q2) \<le> snd (ipt q1)" using assms by (simp_all add: word_less_def)
  have e: "fst (ipt p2) = fst (ipt p1)" "fst (ipt q2) = fst (ipt q1)" using assms by simp_all
  have ab: "above ?m1 ?a1 (ipt p2)" "above ?m1 ?a1 (ipt q2)" "above ?m2 ?a2 (ipt p2)" "above ?m2 ?a2 (ipt q2)"
    "below ?m1 ?a1 (ipt p1)" "below ?m1 ?a1 (ipt q1)" "below ?m2 ?a2 (ipt p1)" "below ?m2 ?a2 (ipt q1)"
    using above_lower [OF on_line_above(1) [OF l1(1)] e(1) y(1)] above_lower [OF on_line_above(1) [OF l2(2)] e(2) y(2)]
      below_higher [OF on_line_above(2) [OF l1(2)] e(2) [symmetric] y(2)]
      below_higher [OF on_line_above(2) [OF l2(1)] e(1) [symmetric] y(1)]
      on_line_above [OF l1(1)] on_line_above [OF l1(2)] on_line_above [OF l2(1)] on_line_above [OF l2(2)]
    by blast+
  have le: "?m1 \<le> ?m2"
    by (rule line_slope [OF on_above_le [OF l2(1) ab(1)] on_above_le [OF l1(2) ab(4)]]) (use x e in simp)
  have ts: "two_sided {ipt p2, ipt q2} {ipt p1, ipt q1} ?m1 ?a1 ?m2 ?a2"
    unfolding two_sided_def using le ab by simp
  have self: "stands_for V V m m'" for V m m' by (simp add: stands_for_def)
  have "hull_side [ipt p2, ipt q2] (ipt p2) {ipt p2, ipt q2} ?m1 ?m2"
    "hull_side [mpt p1, mpt q1] (mpt p1) {mpt p1, mpt q1} (- ?m2) (- ?m1)"
    unfolding hull_side_def using self assms(1-3) x by simp_all
  then show ?thesis
    unfolding plr_frame_def frame_def rect_pt_def low_pts_def up_pts_def line_on_def
    using assms(6-) ts l1 l2 x by simp
qed

text \<open>What keeps the bars of the points below \<open>2 ^ 62\<close>.\<close>

definition small_y :: "u64 \<Rightarrow> (u64 \<times> u64) list \<Rightarrow> bool" where
  "small_y eps ps \<longleftrightarrow> (\<forall>p \<in> set ps. uint (snd p) + uint eps < 2 ^ 62)"

lemma small_y_bars:
  assumes "uint y + uint eps < 2 ^ 62"
  shows "uint (bar_high eps y) < 2 ^ 62" "uint (bar_low eps y) < 2 ^ 62"
  unfolding uint_bar_high uint_bar_low using assms uint_u64 [of y] uint_u64 [of eps] by linarith+

lemma small_y_set: "small_y eps ps \<Longrightarrow> small_bars (bars_low eps ps) (bars_high eps ps)"
  using small_y_bars by (fastforce simp: small_y_def small_bars_def bars_low_def bars_high_def)

lemma add_first:
  assumes ok: "plr_ok s []"
  shows "\<exists>s'. add_point s x y = Inr (s', True) \<and> plr_ok s' [(x, y)] \<and> epsilon s' = epsilon s"
  using ok by (auto simp: plr_ok_def add_point_def Let_def)

lemma add_second:
  assumes ok: "plr_ok s [(x0, y0)]" and x: "x0 < x" and e: "epsilon s \<noteq> 0"
  shows "\<exists>s'. add_point s x y = Inr (s', True) \<and> plr_ok s' [(x0, y0), (x, y)] \<and> epsilon s' = epsilon s"
proof -
  let ?p1 = "\<lparr>px = x, py = bar_high (epsilon s) y\<rparr>" and ?p2 = "\<lparr>px = x, py = bar_low (epsilon s) y\<rparr>"
  let ?s = "s\<lparr>last_x := x, rectangle := (rectangle s)[2 := ?p2, 3 := ?p1], upper := upper s @ [?p1],
      lower := lower s @ [?p2], points_in_hull := 2\<rparr>"
  have s: "length (rectangle s) = 4" "points_in_hull s = 1" "last_x s = x0"
    "rectangle s ! 0 = \<lparr>px = x0, py = bar_high (epsilon s) y0\<rparr>" "rectangle s ! 1 = \<lparr>px = x0, py = bar_low (epsilon s) y0\<rparr>"
    "upper s = [rectangle s ! 0]" "lower s = [rectangle s ! 1]" "upper_start s = 0" "lower_start s = 0"
    using ok by (auto simp: plr_ok_def)
  have "add_point s x y = Inr (?s, True)" using s x by (simp add: add_point_def Let_def)
  moreover have "plr_frame ?s {ipt (rectangle s ! 1), ipt ?p2} {ipt (rectangle s ! 0), ipt ?p1}"
    by (rule first_two) (use s x bar_order [OF e] in simp_all)
  moreover have "bars_low (epsilon s) [(x0, y0), (x, y)] = {ipt (rectangle s ! 1), ipt ?p2}"
    "bars_high (epsilon s) [(x0, y0), (x, y)] = {ipt (rectangle s ! 0), ipt ?p1}"
    using s(4,5) by (simp_all add: bars_low_def bars_high_def ipt_def)
  ultimately show ?thesis using s x by (auto simp: plr_ok_def less_imp_le)
qed

lemma frame_lines:
  assumes "plr_frame s D U"
  shows "\<forall>d \<in> D. above (slope_of (rect_pt s 0) (rect_pt s 2)) (icept_of (rect_pt s 0) (rect_pt s 2)) d
      \<and> above (slope_of (rect_pt s 1) (rect_pt s 3)) (icept_of (rect_pt s 1) (rect_pt s 3)) d"
    "\<forall>u \<in> U. below (slope_of (rect_pt s 0) (rect_pt s 2)) (icept_of (rect_pt s 0) (rect_pt s 2)) u
      \<and> below (slope_of (rect_pt s 1) (rect_pt s 3)) (icept_of (rect_pt s 1) (rect_pt s 3)) u"
  using assms by (simp_all add: plr_frame_def frame_def two_sided_def)

text \<open>The test of \<open>add_point\<close>: a bar the extreme lines miss is missed by every line.\<close>

lemma outside_no_line:
  assumes fr: "plr_frame s D U" and x: "\<forall>q \<in> D \<union> U. fst q < fst p1" "fst p2 = fst p1"
    and l: "\<forall>d \<in> insert p2 D. above m a d" "\<forall>u \<in> insert p1 U. below m a u"
  shows "below (slope_of (rect_pt s 0) (rect_pt s 2)) (icept_of (rect_pt s 0) (rect_pt s 2)) p1"
    "above (slope_of (rect_pt s 1) (rect_pt s 3)) (icept_of (rect_pt s 1) (rect_pt s 3)) p2"
proof -
  let ?m1 = "slope_of (rect_pt s 0) (rect_pt s 2)" and ?a1 = "icept_of (rect_pt s 0) (rect_pt s 2)"
  let ?m2 = "slope_of (rect_pt s 1) (rect_pt s 3)" and ?a2 = "icept_of (rect_pt s 1) (rect_pt s 3)"
  have r: "rect_pt s 0 \<in> U" "rect_pt s 1 \<in> D" "rect_pt s 2 \<in> D" "rect_pt s 3 \<in> U"
    "on_line ?m1 ?a1 (rect_pt s 0)" "on_line ?m1 ?a1 (rect_pt s 2)" "fst (rect_pt s 0) < fst (rect_pt s 2)"
    "on_line ?m2 ?a2 (rect_pt s 1)" "on_line ?m2 ?a2 (rect_pt s 3)" "fst (rect_pt s 1) < fst (rect_pt s 3)"
    using fr by (auto simp: plr_frame_def frame_def line_on_def)
  have lD: "\<forall>d \<in> D. above m a d" and lU: "\<forall>u \<in> U. below m a u" using l by auto
  have "at_line ?m1 ?a1 (fst p1) \<le> at_line m a (fst p1)"
    by (rule between_extremes(2) [OF r(1,3,5,6,7) lD lU]) (use x r(3) in \<open>simp add: less_imp_le\<close>)
  then show "below ?m1 ?a1 p1" using l(2) by (blast intro: below_le)
  have "at_line (- ?m2) (- ?a2) (fst p2) \<le> at_line (- m) (- a) (fst p2)"
  proof (rule between_extremes(2) [where D = "mirror ` U" and U = "mirror ` D" and ?r0.0 = "mirror (rect_pt s 1)"
        and ?r2.0 = "mirror (rect_pt s 3)"])
    show "\<forall>d \<in> mirror ` U. above (- m) (- a) d" "\<forall>u \<in> mirror ` D. below (- m) (- a) u"
      using lD lU by auto
  qed (use r x in \<open>simp_all add: less_imp_le\<close>)
  then have "at_line m a (fst p2) \<le> at_line ?m2 ?a2 (fst p2)" by simp
  then show "above ?m2 ?a2 p2" using l(1) by (blast intro: above_le)
qed

text \<open>A third and later point.\<close>

lemma add_later:
  assumes ok: "plr_ok s ps" and len: "2 \<le> length ps" and x: "last_x s < x" and e: "epsilon s \<noteq> 0"
    and sy: "small_y (epsilon s) (ps @ [(x, y)])"
  shows "if \<exists>m a. fits (epsilon s) (ps @ [(x, y)]) m a
    then \<exists>s'. add_point s x y = Inr (s', True) \<and> plr_ok s' (ps @ [(x, y)]) \<and> epsilon s' = epsilon s
    else \<exists>s'. add_point s x y = Inr (s', False) \<and> plr_ok s' [] \<and> epsilon s' = epsilon s"
proof -
  let ?p1 = "\<lparr>px = x, py = bar_high (epsilon s) y\<rparr>" and ?p2 = "\<lparr>px = x, py = bar_low (epsilon s) y\<rparr>"
  let ?D = "bars_low (epsilon s) ps" and ?U = "bars_high (epsilon s) ps"
  let ?m1 = "slope_of (rect_pt s 0) (rect_pt s 2)" and ?a1 = "icept_of (rect_pt s 0) (rect_pt s 2)"
  let ?m2 = "slope_of (rect_pt s 1) (rect_pt s 3)" and ?a2 = "icept_of (rect_pt s 1) (rect_pt s 3)"
  let ?s0 = "s\<lparr>last_x := x\<rparr>"
  have fr: "plr_frame s ?D ?U" and n: "points_in_hull s = length ps" and l4: "length (rectangle s) = 4"
    using ok len by (simp_all add: plr_ok_def)
  have r0: "rect_pt ?s0 = rect_pt s" "low_pts ?s0 = low_pts s" "up_pts ?s0 = up_pts s"
    by (simp_all add: rect_pt_def low_pts_def up_pts_def fun_eq_iff)
  then have fr0: "plr_frame ?s0 ?D ?U" using fr by (simp add: plr_frame_def)
  have xs: "\<forall>p \<in> set ps. fst p < x" using ok x by (auto simp: plr_ok_def)
  have xq: "\<forall>q \<in> ?D \<union> ?U. fst q < fst (ipt ?p1)" using bars_less [OF xs] by simp
  have b: "px ?p2 = px ?p1" "py ?p2 < py ?p1" using bar_order [OF e] by simp_all
  have r: "on_line ?m1 ?a1 (rect_pt s 2)" "fst (rect_pt s 2) < fst (ipt ?p1)" "fst (rect_pt s 0) < fst (rect_pt s 2)"
    "on_line ?m2 ?a2 (rect_pt s 3)" "fst (rect_pt s 3) < fst (ipt ?p2)" "fst (rect_pt s 1) < fst (rect_pt s 3)"
    using fr xq by (auto simp: plr_frame_def frame_def line_on_def)
  have sm: "small_bars ?D ?U" "small_point ?p1" "small_point ?p2"
    using small_y_set [of "epsilon s" ps] small_y_bars [of y "epsilon s"] sy by (simp_all add: small_y_def small_point_def)
  note st = small_state(1) [OF fr sm(1)]
  have out1: "slope_less (point_minus ?p1 (rectangle s ! 2)) (point_minus (rectangle s ! 2) (rectangle s ! 0))
      = Inr (\<not> below ?m1 ?a1 (ipt ?p1))"
    using slope_less_iff [of "rectangle s ! 2" ?p1 "rectangle s ! 0" "rectangle s ! 2"] slope_line(1) [OF r(1,2)] r(2,3) st sm(2)
    by (simp add: rect_pt_def word_less_def)
  have out2: "slope_greater (point_minus ?p2 (rectangle s ! 3)) (point_minus (rectangle s ! 3) (rectangle s ! 1))
      = Inr (\<not> above ?m2 ?a2 (ipt ?p2))"
    using slope_greater_iff [of "rectangle s ! 3" ?p2 "rectangle s ! 1" "rectangle s ! 3"] slope_line(2) [OF r(4,5)] r(5,6) st sm(3)
    by (simp add: rect_pt_def word_less_def)
  have run: "add_point s x y =
     (if \<not> below ?m1 ?a1 (ipt ?p1) \<or> \<not> above ?m2 ?a2 (ipt ?p2) then Inr (?s0\<lparr>points_in_hull := 0\<rparr>, False)
      else rbind (rbind (slope_less (point_minus ?p1 (rectangle ?s0 ! 1)) (point_minus (rectangle ?s0 ! 3) (rectangle ?s0 ! 1)))
                  (\<lambda>l. if l then tighten_max ?s0 ?p1 else Inr ?s0)) (\<lambda>s1.
        rbind (rbind (slope_greater (point_minus ?p2 (rectangle s1 ! 0)) (point_minus (rectangle ?s0 ! 2) (rectangle ?s0 ! 0)))
                  (\<lambda>g. if g then tighten_min s1 ?p2 else Inr s1)) (\<lambda>s2.
          Inr (s2\<lparr>points_in_hull := points_in_hull s2 + 1\<rparr>, True))))"
    using x n len out1 out2
    by (cases "ps = []") (auto simp: add_point_def Let_def cong del: if_weak_cong)
  show ?thesis
  proof (cases "below ?m1 ?a1 (ipt ?p1) \<and> above ?m2 ?a2 (ipt ?p2)")
    case True
    then have bs: "below (slope_of (rect_pt ?s0 0) (rect_pt ?s0 2)) (icept_of (rect_pt ?s0 0) (rect_pt ?s0 2)) (ipt ?p1)"
      "above (slope_of (rect_pt ?s0 1) (rect_pt ?s0 3)) (icept_of (rect_pt ?s0 1) (rect_pt ?s0 3)) (ipt ?p2)"
      by (simp_all add: r0)
    obtain s1 Q ext where s1: "rbind (slope_less (point_minus ?p1 (rectangle ?s0 ! 1)) (point_minus (rectangle ?s0 ! 3) (rectangle ?s0 ! 1)))
          (\<lambda>l. if l then tighten_max ?s0 ?p1 else Inr ?s0) = Inr s1"
        "length (rectangle s1) = 4" "rectangle s1 ! 0 = rectangle ?s0 ! 0" "rectangle s1 ! 2 = rectangle ?s0 ! 2"
        "drop (upper_start s1) (upper s1) = Q @ ext" "ext \<in> {[], [?p1]}"
      and keep: "epsilon s1 = epsilon ?s0" "last_x s1 = last_x ?s0" "points_in_hull s1 = points_in_hull ?s0"
      and mx: "after_max ?D ?U (slope_of (rect_pt ?s0 0) (rect_pt ?s0 2)) (slope_of (rect_pt ?s0 1) (rect_pt ?s0 3))
        (rect_pt ?s0 0) (up_pts ?s0) (ipt ?p1) (ipt ?p2)
        (slope_of (rect_pt s1 1) (rect_pt s1 3)) (icept_of (rect_pt s1 1) (rect_pt s1 3))
        (rect_pt s1 1) (rect_pt s1 3) (low_pts s1) (map mpt Q) (map mpt ext)"
      using max_block [OF fr0 b xq bs sm] by blast
    obtain s2 where s2: "rbind (slope_greater (point_minus ?p2 (rectangle s1 ! 0)) (point_minus (rectangle ?s0 ! 2) (rectangle ?s0 ! 0)))
          (\<lambda>g. if g then tighten_min s1 ?p2 else Inr s1) = Inr s2"
        "plr_frame s2 (insert (ipt ?p2) ?D) (insert (ipt ?p1) ?U)"
        "epsilon s2 = epsilon s1" "last_x s2 = last_x s1" "points_in_hull s2 = points_in_hull s1"
      using min_block [OF fr0 b xq bs s1(2-6) mx sm] by blast
    let ?s2 = "s2\<lparr>points_in_hull := points_in_hull s2 + 1\<rparr>"
    have same: "rect_pt ?s2 = rect_pt s2" "low_pts ?s2 = low_pts s2" "up_pts ?s2 = up_pts s2"
      by (simp_all add: rect_pt_def low_pts_def up_pts_def fun_eq_iff)
    have fr2: "plr_frame ?s2 (bars_low (epsilon s) (ps @ [(x, y)])) (bars_high (epsilon s) (ps @ [(x, y)]))"
      using s2(2) unfolding bars_snoc plr_frame_def same by simp
    have "fits (epsilon s) (ps @ [(x, y)]) (slope_of (rect_pt s2 0) (rect_pt s2 2)) (icept_of (rect_pt s2 0) (rect_pt s2 2))"
      using frame_lines [OF fr2] unfolding fits_def same by blast
    moreover have "add_point s x y = Inr (?s2, True)" unfolding run s1(1) rbind.simps s2(1) using True by simp
    moreover have "plr_ok ?s2 (ps @ [(x, y)])"
      using fr2 s2 keep n len xs plr_frame_def [of s2] by (auto simp: plr_ok_def less_imp_le)
    ultimately show ?thesis using s2(3) keep by auto
  next
    case False
    have "\<not> fits (epsilon s) (ps @ [(x, y)]) m a" for m a
      using outside_no_line [OF fr xq, of "ipt ?p2" m a] False unfolding fits_def bars_snoc by auto
    moreover have "add_point s x y = Inr (?s0\<lparr>points_in_hull := 0\<rparr>, False)" unfolding run using False by simp
    ultimately show ?thesis using l4 by (auto simp: plr_ok_def)
  qed
qed

lemma add_any:
  assumes ok: "plr_ok s ps" and e: "epsilon s \<noteq> 0" and x: "ps \<noteq> [] \<Longrightarrow> last_x s < x"
    and sy: "small_y (epsilon s) (ps @ [(x, y)])"
  shows "if \<exists>m a. fits (epsilon s) (ps @ [(x, y)]) m a
    then \<exists>s'. add_point s x y = Inr (s', True) \<and> plr_ok s' (ps @ [(x, y)]) \<and> epsilon s' = epsilon s
    else \<exists>s'. add_point s x y = Inr (s', False) \<and> plr_ok s' [] \<and> epsilon s' = epsilon s"
proof (cases "2 \<le> length ps")
  case True
  then have "ps \<noteq> []" by (cases ps) simp_all
  then have "last_x s < x" by (rule x)
  with True show ?thesis by (intro add_later [OF ok _ _ e sy])
next
  case False
  then consider "ps = []" | p where "ps = [p]" by (cases ps rule: list.exhaust) (auto, cases "tl ps", auto)
  then show ?thesis
  proof cases
    case 1
    have "(of_int (uint (bar_low (epsilon s) y)) :: rat) \<le> of_int (uint (bar_high (epsilon s) y))"
      using bar_order [OF e, of y] by (simp only: of_int_le_iff word_less_def less_imp_le)
    then have "fits (epsilon s) [(x, y)] 0 (of_int (uint (bar_low (epsilon s) y)))"
      by (simp add: fits_def bars_low_def bars_high_def above_def below_def at_line_def)
    then show ?thesis using 1 add_first [of s x y] ok by auto
  next
    case 2
    obtain x0 y0 where p: "p = (x0, y0)" by (cases p)
    have lt: "x0 < x" using x 2 ok p by (auto simp: plr_ok_def)
    obtain s' where s': "add_point s x y = Inr (s', True)" "plr_ok s' [(x0, y0), (x, y)]" "epsilon s' = epsilon s"
      using add_second [of s x0 y0 x y] ok 2 p lt e by auto
    have "plr_frame s' (bars_low (epsilon s) [(x0, y0), (x, y)]) (bars_high (epsilon s) [(x0, y0), (x, y)])"
      using s'(2,3) by (simp add: plr_ok_def)
    from frame_lines [OF this] have "\<exists>m a. fits (epsilon s) [(x0, y0), (x, y)] m a" unfolding fits_def by blast
    then show ?thesis using s' 2 p by auto
  qed
qed

text \<open>Adding points in turn, up to the first that is refused.\<close>

fun add_points :: "plr \<Rightarrow> (u64 \<times> u64) list \<Rightarrow> (plr \<times> bool) res" where
  "add_points s [] = Inr (s, True)"
| "add_points s (p # ps) =
     rbind (add_point s (fst p) (snd p)) (\<lambda>(s, ok). if ok then add_points s ps else Inr (s, False))"

lemma add_points_ok:
  "add_points s qs = Inr (s', True) \<Longrightarrow> plr_ok s ps \<Longrightarrow> epsilon s \<noteq> 0 \<Longrightarrow> small_y (epsilon s) (ps @ qs)
    \<Longrightarrow> plr_ok s' (ps @ qs) \<and> epsilon s' = epsilon s"
proof (induction s qs arbitrary: ps rule: add_points.induct)
  case (1 s)
  then show ?case by simp
next
  case (2 s p qs)
  obtain x y where p: "p = (x, y)" by (cases p)
  obtain s1 where s1: "add_point s x y = Inr (s1, True)" "add_points s1 qs = Inr (s', True)"
    using 2(2) p by (auto simp: res_iff split: if_splits)
  have "\<not> (points_in_hull s > 0 \<and> x \<le> last_x s)" using s1(1) by (auto simp: add_point_def)
  then have "ps \<noteq> [] \<Longrightarrow> last_x s < x" using 2(3) by (auto simp: plr_ok_def)
  then have "plr_ok s1 (ps @ [(x, y)]) \<and> epsilon s1 = epsilon s"
    using add_any [OF 2(3,4), of x y] s1(1) 2(5) p by (auto simp: small_y_def split: if_splits)
  then show ?case using "2.IH" [of "(s1, True)" s1 True "ps @ [(x, y)]"] s1 p 2(4,5) by simp
qed

lemma PLR_ok: "plr_ok (PLR eps) [] \<and> epsilon (PLR eps) = eps"
  by (simp add: plr_ok_def PLR_def)

text \<open>C19: as long as no position plus \<open>epsilon\<close> reaches \<open>2 ^ 62\<close>, no signed 128-bit operation of
  \<open>add_point\<close> overflows. After points were accepted with a positive \<open>epsilon\<close>, it throws on a key that is
  not larger than the last one, and otherwise returns, accepting the point exactly if one line passes
  through the error bars of all points.\<close>

theorem plr_add_point_correct:
  assumes "eps \<noteq> 0" "add_points (PLR eps) ps = Inr (s, True)"
    and "\<forall>p \<in> set (ps @ [(x, y)]). uint (snd p) + uint eps < 2 ^ 62"
  shows "if ps \<noteq> [] \<and> x \<le> fst (last ps) then add_point s x y = Inl Thrown
    else \<exists>s'. add_point s x y = Inr (s', \<exists>m a. fits eps (ps @ [(x, y)]) m a)"
proof -
  have sy: "small_y eps (ps @ [(x, y)])" unfolding small_y_def by (rule assms(3))
  have ok: "plr_ok s ps" "epsilon s = eps"
    using add_points_ok [OF assms(2), of "[]"] PLR_ok [of eps] assms(1) sy by (simp_all add: small_y_def)
  note add = add_any [OF ok(1), unfolded ok(2), OF assms(1) _ sy]
  show ?thesis
  proof (cases "ps \<noteq> [] \<and> x \<le> fst (last ps)")
    case True
    then show ?thesis using ok by (auto simp: plr_ok_def add_point_def)
  next
    case False
    then have lt: "ps \<noteq> [] \<Longrightarrow> last_x s < x" using ok by (auto simp: plr_ok_def)
    have "\<exists>s'. add_point s x y = Inr (s', \<exists>m a. fits eps (ps @ [(x, y)]) m a)"
    proof (cases "\<exists>m a. fits eps (ps @ [(x, y)]) m a")
      case True
      with add [OF lt] show ?thesis by (simp only: if_True) blast
    next
      case False
      with add [OF lt] show ?thesis by (simp only: if_False) blast
    qed
    then show ?thesis using False by (simp only: if_False)
  qed
qed

lemma ex_points:
  "\<exists>s. add_points (PLR 1) [(10, 0), (12, 1), (14, 2)] = Inr (s, True)"
proof -
  have "case add_points (PLR 1) [(10, 0), (12, 1), (14, 2)] of Inr (s, b) \<Rightarrow> b | Inl e \<Rightarrow> False" by code_simp
  then show ?thesis by (auto split: sum.splits prod.splits)
qed

theorem plr_add_point_correct_witness:
  "\<exists>s. add_points (PLR 1) [(10, 0), (12, 1), (14, 2)] = Inr (s, True) \<and> add_point s 14 3 = Inl Thrown"
proof -
  obtain s where s: "add_points (PLR 1) [(10, 0), (12, 1), (14, 2)] = Inr (s, True)" using ex_points by blast
  show ?thesis using s plr_add_point_correct [OF _ s, of 14 3] by simp
qed

text \<open>Beyond the bound the comparison of slopes overflows.\<close>

lemma plr_overflow: "add_points (PLR 1) [(0, 0), (1, 2 ^ 64 - 2), (2 ^ 64 - 1, 0)] = Inl UB"
  by code_simp

section \<open>The segment\<close>

text \<open>The line through the intersection of the extreme lines whose slope is their mean: at every
  \<open>x\<close> it is the mean of the two lines.\<close>

lemma mean_line:
  assumes on: "on_line m1 a1 p0" "on_line m1 a1 p2" "on_line m2 a2 p1" "on_line m2 a2 p3"
    and x: "fst p0 < fst p2" "fst p1 < fst p3"
    and b: "b = of_int ((fst p1 - fst p0) * (snd p3 - snd p1) - (snd p1 - snd p0) * (fst p3 - fst p1))
        / of_int ((fst p2 - fst p0) * (snd p3 - snd p1) - (snd p2 - snd p0) * (fst p3 - fst p1))"
    and d: "(fst p2 - fst p0) * (snd p3 - snd p1) \<noteq> (snd p2 - snd p0) * (fst p3 - fst p1)"
  defines "ix \<equiv> of_int (fst p0) + b * of_int (fst p2 - fst p0)" and "iy \<equiv> of_int (snd p0) + b * of_int (snd p2 - snd p0)"
  shows "at_line ((m1 + m2) / 2) (iy - ix * ((m1 + m2) / 2)) z = (at_line m1 a1 z + at_line m2 a2 z) / 2"
proof -
  let ?dx1 = "of_int (fst p2 - fst p0) :: rat" and ?dy1 = "of_int (snd p2 - snd p0) :: rat"
  let ?dx2 = "of_int (fst p3 - fst p1) :: rat" and ?dy2 = "of_int (snd p3 - snd p1) :: rat"
  let ?px = "of_int (fst p1 - fst p0) :: rat" and ?py = "of_int (snd p1 - snd p0) :: rat"
  have m1: "m1 * ?dx1 = ?dy1" and m2: "m2 * ?dx2 = ?dy2"
    using on by (simp_all add: on_line_def at_line_def algebra_simps)
  have a: "?dx1 * ?dy2 - ?dy1 * ?dx2 \<noteq> 0"
    using d by (simp flip: of_int_mult of_int_diff)
  have bb: "b * (?dx1 * ?dy2 - ?dy1 * ?dx2) = ?px * ?dy2 - ?py * ?dx2"
    using a by (simp add: b)
  have l1: "m1 * ix + a1 = iy"
  proof -
    have "m1 * ix + a1 = (m1 * of_int (fst p0) + a1) + b * (m1 * ?dx1)" by (simp add: ix_def algebra_simps)
    also have "\<dots> = iy" unfolding m1 using on(1) by (simp add: on_line_def at_line_def iy_def)
    finally show ?thesis .
  qed
  have l2: "m2 * ix + a2 = iy"
  proof -
    have a2: "a2 = of_int (snd p1) - m2 * of_int (fst p1)" using on(3) by (simp add: on_line_def at_line_def)
    have dx2: "?dx2 \<noteq> 0" using x(2) by simp
    have "?dx2 * (m2 * ix + a2 - iy) = (m2 * ?dx2) * (ix - of_int (fst p1)) + ?dx2 * (of_int (snd p1) - iy)"
      by (simp add: a2 algebra_simps)
    also have "\<dots> = b * (?dx1 * ?dy2 - ?dy1 * ?dx2) - (?px * ?dy2 - ?py * ?dx2)"
      unfolding m2 by (simp add: ix_def iy_def algebra_simps)
    finally show ?thesis using bb dx2 by simp
  qed
  show ?thesis using l1 l2 by (simp add: at_line_def field_simps)
qed

lemma fits_error:
  assumes "fits eps ps m a" "(x, y) \<in> set ps"
  shows "\<bar>at_line m a (uint x) - of_int (uint y)\<bar> \<le> of_int (uint eps)"
proof -
  have l: "of_int (uint (bar_low eps y)) \<le> at_line m a (uint x)" "at_line m a (uint x) \<le> of_int (uint (bar_high eps y))"
    using assms by (auto simp: fits_def bars_low_def bars_high_def above_def below_def simp del: of_int_uint)
  have "of_int (uint y - uint eps) \<le> (of_int (uint (bar_low eps y)) :: rat)"
    "of_int (uint (bar_high eps y)) \<le> (of_int (uint y + uint eps) :: rat)"
    unfolding of_int_le_iff uint_bar_low uint_bar_high by simp_all
  with l show ?thesis unfolding of_int_diff of_int_add abs_le_iff by linarith
qed

lemma fits_mean:
  assumes f: "fits eps ps m1 a1" "fits eps ps m2 a2" and z: "\<And>z. at_line m a z = (at_line m1 a1 z + at_line m2 a2 z) / 2"
  shows "fits eps ps m a"
  unfolding fits_def
proof (intro conjI ballI)
  fix d assume "d \<in> bars_low eps ps"
  then have "above m1 a1 d" "above m2 a2 d" using f unfolding fits_def by blast+
  then show "above m a d" unfolding above_def z by (simp add: pos_le_divide_eq)
next
  fix u assume "u \<in> bars_high eps ps"
  then have "below m1 a1 u" "below m2 a2 u" using f unfolding fits_def by blast+
  then show "below m a u" unfolding below_def z by (simp add: pos_divide_le_eq)
qed

lemma segment_one:
  assumes ok: "plr_ok s [(x, y)]" and small: "uint y < 2 ^ 62" "uint (epsilon s) < 2 ^ 62"
    and e: "epsilon s \<noteq> 0"
  shows "\<exists>m a. get_slope_intercept (\<lambda>x. x) (get_segment s) = Inr (m, a) \<and> fits (epsilon s) [(x, y)] m a"
proof -
  let ?h = "bar_high (epsilon s) y" and ?l = "bar_low (epsilon s) y"
  have r: "points_in_hull s = 1" "rectangle s ! 0 = \<lparr>px = x, py = ?h\<rparr>" "rectangle s ! 1 = \<lparr>px = x, py = ?l\<rparr>"
    using ok by (auto simp: plr_ok_def)
  have "uint ?h \<le> uint y + uint (epsilon s)" unfolding uint_bar_high by simp
  moreover have "uint ?l \<le> uint y" unfolding uint_bar_low using uint_u64(1) [of y] uint_u64(1) [of "epsilon s"] by simp
  ultimately have "uint ?h + uint ?l < 2 ^ 64" using small by simp
  then have sum: "uint (?h + ?l) = uint ?h + uint ?l" using uint_add_lem [of ?h ?l] by simp
  have "uint ((?h + ?l) div 2) = (uint ?h + uint ?l) div 2" by (simp add: uint_div sum)
  then have g: "get_slope_intercept (\<lambda>x. x) (get_segment s) = Inr (0, of_int ((uint ?h + uint ?l) div 2))"
    using r by (simp add: get_slope_intercept_def get_segment_def one_point_def Let_def del: of_int_uint)
  have "uint ?l \<le> (uint ?h + uint ?l) div 2" "(uint ?h + uint ?l) div 2 \<le> uint ?h"
    using bar_order [OF e, of y] by (simp_all add: word_less_def)
  then have "(of_int (uint ?l) :: rat) \<le> of_int ((uint ?h + uint ?l) div 2)"
    "of_int ((uint ?h + uint ?l) div 2) \<le> (of_int (uint ?h) :: rat)" by (simp_all only: of_int_le_iff)
  then have "fits (epsilon s) [(x, y)] 0 (of_int ((uint ?h + uint ?l) div 2))"
    by (simp add: fits_def bars_low_def bars_high_def above_def below_def at_line_def del: of_int_uint)
  with g show ?thesis by blast
qed

lemma segment_more:
  assumes fr: "plr_frame s (bars_low eps ps) (bars_high eps ps)" and n: "points_in_hull s \<noteq> 1" and sy: "small_y eps ps"
  shows "\<exists>m a. get_slope_intercept (\<lambda>x. x) (get_segment s) = Inr (m, a) \<and> fits eps ps m a"
proof -
  let ?r = "rect_pt s"
  let ?m1 = "slope_of (?r 0) (?r 2)" and ?a1 = "icept_of (?r 0) (?r 2)"
  let ?m2 = "slope_of (?r 1) (?r 3)" and ?a2 = "icept_of (?r 1) (?r 3)"
  have on: "on_line ?m1 ?a1 (?r 0)" "on_line ?m1 ?a1 (?r 2)" "on_line ?m2 ?a2 (?r 1)" "on_line ?m2 ?a2 (?r 3)"
    and x: "fst (?r 0) < fst (?r 2)" "fst (?r 1) < fst (?r 3)"
    using fr by (simp_all add: plr_frame_def frame_def line_on_def)
  have f: "fits eps ps ?m1 ?a1" "fits eps ps ?m2 ?a2"
    using frame_lines [OF fr] unfolding fits_def by blast+
  let ?g = "get_segment s"
  have g: "seg_rect ?g = [rectangle s ! 0, rectangle s ! 1, rectangle s ! 2, rectangle s ! 3]"
    using n by (simp add: get_segment_def Let_def)
  have np: "\<not> one_point ?g" using x(1) by (auto simp: one_point_def g rect_pt_def)
  have sr: "get_slope_range (\<lambda>x. x) ?g = (?m1, ?m2)"
    using np by (simp add: get_slope_range_def g slope_ld_def slope_of_def rect_pt_def)
  let ?s1 = "point_minus (rectangle s ! 2) (rectangle s ! 0)" and ?s2 = "point_minus (rectangle s ! 3) (rectangle s ! 1)"
  let ?s0 = "point_minus (rectangle s ! 1) (rectangle s ! 0)"
  note st = small_state(1) [OF fr small_y_set [OF sy]]
  have sm: "small_point (rectangle s ! 0)" "small_point (rectangle s ! 1)" "small_point (rectangle s ! 2)" "small_point (rectangle s ! 3)"
    using st by simp_all
  note eq = slope_ops_eq(3) [OF sm(1,3,2,4)]
  have det: "i128_det (dx ?s1) (dy ?s2) (dy ?s1) (dx ?s2) = Inr (dx ?s1 * dy ?s2 - dy ?s1 * dx ?s2)"
    "i128_det (dx ?s0) (dy ?s2) (dy ?s0) (dx ?s2) = Inr (dx ?s0 * dy ?s2 - dy ?s0 * dx ?s2)"
    using point_minus_fits sm unfolding small_point_def by (blast intro: i128_det_eq)+
  show ?thesis
  proof (cases "dy ?s1 * dx ?s2 = dx ?s1 * dy ?s2")
    case True
    then have "(snd (?r 2) - snd (?r 0)) * (fst (?r 3) - fst (?r 1)) = (snd (?r 3) - snd (?r 1)) * (fst (?r 2) - fst (?r 0))"
      by (simp add: rect_pt_def mult.commute)
    then have "(of_int (snd (?r 2) - snd (?r 0)) :: rat) * of_int (fst (?r 3) - fst (?r 1))
        = of_int (snd (?r 3) - snd (?r 1)) * of_int (fst (?r 2) - fst (?r 0))"
      by (simp only: flip: of_int_mult)
    then have m: "?m1 = ?m2" unfolding slope_of_def using x by (simp add: frac_eq_eq)
    have "get_intersection (\<lambda>x. x) ?g = Inr (of_int (fst (?r 0)), of_int (snd (?r 0)))"
      using True np eq by (simp add: get_intersection_def g rect_pt_def Let_def)
    then have "get_slope_intercept (\<lambda>x. x) ?g = Inr (?m1, ?a1)"
      using np m by (simp add: get_slope_intercept_def sr Let_def icept_of_def mult.commute)
    then show ?thesis using f(1) by blast
  next
    case False
    let ?b = "of_int ((fst (?r 1) - fst (?r 0)) * (snd (?r 3) - snd (?r 1)) - (snd (?r 1) - snd (?r 0)) * (fst (?r 3) - fst (?r 1)))
        / of_int ((fst (?r 2) - fst (?r 0)) * (snd (?r 3) - snd (?r 1)) - (snd (?r 2) - snd (?r 0)) * (fst (?r 3) - fst (?r 1))) :: rat"
    let ?ix = "of_int (fst (?r 0)) + ?b * of_int (fst (?r 2) - fst (?r 0))"
    let ?iy = "of_int (snd (?r 0)) + ?b * of_int (snd (?r 2) - snd (?r 0))"
    have d: "(fst (?r 2) - fst (?r 0)) * (snd (?r 3) - snd (?r 1)) \<noteq> (snd (?r 2) - snd (?r 0)) * (fst (?r 3) - fst (?r 1))"
      using False by (simp add: rect_pt_def mult.commute)
    have "get_intersection (\<lambda>x. x) ?g = Inr (?ix, ?iy)"
      using False np eq det by (simp add: get_intersection_def g rect_pt_def Let_def)
    then have "get_slope_intercept (\<lambda>x. x) ?g = Inr ((?m1 + ?m2) / 2, ?iy - ?ix * ((?m1 + ?m2) / 2))"
      using np by (simp add: get_slope_intercept_def sr Let_def)
    moreover have "fits eps ps ((?m1 + ?m2) / 2) (?iy - ?ix * ((?m1 + ?m2) / 2))"
      by (rule fits_mean [OF f]) (rule mean_line [OF on x refl d])
    ultimately show ?thesis by blast
  qed
qed

lemma segment_fits:
  assumes ok: "plr_ok s ps" and e: "epsilon s \<noteq> 0" and ne: "ps \<noteq> []"
    and sy: "small_y (epsilon s) ps"
  shows "\<exists>m a. get_slope_intercept (\<lambda>x. x) (get_segment s) = Inr (m, a) \<and> fits (epsilon s) ps m a"
proof (cases "2 \<le> length ps")
  case True
  then show ?thesis using ok sy by (intro segment_more) (simp_all add: plr_ok_def)
next
  case False
  then obtain x y where ps: "ps = [(x, y)]" using ne by (cases ps rule: list.exhaust) (auto, cases "tl ps", auto)
  have "uint y + uint (epsilon s) < 2 ^ 62" using sy by (simp add: small_y_def ps)
  then have "uint y < 2 ^ 62" "uint (epsilon s) < 2 ^ 62"
    using uint_u64(1) [of y] uint_u64(1) [of "epsilon s"] by linarith+
  then show ?thesis using segment_one [of s x y] ok e ps by simp
qed

text \<open>C20: as long as no position plus \<open>epsilon\<close> reaches \<open>2 ^ 62\<close>, the slope and the intercept of the segment
  are computed without signed overflow, and before rounding they predict the position of every accepted
  point with an error of at most a positive \<open>epsilon\<close>.\<close>

theorem plr_segment_fits:
  assumes "eps \<noteq> 0" "add_points (PLR eps) ps = Inr (s, True)"
    and "\<forall>p \<in> set ps. uint (snd p) + uint eps < 2 ^ 62" "ps \<noteq> []"
  shows "\<exists>slope intercept. get_slope_intercept (\<lambda>r. r) (get_segment s) = Inr (slope, intercept)
    \<and> (\<forall>(x, y) \<in> set ps. \<bar>slope * of_int (uint x) + intercept - of_int (uint y)\<bar> \<le> of_int (uint eps))"
proof -
  have sy: "small_y eps ps" unfolding small_y_def by (rule assms(3))
  have ok: "plr_ok s ps" "epsilon s = eps"
    using add_points_ok [OF assms(2), of "[]"] PLR_ok [of eps] assms(1) sy by simp_all
  obtain m a where m: "get_slope_intercept (\<lambda>r. r) (get_segment s) = Inr (m, a)" "fits eps ps m a"
    using segment_fits [OF ok(1) _ assms(4)] assms(1) ok(2) sy by auto
  have "\<bar>m * of_int (uint x) + a - of_int (uint y)\<bar> \<le> of_int (uint eps)" if "(x, y) \<in> set ps" for x y
    using fits_error [OF m(2) that] by (simp add: at_line_def del: of_int_uint)
  then show ?thesis using m(1) by blast
qed

theorem plr_segment_fits_witness:
  "\<exists>s slope intercept. add_points (PLR 1) [(10, 0), (12, 1), (14, 2)] = Inr (s, True)
     \<and> get_slope_intercept (\<lambda>r. r) (get_segment s) = Inr (slope, intercept)
     \<and> \<bar>slope * of_int (uint (12 :: u64)) + intercept - of_int (uint (1 :: u64))\<bar> \<le> of_int (uint (1 :: u64))"
proof -
  obtain s where s: "add_points (PLR 1) [(10, 0), (12, 1), (14, 2)] = Inr (s, True)" using ex_points by blast
  have "\<exists>slope intercept. get_slope_intercept (\<lambda>r. r) (get_segment s) = Inr (slope, intercept)
      \<and> (\<forall>(x, y) \<in> set [(10 :: u64, 0 :: u64), (12, 1), (14, 2)]. \<bar>slope * of_int (uint x) + intercept - of_int (uint y)\<bar> \<le> of_int (uint (1 :: u64)))"
    by (rule plr_segment_fits [OF _ s]) simp_all
  then show ?thesis using s by fastforce
qed

end
