(* ===== verification/Rolex.thy ===== *)
theory Rolex
  imports Training Plr_Correct
begin

text \<open>
  The index itself, \<^verbatim>\<open>rolex/rolex.hpp\<close>: the keys of the upper models and the submodels, trained
  by piecewise linear regression, the operations of the memory node, the serialization to a
  string and the reconstruction from the model region. Instance as in \<^verbatim>\<open>rolex/trait.hpp\<close>
  (\<open>u64\<close> keys and values, \<open>Epsilon\<close> 32).

  \<open>remote_mem\<close> holds the two allocators of \<open>RemoteMemory\<close>, which the constructor of
  \<open>RemoteMemory\<close> always creates (so the assertion of the constructors of \<open>Rolex\<close> holds). The
  memory of the \<open>i\<close>-th submodel before construction is an argument, \<open>raw i\<close>.
\<close>

section \<open>State\<close>

record remote_mem =
  leaf_allocator :: leaf_pool
  model_allocator :: model_pool

record rolex =
  model_keys :: "u64 list"
  models :: "submodel list"

definition Rolex :: rolex where
  "Rolex = \<lparr>model_keys = [], models = []\<rparr>"

section \<open>Serialization to a string\<close>

fun rx_serialize_loop :: "u64 list \<Rightarrow> submodel list \<Rightarrow> bytes \<Rightarrow> bytes res" where
  "rx_serialize_loop mkeys [] ans = Inr ans"
| "rx_serialize_loop mkeys (sm # sms) ans =
     rbind (vec_at mkeys 0) (\<lambda>k.
     rbind (serialize_to u64_pod k) (\<lambda>a.
     rbind (SubModel_serialize sm) (\<lambda>mSeria.
     rbind (serialize_to i32_pod (of_nat (length mSeria))) (\<lambda>b.
       rx_serialize_loop (tl mkeys) sms (ans @ a @ b @ mSeria)))))"

definition rx_serialize :: "rolex \<Rightarrow> bytes res" where
  "rx_serialize r =
     rbind (rx_serialize_loop (model_keys r) (models r) []) (\<lambda>ans.
     rbind (serialize_to i32_pod (of_nat (length ans))) (\<lambda>b. Inr (b @ ans)))"

text \<open>The loop of the constructor from a string: the offset \<open>cur\<close> of \<open>cur_ptr\<close> advances by at
  least the 12 header bytes each time; \<open>sz\<close> is \<open>seria.size()\<close>.\<close>

function rx_parse :: "(nat \<Rightarrow> te list) \<Rightarrow> bytes \<Rightarrow> nat \<Rightarrow> rolex \<Rightarrow> rolex res" where
  "rx_parse raw seria cur r =
     (if cur < length seria then
        rbind (deserialize u64_pod (drop cur seria) (length seria)) (\<lambda>key.
        rbind (deserialize i32_pod (drop (cur + 8) seria) (length seria)) (\<lambda>mSeria_size.
        rbind (sub_string (drop (cur + 12) seria) (sint mSeria_size)) (\<lambda>mSeria.
        rbind (SubModel_deserialize mSeria (raw (length (models r)))) (\<lambda>sm.
          rx_parse raw seria (cur + 12 + nat (sint mSeria_size))
            (r\<lparr>model_keys := model_keys r @ [key], models := models r @ [sm]\<rparr>)))))
      else Inr r)"
  by pat_completeness auto
termination
  by (relation "measure (\<lambda>(raw, seria, cur, r). length seria - cur)") auto

declare rx_parse.simps [simp del]

definition Rolex_of_string :: "(nat \<Rightarrow> te list) \<Rightarrow> bytes \<Rightarrow> rolex res" where
  "Rolex_of_string raw seria =
     rassert (length seria > 4)
       (rbind (deserialize i32_pod seria (length seria)) (\<lambda>model_total_size.
        rassert (of_nat (length seria) = 4 + (scast model_total_size :: u64))
          (rx_parse raw seria 4 Rolex)))"

section \<open>Training\<close>

text \<open>\<open>append_model\<close>; \<open>start\<close> is the position of the two iterators. The submodel is stored behind
  its size, its key and the offset of the size in the two areas of the upper models.\<close>

definition write_model :: "u64 \<Rightarrow> bytes \<Rightarrow> model_pool \<Rightarrow> model_pool res" where
  "write_model key mSeria mp =
     rbind (alloc_submodel mp (of_nat (length mSeria + 4))) (\<lambda>(mp, ptr, off).
     rbind (obj_put i32_pod (mem_pool mp) ptr (of_nat (length mSeria))) (\<lambda>m.
     rbind (mem_put m (ptr + 4) mSeria) (\<lambda>m.
     rbind (alloc_upper (mp\<lparr>mem_pool := m\<rparr>)) (\<lambda>(mp, kptr, optr).
     rbind (obj_put u64_pod (mem_pool mp) kptr key) (\<lambda>m.
     rbind (obj_put u64_pod m optr off) (\<lambda>m. Inr (mp\<lparr>mem_pool := m\<rparr>)))))))"

definition append_model ::
    "(nat \<Rightarrow> te list) \<Rightarrow> double \<Rightarrow> double \<Rightarrow> u64 list \<Rightarrow> u64 list \<Rightarrow> nat \<Rightarrow> nat \<Rightarrow> rolex \<Rightarrow> remote_mem
      \<Rightarrow> (rolex \<times> remote_mem) res" where
  "append_model raw s c ks vs start sz r rm =
     rbind (arr_at ks (int start + int sz - 1)) (\<lambda>key.
     rbind (SubModel s c ks vs start sz (raw (length (models r))) (leaf_allocator rm)) (\<lambda>(sm, lp).
     rbind (SubModel_serialize sm) (\<lambda>mSeria.
     rbind (write_model key mSeria (model_allocator rm)) (\<lambda>mp.
       Inr (r\<lparr>model_keys := model_keys r @ [key], models := models r @ [sm]\<rparr>,
            rm\<lparr>leaf_allocator := lp, model_allocator := mp\<rparr>)))))"

text \<open>The model of the points added so far; \<open>cs_slope\<close> and \<open>cs_intercept\<close> are \<open>long double\<close>, the
  parameters of \<open>append_model\<close> are \<open>double\<close>.\<close>

definition append_segment ::
    "(nat \<Rightarrow> te list) \<Rightarrow> plr \<Rightarrow> u64 list \<Rightarrow> u64 list \<Rightarrow> nat \<Rightarrow> nat \<Rightarrow> rolex \<Rightarrow> remote_mem \<Rightarrow> (rolex \<times> remote_mem) res" where
  "append_segment raw opt ks vs start pos r rm =
     rbind (get_slope_intercept ldbl (get_segment opt)) (\<lambda>(cs_slope, cs_intercept).
        append_model raw (double_of cs_slope) (double_of cs_intercept) ks vs start pos r rm)"

text \<open>The loop over the \<open>n\<close> keys left from the \<open>int\<close> index \<open>i\<close> on; \<open>exit(0)\<close> on a duplicate ends
  the process.\<close>

definition kPlrEps :: u64 where "kPlrEps = of_nat (kEpsilon - 1)"

fun rx_train_loop ::
    "(nat \<Rightarrow> te list) \<Rightarrow> u64 list \<Rightarrow> u64 list \<Rightarrow> nat \<Rightarrow> nat \<Rightarrow> u64 \<Rightarrow> nat \<Rightarrow> nat \<Rightarrow> plr \<Rightarrow> rolex \<Rightarrow> remote_mem
      \<Rightarrow> (nat \<times> nat \<times> plr \<times> rolex \<times> remote_mem) res" where
  "rx_train_loop raw ks vs 0 i p pos start opt r rm = Inr (pos, start, opt, r, rm)"
| "rx_train_loop raw ks vs (Suc n) i p pos start opt r rm =
     rbind (vec_at ks i) (\<lambda>next_p.
     if next_p = p then Inl Exits
     else
       rbind (add_point opt next_p (of_nat (pos + 1))) (\<lambda>(opt, ok).
       rbind
         (if ok then Inr (pos + 1, start, opt, r, rm)
          else
            rbind (append_segment raw opt ks vs start (pos + 1) r rm) (\<lambda>(r, rm).
            rbind (add_point (PLR kPlrEps) next_p 0) (\<lambda>(opt, _).
              Inr (0, start + (pos + 1), opt, r, rm))))
       (\<lambda>(pos, start, opt, r, rm).
          if i + 1 \<ge> 2 ^ 31 then Inl UB
          else rx_train_loop raw ks vs n (i + 1) next_p pos start opt r rm)))"

definition rx_train ::
    "(nat \<Rightarrow> te list) \<Rightarrow> u64 list \<Rightarrow> u64 list \<Rightarrow> rolex \<Rightarrow> remote_mem \<Rightarrow> (rolex \<times> remote_mem) res" where
  "rx_train raw ks vs r rm =
     rassert (length ks = length vs)
       (if length ks = 0 then Inr (r, rm)
        else
          rbind (vec_at ks 0) (\<lambda>p.
          rbind (add_point (PLR kPlrEps) p 0) (\<lambda>(opt, _).
          rbind (rx_train_loop raw ks vs (length ks - 1) 1 p 0 0 opt r rm) (\<lambda>(pos, start, opt, r, rm).
          rbind (append_segment raw opt ks vs start (pos + 1) r rm) (\<lambda>(r, rm).
          rassert (length (model_keys r) = length (models r))
            (let mp = model_allocator rm in
             rbind (obj_put u64_pod (mem_pool mp) (get_total_ptr mp) (of_nat (length (models r)))) (\<lambda>m.
               Inr (r, rm\<lparr>model_allocator := mp\<lparr>mem_pool := m\<rparr>\<rparr>))))))))"

definition Rolex_train ::
    "(nat \<Rightarrow> te list) \<Rightarrow> u64 list \<Rightarrow> u64 list \<Rightarrow> remote_mem \<Rightarrow> (rolex \<times> remote_mem) res" where
  "Rolex_train raw ks vs rm = rx_train raw ks vs Rolex rm"

section \<open>Reconstruction from the model region\<close>

text \<open>A negative size is the length of a \<open>memcpy\<close> far beyond the region.\<close>

definition read_submodel :: "te list \<Rightarrow> model_pool \<Rightarrow> u64 \<Rightarrow> submodel res" where
  "read_submodel raw mp off =
     (let sub = get_submodel mp off in
      rbind (obj_get i32_pod (mem_pool mp) sub) (\<lambda>cur_ms.
      if sint cur_ms < 0 then Inl UB
      else rbind (mem_get (mem_pool mp) (sub + 4) (nat (sint cur_ms))) (\<lambda>rSeria. SubModel_deserialize rSeria raw)))"

fun rx_deserialize_loop :: "(nat \<Rightarrow> te list) \<Rightarrow> model_pool \<Rightarrow> nat \<Rightarrow> u64 \<Rightarrow> rolex \<Rightarrow> rolex res" where
  "rx_deserialize_loop raw mp 0 i r = Inr r"
| "rx_deserialize_loop raw mp (Suc n) i r =
     (case get_upper mp i of (kptr, optr) \<Rightarrow>
      rbind (obj_get u64_pod (mem_pool mp) kptr) (\<lambda>key.
      rbind (obj_get u64_pod (mem_pool mp) optr) (\<lambda>off.
      rbind (read_submodel (raw (length (models r))) mp off) (\<lambda>sm.
        rx_deserialize_loop raw mp n (i + 1)
          (r\<lparr>model_keys := model_keys r @ [key], models := models r @ [sm]\<rparr>)))))"

definition rx_deserialize :: "(nat \<Rightarrow> te list) \<Rightarrow> rolex \<Rightarrow> remote_mem \<Rightarrow> rolex res" where
  "rx_deserialize raw r rm =
     (let mp = model_allocator rm in
      rbind (obj_get u64_pod (mem_pool mp) (get_total_ptr mp)) (\<lambda>total_size.
        rx_deserialize_loop raw mp (unat total_size) 0 r))"

section \<open>Operations of the memory node\<close>

definition model_for_key :: "rolex \<Rightarrow> u64 \<Rightarrow> usize res" where
  "model_for_key r key =
     rbind (binary_search_branchless (model_keys r) (of_nat (length (model_keys r))) key) (\<lambda>idx.
       Inr (if (scast idx :: u64) < of_nat (length (models r)) then idx
            else ucast (of_nat (length (models r)) - 1 :: u64)))"

definition rx_search :: "rolex \<Rightarrow> remote_mem \<Rightarrow> u64 \<Rightarrow> u64 option res" where
  "rx_search r rm key =
     rbind (model_for_key r key) (\<lambda>i.
     rbind (vec_at (models r) (unat i)) (\<lambda>sm. sm_search sm (leaf_allocator rm) key))"

text \<open>The writing operations store the submodel and the leaf pool back.\<close>

definition on_model ::
    "rolex \<Rightarrow> remote_mem \<Rightarrow> usize \<Rightarrow> (submodel \<Rightarrow> leaf_pool \<Rightarrow> (submodel \<times> leaf_pool \<times> bool) res)
      \<Rightarrow> (rolex \<times> remote_mem \<times> bool) res" where
  "on_model r rm i f =
     rbind (vec_at (models r) (unat i)) (\<lambda>sm.
     rbind (f sm (leaf_allocator rm)) (\<lambda>(sm, lp, ok).
       Inr (r\<lparr>models := (models r)[unat i := sm]\<rparr>, rm\<lparr>leaf_allocator := lp\<rparr>, ok)))"

definition rx_update :: "rolex \<Rightarrow> remote_mem \<Rightarrow> u64 \<Rightarrow> u64 \<Rightarrow> (rolex \<times> remote_mem \<times> bool) res" where
  "rx_update r rm key val =
     rbind (model_for_key r key) (\<lambda>i. on_model r rm i (\<lambda>sm lp. sm_update sm lp key val))"

definition rx_insert :: "rolex \<Rightarrow> remote_mem \<Rightarrow> u64 \<Rightarrow> u64 \<Rightarrow> (rolex \<times> remote_mem \<times> bool) res" where
  "rx_insert r rm key val =
     rbind (model_for_key r key) (\<lambda>i. on_model r rm i (\<lambda>sm lp. sm_insert sm lp key val))"

definition rx_remove :: "rolex \<Rightarrow> remote_mem \<Rightarrow> u64 \<Rightarrow> (rolex \<times> remote_mem \<times> bool) res" where
  "rx_remove r rm key =
     rbind (model_for_key r key) (\<lambda>i. on_model r rm i (\<lambda>sm lp. sm_remove sm lp key))"

text \<open>The second loop of \<open>range\<close>, over the models still to visit.\<close>

fun rx_range_loop :: "remote_mem \<Rightarrow> u64 \<Rightarrow> i32 \<Rightarrow> u64 list \<Rightarrow> submodel list \<Rightarrow> u64 list res" where
  "rx_range_loop rm key n vs [] = Inr vs"
| "rx_range_loop rm key n vs (sm # sms) =
     (if length vs < vec_limit n
      then rbind (sm_range sm (leaf_allocator rm) key n vs) (\<lambda>vs. rx_range_loop rm key n vs sms)
      else Inr vs)"

definition rx_range :: "rolex \<Rightarrow> remote_mem \<Rightarrow> u64 \<Rightarrow> i32 \<Rightarrow> u64 list \<Rightarrow> u64 list res" where
  "rx_range r rm key n vs =
     rbind (model_for_key r key) (\<lambda>i.
     rbind (vec_at (models r) (unat i)) (\<lambda>sm.
     rbind (sm_range sm (leaf_allocator rm) key n vs) (\<lambda>vs.
       rx_range_loop rm key n vs (drop (Suc (unat i)) (models r)))))"

end
