(* ===== verification/Rolex_Storage.thy ===== *)
theory Rolex_Storage
  imports Rolex
begin

text \<open>
  The stored forms of the index: a submodel is restored from its serialization, the index from
  its string and from the model region the training wrote, each time up to the spin locks of
  the leaf tables, which are not part of any stored form.
\<close>

section \<open>Submodels\<close>

definition stored :: "submodel \<Rightarrow> submodel" where
  "stored sm = sm\<lparr>ltable := (ltable sm)\<lparr>csLocks := []\<rparr>\<rparr>"

text \<open>The size headers are \<open>i32\<close>.\<close>

definition fits_i32 :: "submodel \<Rightarrow> bool" where
  "fits_i32 sm \<longleftrightarrow> length (table (ltable sm)) < 2 ^ 28 - 200 \<and> length (SynonymTable (ltable sm)) = 128"

definition lt_bytes :: "leaf_table \<Rightarrow> bytes" where
  "lt_bytes t = to_bytes i32_pod (of_nat (length (table t))) @ te_bytes (table t) @ te_bytes (SynonymTable t)"

definition sm_bytes :: "submodel \<Rightarrow> bytes" where
  "sm_bytes sm = to_bytes u64_pod (slope (model sm)) @ to_bytes u64_pod (intercept (model sm))
     @ to_bytes u64_pod (capacity sm) @ to_bytes i32_pod (of_nat (length (lt_bytes (ltable sm)))) @ lt_bytes (ltable sm)"

lemma length_sm_bytes:
  "fits_i32 sm \<Longrightarrow> length (lt_bytes (ltable sm)) = 4 + 8 * (length (table (ltable sm)) + 128)"
  "length (sm_bytes sm) = 28 + length (lt_bytes (ltable sm))"
  by (simp_all add: fits_i32_def lt_bytes_def sm_bytes_def)

lemma sm_bytes_short: "fits_i32 sm \<Longrightarrow> length (sm_bytes sm) < 2 ^ 31 - 4"
  by (simp add: length_sm_bytes) (simp add: fits_i32_def)

lemma SubModel_serialize_ok: "SubModel_serialize sm = Inr (sm_bytes sm)"
  by (simp add: SubModel_serialize_def lr_serialize_def u64.serialize_to_ok i32.serialize_to_ok lt_serialize_ok
      sm_bytes_def lt_bytes_def)

lemma lr_deserialize_ok:
  "lr_deserialize (to_bytes u64_pod (slope m) @ to_bytes u64_pod (intercept m)) = Inr m"
  by (simp add: lr_deserialize_def u64.deserialize_ok u64.deserialize_whole)

lemma sub_string_ok: "length b < 2 ^ 31 \<Longrightarrow> sub_string (b @ rest) (sint (of_nat (length b) :: i32)) = Inr b"
  by (simp add: sub_string_def sint_of_nat_i32)

lemma scast_of_nat_i32: "n < 2 ^ 31 \<Longrightarrow> (scast (of_nat n :: i32) :: u64) = of_nat n"
  by (metis scast_eq sint_of_nat_i32 of_int_of_nat_eq)

lemma SubModel_deserialize_ok:
  assumes "fits_i32 sm"
  shows "SubModel_deserialize (sm_bytes sm) raw = Inr (stored sm)"
proof -
  let ?l = "lt_bytes (ltable sm)"
  let ?h = "to_bytes i32_pod (of_nat (length ?l))"
  have len: "length (sm_bytes sm) = 28 + length ?l" by (rule length_sm_bytes)
  have short: "length ?l < 2 ^ 31" using sm_bytes_short [OF assms] len by simp
  have t: "take 16 (sm_bytes sm) = to_bytes u64_pod (slope (model sm)) @ to_bytes u64_pod (intercept (model sm))"
    and d: "drop 16 (sm_bytes sm) = to_bytes u64_pod (capacity sm) @ ?h @ ?l"
    and d2: "drop 24 (sm_bytes sm) = ?h @ ?l" and d3: "drop 28 (sm_bytes sm) = ?l"
    by (simp_all add: sm_bytes_def)
  have 1: "deserialize u64_pod (drop 16 (sm_bytes sm)) (length (sm_bytes sm)) = Inr (capacity sm)"
    unfolding d by (rule u64.deserialize_ok) (simp add: len)
  have 2: "deserialize i32_pod (drop 24 (sm_bytes sm)) (length (sm_bytes sm)) = Inr (of_nat (length ?l))"
    unfolding d2 by (rule i32.deserialize_ok) (simp add: len)
  have 3: "sub_string (drop 28 (sm_bytes sm)) (sint (of_nat (length ?l) :: i32)) = Inr ?l"
    unfolding d3 using sub_string_ok [OF short, of "[]"] by simp
  have 4: "of_nat (length (sm_bytes sm)) = (16 + 8 + 4 + scast (of_nat (length ?l) :: i32) :: u64)"
    unfolding len scast_of_nat_i32 [OF short] by simp
  have 5: "lt_deserialize (LeafTable raw) ?l = Inr ((ltable sm)\<lparr>csLocks := []\<rparr>)"
    unfolding lt_bytes_def using assms by (subst lt_deserialize_ok) (simp_all add: fits_i32_def)
  have "28 \<le> length (sm_bytes sm)" by (simp add: len)
  then show ?thesis
    by (simp add: SubModel_deserialize_def t lr_deserialize_ok 1 2 [simplified] 3 4 5 stored_def)
qed

section \<open>The index as a string\<close>

definition stored_rx :: "rolex \<Rightarrow> rolex" where
  "stored_rx r = r\<lparr>models := map stored (models r)\<rparr>"

definition model_bytes :: "u64 \<Rightarrow> submodel \<Rightarrow> bytes" where
  "model_bytes k sm = to_bytes u64_pod k @ to_bytes i32_pod (of_nat (length (sm_bytes sm))) @ sm_bytes sm"

definition rx_bytes :: "u64 list \<Rightarrow> submodel list \<Rightarrow> bytes" where
  "rx_bytes ks sms = concat (map (\<lambda>(k, sm). model_bytes k sm) (zip ks sms))"

lemma rx_bytes_simps [simp]:
  "rx_bytes [] [] = []" "rx_bytes (k # ks) (sm # sms) = model_bytes k sm @ rx_bytes ks sms"
  by (simp_all add: rx_bytes_def)

lemma length_model_bytes: "length (model_bytes k sm) = 12 + length (sm_bytes sm)"
  by (simp add: model_bytes_def)

lemma rx_serialize_loop_ok:
  "length mkeys = length sms \<Longrightarrow> rx_serialize_loop mkeys sms ans = Inr (ans @ rx_bytes mkeys sms)"
proof (induction mkeys sms arbitrary: ans rule: list_induct2')
  case (4 k ks sm sms)
  then show ?case
    by (simp add: u64.serialize_to_ok i32.serialize_to_ok SubModel_serialize_ok model_bytes_def)
qed auto

lemma rx_parse_ok:
  assumes "length ks = length sms" "\<forall>sm \<in> set sms. fits_i32 sm"
  shows "rx_parse raw (pre @ rx_bytes ks sms) (length pre) r
    = Inr (r\<lparr>model_keys := model_keys r @ ks, models := models r @ map stored sms\<rparr>)"
  using assms
proof (induction ks sms arbitrary: pre r rule: list_induct2)
  case Nil
  then show ?case by (subst rx_parse.simps) simp
next
  case (Cons k ks sm sms)
  let ?b = "sm_bytes sm" and ?rest = "rx_bytes ks sms"
  let ?s = "pre @ model_bytes k sm @ ?rest"
  have fits: "fits_i32 sm" "\<forall>sm \<in> set sms. fits_i32 sm" using Cons.prems by simp_all
  have short: "length ?b < 2 ^ 31" using sm_bytes_short [OF fits(1)] by simp
  have len: "length ?s = length pre + 12 + length ?b + length ?rest" by (simp add: length_model_bytes)
  have d: "drop (length pre) ?s = to_bytes u64_pod k @ to_bytes i32_pod (of_nat (length ?b)) @ ?b @ ?rest"
    "drop (length pre + 8) ?s = to_bytes i32_pod (of_nat (length ?b)) @ ?b @ ?rest"
    "drop (length pre + 12) ?s = ?b @ ?rest"
    by (simp_all add: model_bytes_def)
  have 1: "deserialize u64_pod (drop (length pre) ?s) (length ?s) = Inr k"
    unfolding d by (rule u64.deserialize_ok) (simp add: len length_model_bytes)
  have 2: "deserialize i32_pod (drop (length pre + 8) ?s) (length ?s) = Inr (of_nat (length ?b))"
    unfolding d by (rule i32.deserialize_ok) (simp add: len length_model_bytes)
  have 3: "sub_string (drop (length pre + 12) ?s) (sint (of_nat (length ?b) :: i32)) = Inr ?b"
    unfolding d by (rule sub_string_ok [OF short])
  have 4: "length pre + 12 + nat (sint (of_nat (length ?b) :: i32)) = length (pre @ model_bytes k sm)"
    using short by (simp add: sint_of_nat_i32 length_model_bytes)
  have lt: "length pre < length ?s" unfolding len by linarith
  show ?case
    unfolding rx_bytes_simps
    using Cons.IH [OF fits(2), of "pre @ model_bytes k sm"
        "r\<lparr>model_keys := model_keys r @ [k], models := models r @ [stored sm]\<rparr>"]
    by (subst rx_parse.simps) (simp only: lt if_True 1 2 3 4 rbind.simps SubModel_deserialize_ok [OF fits(1)], simp)
qed

text \<open>C21: the constructor from a string restores an index from its serialization, the spin locks
  apart, as long as the \<open>i32\<close> size headers can hold the sizes.\<close>

theorem rolex_string_roundtrip:
  assumes "length (model_keys r) = length (models r)" "models r \<noteq> []" "\<forall>sm \<in> set (models r). fits_i32 sm"
    and "length (rx_bytes (model_keys r) (models r)) < 2 ^ 31"
  shows "\<exists>seria. rx_serialize r = Inr seria \<and> Rolex_of_string raw seria = Inr (stored_rx r)"
proof -
  let ?b = "rx_bytes (model_keys r) (models r)"
  let ?h = "to_bytes i32_pod (of_nat (length ?b))"
  obtain k ks sm sms where "model_keys r = k # ks" "models r = sm # sms"
    using assms(1,2) by (metis length_0_conv list.exhaust)
  then have ne: "0 < length ?b" by (simp add: length_model_bytes)
  have s: "rx_serialize r = Inr (?h @ ?b)"
    by (simp add: rx_serialize_def rx_serialize_loop_ok [OF assms(1)] i32.serialize_to_ok)
  have p: "rx_parse raw (?h @ ?b) 4 Rolex = Inr (stored_rx r)"
    using rx_parse_ok [OF assms(1,3), of raw ?h Rolex] by (simp add: Rolex_def stored_rx_def)
  have "deserialize i32_pod (?h @ ?b) (length (?h @ ?b)) = Inr (of_nat (length ?b))"
    by (rule i32.deserialize_ok) simp
  then have "Rolex_of_string raw (?h @ ?b) = Inr (stored_rx r)"
    using ne p scast_of_nat_i32 [OF assms(4)] by (simp add: Rolex_of_string_def)
  with s show ?thesis by blast
qed

definition ex_rolex :: rolex where
  "ex_rolex = \<lparr>model_keys = [9], models =
     [\<lparr>model = \<lparr>slope = 1, intercept = 2\<rparr>, ltable = example_table, capacity = 3\<rparr>]\<rparr>"

theorem rolex_string_roundtrip_witness:
  "\<exists>seria r'. rx_serialize ex_rolex = Inr seria \<and> Rolex_of_string (\<lambda>_. []) seria = Inr r'
     \<and> model_keys r' = [9] \<and> map capacity (models r') = [3]"
proof -
  let ?sm = "\<lparr>model = \<lparr>slope = 1, intercept = 2\<rparr>, ltable = example_table, capacity = 3\<rparr>"
  have f: "fits_i32 ?sm" by (simp add: fits_i32_def example_table_def)
  have "length (rx_bytes (model_keys ex_rolex) (models ex_rolex)) < 2 ^ 31"
    using length_sm_bytes(1) [OF f] length_sm_bytes(2) [of ?sm]
    by (simp add: ex_rolex_def length_model_bytes example_table_def)
  with f show ?thesis
    using rolex_string_roundtrip [of ex_rolex "\<lambda>_. []"] by (auto simp: ex_rolex_def stored_rx_def stored_def)
qed

end
