(* ===== verification/Rlib_Core.thy ===== *)
theory Rlib_Core
  imports Marshal "HOL-Library.AList"
begin

unbundle bit_operations_syntax

text \<open>
  The common types of RLib (\<^verbatim>\<open>deps/rlib/core\<close>): the result of an IO request
  (\<^verbatim>\<open>result.hh\<close>), the factory that registers resources by name
  (\<^verbatim>\<open>utils/abs_factory.hh\<close>), the permissions of registered memory (\<^verbatim>\<open>rmem/config.hh\<close>), the
  configuration of a queue pair (\<^verbatim>\<open>qps/config.hh\<close>) and the watermarks of outstanding requests
  (\<^verbatim>\<open>qps/mod.hh\<close>).

  The constants of libibverbs are those of its header. A factory is an association list: no
  operation depends on the order of the \<open>std::map\<close> it stands for. Pointers to shared objects
  are the objects' handles, \<open>'v\<close>.
\<close>

section \<open>Results\<close>

datatype io_code = IO_Ok | IO_Err | IO_Timeout | IO_NearOk | IO_NotReady

definition io_code_num :: "io_code \<Rightarrow> u32" where
  "io_code_num c = (case c of IO_Ok \<Rightarrow> 0 | IO_Err \<Rightarrow> 1 | IO_Timeout \<Rightarrow> 2 | IO_NearOk \<Rightarrow> 3 | IO_NotReady \<Rightarrow> 4)"

definition io_code_name :: "io_code \<Rightarrow> string" where
  "io_code_name c = (case c of IO_Ok \<Rightarrow> ''Ok'' | IO_Err \<Rightarrow> ''Err'' | IO_Timeout \<Rightarrow> ''Timeout''
     | IO_NearOk \<Rightarrow> ''NearOk'' | IO_NotReady \<Rightarrow> ''NotReady'')"

record 'd io_result =
  code :: io_code
  desc :: 'd

definition io_ok :: "'d \<Rightarrow> 'd io_result" where "io_ok d = \<lparr>code = IO_Ok, desc = d\<rparr>"
definition io_near_ok :: "'d \<Rightarrow> 'd io_result" where "io_near_ok d = \<lparr>code = IO_NearOk, desc = d\<rparr>"
definition io_err :: "'d \<Rightarrow> 'd io_result" where "io_err d = \<lparr>code = IO_Err, desc = d\<rparr>"
definition io_timeout :: "'d \<Rightarrow> 'd io_result" where "io_timeout d = \<lparr>code = IO_Timeout, desc = d\<rparr>"
definition io_not_ready :: "'d \<Rightarrow> 'd io_result" where "io_not_ready d = \<lparr>code = IO_NotReady, desc = d\<rparr>"

definition io_transfer :: "'a io_result \<Rightarrow> 'b \<Rightarrow> 'b io_result" where
  "io_transfer a d = \<lparr>code = code a, desc = d\<rparr>"

definition io_transfer_raw :: "'a io_result \<Rightarrow> unit io_result" where
  "io_transfer_raw a = \<lparr>code = code a, desc = ()\<rparr>"

lemmas io_result_defs = io_ok_def io_near_ok_def io_err_def io_timeout_def io_not_ready_def
  io_transfer_def io_transfer_raw_def

section \<open>Factories\<close>

type_synonym ('k, 'v) factory = "('k \<times> 'v \<times> u64) list"

text \<open>\<open>generate_key\<close> draws random numbers, \<open>rand()\<close>, until one is not 0; \<open>rnd\<close> is the state of the
  generator, which is code of the C library.\<close>

partial_function (option) generate_key :: "('r \<Rightarrow> u64 \<times> 'r) \<Rightarrow> 'r \<Rightarrow> (u64 \<times> 'r) option" where
  "generate_key rand rnd =
     (case rand rnd of (key, rnd) \<Rightarrow> if key = 0 then generate_key rand rnd else Some (key, rnd))"

definition reg_entries :: "('k, 'v) factory \<Rightarrow> usize" where
  "reg_entries store = of_nat (length store)"

definition fac_reg ::
    "('r \<Rightarrow> u64 \<times> 'r) \<Rightarrow> 'r \<Rightarrow> ('k, 'v) factory \<Rightarrow> 'k \<Rightarrow> 'v \<Rightarrow> ('r \<times> ('k, 'v) factory \<times> u64 option) res" where
  "fac_reg rand rnd store k v =
     (if map_of store k \<noteq> None then Inr (rnd, store, None)
      else rbind (case generate_key rand rnd of None \<Rightarrow> Inl Diverges | Some r \<Rightarrow> Inr r) (\<lambda>(key, rnd).
        Inr (rnd, (k, v, key) # store, Some key)))"

definition fac_query :: "('k, 'v) factory \<Rightarrow> 'k \<Rightarrow> 'v option" where
  "fac_query store k = map_option fst (map_of store k)"

text \<open>The \<open>if (res);\<close> of the code is an empty statement: \<open>res.value()\<close> is returned in any case.\<close>

definition query_or_default :: "('k, 'v) factory \<Rightarrow> 'k \<Rightarrow> 'v \<Rightarrow> 'v res" where
  "query_or_default store k def = opt_value (fac_query store k)"

definition fac_dereg :: "('k, 'v) factory \<Rightarrow> 'k \<Rightarrow> u64 \<Rightarrow> ('k, 'v) factory \<times> 'v option" where
  "fac_dereg store i k =
     (case map_of store i of
        Some (v, key) \<Rightarrow> if key = k then (AList.delete i store, Some v) else (store, None)
      | None \<Rightarrow> (store, None))"

text \<open>\<open>v\<close> is the result of \<open>V::create(args...)\<close>.\<close>

definition create_then_reg ::
    "('r \<Rightarrow> u64 \<times> 'r) \<Rightarrow> 'r \<Rightarrow> ('k, 'v) factory \<Rightarrow> 'k \<Rightarrow> 'v option \<Rightarrow> ('r \<times> ('k, 'v) factory \<times> ('v \<times> u64) option) res" where
  "create_then_reg rand rnd store k v =
     (case v of None \<Rightarrow> Inr (rnd, store, None)
      | Some v \<Rightarrow> rbind (fac_reg rand rnd store k v) (\<lambda>(rnd, store, key).
          Inr (rnd, store, map_option (\<lambda>key. (v, key)) key)))"

section \<open>Permissions of registered memory\<close>

type_synonym cint = i32

definition IBV_ACCESS_LOCAL_WRITE :: cint where "IBV_ACCESS_LOCAL_WRITE = 1"
definition IBV_ACCESS_REMOTE_WRITE :: cint where "IBV_ACCESS_REMOTE_WRITE = 2"
definition IBV_ACCESS_REMOTE_READ :: cint where "IBV_ACCESS_REMOTE_READ = 4"
definition IBV_ACCESS_REMOTE_ATOMIC :: cint where "IBV_ACCESS_REMOTE_ATOMIC = 8"

lemmas ibv_access_defs = IBV_ACCESS_LOCAL_WRITE_def IBV_ACCESS_REMOTE_WRITE_def IBV_ACCESS_REMOTE_READ_def
  IBV_ACCESS_REMOTE_ATOMIC_def

type_synonym memory_flags = cint

definition MemoryFlags :: memory_flags where
  "MemoryFlags = IBV_ACCESS_LOCAL_WRITE OR IBV_ACCESS_REMOTE_READ OR IBV_ACCESS_REMOTE_WRITE OR IBV_ACCESS_REMOTE_ATOMIC"

definition set_flags :: "cint \<Rightarrow> memory_flags \<Rightarrow> memory_flags" where "set_flags flags f = flags"
definition clear_flags :: "memory_flags \<Rightarrow> memory_flags" where "clear_flags f = set_flags 0 f"
definition get_value :: "memory_flags \<Rightarrow> cint" where "get_value f = f"

definition add_local_write :: "memory_flags \<Rightarrow> memory_flags" where
  "add_local_write f = f OR IBV_ACCESS_LOCAL_WRITE"

definition add_remote_write :: "memory_flags \<Rightarrow> memory_flags" where
  "add_remote_write f = add_local_write (f OR IBV_ACCESS_REMOTE_WRITE)"

definition add_remote_read :: "memory_flags \<Rightarrow> memory_flags" where
  "add_remote_read f = f OR IBV_ACCESS_REMOTE_READ"

section \<open>Configuration of a queue pair\<close>

record qp_config =
  access_flags :: cint
  max_rd_atomic :: cint
  max_dest_rd_atomic :: cint
  rq_psn :: cint
  sq_psn :: cint
  qp_timeout :: cint
  max_send_size :: cint
  max_recv_size :: cint
  qkey :: cint

definition kDefaultQKey :: u32 where "kDefaultQKey = 0x111111"
definition kDefaultPSN :: u32 where "kDefaultPSN = 3185"
definition kRcMaxSendSz :: u32 where "kRcMaxSendSz = 128"
definition kRcMaxRecvSz :: u32 where "kRcMaxRecvSz = 2048"

definition QPConfig :: qp_config where
  "QPConfig = \<lparr>access_flags = IBV_ACCESS_REMOTE_WRITE OR IBV_ACCESS_REMOTE_READ OR IBV_ACCESS_REMOTE_ATOMIC,
     max_rd_atomic = 16, max_dest_rd_atomic = 16, rq_psn = kDefaultPSN, sq_psn = kDefaultPSN, qp_timeout = 20,
     max_send_size = kRcMaxSendSz, max_recv_size = kRcMaxRecvSz, qkey = kDefaultQKey\<rparr>"

definition set_access_flags :: "cint \<Rightarrow> qp_config \<Rightarrow> qp_config" where
  "set_access_flags flags c = c\<lparr>access_flags := flags\<rparr>"

definition clear_access_flags :: "qp_config \<Rightarrow> qp_config" where
  "clear_access_flags c = set_access_flags 0 c"

definition set_max_rd_ops :: "cint \<Rightarrow> qp_config \<Rightarrow> qp_config" where
  "set_max_rd_ops max_rd c = c\<lparr>max_dest_rd_atomic := max_rd, max_rd_atomic := max_rd\<rparr>"

definition set_psn :: "cint \<Rightarrow> qp_config \<Rightarrow> qp_config" where
  "set_psn psn c = c\<lparr>sq_psn := psn, rq_psn := psn\<rparr>"

text \<open>\<open>timeout = timeout\<close> assigns the parameter to itself: the member is not changed.\<close>

definition set_timeout :: "cint \<Rightarrow> qp_config \<Rightarrow> qp_config" where
  "set_timeout timeout c = c"

definition set_max_send :: "cint \<Rightarrow> qp_config \<Rightarrow> qp_config" where
  "set_max_send num c = c\<lparr>max_send_size := num\<rparr>"

definition max_send_sz :: "qp_config \<Rightarrow> cint" where "max_send_sz c = max_send_size c"

definition set_max_recv :: "cint \<Rightarrow> qp_config \<Rightarrow> qp_config" where
  "set_max_recv num c = c\<lparr>max_recv_size := num\<rparr>"

definition max_recv_sz :: "qp_config \<Rightarrow> cint" where "max_recv_sz c = max_recv_size c"

definition add_access_write :: "qp_config \<Rightarrow> qp_config" where
  "add_access_write c = c\<lparr>access_flags := access_flags c OR IBV_ACCESS_REMOTE_WRITE\<rparr>"

definition add_access_read :: "qp_config \<Rightarrow> qp_config" where
  "add_access_read c = c\<lparr>access_flags := access_flags c OR IBV_ACCESS_REMOTE_READ\<rparr>"

definition add_access_atomic :: "qp_config \<Rightarrow> qp_config" where
  "add_access_atomic c = c\<lparr>access_flags := access_flags c OR IBV_ACCESS_REMOTE_ATOMIC\<rparr>"

definition set_qkey :: "cint \<Rightarrow> qp_config \<Rightarrow> qp_config" where
  "set_qkey k c = c\<lparr>qkey := k\<rparr>"

definition allow_remote_read :: "qp_config \<Rightarrow> bool" where
  "allow_remote_read c \<longleftrightarrow> access_flags c AND IBV_ACCESS_REMOTE_READ \<noteq> 0"

definition desc_access_flags :: "qp_config \<Rightarrow> string" where
  "desc_access_flags c =
     (let res = ''The access flags of this qp: [ '';
          res = res @ (if access_flags c AND IBV_ACCESS_REMOTE_WRITE \<noteq> 0 then ''remote write,'' else []);
          res = res @ (if access_flags c AND IBV_ACCESS_REMOTE_READ \<noteq> 0 then ''remote read,'' else [])
      in res @ (if access_flags c AND IBV_ACCESS_REMOTE_ATOMIC \<noteq> 0 then ''remote atomic ]'' else '']''))"

section \<open>Watermarks\<close>

definition num_progress_bits :: nat where "num_progress_bits = 2 * 8"

record progress =
  high_watermark :: u16
  low_watermark :: u16

definition Progress :: progress where "Progress = \<lparr>high_watermark = 0, low_watermark = 0\<rparr>"

definition pr_forward :: "progress \<Rightarrow> u16 \<Rightarrow> progress \<times> u16" where
  "pr_forward p num = (let h = high_watermark p + num in (p\<lparr>high_watermark := h\<rparr>, h))"

text \<open>The parameter of \<open>done\<close> is an \<open>int\<close>.\<close>

definition pr_done :: "progress \<Rightarrow> cint \<Rightarrow> progress" where
  "pr_done p num = p\<lparr>low_watermark := ucast num\<rparr>"

text \<open>The arithmetic of the wrapped case is in \<open>int\<close>, the result is converted back.\<close>

definition pending_reqs :: "progress \<Rightarrow> u16" where
  "pending_reqs p =
     (if high_watermark p \<ge> low_watermark p then high_watermark p - low_watermark p
      else of_int (65535 - (uint (low_watermark p) - uint (high_watermark p)) + 1))"

section \<open>Properties\<close>

lemma generate_key_now: "rand rnd = (key, rnd') \<Longrightarrow> key \<noteq> 0 \<Longrightarrow> generate_key rand rnd = Some (key, rnd')"
  by (subst generate_key.simps) simp

lemma generate_key_nonzero:
  assumes "generate_key rand rnd = Some r"
  shows "fst r \<noteq> 0"
  by (rule generate_key.raw_induct [where P = "\<lambda>_ _ r. fst r \<noteq> 0", OF _ assms]) (auto split: prod.splits if_splits)

text \<open>C25: registering a name never replaces an entry, and returns a key that is not 0; exactly with
  that key the entry can be removed again, which restores what every name is bound to.\<close>

theorem factory_reg_correct:
  assumes "fac_reg rand rnd store k v = Inr (rnd', store', r)"
  shows "case r of
      None \<Rightarrow> fac_query store k \<noteq> None \<and> store' = store
    | Some key \<Rightarrow> key \<noteq> 0 \<and> fac_query store k = None \<and> fac_query store' = (fac_query store)(k \<mapsto> v)
        \<and> (case fac_dereg store' k key of (store'', w) \<Rightarrow> w = Some v \<and> fac_query store'' = fac_query store)
        \<and> (\<forall>key'. key' \<noteq> key \<longrightarrow> fac_dereg store' k key' = (store', None))"
proof (cases r)
  case None
  then show ?thesis using assms by (auto simp: fac_reg_def fac_query_def res_iff split: if_splits)
next
  case (Some key)
  have none: "map_of store k = None" using assms Some by (cases "map_of store k") (auto simp: fac_reg_def)
  then have "generate_key rand rnd = Some (key, rnd')" "store' = (k, v, key) # store"
    using assms Some by (auto simp: fac_reg_def res_iff split: option.splits)
  note new = none this
  then have "AList.delete k store = store" by (simp add: delete_idem map_of_eq_None_iff)
  then have "fac_dereg store' k key = (store, Some v)" using new(3) by (simp add: fac_dereg_def)
  moreover have "key \<noteq> 0" using generate_key_nonzero [OF new(2)] by simp
  ultimately show ?thesis using new Some by (auto simp: fac_query_def fac_dereg_def)
qed

theorem factory_reg_correct_witness:
  "\<exists>store. fac_reg (\<lambda>n. (n, n + 1)) 7 [] ''qp'' (3 :: nat) = Inr (8, store, Some 7)
     \<and> fac_query store ''qp'' = Some 3 \<and> fac_dereg store ''qp'' 8 = (store, None)"
proof -
  have r: "fac_reg (\<lambda>n. (n, n + 1)) 7 [] ''qp'' (3 :: nat) = Inr (8, [(''qp'', 3, 7)], Some 7)"
    by (simp add: fac_reg_def generate_key_now)
  show ?thesis using factory_reg_correct [OF r] r by auto
qed

text \<open>The number of requests between the two watermarks, also after the counter wrapped.\<close>

lemma pending_reqs_diff: "pending_reqs p = high_watermark p - low_watermark p"
proof (cases "high_watermark p \<ge> low_watermark p")
  case False
  have "(of_int (65535 - (uint (low_watermark p) - uint (high_watermark p)) + 1) :: u16)
      = 65535 - (low_watermark p - high_watermark p) + 1"
    by simp
  also have "\<dots> = 65535 + 1 + (high_watermark p - low_watermark p)" by (simp only: algebra_simps)
  also have "(65535 + 1 :: u16) = 0" by code_simp
  finally show ?thesis using False by (simp add: pending_reqs_def)
qed (simp add: pending_reqs_def)

end
