(* ===== verification/Verbs.thy ===== *)
theory Verbs
  imports Rlib_Core
begin

text \<open>
  The wrapper of RLib around libibverbs: devices (\<^verbatim>\<open>nic.hh\<close>, \<^verbatim>\<open>nicinfo.hh\<close>), registered
  memory (\<^verbatim>\<open>rmem/mem.hh\<close>, \<^verbatim>\<open>rmem/handler.hh\<close>) and the calls that create a queue pair and take it
  through its states (\<^verbatim>\<open>qps/impl.hh\<close>).

  libibverbs, the network cards and the other machines are a parameter: a value of type
  \<open>'n verbs\<close>, functions on a state \<open>'n\<close>. Objects of the library are numbers, a null pointer is
  \<open>None\<close>; a failing call leaves the text of \<open>strerror(errno)\<close> in the state. Time is a call too.
\<close>

section \<open>Types of libibverbs\<close>

datatype qp_state = QPS_RESET | QPS_INIT | QPS_RTR | QPS_RTS | QPS_OTHER
datatype qp_type = QPT_RC | QPT_UC | QPT_UD | QPT_OTHER
datatype wr_opcode = WR_RDMA_WRITE | WR_RDMA_WRITE_WITH_IMM | WR_SEND | WR_SEND_WITH_IMM | WR_RDMA_READ
  | WR_ATOMIC_CMP_AND_SWP | WR_ATOMIC_FETCH_AND_ADD

definition IBV_SEND_SIGNALED :: u32 where "IBV_SEND_SIGNALED = 2"
definition IBV_SEND_INLINE :: u32 where "IBV_SEND_INLINE = 8"

definition IBV_QP_STATE :: cint where "IBV_QP_STATE = push_bit 0 1"
definition IBV_QP_ACCESS_FLAGS :: cint where "IBV_QP_ACCESS_FLAGS = push_bit 3 1"
definition IBV_QP_PKEY_INDEX :: cint where "IBV_QP_PKEY_INDEX = push_bit 4 1"
definition IBV_QP_PORT :: cint where "IBV_QP_PORT = push_bit 5 1"
definition IBV_QP_QKEY :: cint where "IBV_QP_QKEY = push_bit 6 1"
definition IBV_QP_AV :: cint where "IBV_QP_AV = push_bit 7 1"
definition IBV_QP_PATH_MTU :: cint where "IBV_QP_PATH_MTU = push_bit 8 1"
definition IBV_QP_TIMEOUT :: cint where "IBV_QP_TIMEOUT = push_bit 9 1"
definition IBV_QP_RETRY_CNT :: cint where "IBV_QP_RETRY_CNT = push_bit 10 1"
definition IBV_QP_RNR_RETRY :: cint where "IBV_QP_RNR_RETRY = push_bit 11 1"
definition IBV_QP_RQ_PSN :: cint where "IBV_QP_RQ_PSN = push_bit 12 1"
definition IBV_QP_MAX_QP_RD_ATOMIC :: cint where "IBV_QP_MAX_QP_RD_ATOMIC = push_bit 13 1"
definition IBV_QP_MIN_RNR_TIMER :: cint where "IBV_QP_MIN_RNR_TIMER = push_bit 15 1"
definition IBV_QP_SQ_PSN :: cint where "IBV_QP_SQ_PSN = push_bit 16 1"
definition IBV_QP_MAX_DEST_RD_ATOMIC :: cint where "IBV_QP_MAX_DEST_RD_ATOMIC = push_bit 17 1"
definition IBV_QP_DEST_QPN :: cint where "IBV_QP_DEST_QPN = push_bit 20 1"

record sge =
  sge_addr :: u64
  sge_length :: u32
  sge_lkey :: u32

text \<open>A send request. \<open>wr.rdma\<close> and \<open>wr.atomic\<close> share memory: the address, then a word that is
  \<open>compare_add\<close> and whose lower half is \<open>rdma.rkey\<close>. \<open>s_next\<close> is the position of the next
  request where the caller keeps its requests.\<close>

record send_wr =
  s_wr_id :: u64
  s_next :: "nat option"
  s_sges :: "sge list"
  s_opcode :: wr_opcode
  s_flags :: u32
  s_imm :: u32
  s_remote_addr :: u64
  s_word8 :: u64
  s_swap :: u64
  s_atomic_rkey :: u32
  s_ah :: "nat option"
  s_remote_qpn :: u32
  s_remote_qkey :: u32

definition rdma_rkey :: "send_wr \<Rightarrow> u32" where "rdma_rkey w = ucast (s_word8 w)"

definition set_rdma_rkey :: "u32 \<Rightarrow> send_wr \<Rightarrow> send_wr" where
  "set_rdma_rkey rk w = w\<lparr>s_word8 := push_bit 32 (drop_bit 32 (s_word8 w)) OR ucast rk\<rparr>"

record recv_wr =
  r_wr_id :: u64
  r_next :: "nat option"
  r_sge :: sge

record wc =
  wc_wr_id :: u64
  wc_success :: bool
  wc_imm_data :: u32
  wc_byte_len :: u32

record raddress =
  subnet_prefix :: u64
  interface_id :: u64
  local_id :: u32

record ah_attr =
  is_global :: u8
  dlid :: u16
  sl :: u8
  src_path_bits :: u8
  port_num :: u8
  dgid_subnet_prefix :: u64
  dgid_interface_id :: u64
  flow_label :: u32
  hop_limit :: u8
  sgid_index :: u8

record ib_qp_attr =
  a_qp_state :: qp_state
  a_pkey_index :: u16
  a_port_num :: u8
  a_qp_access_flags :: cint
  a_qkey :: u32
  a_path_mtu :: nat
  a_dest_qp_num :: u32
  a_rq_psn :: u32
  a_sq_psn :: u32
  a_max_dest_rd_atomic :: u8
  a_max_rd_atomic :: u8
  a_min_rnr_timer :: u8
  a_timeout :: u8
  a_retry_cnt :: u8
  a_rnr_retry :: u8
  a_ah_attr :: ah_attr

definition zero_ah_attr :: ah_attr where
  "zero_ah_attr = \<lparr>is_global = 0, dlid = 0, sl = 0, src_path_bits = 0, port_num = 0, dgid_subnet_prefix = 0,
     dgid_interface_id = 0, flow_label = 0, hop_limit = 0, sgid_index = 0\<rparr>"

definition zero_qp_attr :: ib_qp_attr where
  "zero_qp_attr = \<lparr>a_qp_state = QPS_RESET, a_pkey_index = 0, a_port_num = 0, a_qp_access_flags = 0, a_qkey = 0,
     a_path_mtu = 0, a_dest_qp_num = 0, a_rq_psn = 0, a_sq_psn = 0, a_max_dest_rd_atomic = 0, a_max_rd_atomic = 0,
     a_min_rnr_timer = 0, a_timeout = 0, a_retry_cnt = 0, a_rnr_retry = 0, a_ah_attr = zero_ah_attr\<rparr>"

record qp_init_attr =
  i_send_cq :: nat
  i_recv_cq :: nat
  i_qp_type :: qp_type
  i_sq_sig_all :: cint
  i_max_send_wr :: u32
  i_max_recv_wr :: u32
  i_max_send_sge :: u32
  i_max_recv_sge :: u32
  i_max_inline_data :: u32

record port_attr =
  p_lid :: u16
  p_active :: bool
  p_state_str :: string

text \<open>The library. \<open>v_poll_cq cq n\<close> returns the count and the completions it wrote.\<close>

record 'n verbs =
  v_strerror :: "'n \<Rightarrow> string"
  v_errno :: "'n \<Rightarrow> cint"
  v_num_devices :: "'n \<Rightarrow> nat"
  v_open_device :: "nat \<Rightarrow> 'n \<Rightarrow> nat option \<times> 'n"
  v_close_device :: "nat \<Rightarrow> 'n \<Rightarrow> 'n"
  v_alloc_pd :: "nat \<Rightarrow> 'n \<Rightarrow> nat option \<times> 'n"
  v_dealloc_pd :: "nat \<Rightarrow> 'n \<Rightarrow> 'n"
  v_query_port :: "nat \<Rightarrow> usize \<Rightarrow> 'n \<Rightarrow> cint \<times> port_attr"
  v_query_gid :: "nat \<Rightarrow> usize \<Rightarrow> u8 \<Rightarrow> 'n \<Rightarrow> u64 \<times> u64"
  v_query_device :: "nat \<Rightarrow> 'n \<Rightarrow> cint \<times> u8"
  v_reg_mr :: "nat \<Rightarrow> u64 \<Rightarrow> u64 \<Rightarrow> cint \<Rightarrow> 'n \<Rightarrow> (nat \<times> u32 \<times> u32) option \<times> 'n"
  v_create_cq :: "nat \<Rightarrow> cint \<Rightarrow> 'n \<Rightarrow> nat option \<times> 'n"
  v_create_qp :: "nat \<Rightarrow> qp_init_attr \<Rightarrow> 'n \<Rightarrow> nat option \<times> 'n"
  v_destroy_qp :: "nat \<Rightarrow> 'n \<Rightarrow> cint \<times> 'n"
  v_qp_type :: "nat \<Rightarrow> 'n \<Rightarrow> qp_type"
  v_qp_num :: "nat \<Rightarrow> 'n \<Rightarrow> u32"
  v_modify_qp :: "nat \<Rightarrow> ib_qp_attr \<Rightarrow> cint \<Rightarrow> 'n \<Rightarrow> cint \<times> 'n"
  v_query_qp :: "nat \<Rightarrow> 'n \<Rightarrow> cint \<times> qp_state"
  v_create_ah :: "nat \<Rightarrow> ah_attr \<Rightarrow> 'n \<Rightarrow> nat option \<times> 'n"
  v_post_send :: "nat \<Rightarrow> send_wr list \<Rightarrow> 'n \<Rightarrow> cint \<times> 'n"
  v_post_recv :: "nat \<Rightarrow> recv_wr list \<Rightarrow> 'n \<Rightarrow> cint \<times> 'n"
  v_poll_cq :: "nat \<Rightarrow> nat \<Rightarrow> 'n \<Rightarrow> (int \<times> wc list) \<times> 'n"
  v_clock :: "'n \<Rightarrow> 64 word \<times> 'n"

section \<open>Devices\<close>

record dev_idx =
  dev_id :: usize
  port_id :: usize

record rnic =
  nic_ctx :: "nat option"
  nic_pd :: "nat option"
  nic_id :: dev_idx
  nic_addr :: "raddress option"
  nic_lid :: "u64 option"

definition open_device :: "'n verbs \<Rightarrow> dev_idx \<Rightarrow> 'n \<Rightarrow> nat option \<times> 'n" where
  "open_device V idx n =
     (if unat (dev_id idx) \<ge> v_num_devices V n then (None, n) else v_open_device V (unat (dev_id idx)) n)"

definition alloc_pd :: "'n verbs \<Rightarrow> nat option \<Rightarrow> 'n \<Rightarrow> nat option \<times> 'n" where
  "alloc_pd V ctx n = (case ctx of None \<Rightarrow> (None, n) | Some c \<Rightarrow> v_alloc_pd V c n)"

definition fetch_lid :: "'n verbs \<Rightarrow> nat option \<Rightarrow> nat option \<Rightarrow> dev_idx \<Rightarrow> 'n \<Rightarrow> u64 option" where
  "fetch_lid V ctx pd idx n =
     (case (ctx, pd) of (Some c, Some _) \<Rightarrow>
        (case v_query_port V c (port_id idx) n of (rc, attr) \<Rightarrow> if rc = 0 then Some (ucast (p_lid attr)) else None)
      | _ \<Rightarrow> None)"

definition query_addr :: "'n verbs \<Rightarrow> nat option \<Rightarrow> nat option \<Rightarrow> dev_idx \<Rightarrow> u8 \<Rightarrow> 'n \<Rightarrow> raddress option" where
  "query_addr V ctx pd idx gid_index n =
     (case (ctx, pd) of (Some c, Some _) \<Rightarrow>
        (case v_query_gid V c (port_id idx) gid_index n of (prefix, iid) \<Rightarrow>
           Some \<lparr>subnet_prefix = prefix, interface_id = iid, local_id = ucast gid_index\<rparr>)
      | _ \<Rightarrow> None)"

definition RNic :: "'n verbs \<Rightarrow> dev_idx \<Rightarrow> u8 \<Rightarrow> 'n \<Rightarrow> rnic \<times> 'n" where
  "RNic V idx gid n =
     (case open_device V idx n of (ctx, n) \<Rightarrow>
      case alloc_pd V ctx n of (pd, n) \<Rightarrow>
        (\<lparr>nic_ctx = ctx, nic_pd = pd, nic_id = idx, nic_addr = query_addr V ctx pd idx gid n,
          nic_lid = fetch_lid V ctx pd idx n\<rparr>, n))"

definition nic_valid :: "rnic \<Rightarrow> bool" where
  "nic_valid nic \<longleftrightarrow> nic_ctx nic \<noteq> None \<and> nic_pd nic \<noteq> None"

definition RNic_destroy :: "'n verbs \<Rightarrow> rnic \<Rightarrow> 'n \<Rightarrow> 'n" where
  "RNic_destroy V nic n =
     (let n = (case nic_pd nic of None \<Rightarrow> n | Some pd \<Rightarrow> v_dealloc_pd V pd n)
      in case nic_ctx nic of None \<Rightarrow> n | Some ctx \<Rightarrow> v_close_device V ctx n)"

definition RNic_create :: "'n verbs \<Rightarrow> dev_idx \<Rightarrow> u8 \<Rightarrow> 'n \<Rightarrow> rnic option \<times> 'n" where
  "RNic_create V idx gid n =
     (case RNic V idx gid n of (nic, n) \<Rightarrow> if nic_valid nic then (Some nic, n) else (None, RNic_destroy V nic n))"

definition nic_is_active :: "'n verbs \<Rightarrow> rnic \<Rightarrow> 'n \<Rightarrow> string io_result" where
  "nic_is_active V nic n =
     (case (nic_ctx nic, nic_pd nic) of (Some c, Some _) \<Rightarrow>
        (case v_query_port V c (port_id (nic_id nic)) n of (rc, attr) \<Rightarrow>
           if rc = 0 \<and> p_active attr then io_ok []
           else if rc = 0 \<and> \<not> p_active attr then io_err (p_state_str attr)
           else io_err (v_strerror V n))
      | _ \<Rightarrow> io_err ''Context is not valid.'')"

text \<open>\<open>RNicInfo::query_dev_names\<close>: the indices of all ports of the devices from \<open>i\<close> on.\<close>

fun query_devs :: "'n verbs \<Rightarrow> nat \<Rightarrow> nat \<Rightarrow> dev_idx list \<Rightarrow> 'n \<Rightarrow> (dev_idx list \<times> 'n) res" where
  "query_devs V 0 i acc n = Inr (acc, n)"
| "query_devs V (Suc k) i acc n =
     (case RNic V \<lparr>dev_id = of_nat i, port_id = 73\<rparr> 0 n of (nic, n) \<Rightarrow>
      case (nic_ctx nic, nic_pd nic) of (Some c, Some _) \<Rightarrow>
        (case v_query_device V c n of (rc, cnt) \<Rightarrow>
           query_devs V k (Suc i)
             (if rc \<noteq> 0 then acc
              else acc @ map (\<lambda>p. \<lparr>dev_id = of_nat i, port_id = of_nat p\<rparr>) [1..<Suc (unat cnt)])
             (RNic_destroy V nic n))
      | _ \<Rightarrow> Inl AssertFailed)"

definition query_dev_names :: "'n verbs \<Rightarrow> 'n \<Rightarrow> (dev_idx list \<times> 'n) res" where
  "query_dev_names V n = query_devs V (v_num_devices V n) 0 [] n"

section \<open>Registered memory\<close>

text \<open>\<open>raw_ptr\<close> is the result of the allocation function; 0 is the null pointer.\<close>

record rmem =
  raw_ptr :: u64
  rmem_sz :: u64

definition RMem :: "u64 \<Rightarrow> (u64 \<Rightarrow> u64) \<Rightarrow> rmem" where
  "RMem s af = \<lparr>raw_ptr = af s, rmem_sz = s\<rparr>"

definition rmem_valid :: "rmem \<Rightarrow> bool" where
  "rmem_valid m \<longleftrightarrow> raw_ptr m \<noteq> 0"

record reg_attr =
  attr_buf :: u64
  attr_sz :: u64
  attr_key :: u32
  attr_lkey :: u32

record reg_handler =
  h_mr :: "(nat \<times> u32 \<times> u32) option"
  h_nic :: rnic
  h_rmem :: rmem

definition RegHandler :: "'n verbs \<Rightarrow> rmem \<Rightarrow> rnic \<Rightarrow> memory_flags \<Rightarrow> 'n \<Rightarrow> reg_handler \<times> 'n" where
  "RegHandler V mem nic flags n =
     (case (nic_ctx nic, nic_pd nic) of (Some _, Some pd) \<Rightarrow>
        (case v_reg_mr V pd (raw_ptr mem) (rmem_sz mem) (get_value flags) n of (mr, n) \<Rightarrow>
           (\<lparr>h_mr = mr, h_nic = nic, h_rmem = mem\<rparr>, n))
      | _ \<Rightarrow> (\<lparr>h_mr = None, h_nic = nic, h_rmem = mem\<rparr>, n))"

definition h_valid :: "reg_handler \<Rightarrow> bool" where
  "h_valid h \<longleftrightarrow> h_mr h \<noteq> None"

definition RegHandler_create :: "'n verbs \<Rightarrow> rmem \<Rightarrow> rnic \<Rightarrow> memory_flags \<Rightarrow> 'n \<Rightarrow> reg_handler option \<times> 'n" where
  "RegHandler_create V mem nic flags n =
     (case RegHandler V mem nic flags n of (h, n) \<Rightarrow> (if h_valid h then Some h else None, n))"

definition get_reg_attr :: "reg_handler \<Rightarrow> reg_attr option" where
  "get_reg_attr h =
     (case h_mr h of None \<Rightarrow> None
      | Some (_, lkey, rkey) \<Rightarrow>
          Some \<lparr>attr_buf = raw_ptr (h_rmem h), attr_sz = rmem_sz (h_rmem h), attr_key = rkey, attr_lkey = lkey\<rparr>)"

end
