(* ===== verification/Rlib_QP.thy ===== *)
theory Rlib_QP
  imports Complex_Main Verbs Machine_Float "HOL-Library.Signed_Division"
begin

text \<open>
  The queue pairs of RLib: the calls of \<^verbatim>\<open>qps/impl.hh\<close>, what reliable and unreliable pairs share
  (\<^verbatim>\<open>qps/mod.hh\<close>), reliable connections (\<^verbatim>\<open>qps/rc.hh\<close>) and unreliable datagrams (\<^verbatim>\<open>qps/ud.hh\<close>).
  Every call threads the state \<open>'n\<close> of the library. Log messages are left out.
\<close>

section \<open>Calls of libibverbs\<close>

definition kMaxInlinSz :: u32 where "kMaxInlinSz = 64"

definition bring_qp_to_init :: "'n verbs \<Rightarrow> nat option \<Rightarrow> qp_config \<Rightarrow> rnic \<Rightarrow> 'n \<Rightarrow> (string io_result \<times> 'n) res" where
  "bring_qp_to_init V qp config nic n =
     (case qp of None \<Rightarrow> Inl AssertFailed
      | Some q \<Rightarrow>
          let attr = zero_qp_attr\<lparr>a_qp_state := QPS_INIT, a_pkey_index := 0, a_port_num := ucast (port_id (nic_id nic))\<rparr>;
              flags = IBV_QP_STATE OR IBV_QP_PKEY_INDEX OR IBV_QP_PORT
          in rbind (case v_qp_type V q n of
                 QPT_RC \<Rightarrow> Inr (attr\<lparr>a_qp_access_flags := access_flags config\<rparr>, flags OR IBV_QP_ACCESS_FLAGS)
               | QPT_UD \<Rightarrow> Inr (attr\<lparr>a_qkey := qkey config\<rparr>, flags OR IBV_QP_QKEY)
               | _ \<Rightarrow> Inl AssertFailed) (\<lambda>(attr, flags).
             case v_modify_qp V q attr flags n of (rc, n) \<Rightarrow>
               Inr (if rc \<noteq> 0 then io_err (v_strerror V n) else io_ok [], n)))"

record qp_attr =
  q_addr :: raddress
  q_lid :: u64
  q_psn :: u64
  q_port_id :: u64
  q_qpn :: u64
  q_qkey :: u64

definition bring_rc_to_rcv :: "'n verbs \<Rightarrow> nat \<Rightarrow> qp_config \<Rightarrow> qp_attr \<Rightarrow> cint \<Rightarrow> 'n \<Rightarrow> string io_result \<times> 'n" where
  "bring_rc_to_rcv V qp config attr pid n =
     (let ah = zero_ah_attr\<lparr>dlid := ucast (q_lid attr), sl := 0, src_path_bits := 0, port_num := ucast pid,
                 is_global := 1, dgid_subnet_prefix := subnet_prefix (q_addr attr),
                 dgid_interface_id := interface_id (q_addr attr), sgid_index := 0, flow_label := 0, hop_limit := 255\<rparr>;
          a = zero_qp_attr\<lparr>a_qp_state := QPS_RTR, a_path_mtu := 4096, a_dest_qp_num := ucast (q_qpn attr),
                a_rq_psn := rq_psn config, a_max_dest_rd_atomic := ucast (max_dest_rd_atomic config),
                a_min_rnr_timer := 20, a_ah_attr := ah\<rparr>;
          flags = IBV_QP_STATE OR IBV_QP_AV OR IBV_QP_PATH_MTU OR IBV_QP_DEST_QPN OR IBV_QP_RQ_PSN
                OR IBV_QP_MAX_DEST_RD_ATOMIC OR IBV_QP_MIN_RNR_TIMER
      in case v_modify_qp V qp a flags n of (rc, n) \<Rightarrow>
           (if rc \<noteq> 0 then io_err (v_strerror V n) else io_ok [], n))"

definition bring_rc_to_send :: "'n verbs \<Rightarrow> nat \<Rightarrow> qp_config \<Rightarrow> 'n \<Rightarrow> string io_result \<times> 'n" where
  "bring_rc_to_send V qp config n =
     (let a = zero_qp_attr\<lparr>a_qp_state := QPS_RTS, a_sq_psn := sq_psn config, a_timeout := ucast (qp_timeout config),
                a_retry_cnt := 7, a_rnr_retry := 7, a_max_rd_atomic := ucast (max_rd_atomic config),
                a_max_dest_rd_atomic := ucast (max_dest_rd_atomic config)\<rparr>;
          flags = IBV_QP_STATE OR IBV_QP_SQ_PSN OR IBV_QP_TIMEOUT OR IBV_QP_RETRY_CNT OR IBV_QP_RNR_RETRY
                OR IBV_QP_MAX_QP_RD_ATOMIC
      in case v_modify_qp V qp a flags n of (rc, n) \<Rightarrow>
           (if rc \<noteq> 0 then io_err (v_strerror V n) else io_ok [], n))"

definition create_cq :: "'n verbs \<Rightarrow> rnic \<Rightarrow> cint \<Rightarrow> 'n \<Rightarrow> ((nat option \<times> string) io_result \<times> 'n) res" where
  "create_cq V nic cq_sz n =
     (case nic_ctx nic of None \<Rightarrow> Inl UB
      | Some ctx \<Rightarrow> (case v_create_cq V ctx cq_sz n of (ccq, n) \<Rightarrow>
          Inr (case ccq of None \<Rightarrow> io_err (None, v_strerror V n) | Some c \<Rightarrow> io_ok (Some c, []), n)))"

definition create_qp ::
    "'n verbs \<Rightarrow> rnic \<Rightarrow> qp_type \<Rightarrow> qp_config \<Rightarrow> nat option \<Rightarrow> nat option \<Rightarrow> 'n
      \<Rightarrow> ((nat option \<times> string) io_result \<times> 'n) res" where
  "create_qp V nic type config cq recv_cq n =
     (case cq of None \<Rightarrow> Inr (io_err (None, ''CQ passed in as null''), n)
      | Some c \<Rightarrow>
          let rcq = (case recv_cq of None \<Rightarrow> c | Some r \<Rightarrow> r);
              a = \<lparr>i_send_cq = c, i_recv_cq = rcq, i_qp_type = type, i_sq_sig_all = 0,
                   i_max_send_wr = max_send_sz config, i_max_recv_wr = max_recv_sz config, i_max_send_sge = 1,
                   i_max_recv_sge = 1, i_max_inline_data = kMaxInlinSz\<rparr>
          in case nic_pd nic of None \<Rightarrow> Inl UB
             | Some pd \<Rightarrow> (case v_create_qp V pd a n of (qp, n) \<Rightarrow>
                 Inr (case qp of None \<Rightarrow> io_err (None, v_strerror V n) | Some q \<Rightarrow> io_ok (Some q, []), n)))"

section \<open>Receive entries\<close>

text \<open>\<open>N\<close> receive requests that link to one another in a ring, with the entry to post next.\<close>

record recv_entries =
  re_rs :: "recv_wr list"
  re_wcs :: "wc list"
  re_header :: nat

text \<open>\<open>alloc\<close> is \<open>alloc_one(sz)\<close> of the allocator: the address and the key of a buffer.\<close>

fun recv_create :: "('a \<Rightarrow> (u64 \<times> u32) option \<times> 'a) \<Rightarrow> u32 \<Rightarrow> nat \<Rightarrow> nat \<Rightarrow> recv_wr list \<Rightarrow> 'a \<Rightarrow> (recv_wr list \<times> 'a) res" where
  "recv_create alloc entry_sz N 0 rs a = Inr (rs, a)"
| "recv_create alloc entry_sz N (Suc k) rs a =
     (case alloc a of (recv_buf, a) \<Rightarrow>
      rbind (opt_value recv_buf) (\<lambda>(addr, lkey).
        let i = length rs in
        recv_create alloc entry_sz N k
          (rs @ [\<lparr>r_wr_id = addr, r_next = Some (if i < N - 1 then i + 1 else 0),
                  r_sge = \<lparr>sge_addr = addr, sge_length = entry_sz, sge_lkey = lkey\<rparr>\<rparr>]) a))"

definition RecvEntries_create :: "('a \<Rightarrow> (u64 \<times> u32) option \<times> 'a) \<Rightarrow> u32 \<Rightarrow> nat \<Rightarrow> wc list \<Rightarrow> 'a \<Rightarrow> (recv_entries \<times> 'a) res" where
  "RecvEntries_create alloc entry_sz N wcs a =
     rbind (recv_create alloc entry_sz N N [] a) (\<lambda>(rs, a). Inr (\<lparr>re_rs = rs, re_wcs = wcs, re_header = 0\<rparr>, a))"

text \<open>The chain of requests from position \<open>i\<close> along \<open>next\<close>, up to a null pointer. A cyclic chain
  never ends: the driver would walk it for ever.\<close>

partial_function (option) recv_chain :: "recv_wr list \<Rightarrow> nat option \<Rightarrow> recv_wr list option" where
  "recv_chain rs i =
     (case i of None \<Rightarrow> Some []
      | Some i \<Rightarrow> Option.bind (recv_chain rs (r_next (rs ! i))) (\<lambda>ws. Some (rs ! i # ws)))"

section \<open>What all queue pairs share\<close>

record qp =
  qp_qp :: "nat option"
  qp_cq :: "nat option"
  qp_recv_cq :: "nat option"
  out_signaled :: usize
  qp_nic :: rnic

definition qp_valid :: "'a qp_scheme \<Rightarrow> bool" where
  "qp_valid q \<longleftrightarrow> qp_qp q \<noteq> None \<and> qp_cq q \<noteq> None"

definition ongoing_signaled :: "'a qp_scheme \<Rightarrow> usize" where
  "ongoing_signaled q = out_signaled q"

definition the_handle :: "nat option \<Rightarrow> nat res" where
  "the_handle h = (case h of None \<Rightarrow> Inl UB | Some i \<Rightarrow> Inr i)"

definition qp_send :: "'n verbs \<Rightarrow> 'a qp_scheme \<Rightarrow> send_wr list \<Rightarrow> 'n \<Rightarrow> (cint io_result \<times> 'n) res" where
  "qp_send V q sr n =
     rbind (the_handle (qp_qp q)) (\<lambda>h.
       case v_post_send V h sr n of (rc, n) \<Rightarrow> Inr (if rc = 0 then io_ok 0 else io_err (v_errno V n), n))"

text \<open>The completion is uninitialised, \<open>raw\<close>, when none was polled.\<close>

definition poll_send_comp :: "'n verbs \<Rightarrow> wc \<Rightarrow> 'a qp_scheme \<Rightarrow> 'n \<Rightarrow> (int \<times> wc \<times> 'a qp_scheme \<times> 'n) res" where
  "poll_send_comp V raw q n =
     rbind (the_handle (qp_cq q)) (\<lambda>c.
       case v_poll_cq V c 1 n of ((cnt, wcs), n) \<Rightarrow>
         Inr (cnt, if wcs = [] then raw else hd wcs,
              if cnt > 0 then q\<lparr>out_signaled := out_signaled q - 1\<rparr> else q, n))"

text \<open>The clock is \<open>steady_clock\<close>: a signed 64-bit count of nanoseconds (\<open>v_clock\<close>). The time
  passed since \<open>t\<close> is the difference, truncated to microseconds and converted to \<open>double\<close>
  (\<open>passed_msec\<close> despite its name); timeouts are microseconds too, \<open>no_timeout\<close> is the largest
  \<open>double\<close>.\<close>

definition no_timeout :: rat where "no_timeout = 2 ^ 1024 - 2 ^ 971"

definition passed_msec :: "'n verbs \<Rightarrow> 64 word \<Rightarrow> 'n \<Rightarrow> (rat \<times> 'n) res" where
  "passed_msec V t n =
     (case v_clock V n of (now, n) \<Rightarrow>
        let elapsed = sint now - sint t in
        if elapsed < - (2 ^ 63) \<or> 2 ^ 63 \<le> elapsed then Inl UB
        else case dround (of_int (elapsed sdiv 1000)) of None \<Rightarrow> Inl UB | Some d \<Rightarrow> Inr (d, n))"

partial_function (option) wait_comp_loop ::
    "'n verbs \<Rightarrow> wc \<Rightarrow> 64 word \<Rightarrow> rat \<Rightarrow> 'a qp_scheme \<Rightarrow> 'n \<Rightarrow> (int \<times> wc \<times> 'a qp_scheme \<times> 'n) res option" where
  "wait_comp_loop V raw t timeout q n =
     (case poll_send_comp V raw q n of Inl e \<Rightarrow> Some (Inl e)
      | Inr (cnt, w, q, n) \<Rightarrow>
          if cnt = 0 then
            (case passed_msec V t n of Inl e \<Rightarrow> Some (Inl e)
             | Inr (d, n) \<Rightarrow>
               if d \<le> timeout then wait_comp_loop V raw t timeout q n else Some (Inr (cnt, w, q, n)))
          else Some (Inr (cnt, w, q, n)))"

definition wait_one_comp :: "'n verbs \<Rightarrow> wc \<Rightarrow> rat \<Rightarrow> 'a qp_scheme \<Rightarrow> 'n \<Rightarrow> (wc io_result \<times> 'a qp_scheme \<times> 'n) res" where
  "wait_one_comp V raw timeout q n =
     (case v_clock V n of (t, n) \<Rightarrow>
      rbind (loop_res (wait_comp_loop V raw t timeout q n)) (\<lambda>(cnt, w, q, n).
        Inr (if cnt = 0 then io_timeout w else if cnt < 0 \<or> \<not> wc_success w then io_err w else io_ok w, q, n)))"

definition qp_status :: "'n verbs \<Rightarrow> 'a qp_scheme \<Rightarrow> 'n \<Rightarrow> qp_state io_result res" where
  "qp_status V q n =
     (if \<not> qp_valid q then Inr (io_err QPS_RTS)
      else rbind (the_handle (qp_qp q)) (\<lambda>h.
        case v_query_qp V h n of (rc, st) \<Rightarrow> rassert (rc = 0) (Inr (io_ok st))))"

text \<open>Post \<open>num\<close> of the \<open>N\<close> entries from the header on: the ring is cut behind the last of them for
  the call and closed again. \<open>tail\<close> is computed in \<open>u32\<close>.\<close>

definition post_recvs :: "'n verbs \<Rightarrow> 'a qp_scheme \<Rightarrow> recv_entries \<Rightarrow> cint \<Rightarrow> 'n \<Rightarrow> (cint io_result \<times> recv_entries \<times> 'n) res" where
  "post_recvs V q r num n =
     (let N = length (re_rs r); tail = (of_nat (re_header r) + num - 1 :: u32);
          tail = (if unat tail \<ge> N then tail - of_nat N else tail) in
      rbind (vec_at (re_rs r) (unat tail)) (\<lambda>w.
      let rs = (re_rs r)[unat tail := w\<lparr>r_next := None\<rparr>] in
      rbind (the_handle (qp_qp q)) (\<lambda>h.
      rbind (case recv_chain rs (Some (re_header r)) of None \<Rightarrow> Inl Diverges | Some ws \<Rightarrow> Inr ws) (\<lambda>ws.
        case v_post_recv V h ws n of (rc, n) \<Rightarrow>
        if rc \<noteq> 0 then Inr (io_err (v_errno V n), r\<lparr>re_rs := rs\<rparr>, n)
        else Inr (io_ok 0, r\<lparr>re_rs := rs[unat tail := w], re_header := unat ((tail + 1) mod of_nat N)\<rparr>, n)))))"

section \<open>Reliable connections\<close>

record rc = qp +
  local_mr :: "reg_attr option"
  remote_mr :: "reg_attr option"
  rc_status :: "unit io_result"
  rc_progress :: progress
  rc_config :: qp_config

definition RC :: "'n verbs \<Rightarrow> rnic \<Rightarrow> qp_config \<Rightarrow> nat option \<Rightarrow> 'n \<Rightarrow> (rc \<times> 'n) res" where
  "RC V nic config recv_cq n =
     (let q = \<lparr>qp_qp = None, qp_cq = None, qp_recv_cq = None, out_signaled = 0, qp_nic = nic, local_mr = None,
               remote_mr = None, rc_status = io_not_ready (), rc_progress = Progress, rc_config = config\<rparr> in
      rbind (create_cq V nic (max_send_sz config) n) (\<lambda>(res, n).
      if code res \<noteq> IO_Ok then Inr (q, n)
      else
        let q = q\<lparr>qp_cq := fst (desc res), qp_recv_cq := recv_cq\<rparr> in
        rbind (create_qp V nic QPT_RC config (qp_cq q) (qp_recv_cq q) n) (\<lambda>(res_qp, n).
        if code res_qp \<noteq> IO_Ok then Inr (q, n)
        else
          let q = q\<lparr>qp_qp := fst (desc res_qp)\<rparr> in
          rbind (bring_qp_to_init V (qp_qp q) config nic n) (\<lambda>(_, n). Inr (q, n)))))"

definition RC_create :: "'n verbs \<Rightarrow> rnic \<Rightarrow> qp_config \<Rightarrow> nat option \<Rightarrow> 'n \<Rightarrow> (rc option \<times> 'n) res" where
  "RC_create V nic config recv_cq n =
     rbind (RC V nic config recv_cq n) (\<lambda>(q, n). Inr (if qp_valid q then Some q else None, n))"

definition rc_my_attr :: "'n verbs \<Rightarrow> rc \<Rightarrow> 'n \<Rightarrow> qp_attr res" where
  "rc_my_attr V q n =
     rbind (opt_value (nic_addr (qp_nic q))) (\<lambda>addr.
     rbind (opt_value (nic_lid (qp_nic q))) (\<lambda>lid.
     rbind (the_handle (qp_qp q)) (\<lambda>h.
       Inr \<lparr>q_addr = addr, q_lid = lid, q_psn = scast (rq_psn (rc_config q)),
            q_port_id = ucast (port_id (nic_id (qp_nic q))), q_qpn = ucast (v_qp_num V h n), q_qkey = 0\<rparr>)))"

definition rc_my_status :: "rc \<Rightarrow> unit io_result" where "rc_my_status q = rc_status q"
definition bind_remote_mr :: "reg_attr \<Rightarrow> rc \<Rightarrow> rc" where "bind_remote_mr mr q = q\<lparr>remote_mr := Some mr\<rparr>"
definition bind_local_mr :: "reg_attr \<Rightarrow> rc \<Rightarrow> rc" where "bind_local_mr mr q = q\<lparr>local_mr := Some mr\<rparr>"
definition rc_max_send_sz :: "rc \<Rightarrow> cint" where "rc_max_send_sz q = max_send_size (rc_config q)"

definition rc_connect :: "'n verbs \<Rightarrow> qp_attr \<Rightarrow> rc \<Rightarrow> 'n \<Rightarrow> (string io_result \<times> rc \<times> 'n) res" where
  "rc_connect V attr q n =
     rbind (qp_status V q n) (\<lambda>res.
     if code res = IO_Ok then
       (if desc res = QPS_RTS then Inr (io_ok ''already connected'', q, n)
        else
          rbind (the_handle (qp_qp q)) (\<lambda>h.
          rbind (rc_my_attr V q n) (\<lambda>mine.
            case bring_rc_to_rcv V h (rc_config q) attr (ucast (q_port_id mine)) n of (r, n) \<Rightarrow>
            if code r \<noteq> IO_Ok then Inr (r, q, n)
            else case bring_rc_to_send V h (rc_config q) n of (r, n) \<Rightarrow>
              if code r \<noteq> IO_Ok then Inr (r, q, n)
              else Inr (io_ok [], q\<lparr>rc_status := io_ok ()\<rparr>, n))))
     else Inr (io_err ''QP not valid'', q, n))"

definition encode_my_wr :: "u64 \<Rightarrow> cint \<Rightarrow> rc \<Rightarrow> u64 \<times> rc" where
  "encode_my_wr wr forward_num q =
     (case pr_forward (rc_progress q) (ucast forward_num) of (p, mark) \<Rightarrow>
        (push_bit num_progress_bits wr OR ucast mark, q\<lparr>rc_progress := p\<rparr>))"

record req_desc =
  rd_op :: wr_opcode
  rd_flags :: cint
  rd_len :: u32
  rd_wr_id :: u64

record req_payload =
  rp_local_addr :: u64
  rp_remote_addr :: u64
  rp_imm_data :: u64

text \<open>A request on the stack; the fields \<open>send_normal\<close> does not set are those of \<open>raw\<close>.\<close>

definition rc_send_normal_mr ::
    "'n verbs \<Rightarrow> send_wr \<Rightarrow> req_desc \<Rightarrow> req_payload \<Rightarrow> reg_attr \<Rightarrow> reg_attr \<Rightarrow> rc \<Rightarrow> 'n \<Rightarrow> (string io_result \<times> rc \<times> 'n) res" where
  "rc_send_normal_mr V raw d payload lmr rmr q n =
     rassert (code (rc_status q) = IO_Ok)
       (case encode_my_wr (rd_wr_id d) 1 q of (wid, q) \<Rightarrow>
        let sr = raw\<lparr>s_wr_id := wid, s_opcode := rd_op d, s_next := None, s_flags := rd_flags d,
                     s_sges := [\<lparr>sge_addr = rp_local_addr payload, sge_length = rd_len d, sge_lkey = attr_lkey lmr\<rparr>],
                     s_imm := ucast (rp_imm_data payload), s_remote_addr := attr_buf rmr + rp_remote_addr payload\<rparr>;
            sr = set_rdma_rkey (attr_key rmr) sr;
            q = (if rd_flags d AND IBV_SEND_SIGNALED \<noteq> 0 then q\<lparr>out_signaled := out_signaled q + 1\<rparr> else q) in
        rbind (the_handle (qp_qp q)) (\<lambda>h.
          case v_post_send V h [sr] n of (rc, n) \<Rightarrow>
            Inr (if rc = 0 then io_ok [] else io_err (v_strerror V n), q, n)))"

definition rc_send_normal ::
    "'n verbs \<Rightarrow> send_wr \<Rightarrow> req_desc \<Rightarrow> req_payload \<Rightarrow> rc \<Rightarrow> 'n \<Rightarrow> (string io_result \<times> rc \<times> 'n) res" where
  "rc_send_normal V raw d payload q n =
     rbind (opt_value (local_mr q)) (\<lambda>lmr. rbind (opt_value (remote_mr q)) (\<lambda>rmr.
       rc_send_normal_mr V raw d payload lmr rmr q n))"

text \<open>The lower bits of the request id are the watermark, the upper ones the user's id. \<open>bitmask\<close> of
  \<open>utils/mod.hh\<close> is \<open>rlib_bitmask\<close>.\<close>

definition rlib_bitmask :: "nat \<Rightarrow> u64" where
  "rlib_bitmask onecount = (if onecount \<noteq> 0 then - 1 else 0) AND drop_bit (64 - onecount) (- 1)"

definition poll_rc_comp :: "'n verbs \<Rightarrow> wc \<Rightarrow> rc \<Rightarrow> 'n \<Rightarrow> ((u64 \<times> wc) option \<times> rc \<times> 'n) res" where
  "poll_rc_comp V raw q n =
     rbind (poll_send_comp V raw q n) (\<lambda>(cnt, w, q, n).
       if cnt = 0 then Inr (None, q, n)
       else
         let user_wr = drop_bit num_progress_bits (wc_wr_id w);
             water_mark = wc_wr_id w AND rlib_bitmask num_progress_bits
         in Inr (Some (user_wr, w), q\<lparr>rc_progress := pr_done (rc_progress q) (ucast water_mark)\<rparr>, n))"

partial_function (option) wait_rc_loop ::
    "'n verbs \<Rightarrow> wc \<Rightarrow> 64 word \<Rightarrow> rat \<Rightarrow> rc \<Rightarrow> 'n \<Rightarrow> ((u64 \<times> wc) option \<times> rc \<times> 'n) res option" where
  "wait_rc_loop V raw t timeout q n =
     (case poll_rc_comp V raw q n of Inl e \<Rightarrow> Some (Inl e)
      | Inr (None, q, n) \<Rightarrow>
          (case passed_msec V t n of Inl e \<Rightarrow> Some (Inl e)
           | Inr (d, n) \<Rightarrow>
             if d < timeout then wait_rc_loop V raw t timeout q n else Some (Inr (None, q, n)))
      | Inr (Some r, q, n) \<Rightarrow> Some (Inr (Some r, q, n)))"

definition wait_rc_comp :: "'n verbs \<Rightarrow> wc \<Rightarrow> rat \<Rightarrow> rc \<Rightarrow> 'n \<Rightarrow> ((u64 \<times> wc) io_result \<times> rc \<times> 'n) res" where
  "wait_rc_comp V raw timeout q n =
     (case v_clock V n of (t, n) \<Rightarrow>
      rbind (loop_res (wait_rc_loop V raw t timeout q n)) (\<lambda>(r, q, n).
        Inr (case r of None \<Rightarrow> io_timeout (0, raw)
             | Some r \<Rightarrow> if \<not> wc_success (snd r) then io_err (0, raw) else io_ok r, q, n)))"

section \<open>Unreliable datagrams\<close>

record ud = qp +
  ud_pending_reqs :: usize
  ud_config :: qp_config

definition kGRHSz :: usize where "kGRHSz = 40"
definition ud_kMaxMsgSz :: usize where "ud_kMaxMsgSz = 4000"
definition kMaxUdRecvEntries :: usize where "kMaxUdRecvEntries = 2048"

definition bring_ud_to_recv :: "'n verbs \<Rightarrow> nat \<Rightarrow> 'n \<Rightarrow> bool \<times> 'n" where
  "bring_ud_to_recv V qp n =
     (case v_modify_qp V qp (zero_qp_attr\<lparr>a_qp_state := QPS_RTR\<rparr>) IBV_QP_STATE n of (rc, n) \<Rightarrow> (rc = 0, n))"

definition bring_ud_to_send :: "'n verbs \<Rightarrow> nat \<Rightarrow> cint \<Rightarrow> 'n \<Rightarrow> bool \<times> 'n" where
  "bring_ud_to_send V qp psn n =
     (case v_modify_qp V qp (zero_qp_attr\<lparr>a_qp_state := QPS_RTS, a_sq_psn := psn\<rparr>)
             (IBV_QP_STATE OR IBV_QP_SQ_PSN) n of (rc, n) \<Rightarrow> (rc = 0, n))"

definition UD :: "'n verbs \<Rightarrow> rnic \<Rightarrow> qp_config \<Rightarrow> 'n \<Rightarrow> (ud \<times> 'n) res" where
  "UD V nic config n =
     (let q = \<lparr>qp_qp = None, qp_cq = None, qp_recv_cq = None, out_signaled = 0, qp_nic = nic,
               ud_pending_reqs = 0, ud_config = config\<rparr> in
      rbind (create_cq V nic (max_send_sz config) n) (\<lambda>(res, n).
      if code res \<noteq> IO_Ok then Inr (q, n)
      else
        let q = q\<lparr>qp_cq := fst (desc res)\<rparr> in
        rbind (create_cq V nic (max_recv_sz config) n) (\<lambda>(res_recv, n).
        if code res_recv \<noteq> IO_Ok then Inr (q, n)
        else
          let q = q\<lparr>qp_recv_cq := fst (desc res_recv)\<rparr> in
          rbind (create_qp V nic QPT_UD config (qp_cq q) (qp_recv_cq q) n) (\<lambda>(res_qp, n).
          if code res_qp \<noteq> IO_Ok then Inr (q, n)
          else
            let q = q\<lparr>qp_qp := fst (desc res_qp)\<rparr> in
            if qp_valid q then
              rbind (bring_qp_to_init V (qp_qp q) config nic n) (\<lambda>(res_init, n).
              rassert (code res_init = IO_Ok)
                (rbind (the_handle (qp_qp q)) (\<lambda>h.
                 case bring_ud_to_recv V h n of (b, n) \<Rightarrow>
                 rassert b (case bring_ud_to_send V h (rq_psn config) n of (b, n) \<Rightarrow> rassert b (Inr (q, n))))))
            else Inr (q, n)))))"

definition UD_create :: "'n verbs \<Rightarrow> rnic \<Rightarrow> qp_config \<Rightarrow> 'n \<Rightarrow> (ud option \<times> 'n) res" where
  "UD_create V nic config n =
     rbind (UD V nic config n) (\<lambda>(q, n). Inr (if qp_valid q then Some q else None, n))"

definition ud_my_attr :: "'n verbs \<Rightarrow> ud \<Rightarrow> 'n \<Rightarrow> qp_attr res" where
  "ud_my_attr V q n =
     rbind (opt_value (nic_addr (qp_nic q))) (\<lambda>addr.
     rbind (opt_value (nic_lid (qp_nic q))) (\<lambda>lid.
     rbind (the_handle (qp_qp q)) (\<lambda>h.
       Inr \<lparr>q_addr = addr, q_lid = lid, q_psn = scast (rq_psn (ud_config q)),
            q_port_id = ucast (port_id (nic_id (qp_nic q))), q_qpn = ucast (v_qp_num V h n),
            q_qkey = scast (qkey (ud_config q))\<rparr>)))"

definition create_ah :: "'n verbs \<Rightarrow> ud \<Rightarrow> qp_attr \<Rightarrow> 'n \<Rightarrow> (nat option \<times> 'n) res" where
  "create_ah V q attr n =
     rbind (opt_value (nic_addr (qp_nic q))) (\<lambda>mine.
     rbind (the_handle (nic_pd (qp_nic q))) (\<lambda>pd.
       Inr (v_create_ah V pd (zero_ah_attr\<lparr>is_global := 1, dlid := ucast (q_lid attr), sl := 0, src_path_bits := 0,
              port_num := ucast (port_id (nic_id (qp_nic q))), dgid_subnet_prefix := subnet_prefix (q_addr attr),
              dgid_interface_id := interface_id (q_addr attr), flow_label := 0, hop_limit := 255,
              sgid_index := ucast (local_id mine)\<rparr>) n)))"

end
