(* ===== verification/Rlib_QP_Correct.thy ===== *)
theory Rlib_QP_Correct
  imports Rlib_QP
begin

text \<open>
  Properties of the queue pairs: posting receive entries walks the ring of entries in order and
  keeps it a ring, request ids carry the user's id and the watermark, and the watermarks count
  the outstanding requests although they wrap.
\<close>

section \<open>A library for examples\<close>

text \<open>Everything succeeds; a send request completes at once, in order.\<close>

definition ex_verbs :: "wc list verbs" where
  "ex_verbs = \<lparr>v_strerror = (\<lambda>_. ''error''), v_errno = (\<lambda>_. 5), v_num_devices = (\<lambda>_. 1), v_open_device = (\<lambda>i n. (Some i, n)),
     v_close_device = (\<lambda>_ n. n), v_alloc_pd = (\<lambda>i n. (Some i, n)), v_dealloc_pd = (\<lambda>_ n. n),
     v_query_port = (\<lambda>_ _ _. (0, \<lparr>p_lid = 1, p_active = True, p_state_str = []\<rparr>)), v_query_gid = (\<lambda>_ _ _ _. (1, 2)),
     v_query_device = (\<lambda>_ _. (0, 1)), v_reg_mr = (\<lambda>_ _ _ _ n. (Some (0, 7, 8), n)), v_create_cq = (\<lambda>_ _ n. (Some 0, n)),
     v_create_qp = (\<lambda>_ _ n. (Some 0, n)), v_destroy_qp = (\<lambda>_ n. (0, n)), v_qp_type = (\<lambda>_ _. QPT_RC), v_qp_num = (\<lambda>_ _. 9),
     v_modify_qp = (\<lambda>_ _ _ n. (0, n)), v_query_qp = (\<lambda>_ _. (0, QPS_INIT)), v_create_ah = (\<lambda>_ _ n. (Some 0, n)),
     v_post_send = (\<lambda>_ ws n. (0, n @ map (\<lambda>w. \<lparr>wc_wr_id = s_wr_id w, wc_success = True, wc_imm_data = 0, wc_byte_len = 0\<rparr>) ws)),
     v_post_recv = (\<lambda>_ ws n. (0, n)),
     v_poll_cq = (\<lambda>_ k n. ((int (min k (length n)), take k n), drop k n)), v_clock = (\<lambda>n. (0, n))\<rparr>"

definition ex_nic :: rnic where
  "ex_nic = \<lparr>nic_ctx = Some 0, nic_pd = Some 0, nic_id = \<lparr>dev_id = 0, port_id = 1\<rparr>,
     nic_addr = Some \<lparr>subnet_prefix = 1, interface_id = 2, local_id = 0\<rparr>, nic_lid = Some 1\<rparr>"

definition ex_rc :: rc where
  "ex_rc = \<lparr>qp_qp = Some 0, qp_cq = Some 0, qp_recv_cq = None, out_signaled = 0, qp_nic = ex_nic, local_mr = None,
     remote_mr = None, rc_status = io_ok (), rc_progress = Progress, rc_config = QPConfig\<rparr>"

section \<open>Posting receive entries\<close>

definition ring_ok :: "recv_entries \<Rightarrow> bool" where
  "ring_ok r \<longleftrightarrow> re_header r < length (re_rs r) \<and> length (re_rs r) < 2 ^ 31
     \<and> (\<forall>i < length (re_rs r). r_next (re_rs r ! i) = Some (Suc i mod length (re_rs r)))"

text \<open>The next \<open>k\<close> entries from the header on.\<close>

definition ring_slice :: "recv_entries \<Rightarrow> nat \<Rightarrow> recv_wr list" where
  "ring_slice r k = map (\<lambda>i. re_rs r ! ((re_header r + i) mod length (re_rs r))) [0..<k]"

definition cut_last :: "recv_wr list \<Rightarrow> recv_wr list" where
  "cut_last ws = butlast ws @ [(last ws)\<lparr>r_next := None\<rparr>]"

lemma chain_slice:
  assumes ok: "ring_ok r" and k: "0 < k" "k \<le> length (re_rs r)" and j: "j < k"
  defines "N \<equiv> length (re_rs r)" and "t \<equiv> (re_header r + k - 1) mod length (re_rs r)"
  shows "recv_chain ((re_rs r)[t := (re_rs r ! t)\<lparr>r_next := None\<rparr>]) (Some ((re_header r + j) mod N))
    = Some (map (\<lambda>i. re_rs r ! ((re_header r + i) mod N)) [j..<k - 1] @ [(re_rs r ! t)\<lparr>r_next := None\<rparr>])"
  using j
proof (induction "k - 1 - j" arbitrary: j)
  case 0
  then have jk: "j = k - 1" by simp
  moreover have "t < length (re_rs r)" unfolding t_def by (rule mod_less_divisor) (use k in linarith)
  moreover have "(re_header r + j) mod N = t" using jk k by (simp add: t_def N_def)
  ultimately show ?case by (subst recv_chain.simps) (simp del: mod_less_divisor, subst recv_chain.simps, simp)
next
  case (Suc m)
  let ?rs = "(re_rs r)[t := (re_rs r ! t)\<lparr>r_next := None\<rparr>]" and ?i = "(re_header r + j) mod N"
  have N: "0 < N" unfolding N_def using k by linarith
  have lt: "j < k - 1" using Suc.hyps(2) by simp
  have ne: "?i \<noteq> t"
  proof
    assume e: "?i = t"
    have "re_header r + k - 1 = (re_header r + j) + (k - 1 - j)" using lt by simp
    then have "(re_header r + j) mod N = ((re_header r + j) + (k - 1 - j)) mod N" using e by (simp add: t_def N_def)
    then have "(k - 1 - j) mod N = 0"
      by (metis add_diff_cancel_left' le_add1 mod_eq_dvd_iff_nat mod_0_imp_dvd dvd_imp_mod_0)
    moreover have "k - 1 - j < N" using k(2) N lt by (simp add: N_def)
    ultimately show False using lt by simp
  qed
  have nx: "r_next (re_rs r ! ?i) = Some (Suc (re_header r + j) mod N)"
    using ok N by (simp add: ring_ok_def N_def mod_Suc_eq)
  have "recv_chain ?rs (Some ((re_header r + Suc j) mod N))
      = Some (map (\<lambda>i. re_rs r ! ((re_header r + i) mod N)) [Suc j..<k - 1] @ [(re_rs r ! t)\<lparr>r_next := None\<rparr>])"
    by (rule Suc.hyps(1)) (use Suc.hyps(2) lt in auto)
  then have "recv_chain ?rs (Some ?i) = Some (re_rs r ! ?i # map (\<lambda>i. re_rs r ! ((re_header r + i) mod N)) [Suc j..<k - 1]
      @ [(re_rs r ! t)\<lparr>r_next := None\<rparr>])"
    using ne by (subst recv_chain.simps) (simp add: nx)
  then show ?case using lt by (simp add: upt_conv_Cons)
qed

text \<open>C26: posting \<open>num\<close> entries of a ring hands exactly the next \<open>num\<close> entries to the driver, in
  ring order, the last one without a successor; afterwards the entries are the same ring and
  the header is the next entry.\<close>

theorem post_recvs_correct:
  assumes "ring_ok r" "0 < num" "num \<le> length (re_rs r)" "qp_qp q = Some h"
  shows "\<exists>r'. post_recvs V q r (of_nat num) n =
      (case v_post_recv V h (cut_last (ring_slice r num)) n of (rc, n') \<Rightarrow>
         Inr (if rc \<noteq> 0 then (io_err (v_errno V n'), r', n')
              else (io_ok 0, r\<lparr>re_header := (re_header r + num) mod length (re_rs r)\<rparr>, n')))"
proof -
  let ?N = "length (re_rs r)" and ?h = "re_header r"
  define t where "t = (?h + num - 1) mod ?N"
  have b: "?h < ?N" "?N < 2 ^ 31" using assms(1) by (simp_all add: ring_ok_def)
  have s: "(of_nat ?h + of_nat num - 1 :: u32) = of_nat (?h + num - 1)" using assms(2) by (simp add: of_nat_diff)
  have small: "?h + num - 1 < 2 ^ 32" using b assms(3) by simp
  have u: "unat (of_nat (?h + num - 1) :: u32) = ?h + num - 1"
    by (rule unat_of_nat_32 [OF small])
  have t: "(if unat (of_nat (?h + num - 1) :: u32) \<ge> ?N then of_nat (?h + num - 1) - of_nat ?N else of_nat (?h + num - 1) :: u32)
      = of_nat t"
  proof (cases "?h + num - 1 \<ge> ?N")
    case True
    then have "t = ?h + num - 1 - ?N" using b assms(3) by (simp add: t_def mod_if)
    then show ?thesis using True unfolding u by (simp only: if_True flip: of_nat_diff)
  next
    case False
    then show ?thesis unfolding u by (simp add: t_def)
  qed
  have tN: "t < ?N" unfolding t_def by (rule mod_less_divisor) (use b in linarith)
  have N32: "?N < 2 ^ 32" using b(2) by simp
  have ut: "unat (of_nat t :: u32) = t"
    by (rule unat_of_nat_32) (rule less_trans [OF tN N32])
  have un: "unat (of_nat ?N :: u32) = ?N"
    by (rule unat_of_nat_32 [OF N32])
  have st: "unat (of_nat t + 1 :: u32) = Suc t"
  proof -
    have "(of_nat t + 1 :: u32) = of_nat (Suc t)" by simp
    moreover have "unat (of_nat (Suc t) :: u32) = Suc t"
      by (rule unat_of_nat_32) (rule le_less_trans [OF Suc_leI [OF tN] N32])
    ultimately show ?thesis by (simp only:)
  qed
  have "unat ((of_nat t + 1 :: u32) mod of_nat ?N) = Suc t mod ?N" by (simp only: unat_mod st un)
  also have "\<dots> = (?h + num) mod ?N" using assms(2) by (simp add: t_def mod_Suc_eq)
  finally have hd: "unat ((of_nat t + 1 :: u32) mod of_nat ?N) = (?h + num) mod ?N" .
  have sl: "ring_slice r num = map (\<lambda>i. re_rs r ! ((?h + i) mod ?N)) [0..<num - 1] @ [re_rs r ! t]"
  proof -
    have "[0..<num] = [0..<num - 1] @ [num - 1]" using assms(2) by (cases num) simp_all
    then show ?thesis using assms(2) by (simp add: ring_slice_def t_def)
  qed
  have ch: "recv_chain ((re_rs r)[t := (re_rs r ! t)\<lparr>r_next := None\<rparr>]) (Some ?h) = Some (cut_last (ring_slice r num))"
    using chain_slice [OF assms(1-3), of 0, folded t_def] assms(2) b by (simp add: sl cut_last_def)
  show ?thesis
    unfolding post_recvs_def Let_def s t ut
    using tN assms(4) by (simp add: ch hd the_handle_def split: prod.split)
qed

definition ex_recv :: "u64 \<Rightarrow> nat \<Rightarrow> recv_wr" where
  "ex_recv a nx = \<lparr>r_wr_id = a, r_next = Some nx, r_sge = \<lparr>sge_addr = a, sge_length = 8, sge_lkey = 1\<rparr>\<rparr>"

definition ex_entries :: recv_entries where
  "ex_entries = \<lparr>re_rs = [ex_recv 0 1, ex_recv 1 2, ex_recv 2 0], re_wcs = [], re_header = 2\<rparr>"

theorem post_recvs_correct_witness:
  "\<exists>r'. post_recvs ex_verbs ex_rc ex_entries 2 [] = Inr (io_ok 0, ex_entries\<lparr>re_header := 1\<rparr>, [])
     \<and> map r_wr_id (cut_last (ring_slice ex_entries 2)) = [2, 0]"
proof -
  have ok: "ring_ok ex_entries"
    by (simp add: ring_ok_def ex_entries_def ex_recv_def less_Suc_eq all_conj_distrib)
  have "map r_wr_id (cut_last (ring_slice ex_entries 2)) = [2, 0]"
    by (simp add: ring_slice_def cut_last_def ex_entries_def ex_recv_def numeral_2_eq_2)
  then show ?thesis
    using post_recvs_correct [OF ok, of 2 ex_rc 0 ex_verbs "[]"]
    by (simp add: ex_verbs_def ex_rc_def ex_entries_def)
qed

text \<open>The factory builds a ring.\<close>

lemma recv_create_ring:
  "recv_create alloc sz N k rs a = Inr (rs', a') \<Longrightarrow> length rs + k = N \<Longrightarrow>
     (\<forall>i < length rs. r_next (rs ! i) = Some (Suc i mod N)) \<Longrightarrow>
     length rs' = N \<and> (\<forall>i < N. r_next (rs' ! i) = Some (Suc i mod N))"
proof (induction alloc sz N k rs a rule: recv_create.induct)
  case (1 alloc sz N rs a)
  then show ?case by simp
next
  case (2 alloc sz N k rs a)
  obtain b a1 where b: "alloc a = (b, a1)" by (cases "alloc a")
  obtain addr lkey where v: "b = Some (addr, lkey)"
    using "2.prems"(1) b by (cases b) (auto simp: res_iff)
  have nx: "(if length rs < N - 1 then length rs + 1 else 0) = Suc (length rs) mod N"
    using "2.prems"(2) by (auto simp: mod_if)
  have all: "\<forall>i < Suc (length rs). r_next ((rs @ [\<lparr>r_wr_id = addr, r_next = Some (Suc (length rs) mod N),
      r_sge = \<lparr>sge_addr = addr, sge_length = sz, sge_lkey = lkey\<rparr>\<rparr>]) ! i) = Some (Suc i mod N)"
    using "2.prems"(3) by (auto simp: nth_append less_Suc_eq)
  show ?case
    using "2.IH" [OF b [symmetric], of "(addr, lkey)" addr lkey "length rs"] "2.prems"(1,2) all nx b v
    by simp
qed

lemma RecvEntries_create_ring:
  "RecvEntries_create alloc sz N wcs a = Inr (r, a') \<Longrightarrow> 0 < N \<Longrightarrow> N < 2 ^ 31 \<Longrightarrow> ring_ok r"
  using recv_create_ring [of alloc sz N N "[]" a] by (auto simp: RecvEntries_create_def ring_ok_def res_iff)

section \<open>Watermarks\<close>

lemma mask_bits:
  "rlib_bitmask 16 = mask 16"
  by (simp add: rlib_bitmask_def mask_eq_exp_minus_1)

lemma encode_parts:
  "drop_bit 16 (push_bit 16 wr OR ucast (m :: u16) :: u64) = take_bit 48 wr"
  "ucast (ucast ((push_bit 16 wr OR ucast m :: u64) AND mask 16) :: u32) = m"
proof -
  show "drop_bit 16 (push_bit 16 wr OR ucast m :: u64) = take_bit 48 wr"
    by (rule bit_word_eqI) (auto simp: bit_simps dest: bit_imp_le_length)
  show "ucast (ucast ((push_bit 16 wr OR ucast m :: u64) AND mask 16) :: u32) = m"
    by (rule bit_word_eqI) (auto simp: bit_simps dest: bit_imp_le_length)
qed

definition encode_run :: "u64 list \<Rightarrow> rc \<Rightarrow> rc" where
  "encode_run ws q = fold (\<lambda>w q. snd (encode_my_wr w 1 q)) ws q"

lemma encode_run_high:
  "high_watermark (rc_progress (encode_run ws q)) = high_watermark (rc_progress q) + of_nat (length ws)"
  by (induction ws arbitrary: q)
    (simp_all add: encode_run_def encode_my_wr_def pr_forward_def Let_def add.commute add.left_commute)

text \<open>The time passed, for a clock that counts from a start in the past.\<close>

lemma sdiv_1000:
  "\<bar>x sdiv 1000\<bar> \<le> \<bar>x :: int\<bar>" "0 \<le> x \<Longrightarrow> x sdiv 1000 = x div 1000" "1000 * k \<le> x \<Longrightarrow> k \<le> x div 1000"
proof -
  have "0 \<le> y \<Longrightarrow> \<bar>y div 1000\<bar> \<le> y" for y :: int
    using zdiv_mono2 [of y 1 1000] by (simp add: pos_imp_zdiv_nonneg_iff)
  from this [of x] this [of "- x"] show "\<bar>x sdiv 1000\<bar> \<le> \<bar>x\<bar>"
    by (cases "0 \<le> x") (auto simp: signed_divide_int_def sgn_if)
  show "1000 * k \<le> x \<Longrightarrow> k \<le> x div 1000" using zdiv_mono1 [of "1000 * k" x 1000] by simp
qed (simp add: signed_divide_int_def sgn_if)

lemma passed_msec_cases:
  assumes c: "v_clock V n = (now, n2)" "0 \<le> sint now" "0 \<le> sint t"
  obtains d where "passed_msec V t n = Inr (d, n2)" "\<bar>d\<bar> \<le> 2 ^ 64"
    "2 ^ 53 \<le> (sint now - sint t) sdiv 1000 \<Longrightarrow> 2 ^ 52 < d"
    "\<bar>(sint now - sint t) sdiv 1000\<bar> < 2 ^ 53 \<Longrightarrow> d = of_int ((sint now - sint t) sdiv 1000)"
proof -
  have "sint now < 2 ^ 63" "sint t < 2 ^ 63" using sint_lt [of now] sint_lt [of t] by simp_all
  then have r: "\<bar>sint now - sint t\<bar> < 2 ^ 63" using c(2,3) by linarith
  have "\<bar>(sint now - sint t) sdiv 1000\<bar> \<le> \<bar>sint now - sint t\<bar>"
    by (rule sdiv_1000)
  then have "\<bar>(sint now - sint t) sdiv 1000\<bar> \<le> 2 ^ 63" using r by linarith
  then show thesis
  proof (rule dround_i64)
    fix d assume d: "dround (of_int ((sint now - sint t) sdiv 1000)) = Some d" "\<bar>d\<bar> \<le> 2 ^ 64"
      "2 ^ 53 \<le> (sint now - sint t) sdiv 1000 \<Longrightarrow> 2 ^ 52 < d"
      "\<bar>(sint now - sint t) sdiv 1000\<bar> < 2 ^ 53 \<Longrightarrow> d = of_int ((sint now - sint t) sdiv 1000)"
    have "passed_msec V t n = Inr (d, n2)"
      using r d(1) by (simp add: passed_msec_def c(1) Let_def abs_less_iff not_le not_less)
    then show thesis using d(2-4) by (rule that)
  qed
qed

lemma passed_msec_small:
  assumes "v_clock V n = (now, n2)" "0 \<le> sint now" "0 \<le> sint t"
  obtains d where "passed_msec V t n = Inr (d, n2)" "d < no_timeout"
proof -
  obtain d where d: "passed_msec V t n = Inr (d, n2)" "\<bar>d\<bar> \<le> 2 ^ 64" by (rule passed_msec_cases [OF assms])
  then have "d \<le> 2 ^ 64" by simp
  moreover have "(2 :: rat) ^ 64 < no_timeout" by (simp add: no_timeout_def)
  ultimately have "d < no_timeout" by linarith
  with d(1) show thesis by (rule that)
qed

lemma poll_send_comp_keeps:
  assumes "poll_send_comp V raw q n = Inr (c, w, q', n')"
  shows "q' = q \<or> q' = q\<lparr>out_signaled := out_signaled q - 1\<rparr>"
proof -
  obtain h where h: "the_handle (qp_cq q) = Inr h" using assms by (auto simp: poll_send_comp_def res_iff)
  obtain cnt wcs n1 where "v_poll_cq V h 1 n = ((cnt, wcs), n1)" by (cases "v_poll_cq V h 1 n") auto
  with assms h show ?thesis by (auto simp: poll_send_comp_def split: if_splits)
qed

text \<open>C27: the completion of a request returns the user's id of the request (48 bits of it), and the
  watermarks then count the requests issued after it, even when the 16-bit counters wrapped in
  between, as long as fewer than 65536 are outstanding.\<close>

theorem rc_completion_correct:
  assumes "encode_my_wr wr 1 q = (wid, q1)"
    and "poll_rc_comp V raw (encode_run later q1) n = Inr (Some (user, w), q2, n')" "wc_wr_id w = wid"
    and "length later < 65536"
  shows "user = take_bit 48 wr \<and> unat (pending_reqs (rc_progress q2)) = length later"
proof -
  let ?m = "high_watermark (rc_progress q) + 1"
  have wid: "wid = push_bit 16 wr OR ucast ?m" "q1 = q\<lparr>rc_progress := (rc_progress q)\<lparr>high_watermark := ?m\<rparr>\<rparr>"
    using assms(1) by (simp_all add: encode_my_wr_def pr_forward_def Let_def num_progress_bits_def)
  obtain c q3 where p: "poll_send_comp V raw (encode_run later q1) n = Inr (c, w, q3, n')"
      "user = drop_bit 16 wid" "q2 = q3\<lparr>rc_progress := pr_done (rc_progress q3) (ucast (wid AND mask 16))\<rparr>"
    using assms(2,3) by (auto simp: poll_rc_comp_def res_iff num_progress_bits_def mask_bits Let_def split: if_splits)
  have "rc_progress q3 = rc_progress (encode_run later q1)"
    using poll_send_comp_keeps [OF p(1)] by auto
  then have "pending_reqs (rc_progress q2) = of_nat (length later)"
    using encode_run_high [of later q1] unfolding p(3) pending_reqs_diff
    by (simp add: pr_done_def wid encode_parts(2))
  then have "unat (pending_reqs (rc_progress q2)) = length later"
    using assms(4) by (simp add: unat_of_nat take_bit_nat_eq_self)
  moreover have "user = take_bit 48 wr" unfolding p(2) wid(1) by (rule encode_parts(1))
  ultimately show ?thesis by blast
qed

definition ex_wc :: "u64 \<Rightarrow> wc" where
  "ex_wc i = \<lparr>wc_wr_id = i, wc_success = True, wc_imm_data = 0, wc_byte_len = 0\<rparr>"

theorem rc_completion_correct_witness:
  "\<exists>q1 q2 user. encode_my_wr 5 1 ex_rc = (0x50001, q1)
     \<and> poll_rc_comp ex_verbs (ex_wc 0) (encode_run [7, 8] q1) [ex_wc 0x50001] = Inr (Some (user, ex_wc 0x50001), q2, [])
     \<and> user = 5 \<and> unat (pending_reqs (rc_progress q2)) = 2"
proof -
  have e: "encode_my_wr 5 1 ex_rc = (0x50001, ex_rc\<lparr>rc_progress := \<lparr>high_watermark = 1, low_watermark = 0\<rparr>\<rparr>)"
    by code_simp
  let ?q1 = "ex_rc\<lparr>rc_progress := \<lparr>high_watermark = 1, low_watermark = 0\<rparr>\<rparr>"
  have "poll_send_comp ex_verbs (ex_wc 0) (encode_run [7, 8] ?q1) [ex_wc 0x50001]
      = Inr (1, ex_wc 0x50001, (encode_run [7, 8] ?q1)\<lparr>out_signaled := - 1\<rparr>, [])"
    by (simp add: poll_send_comp_def encode_run_def encode_my_wr_def pr_forward_def the_handle_def ex_rc_def ex_verbs_def Let_def)
  then obtain user q2 where p: "poll_rc_comp ex_verbs (ex_wc 0) (encode_run [7, 8] ?q1) [ex_wc 0x50001]
      = Inr (Some (user, ex_wc 0x50001), q2, [])"
    by (auto simp: poll_rc_comp_def Let_def)
  have t: "take_bit 48 (5 :: u64) = 5" by code_simp
  from rc_completion_correct [OF e p] have "user = 5 \<and> unat (pending_reqs (rc_progress q2)) = 2"
    by (simp add: ex_wc_def t)
  with e p show ?thesis by blast
qed

end
