(* ===== verification/Rlib_Op.thy ===== *)
theory Rlib_Op
  imports Rlib_QP
begin

text \<open>
  One-sided requests of RLib (\<^verbatim>\<open>qps/op.hh\<close>), batches of requests posted with one doorbell
  (\<^verbatim>\<open>qps/doorbell_helper.hh\<close>) and the iteration over received messages
  (\<^verbatim>\<open>qps/recv_iter.hh\<close>).
\<close>

section \<open>One-sided requests\<close>

text \<open>
  An \<open>Op<NSGE>\<close> is its request: \<open>wr.num_sge\<close> and \<open>wr.sg_list\<close> are the length and the entries of
  \<open>s_sges\<close>. Ops that are linked with \<open>set_next\<close> are elements of one list, the memory they live in.
\<close>

definition new_op :: "nat \<Rightarrow> send_wr" where
  "new_op nsge = \<lparr>s_wr_id = 0, s_next = None, s_sges = replicate nsge \<lparr>sge_addr = 0, sge_length = 0, sge_lkey = 0\<rparr>,
     s_opcode = WR_RDMA_WRITE, s_flags = 0, s_imm = 0, s_remote_addr = 0, s_word8 = 0, s_swap = 0,
     s_atomic_rkey = 0, s_ah = None, s_remote_qpn = 0, s_remote_qkey = 0\<rparr>"

definition op_set_next :: "nat \<Rightarrow> send_wr \<Rightarrow> send_wr" where "op_set_next j w = w\<lparr>s_next := Some j\<rparr>"
definition op_set_op :: "wr_opcode \<Rightarrow> send_wr \<Rightarrow> send_wr" where "op_set_op c w = w\<lparr>s_opcode := c\<rparr>"
definition op_set_read :: "send_wr \<Rightarrow> send_wr" where "op_set_read w = op_set_op WR_RDMA_READ w"
definition op_set_write :: "send_wr \<Rightarrow> send_wr" where "op_set_write w = op_set_op WR_RDMA_WRITE w"

definition op_set_imm :: "i32 \<Rightarrow> send_wr \<Rightarrow> send_wr" where "op_set_imm imm w = w\<lparr>s_imm := imm\<rparr>"
definition op_set_flags :: "i32 \<Rightarrow> send_wr \<Rightarrow> send_wr" where "op_set_flags flags w = w\<lparr>s_flags := flags\<rparr>"
definition op_set_wrid :: "u64 \<Rightarrow> send_wr \<Rightarrow> send_wr" where "op_set_wrid i w = w\<lparr>s_wr_id := i\<rparr>"

definition op_set_rdma_rbuf :: "u64 \<Rightarrow> u32 \<Rightarrow> send_wr \<Rightarrow> send_wr" where
  "op_set_rdma_rbuf ra rk w = set_rdma_rkey rk (w\<lparr>s_remote_addr := ra\<rparr>)"

definition op_set_rdma_addr :: "u64 \<Rightarrow> reg_attr \<Rightarrow> send_wr \<Rightarrow> send_wr" where
  "op_set_rdma_addr off attr w = set_rdma_rkey (attr_key attr) (w\<lparr>s_remote_addr := off + attr_buf attr\<rparr>)"

definition op_set_atomic_rbuf :: "u64 \<Rightarrow> u32 \<Rightarrow> send_wr \<Rightarrow> send_wr" where
  "op_set_atomic_rbuf ra rk w = op_set_imm 0 (w\<lparr>s_remote_addr := ra, s_atomic_rkey := rk\<rparr>)"

definition op_set_cas :: "u64 \<Rightarrow> u64 \<Rightarrow> send_wr \<Rightarrow> send_wr" where
  "op_set_cas cmp swap w = op_set_op WR_ATOMIC_CMP_AND_SWP (w\<lparr>s_word8 := cmp, s_swap := swap\<rparr>)"

definition op_set_fetch_add :: "u64 \<Rightarrow> send_wr \<Rightarrow> send_wr" where
  "op_set_fetch_add add w = op_set_op WR_ATOMIC_FETCH_AND_ADD (w\<lparr>s_word8 := add, s_swap := 0\<rparr>)"

definition op_set_atomic :: "u64 \<Rightarrow> u64 \<Rightarrow> u64 \<Rightarrow> u32 \<Rightarrow> send_wr \<Rightarrow> send_wr" where
  "op_set_atomic ra ca swap rk w =
     op_set_imm 0 (w\<lparr>s_remote_addr := ra, s_word8 := ca, s_swap := swap, s_atomic_rkey := rk\<rparr>)"

definition op_set_payload :: "u64 \<Rightarrow> u32 \<Rightarrow> u32 \<Rightarrow> u32 \<Rightarrow> send_wr \<Rightarrow> bool \<times> send_wr" where
  "op_set_payload addr len lkey index w =
     (if length (s_sges w) \<le> unat index then (False, w)
      else (True, w\<lparr>s_sges := (s_sges w)[unat index := \<lparr>sge_addr = addr, sge_length = len, sge_lkey = lkey\<rparr>]\<rparr>))"

text \<open>The requests the driver finds from position \<open>i\<close> of the memory along \<open>next\<close>.\<close>

partial_function (option) send_chain :: "send_wr list \<Rightarrow> nat option \<Rightarrow> send_wr list res option" where
  "send_chain ws i =
     (case i of None \<Rightarrow> Some (Inr [])
      | Some i \<Rightarrow> if i < length ws
                  then Option.bind (send_chain ws (s_next (ws ! i))) (\<lambda>r. Some (rbind r (\<lambda>cs. Inr (ws ! i # cs))))
                  else Some (Inl UB))"

definition op_execute_batch :: "'n verbs \<Rightarrow> send_wr list \<Rightarrow> nat \<Rightarrow> 'a qp_scheme \<Rightarrow> 'n \<Rightarrow> (string io_result \<times> 'a qp_scheme \<times> 'n) res" where
  "op_execute_batch V ops i q n =
     rbind (vec_at ops i) (\<lambda>w.
     let q = (if s_flags w AND IBV_SEND_SIGNALED \<noteq> 0 then q\<lparr>out_signaled := out_signaled q + 1\<rparr> else q) in
     rbind (loop_res (send_chain ops (Some i))) (\<lambda>ws.
     rbind (the_handle (qp_qp q)) (\<lambda>h.
       case v_post_send V h ws n of (res, n) \<Rightarrow>
         Inr (if res = 0 then io_ok [] else io_err (v_strerror V n), q, n))))"

definition op_execute :: "'n verbs \<Rightarrow> send_wr list \<Rightarrow> nat \<Rightarrow> i32 \<Rightarrow> u64 \<Rightarrow> rc \<Rightarrow> 'n \<Rightarrow> (string io_result \<times> send_wr list \<times> rc \<times> 'n) res" where
  "op_execute V ops i flags wr_id q n =
     rbind (vec_at ops i) (\<lambda>w.
     case encode_my_wr wr_id 1 q of (wid, q) \<Rightarrow>
     let ops = ops[i := w\<lparr>s_wr_id := wid, s_next := None, s_flags := flags\<rparr>] in
     rbind (op_execute_batch V ops i q n) (\<lambda>(r, q, n). Inr (r, ops, q, n)))"

section \<open>Doorbells\<close>

text \<open>
  \<open>wrs\<close> with the scatter entries inside, and the index of the current request, an \<open>i8\<close> that is
  \<open>-1\<close> for an empty batch. The fields of a request the constructor does not set are those of
  \<open>raw\<close>. The pointer \<open>&wrs[N]\<close> is position \<open>N\<close>.
\<close>

record doorbell =
  db_wrs :: "send_wr list"
  db_cur :: int

definition kNMaxDoorbell :: usize where "kNMaxDoorbell = 16"

definition DoorbellHelper :: "wr_opcode \<Rightarrow> send_wr list \<Rightarrow> doorbell" where
  "DoorbellHelper c raw =
     (let N = length raw;
          wrs = map (\<lambda>i. (raw ! i)\<lparr>s_opcode := c, s_next := Some (i + 1), s_sges := [hd (s_sges (raw ! i))]\<rparr>) [0..<N]
      in \<lparr>db_wrs = wrs[N - 1 := (wrs ! (N - 1))\<lparr>s_next := Some 0\<rparr>], db_cur = -1\<rparr>)"

definition db_size :: "doorbell \<Rightarrow> int" where "db_size d = db_cur d + 1"
definition db_empty :: "doorbell \<Rightarrow> bool" where "db_empty d \<longleftrightarrow> db_size d = 0"
definition db_full :: "doorbell \<Rightarrow> bool" where "db_full d \<longleftrightarrow> db_size d = int (length (db_wrs d))"

definition wrap_i8 :: "int \<Rightarrow> int" where "wrap_i8 x = (x + 128) mod 256 - 128"

definition db_next :: "doorbell \<Rightarrow> bool \<times> doorbell" where
  "db_next d = (if db_full d then (False, d) else (True, d\<lparr>db_cur := wrap_i8 (db_cur d + 1)\<rparr>))"

definition db_cur_wr :: "doorbell \<Rightarrow> send_wr res" where
  "db_cur_wr d = rassert (\<not> db_empty d) (if db_cur d < 0 then Inl UB else vec_at (db_wrs d) (nat (db_cur d)))"

definition db_set_cur_wr :: "(send_wr \<Rightarrow> send_wr) \<Rightarrow> doorbell \<Rightarrow> doorbell res" where
  "db_set_cur_wr f d = rbind (db_cur_wr d) (\<lambda>w. Inr (d\<lparr>db_wrs := (db_wrs d)[nat (db_cur d) := f w]\<rparr>))"

definition db_set_cur_sge :: "sge \<Rightarrow> doorbell \<Rightarrow> doorbell res" where
  "db_set_cur_sge s d = db_set_cur_wr (\<lambda>w. w\<lparr>s_sges := [s]\<rparr>) d"

definition db_freeze :: "doorbell \<Rightarrow> doorbell res" where
  "db_freeze d = rassert (\<not> db_empty d) (db_set_cur_wr (\<lambda>w. w\<lparr>s_next := None\<rparr>) d)"

definition db_set_next_at :: "nat \<Rightarrow> nat option \<Rightarrow> doorbell \<Rightarrow> doorbell res" where
  "db_set_next_at i j d = rbind (vec_at (db_wrs d) i) (\<lambda>w. Inr (d\<lparr>db_wrs := (db_wrs d)[i := w\<lparr>s_next := j\<rparr>]\<rparr>))"

definition db_freeze_at :: "nat \<Rightarrow> doorbell \<Rightarrow> doorbell res" where
  "db_freeze_at i d = db_set_next_at i None d"

definition db_freeze_done_at :: "nat \<Rightarrow> doorbell \<Rightarrow> doorbell res" where
  "db_freeze_done_at i d =
     (if i = length (db_wrs d) - 1 then db_set_next_at i (Some 0) d else db_set_next_at i (Some (i + 1)) d)"

definition db_freeze_done :: "doorbell \<Rightarrow> doorbell res" where
  "db_freeze_done d = rassert (\<not> db_empty d)
     (if db_cur d < 0 then Inl UB else db_set_next_at (nat (db_cur d)) (Some (nat (db_cur d) + 1)) d)"

definition db_clear :: "doorbell \<Rightarrow> doorbell res" where
  "db_clear d = rbind (db_freeze_done d) (\<lambda>d. Inr (d\<lparr>db_cur := -1\<rparr>))"

text \<open>The walk of \<open>sanity_check_sz\<close> with \<open>k\<close> steps left; it ends the same way as the loop over \<open>i\<close>.\<close>

fun db_walk :: "send_wr list \<Rightarrow> nat \<Rightarrow> nat \<Rightarrow> nat \<Rightarrow> usize res" where
  "db_walk ws cur i 0 = Inr (of_nat (length ws + 1))"
| "db_walk ws cur i (Suc k) =
     rbind (vec_at ws cur) (\<lambda>w. case s_next w of None \<Rightarrow> Inr (of_nat (i + 1)) | Some j \<Rightarrow> db_walk ws j (i + 1) k)"

definition db_sanity_check_sz :: "doorbell \<Rightarrow> usize res" where
  "db_sanity_check_sz d = (if db_empty d then Inr 0 else db_walk (db_wrs d) 0 0 (length (db_wrs d)))"

section \<open>Iterating over received messages\<close>

text \<open>
  \<open>wcs\<close> is the array the iterator reads; \<open>qp\<close> and \<open>entries\<close> may be null. \<open>begin\<close> polls into the
  array it is given, which the code's only caller takes to be the iterator's own.
\<close>

record recv_iter =
  ri_qp :: "nat option"
  ri_entries :: bool
  ri_wcs :: "wc list"
  ri_idx :: int
  ri_total :: int

definition default_iter :: "wc list \<Rightarrow> recv_iter" where
  "default_iter raw = \<lparr>ri_qp = None, ri_entries = False, ri_wcs = raw, ri_idx = 0, ri_total = -1\<rparr>"

definition poll_into :: "'n verbs \<Rightarrow> nat \<Rightarrow> wc list \<Rightarrow> 'n \<Rightarrow> int \<times> wc list \<times> 'n" where
  "poll_into V cq wcs n =
     (case v_poll_cq V cq (length wcs) n of ((cnt, ws), n) \<Rightarrow> (cnt, ws @ drop (length ws) wcs, n))"

definition RecvIter_cq :: "'n verbs \<Rightarrow> nat \<Rightarrow> wc list \<Rightarrow> 'n \<Rightarrow> recv_iter \<times> 'n" where
  "RecvIter_cq V cq wcs n =
     (case poll_into V cq wcs n of (cnt, wcs, n) \<Rightarrow> ((default_iter wcs)\<lparr>ri_total := cnt\<rparr>, n))"

definition RecvIter_qp :: "'n verbs \<Rightarrow> 'a qp_scheme \<Rightarrow> wc list \<Rightarrow> 'n \<Rightarrow> (recv_iter \<times> 'n) res" where
  "RecvIter_qp V q wcs n =
     rbind (the_handle (qp_recv_cq q)) (\<lambda>cq.
     case poll_into V cq wcs n of (cnt, wcs, n) \<Rightarrow>
       Inr ((default_iter wcs)\<lparr>ri_qp := qp_qp q, ri_total := cnt\<rparr>, n))"

definition RecvIter :: "'n verbs \<Rightarrow> 'a qp_scheme \<Rightarrow> recv_entries \<Rightarrow> 'n \<Rightarrow> (recv_iter \<times> 'n) res" where
  "RecvIter V q e n = rbind (RecvIter_qp V q (re_wcs e) n) (\<lambda>(r, n). Inr (r\<lparr>ri_entries := True\<rparr>, n))"

definition ri_set_meta :: "'a qp_scheme \<Rightarrow> recv_entries \<Rightarrow> recv_iter \<Rightarrow> recv_iter" where
  "ri_set_meta q e r = r\<lparr>ri_entries := True, ri_qp := qp_qp q, ri_wcs := re_wcs e\<rparr>"

definition ri_begin :: "'n verbs \<Rightarrow> 'a qp_scheme \<Rightarrow> recv_iter \<Rightarrow> 'n \<Rightarrow> (recv_iter \<times> 'n) res" where
  "ri_begin V q r n =
     rbind (the_handle (qp_recv_cq q)) (\<lambda>cq.
     case poll_into V cq (ri_wcs r) n of (cnt, wcs, n) \<Rightarrow>
       Inr (r\<lparr>ri_total := cnt, ri_wcs := wcs, ri_idx := 0\<rparr>, n))"

definition ri_has_msgs :: "recv_iter \<Rightarrow> bool" where "ri_has_msgs r \<longleftrightarrow> ri_idx r < ri_total r"

definition ri_cur_msg :: "recv_iter \<Rightarrow> (u32 \<times> u64) option res" where
  "ri_cur_msg r =
     (if ri_has_msgs r then
        rbind (vec_at (ri_wcs r) (nat (ri_idx r))) (\<lambda>w. Inr (Some (wc_imm_data w, wc_wr_id w)))
      else Inr None)"

definition ri_next :: "recv_iter \<Rightarrow> recv_iter" where "ri_next r = r\<lparr>ri_idx := ri_idx r + 1\<rparr>"

text \<open>\<open>clear\<close>, also the destructor: post again as many entries as messages were received.\<close>

definition ri_clear :: "'n verbs \<Rightarrow> 'a qp_scheme \<Rightarrow> recv_entries \<Rightarrow> recv_iter \<Rightarrow> 'n \<Rightarrow> (recv_iter \<times> recv_entries \<times> 'n) res" where
  "ri_clear V q e r n =
     (if ri_total r > 0 \<and> ri_qp r \<noteq> None \<and> ri_entries r
      then rbind (post_recvs V q e (of_int (ri_total r)) n) (\<lambda>(res, e, n). Inr (r\<lparr>ri_total := -1\<rparr>, e, n))
      else Inr (r\<lparr>ri_total := -1\<rparr>, e, n))"

section \<open>What a doorbell posts\<close>

text \<open>Every request but the last links to the one behind it.\<close>

definition db_ok :: "doorbell \<Rightarrow> bool" where
  "db_ok d \<longleftrightarrow> 0 < length (db_wrs d) \<and> length (db_wrs d) \<le> 127 \<and> -1 \<le> db_cur d \<and> db_cur d < int (length (db_wrs d))
     \<and> (\<forall>i. i + 1 < length (db_wrs d) \<longrightarrow> s_next (db_wrs d ! i) = Some (i + 1))"

lemma DoorbellHelper_ok: "raw \<noteq> [] \<Longrightarrow> length raw \<le> 127 \<Longrightarrow> db_ok (DoorbellHelper c raw) \<and> db_size (DoorbellHelper c raw) = 0"
  by (auto simp: db_ok_def DoorbellHelper_def Let_def db_size_def)

lemma db_next_ok: "db_ok d \<Longrightarrow> db_next d = (b, d') \<Longrightarrow> db_ok d' \<and> (b \<longleftrightarrow> db_size d' = db_size d + 1) \<and> (b \<or> d' = d)"
  by (auto simp: db_ok_def db_next_def db_full_def db_size_def wrap_i8_def split: if_splits)

lemma db_set_cur_wr_ok:
  "db_ok d \<Longrightarrow> \<not> db_empty d \<Longrightarrow> (\<And>w. s_next (f w) = s_next w) \<Longrightarrow> \<exists>d'. db_set_cur_wr f d = Inr d' \<and> db_ok d' \<and> db_size d' = db_size d"
  by (auto simp: db_ok_def db_set_cur_wr_def db_cur_wr_def db_empty_def db_size_def nth_list_update)

lemma send_chain_cut:
  assumes link: "\<And>i. i + 1 < k \<Longrightarrow> s_next (ws ! i) = Some (i + 1)" and cut: "s_next (ws ! (k - 1)) = None" and k: "k \<le> length ws"
  shows "j < k \<Longrightarrow> send_chain ws (Some j) = Some (Inr (take (k - j) (drop j ws)))"
proof (induction "k - j" arbitrary: j)
  case (Suc m)
  then have j: "j < length ws" using k by simp
  show ?case
  proof (cases "j + 1 < k")
    case True
    then have "send_chain ws (Some (j + 1)) = Some (Inr (take (k - (j + 1)) (drop (j + 1) ws)))"
      using Suc.hyps(2) by (intro Suc.hyps(1)) auto
    moreover have "take (k - j) (drop j ws) = ws ! j # take (k - (j + 1)) (drop (j + 1) ws)"
      using True j by (simp add: Cons_nth_drop_Suc [symmetric] take_Suc_conv_app_nth Suc_diff_Suc take_Cons')
    ultimately show ?thesis using j link [OF True] by (subst send_chain.simps) simp
  next
    case False
    then have "j = k - 1" using Suc.prems by simp
    moreover have "take (k - j) (drop j ws) = [ws ! j]"
      using \<open>j = k - 1\<close> Suc.prems j by (simp add: Cons_nth_drop_Suc [symmetric])
    moreover have "send_chain ws None = Some (Inr [])" by (subst send_chain.simps) simp
    ultimately show ?thesis using j cut by (subst send_chain.simps) simp
  qed
qed simp

lemma db_walk_cut:
  assumes link: "\<And>i. i + 1 < k \<Longrightarrow> s_next (ws ! i) = Some (i + 1)" and cut: "s_next (ws ! (k - 1)) = None" and k: "k \<le> length ws"
  shows "j < k \<Longrightarrow> db_walk ws j j (length ws - j) = Inr (of_nat k)"
proof (induction "k - j" arbitrary: j)
  case (Suc m)
  then have j: "j < length ws" using k by simp
  then have l: "length ws - j = Suc (length ws - (j + 1))" by simp
  show ?case
  proof (cases "j + 1 < k")
    case True
    then have "db_walk ws (j + 1) (j + 1) (length ws - (j + 1)) = Inr (of_nat k)"
      using Suc.hyps(2) by (intro Suc.hyps(1)) auto
    then show ?thesis unfolding l using j link [OF True] by simp
  next
    case False
    then have "j = k - 1" "k = j + 1" using Suc.prems by simp_all
    then show ?thesis unfolding l using j cut by simp
  qed
qed simp

text \<open>C33: after \<open>k\<close> requests were added, freezing the batch makes the driver see exactly the first \<open>k\<close>
  requests, in order, which is also the size the sanity check reports; clearing it makes it usable
  again.\<close>

theorem doorbell_posts_batch:
  assumes "db_ok d" "db_size d = int k" "0 < k"
  shows "\<exists>d' d''. db_freeze d = Inr d'
    \<and> send_chain (db_wrs d') (Some 0) = Some (Inr (take k (db_wrs d')))
    \<and> (\<forall>i < k - 1. db_wrs d' ! i = db_wrs d ! i) \<and> db_wrs d' ! (k - 1) = (db_wrs d ! (k - 1))\<lparr>s_next := None\<rparr>
    \<and> db_sanity_check_sz d' = Inr (of_nat k) \<and> db_clear d' = Inr d'' \<and> db_ok d'' \<and> db_size d'' = 0"
proof -
  have cur: "db_cur d = int (k - 1)" "k - 1 < length (db_wrs d)" "\<not> db_empty d"
    using assms by (auto simp: db_ok_def db_size_def db_empty_def)
  define d' where "d' = d\<lparr>db_wrs := (db_wrs d)[k - 1 := (db_wrs d ! (k - 1))\<lparr>s_next := None\<rparr>]\<rparr>"
  have frz: "db_freeze d = Inr d'"
    using cur by (simp add: db_freeze_def db_set_cur_wr_def db_cur_wr_def d'_def)
  have link: "s_next (db_wrs d' ! i) = Some (i + 1)" if "i + 1 < k" for i
    using that assms(1) cur(2) by (auto simp: d'_def db_ok_def nth_list_update)
  have cut: "s_next (db_wrs d' ! (k - 1)) = None" using cur(2) by (simp add: d'_def)
  have k: "k \<le> length (db_wrs d')" using cur(2) by (simp add: d'_def)
  have chain: "send_chain (db_wrs d') (Some 0) = Some (Inr (take k (db_wrs d')))"
    using send_chain_cut [OF link cut k assms(3)] by simp
  have e: "\<not> db_empty d'" "db_cur d' = int (k - 1)" using cur by (simp_all add: d'_def db_empty_def db_size_def)
  have walk: "db_sanity_check_sz d' = Inr (of_nat k)"
    using db_walk_cut [OF link cut k assms(3)] e by (simp add: db_sanity_check_sz_def)
  define d'' where "d'' = d'\<lparr>db_wrs := (db_wrs d')[k - 1 := (db_wrs d' ! (k - 1))\<lparr>s_next := Some (k - 1 + 1)\<rparr>], db_cur := -1\<rparr>"
  have "db_clear d' = Inr d''"
    using e cur(2) by (simp add: db_clear_def db_freeze_done_def db_set_next_at_def d''_def d'_def)
  moreover have "db_ok d'' \<and> db_size d'' = 0"
    using assms(1) cur(2) by (auto simp: d''_def d'_def db_ok_def db_size_def nth_list_update)
  ultimately show ?thesis using frz chain walk cur(2) by (auto simp: d'_def)
qed

theorem doorbell_posts_batch_witness:
  "\<exists>d'. db_freeze (snd (db_next (snd (db_next (DoorbellHelper WR_RDMA_READ [new_op 1, new_op 1, new_op 1]))))) = Inr d'
    \<and> send_chain (db_wrs d') (Some 0) = Some (Inr (take 2 (db_wrs d')))"
proof -
  let ?d = "snd (db_next (snd (db_next (DoorbellHelper WR_RDMA_READ [new_op 1, new_op 1, new_op 1]))))"
  have "db_ok (DoorbellHelper WR_RDMA_READ [new_op 1, new_op 1, new_op 1])" by (simp add: DoorbellHelper_ok)
  then have "db_ok ?d" using db_next_ok by (metis surj_pair snd_conv)
  moreover have "db_size ?d = int 2" by (simp add: db_next_def db_full_def db_size_def wrap_i8_def DoorbellHelper_def Let_def)
  ultimately show ?thesis using doorbell_posts_batch [of ?d 2] by auto
qed

end
