(* ===== verification/Rlib_Wait.thy ===== *)
theory Rlib_Wait
  imports Rlib_QP_Correct
begin

text \<open>
  The loops that wait for a completion (\<^verbatim>\<open>qps/mod.hh\<close>, \<^verbatim>\<open>qps/rc.hh\<close>): whatever the card
  answers, a timeout that the 64-bit clock can still reach ends them; the default timeout,
  which it cannot, does not.
\<close>

text \<open>\<open>now\<close> is the time of a state, in nanoseconds. A reading of the clock takes at least a
  nanosecond until the clock is at its last value, and polling does not turn it back.\<close>

definition clock_advances :: "'n verbs \<Rightarrow> nat \<Rightarrow> ('n \<Rightarrow> int) \<Rightarrow> bool" where
  "clock_advances V cq now \<longleftrightarrow> (\<forall>n. sint (fst (v_clock V n)) = now n \<and> 0 \<le> now n
     \<and> (now n < 2 ^ 63 - 1 \<longrightarrow> now n < now (snd (v_clock V n)))
     \<and> now n \<le> now (snd (v_poll_cq V cq 1 n)))"

lemma clock_advancesD:
  assumes "clock_advances V cq now"
  shows "sint (fst (v_clock V n)) = now n" "0 \<le> now n" "now n < 2 ^ 63"
    "now n < 2 ^ 63 - 1 \<Longrightarrow> now n < now (snd (v_clock V n))" "now n \<le> now (snd (v_poll_cq V cq 1 n))"
proof -
  show s: "sint (fst (v_clock V n)) = now n" using assms by (simp add: clock_advances_def)
  show "now n < 2 ^ 63" using sint_lt [of "fst (v_clock V n)"] unfolding s by simp
qed (use assms in \<open>simp_all add: clock_advances_def\<close>)

text \<open>A reading of the time passed. Once \<open>k\<close> microseconds are over it is more than any timeout
  below \<open>k\<close>; before, the clock goes on.\<close>

lemma passed_msec_now:
  assumes V: "clock_advances V cq now" and t: "0 \<le> sint t" and k: "timeout < of_int k" "timeout \<le> 2 ^ 52"
  obtains d n2 where "passed_msec V t n = Inr (d, n2)"
    "sint t + 1000 * k \<le> now n \<Longrightarrow> 0 \<le> k \<Longrightarrow> timeout < d"
    "now n < 2 ^ 63 - 1 \<Longrightarrow> now n < now n2"
proof -
  obtain t1 n2 where c: "v_clock V n = (t1, n2)" by (cases "v_clock V n")
  have t1: "sint t1 = now n" using clock_advancesD(1) [OF V, of n] c by simp
  obtain d where d: "passed_msec V t n = Inr (d, n2)"
    "2 ^ 53 \<le> (now n - sint t) sdiv 1000 \<Longrightarrow> 2 ^ 52 < d"
    "\<bar>(now n - sint t) sdiv 1000\<bar> < 2 ^ 53 \<Longrightarrow> d = of_int ((now n - sint t) sdiv 1000)"
    using passed_msec_cases [OF c _ t] clock_advancesD(2) [OF V, of n] unfolding t1 by metis
  have "timeout < d" if "sint t + 1000 * k \<le> now n" "0 \<le> k"
  proof -
    have "0 \<le> now n - sint t" using that by simp
    then have s: "(now n - sint t) sdiv 1000 = (now n - sint t) div 1000"
      by (rule sdiv_1000(2))
    have q: "k \<le> (now n - sint t) div 1000" using that(1) by (intro sdiv_1000(3)) simp
    show ?thesis
    proof (cases "(now n - sint t) div 1000 < 2 ^ 53")
      case True
      then have "d = of_int ((now n - sint t) div 1000)" using d(3) q that(2) by (simp add: s)
      moreover have "(of_int k :: rat) \<le> of_int ((now n - sint t) div 1000)" using q by (simp only: of_int_le_iff)
      ultimately show ?thesis using k(1) by simp
    next
      case False
      then show ?thesis using d(2) k(2) by (simp add: s)
    qed
  qed
  moreover have "now n < 2 ^ 63 - 1 \<Longrightarrow> now n < now n2"
    using clock_advancesD(4) [OF V, of n] c by simp
  ultimately show thesis using that [OF d(1)] by blast
qed

lemma poll_send_now:
  assumes "clock_advances V cq now" "qp_cq q = Some cq"
  shows "\<exists>cnt w q' n'. poll_send_comp V raw q n = Inr (cnt, w, q', n') \<and> qp_cq q' = Some cq \<and> now n \<le> now n'
    \<and> n' = snd (v_poll_cq V cq 1 n) \<and> cnt = fst (fst (v_poll_cq V cq 1 n))"
proof (cases "v_poll_cq V cq 1 n")
  case (Pair r n')
  then have "now n \<le> now n'" using clock_advancesD(5) [OF assms(1), of n] by simp
  with Pair assms(2) show ?thesis by (cases r) (simp add: poll_send_comp_def the_handle_def)
qed

lemma poll_rc_now:
  assumes "clock_advances V cq now" "qp_cq q = Some cq"
  shows "\<exists>r q' n'. poll_rc_comp V raw q n = Inr (r, q', n') \<and> qp_cq q' = Some cq \<and> now n \<le> now n'
    \<and> (r = None \<longleftrightarrow> fst (fst (v_poll_cq V cq 1 n)) = 0)"
  using poll_send_now [OF assms, of raw n] by (auto simp: poll_rc_comp_def Let_def)

lemma wait_rc_loop_ends:
  assumes V: "clock_advances V cq now" and t: "0 \<le> sint t"
    and k: "timeout < of_int k" "timeout \<le> 2 ^ 52" "0 \<le> k" "sint t + 1000 * k \<le> 2 ^ 63 - 1"
  shows "sint t + 1000 * k \<le> now n + int m \<Longrightarrow> qp_cq q = Some cq \<Longrightarrow>
     \<exists>r q' n'. wait_rc_loop V raw t timeout q n = Some (Inr (r, q', n'))"
proof (induction m arbitrary: q n rule: less_induct)
  case (less m q n)
  obtain r q1 n1 where p: "poll_rc_comp V raw q n = Inr (r, q1, n1)" "qp_cq q1 = Some cq" "now n \<le> now n1"
    using poll_rc_now [OF V less.prems(2)] by blast
  obtain d n2 where d: "passed_msec V t n1 = Inr (d, n2)"
    "sint t + 1000 * k \<le> now n1 \<Longrightarrow> timeout < d" "now n1 < 2 ^ 63 - 1 \<Longrightarrow> now n1 < now n2"
    using passed_msec_now [OF V t k(1,2), of n1] k(3) by metis
  show ?case
  proof (cases "sint t + 1000 * k \<le> now n1")
    case True
    then have "\<not> d < timeout" using d(2) by simp
    then show ?thesis using p(1) d(1) by (subst wait_rc_loop.simps) (auto split: option.splits)
  next
    case False
    then have n2: "now n < now n2" using d(3) k(4) p(3) by linarith
    have "0 < m" using False p(3) less.prems(1) by (cases m) simp_all
    then have "sint t + 1000 * k \<le> now n2 + int (m - 1)" using less.prems(1) n2 by simp
    from less.IH [OF _ this p(2)] \<open>0 < m\<close> obtain r' q' n' where
      "wait_rc_loop V raw t timeout q1 n2 = Some (Inr (r', q', n'))" by auto
    then show ?thesis using p(1) d(1) by (subst wait_rc_loop.simps) (auto split: option.splits)
  qed
qed

lemma wait_comp_loop_ends:
  assumes V: "clock_advances V cq now" and t: "0 \<le> sint t"
    and k: "timeout < of_int k" "timeout \<le> 2 ^ 52" "0 \<le> k" "sint t + 1000 * k \<le> 2 ^ 63 - 1"
  shows "sint t + 1000 * k \<le> now n + int m \<Longrightarrow> qp_cq q = Some cq \<Longrightarrow>
     \<exists>r. wait_comp_loop V raw t timeout q n = Some (Inr r)"
proof (induction m arbitrary: q n rule: less_induct)
  case (less m q n)
  obtain c w q1 n1 where p: "poll_send_comp V raw q n = Inr (c, w, q1, n1)" "qp_cq q1 = Some cq" "now n \<le> now n1"
    using poll_send_now [OF V less.prems(2)] by blast
  obtain d n2 where d: "passed_msec V t n1 = Inr (d, n2)"
    "sint t + 1000 * k \<le> now n1 \<Longrightarrow> timeout < d" "now n1 < 2 ^ 63 - 1 \<Longrightarrow> now n1 < now n2"
    using passed_msec_now [OF V t k(1,2), of n1] k(3) by metis
  show ?case
  proof (cases "sint t + 1000 * k \<le> now n1")
    case True
    then have "\<not> d \<le> timeout" using d(2) by simp
    then show ?thesis using p(1) d(1) by (subst wait_comp_loop.simps) simp
  next
    case False
    then have n2: "now n < now n2" using d(3) k(4) p(3) by linarith
    have "0 < m" using False p(3) less.prems(1) by (cases m) simp_all
    then have "sint t + 1000 * k \<le> now n2 + int (m - 1)" using less.prems(1) n2 by simp
    from less.IH [OF _ this p(2)] \<open>0 < m\<close> obtain r where
      "wait_comp_loop V raw t timeout q1 n2 = Some (Inr r)" by auto
    then show ?thesis using p(1) d(1) by (cases r) (subst wait_comp_loop.simps, simp)
  qed
qed

text \<open>With no timeout and a card that never reports, the loops go on for ever.\<close>

lemma wait_rc_loop_diverges:
  assumes V: "clock_advances V cq now" and silent: "\<And>n. fst (fst (v_poll_cq V cq 1 n)) = 0"
    and t: "0 \<le> sint t" and q: "qp_cq q = Some cq"
  shows "wait_rc_loop V raw t no_timeout q n = None"
proof -
  have "V' = V \<longrightarrow> timeout = no_timeout \<longrightarrow> 0 \<le> sint t' \<longrightarrow> qp_cq q' = Some cq \<longrightarrow> False"
    if "wait_rc_loop V' raw' t' timeout q' n' = Some y" for V' raw' t' timeout q' n' y
    using that
  proof (induction rule: wait_rc_loop.raw_induct [rotated, consumes 1, case_names step])
    case (step loop V' raw' t' timeout q' n' y)
    show ?case
    proof (intro impI)
      assume h: "V' = V" "timeout = no_timeout" "0 \<le> sint t'" "qp_cq q' = Some cq"
      obtain q1 n1 where p: "poll_rc_comp V raw' q' n' = Inr (None, q1, n1)" "qp_cq q1 = Some cq"
        using poll_rc_now [OF V h(4), of raw' n'] silent by auto
      obtain t1 n2 where c: "v_clock V n1 = (t1, n2)" by (cases "v_clock V n1")
      have "0 \<le> sint t1" using clock_advancesD(1,2) [OF V, of n1] c by simp
      then obtain d where d: "passed_msec V t' n1 = Inr (d, n2)" "d < no_timeout"
        using passed_msec_small [OF c _ h(3)] by blast
      have "loop V raw' t' no_timeout q1 n2 = Some y" using step(2) h p(1) d by simp
      from step(1) [OF this] show False using h(3) p(2) by simp
    qed
  qed
  then show ?thesis using t q by (cases "wait_rc_loop V raw t no_timeout q n") auto
qed

lemma wait_comp_loop_diverges:
  assumes V: "clock_advances V cq now" and silent: "\<And>n. fst (fst (v_poll_cq V cq 1 n)) = 0"
    and t: "0 \<le> sint t" and q: "qp_cq q = Some cq"
  shows "wait_comp_loop V raw t no_timeout q n = None"
proof -
  have "V' = V \<longrightarrow> timeout = no_timeout \<longrightarrow> 0 \<le> sint t' \<longrightarrow> qp_cq q' = Some cq \<longrightarrow> False"
    if "wait_comp_loop V' raw' t' timeout q' n' = Some y" for V' raw' t' timeout and q' :: "'b qp_scheme" and n' y
    using that
  proof (induction rule: wait_comp_loop.raw_induct [rotated, consumes 1, case_names step])
    case (step loop V' raw' t' timeout q' n' y)
    show ?case
    proof (intro impI)
      assume h: "V' = V" "timeout = no_timeout" "0 \<le> sint t'" "qp_cq q' = Some cq"
      obtain w q1 n1 where p: "poll_send_comp V raw' q' n' = Inr (0, w, q1, n1)" "qp_cq q1 = Some cq"
        using poll_send_now [OF V h(4), of raw' n'] silent by auto
      obtain t1 n2 where c: "v_clock V n1 = (t1, n2)" by (cases "v_clock V n1")
      have "0 \<le> sint t1" using clock_advancesD(1,2) [OF V, of n1] c by simp
      then obtain d where d: "passed_msec V t' n1 = Inr (d, n2)" "d < no_timeout"
        using passed_msec_small [OF c _ h(3)] by blast
      have "loop V raw' t' no_timeout q1 n2 = Some y" using step(2) h p(1) d by simp
      from step(1) [OF this] show False using h(3) p(2) by simp
    qed
  qed
  then show ?thesis using t q by (cases "wait_comp_loop V raw t no_timeout q n") auto
qed

text \<open>C28: a wait with a timeout of up to \<open>2 ^ 52\<close> microseconds that the clock can still reach before
  its last value returns, whatever completions the card reports or does not report; the answer
  is a completion, an error or a timeout. The default \<open>no_timeout\<close> is beyond the clock: with it,
  a wait for a completion the card never reports does not return.\<close>

theorem waits_return:
  assumes "clock_advances V cq now" "qp_cq q = Some cq"
  shows "(timeout \<le> 2 ^ 52 \<and> of_int (now n) + 1000 * (max timeout 0 + 2) < 2 ^ 63 \<longrightarrow>
       (\<exists>res q' n'. wait_rc_comp V raw timeout q n = Inr (res, q', n') \<and> code res \<in> {IO_Ok, IO_Err, IO_Timeout})
     \<and> (\<exists>res q' n'. wait_one_comp V raw timeout q n = Inr (res, q', n') \<and> code res \<in> {IO_Ok, IO_Err, IO_Timeout}))
   \<and> ((\<forall>n. fst (fst (v_poll_cq V cq 1 n)) = 0) \<longrightarrow>
       wait_rc_comp V raw no_timeout q n = Inl Diverges \<and> wait_one_comp V raw no_timeout q n = Inl Diverges)"
proof -
  obtain t n1 where c: "v_clock V n = (t, n1)" by (cases "v_clock V n")
  have t: "sint t = now n" "0 \<le> sint t" using clock_advancesD(1,2) [OF assms(1), of n] c by simp_all
  have "wait_rc_comp V raw no_timeout q n = Inl Diverges \<and> wait_one_comp V raw no_timeout q n = Inl Diverges"
    if "\<And>n. fst (fst (v_poll_cq V cq 1 n)) = 0"
    using wait_rc_loop_diverges [OF assms(1) that t(2) assms(2)] wait_comp_loop_diverges [OF assms(1) that t(2) assms(2)]
    by (simp add: wait_rc_comp_def wait_one_comp_def c)
  moreover have "(\<exists>res q' n'. wait_rc_comp V raw timeout q n = Inr (res, q', n') \<and> code res \<in> {IO_Ok, IO_Err, IO_Timeout})
     \<and> (\<exists>res q' n'. wait_one_comp V raw timeout q n = Inr (res, q', n') \<and> code res \<in> {IO_Ok, IO_Err, IO_Timeout})"
    if h: "timeout \<le> 2 ^ 52" "of_int (now n) + 1000 * (max timeout 0 + 2) < 2 ^ 63"
  proof -
    define k where "k = \<lceil>max timeout 0\<rceil> + 1"
    have k1: "timeout < of_int k" "0 \<le> k" unfolding k_def by linarith+
    have "of_int k \<le> max timeout 0 + 2" unfolding k_def by linarith
    then have "(of_int (now n + 1000 * k) :: rat) < of_int (2 ^ 63)" using h(2) by simp
    then have k2: "sint t + 1000 * k \<le> 2 ^ 63 - 1" unfolding of_int_less_iff t(1) by simp
    have m: "sint t + 1000 * k \<le> now n1 + int (nat (sint t + 1000 * k))"
      using clock_advancesD(2) [OF assms(1), of n1] by simp
    obtain r q' n' where rc: "wait_rc_loop V raw t timeout q n1 = Some (Inr (r, q', n'))"
      using wait_rc_loop_ends [OF assms(1) t(2) k1(1) h(1) k1(2) k2 m assms(2)] by blast
    obtain r2 where one: "wait_comp_loop V raw t timeout q n1 = Some (Inr r2)"
      using wait_comp_loop_ends [OF assms(1) t(2) k1(1) h(1) k1(2) k2 m assms(2)] by blast
    have "\<exists>res q' n'. wait_rc_comp V raw timeout q n = Inr (res, q', n') \<and> code res \<in> {IO_Ok, IO_Err, IO_Timeout}"
      using rc by (auto simp: wait_rc_comp_def c io_result_defs split: option.splits)
    moreover have "\<exists>res q' n'. wait_one_comp V raw timeout q n = Inr (res, q', n') \<and> code res \<in> {IO_Ok, IO_Err, IO_Timeout}"
      using one by (cases r2) (auto simp: wait_one_comp_def c io_result_defs)
    ultimately show ?thesis ..
  qed
  ultimately show ?thesis by blast
qed

definition tick_verbs :: "nat verbs" where
  "tick_verbs = \<lparr>v_strerror = (\<lambda>_. ''error''), v_errno = (\<lambda>_. 5), v_num_devices = (\<lambda>_. 1), v_open_device = (\<lambda>i n. (Some i, n)),
     v_close_device = (\<lambda>_ n. n), v_alloc_pd = (\<lambda>i n. (Some i, n)), v_dealloc_pd = (\<lambda>_ n. n),
     v_query_port = (\<lambda>_ _ _. (0, \<lparr>p_lid = 1, p_active = True, p_state_str = []\<rparr>)), v_query_gid = (\<lambda>_ _ _ _. (1, 2)),
     v_query_device = (\<lambda>_ _. (0, 1)), v_reg_mr = (\<lambda>_ _ _ _ n. (Some (0, 7, 8), n)), v_create_cq = (\<lambda>_ _ n. (Some 0, n)),
     v_create_qp = (\<lambda>_ _ n. (Some 0, n)), v_destroy_qp = (\<lambda>_ n. (0, n)), v_qp_type = (\<lambda>_ _. QPT_RC), v_qp_num = (\<lambda>_ _. 9),
     v_modify_qp = (\<lambda>_ _ _ n. (0, n)), v_query_qp = (\<lambda>_ _. (0, QPS_INIT)), v_create_ah = (\<lambda>_ _ n. (Some 0, n)),
     v_post_send = (\<lambda>_ ws n. (0, n)), v_post_recv = (\<lambda>_ ws n. (0, n)),
     v_poll_cq = (\<lambda>_ k n. ((0, []), n)), v_clock = (\<lambda>n. (of_nat (min n (2 ^ 63 - 1)), Suc n))\<rparr>"

lemma tick_clock: "clock_advances tick_verbs 0 (\<lambda>n. int (min n (2 ^ 63 - 1)))"
proof -
  have "sint (of_nat (min n (2 ^ 63 - 1)) :: 64 word) = int (min n (2 ^ 63 - 1))" for n
    by (simp add: signed_of_nat signed_take_bit_int_eq_self del: of_nat_min)
  then show ?thesis by (auto simp: clock_advances_def tick_verbs_def)
qed

theorem waits_return_witness:
  "let raw = \<lparr>wc_wr_id = 0, wc_success = True, wc_imm_data = 0, wc_byte_len = 0\<rparr> in
     (\<exists>res q' n'. wait_rc_comp tick_verbs raw 100 ex_rc 5 = Inr (res, q', n') \<and> code res \<in> {IO_Ok, IO_Err, IO_Timeout})
   \<and> wait_one_comp tick_verbs raw no_timeout ex_rc 5 = Inl Diverges"
proof -
  have "qp_cq ex_rc = Some 0" by (simp add: ex_rc_def)
  moreover have "\<forall>n. fst (fst (v_poll_cq tick_verbs 0 1 n)) = 0" by (simp add: tick_verbs_def)
  ultimately show ?thesis
    using waits_return [OF tick_clock, of ex_rc 100 5] by (simp add: Let_def)
qed

end
