(* ===== verification/Channel.thy ===== *)
theory Channel
  imports Complex_Main Rlib_Core
begin

text \<open>
  The UDP channels of RLib (\<^verbatim>\<open>bootstrap/channel.hh\<close>) and the lookup of host names
  (\<^verbatim>\<open>utils/ipname.hh\<close>).

  The socket calls of the operating system are a parameter, \<open>'s sockets\<close>, functions on its state
  \<open>'s\<close>. A socket address (\<open>sockaddr\<close>, \<open>addrinfo\<close>) is a number, a file descriptor an \<open>int\<close>, and
  \<open>-1\<close> a failed call.
\<close>

section \<open>Sockets\<close>

record 's sockets =
  so_sendto :: "int \<Rightarrow> bytes \<Rightarrow> nat \<Rightarrow> 's \<Rightarrow> int \<times> 's"
  so_select :: "int \<Rightarrow> int \<Rightarrow> 's \<Rightarrow> (int \<times> bool) \<times> 's"
  so_recvfrom :: "int \<Rightarrow> nat \<Rightarrow> 's \<Rightarrow> (bytes \<times> nat) option \<times> 's"
  so_socket :: "nat \<Rightarrow> 's \<Rightarrow> int \<times> 's"
  so_socket_inet :: "'s \<Rightarrow> int \<times> 's"
  so_bind :: "int \<Rightarrow> nat \<Rightarrow> 's \<Rightarrow> int \<times> 's"
  so_set_nonblock :: "int \<Rightarrow> 's \<Rightarrow> 's"
  so_close :: "int \<Rightarrow> 's \<Rightarrow> 's"
  so_strerror :: "'s \<Rightarrow> string"
  so_getaddrinfo :: "string option \<Rightarrow> string option \<Rightarrow> 's \<Rightarrow> nat list option \<times> 's"
  so_getnameinfo :: "nat \<Rightarrow> 's \<Rightarrow> string"
  so_inet_addr :: "string \<Rightarrow> int \<Rightarrow> nat"
  so_any_addr :: "int \<Rightarrow> nat"
  so_to_string :: "int \<Rightarrow> string"
  so_clock :: "'s \<Rightarrow> nat \<times> 's"

definition kMaxMsgSz :: nat where "kMaxMsgSz = 4096"

section \<open>Host names\<close>

definition parse_digits :: "string \<Rightarrow> int" where
  "parse_digits ds = foldl (\<lambda>n c. 10 * n + (int (of_char c :: nat) - 48)) 0 ds"

definition is_digit :: "char \<Rightarrow> bool" where
  "is_digit c \<longleftrightarrow> 48 \<le> (of_char c :: nat) \<and> (of_char c :: nat) \<le> 57"

definition is_space :: "char \<Rightarrow> bool" where
  "is_space c \<longleftrightarrow> (of_char c :: nat) = 32 \<or> (9 \<le> (of_char c :: nat) \<and> (of_char c :: nat) \<le> 13)"

text \<open>\<open>parser >> port\<close>: leading blanks, a sign, and the longest run of digits; extraction fails without
  a digit or when the number does not fit an \<open>int\<close>.\<close>

definition stream_int :: "string \<Rightarrow> int option" where
  "stream_int s =
     (let s = dropWhile is_space s;
          (neg, s) = (case s of c # t \<Rightarrow> if c = CHR ''-'' then (True, t) else if c = CHR ''+'' then (False, t) else (False, s)
                      | [] \<Rightarrow> (False, s));
          ds = takeWhile is_digit s;
          v = (if neg then - parse_digits ds else parse_digits ds)
      in if ds = [] \<or> v < - (2 ^ 31) \<or> v \<ge> 2 ^ 31 then None else Some v)"

definition parse_addr :: "string \<Rightarrow> (string \<times> int) option" where
  "parse_addr h =
     (let host = takeWhile (\<lambda>c. c \<noteq> CHR '':'') h in
      if length host = length h then None
      else map_option (\<lambda>port. (host, port)) (stream_int (drop (length host + 1) h)))"

text \<open>\<open>erase(0, find_first_not_of(" "))\<close> and \<open>erase(find_last_not_of(" ") + 1)\<close>. Of a string of
  blanks the first call erases everything; \<open>npos + 1\<close> is 0 then.\<close>

definition trim_host :: "string \<Rightarrow> string" where
  "trim_host h = rev (dropWhile (\<lambda>c. c = CHR '' '') (rev (dropWhile (\<lambda>c. c = CHR '' '') h)))"

type_synonym ip_cache = "(string \<times> string \<times> nat) list"

text \<open>Times are microseconds; a cached address is used for less than 10 seconds. The lock makes a call
  atomic.\<close>

definition host2ip :: "'s sockets \<Rightarrow> string \<Rightarrow> ip_cache \<Rightarrow> 's \<Rightarrow> string io_result \<times> ip_cache \<times> 's" where
  "host2ip K host cache s =
     (let h = trim_host host;
          lookup = (\<lambda>cache s.
            case so_getaddrinfo K (Some h) None s of (infos, s) \<Rightarrow>
              (case infos of None \<Rightarrow> (io_err (so_strerror K s), cache, s)
               | Some ps \<Rightarrow>
                   let ip = (if ps = [] then [] else so_getnameinfo K (last ps) s) in
                   if ip \<noteq> [] then (case so_clock K s of (t, s) \<Rightarrow> (io_ok ip, (h, ip, t) # cache, s))
                   else (io_err ''not found'', cache, s)))
      in case map_of cache h of
           Some (ip, t) \<Rightarrow>
             (case so_clock K s of (now, s) \<Rightarrow>
                if of_nat now - of_nat t < (10 :: rat) * 1000000 then (io_ok ip, cache, s)
                else lookup (AList.delete h cache) s)
         | None \<Rightarrow> lookup cache s)"

section \<open>Channels\<close>

record channel =
  sock_fd :: int

definition ch_valid :: "'a channel_scheme \<Rightarrow> bool" where "ch_valid c \<longleftrightarrow> sock_fd c \<ge> 0"
definition set_socket :: "int \<Rightarrow> 'a channel_scheme \<Rightarrow> 'a channel_scheme" where "set_socket fd c = c\<lparr>sock_fd := fd\<rparr>"

definition close_channel :: "'s sockets \<Rightarrow> 'a channel_scheme \<Rightarrow> 's \<Rightarrow> unit io_result \<times> 'a channel_scheme \<times> 's" where
  "close_channel K c s =
     (if ch_valid c then (io_ok (), c\<lparr>sock_fd := -1\<rparr>, so_close K (sock_fd c) s) else (io_ok (), c, s))"

definition raw_send :: "'s sockets \<Rightarrow> 'a channel_scheme \<Rightarrow> bytes \<Rightarrow> nat \<Rightarrow> 's \<Rightarrow> (string io_result \<times> 's) res" where
  "raw_send K c buf addr s =
     rassert (ch_valid c)
       (case so_sendto K (sock_fd c) buf addr s of (r, s) \<Rightarrow>
          Inr (if r \<le> 0 then io_err (so_strerror K s) else io_ok [], s))"

text \<open>The received bytes overwrite the front of \<open>buf\<close>, whose size does not change. \<open>raw\<close> is an
  uninitialised address; the timeout is converted to whole microseconds.\<close>

definition try_recv :: "'s sockets \<Rightarrow> nat \<Rightarrow> 'a channel_scheme \<Rightarrow> bytes \<Rightarrow> rat \<Rightarrow> 's \<Rightarrow> (nat io_result \<times> bytes \<times> 's) res" where
  "try_recv K raw c buf to_usec s =
     (case so_select K (sock_fd c) \<lfloor>to_usec\<rfloor> s of ((ready, is_set), s) \<Rightarrow>
        if ready = 0 then Inr (io_timeout raw, buf, s)
        else if ready = -1 then Inr (io_err raw, buf, s)
        else rassert is_set
          (case so_recvfrom K (sock_fd c) (length buf) s of (r, s) \<Rightarrow>
             Inr (case r of Some (bs, addr) \<Rightarrow> (io_ok addr, bs @ drop (length bs) buf, s)
                  | None \<Rightarrow> (io_err raw, buf, s))))"

section \<open>Sending channels\<close>

record send_channel = channel +
  end_addr :: nat

fun first_socket :: "'s sockets \<Rightarrow> nat list \<Rightarrow> int \<Rightarrow> 's \<Rightarrow> int \<times> 's" where
  "first_socket K [] fd s = (fd, s)"
| "first_socket K (p # ps) fd s =
     (case so_socket K p s of (fd, s) \<Rightarrow> if fd = -1 then first_socket K ps fd s else (fd, s))"

definition convert_addr :: "'s sockets \<Rightarrow> string \<Rightarrow> int \<Rightarrow> nat" where
  "convert_addr K ip port = so_inet_addr K ip port"

definition SendChannel :: "'s sockets \<Rightarrow> string \<Rightarrow> int \<Rightarrow> 's \<Rightarrow> send_channel \<times> 's" where
  "SendChannel K ip port s =
     (let c = \<lparr>sock_fd = -1, end_addr = convert_addr K ip port\<rparr> in
      case so_getaddrinfo K (Some ip) (Some (so_to_string K port)) s of (infos, s) \<Rightarrow>
        (case infos of None \<Rightarrow> (c, s)
         | Some ps \<Rightarrow>
             (case first_socket K ps (-1) s of (fd, s) \<Rightarrow>
              let c = set_socket fd c in
              if ch_valid c then (c, so_set_nonblock K (sock_fd c) s) else (c, s))))"

definition SendChannel_create :: "'s sockets \<Rightarrow> string \<Rightarrow> ip_cache \<Rightarrow> 's \<Rightarrow> send_channel option \<times> ip_cache \<times> 's" where
  "SendChannel_create K addr cache s =
     (case parse_addr addr of None \<Rightarrow> (None, cache, s)
      | Some (host, port) \<Rightarrow>
          (case host2ip K host cache s of (ip_res, cache, s) \<Rightarrow>
             if code ip_res = IO_Ok then
               (case SendChannel K (desc ip_res) port s of (sc, s) \<Rightarrow>
                  (if ch_valid sc then Some sc else None, cache, s))
             else (None, cache, s)))"

definition sc_send :: "'s sockets \<Rightarrow> send_channel \<Rightarrow> bytes \<Rightarrow> 's \<Rightarrow> (string io_result \<times> 's) res" where
  "sc_send K c buf s = raw_send K c buf (end_addr c) s"

definition sc_recv :: "'s sockets \<Rightarrow> nat \<Rightarrow> send_channel \<Rightarrow> rat \<Rightarrow> 's \<Rightarrow> (bytes io_result \<times> 's) res" where
  "sc_recv K raw c timeout_usec s =
     rbind (try_recv K raw c (replicate kMaxMsgSz 0) timeout_usec s) (\<lambda>(res, buf, s).
       Inr (if code res = IO_Ok then io_ok buf else \<lparr>code = code res, desc = []\<rparr>, s))"

section \<open>Receiving channels\<close>

record recv_channel = channel +
  cur_msg_client :: "nat option"
  cur_msg :: bytes

text \<open>\<open>p\<close> of the loop: whether an address was bound before the list ended. After a failed \<open>bind\<close>
  \<open>sockfd\<close> keeps the closed descriptor.\<close>

fun bind_first :: "'s sockets \<Rightarrow> nat list \<Rightarrow> int \<Rightarrow> 's \<Rightarrow> int \<times> 's" where
  "bind_first K [] fd s = (fd, s)"
| "bind_first K (p # ps) fd s =
     (case so_socket K p s of (fd, s) \<Rightarrow>
        if fd = -1 then bind_first K ps fd s
        else case so_bind K fd p s of (b, s) \<Rightarrow>
          if b = -1 then bind_first K ps fd (so_close K fd s) else (fd, s))"

text \<open>When \<open>getaddrinfo\<close> fails, \<open>freeaddrinfo\<close> is called on an uninitialised pointer.\<close>

definition RecvChannel :: "'s sockets \<Rightarrow> int \<Rightarrow> 's \<Rightarrow> (recv_channel \<times> 's) res" where
  "RecvChannel K port s =
     (case so_getaddrinfo K None (Some (so_to_string K port)) s of (infos, s) \<Rightarrow>
        (case infos of None \<Rightarrow> Inl UB
         | Some ps \<Rightarrow>
             (case bind_first K ps (-1) s of (fd, s) \<Rightarrow>
                let c = \<lparr>sock_fd = fd, cur_msg_client = None, cur_msg = replicate kMaxMsgSz 0\<rparr> in
                Inr (c, if ch_valid c then so_set_nonblock K fd s else s))))"

definition RecvChannel_host :: "'s sockets \<Rightarrow> int \<Rightarrow> string \<Rightarrow> 's \<Rightarrow> recv_channel \<times> 's" where
  "RecvChannel_host K port host s =
     (case so_socket_inet K s of (fd, s) \<Rightarrow>
      let c = \<lparr>sock_fd = fd, cur_msg_client = None, cur_msg = replicate kMaxMsgSz 0\<rparr> in
      if ch_valid c then
        let s = so_set_nonblock K fd s;
            addr = (if host = ''localhost'' then so_any_addr K port else so_inet_addr K host port)
        in case so_bind K fd addr s of (b, s) \<Rightarrow>
             if b \<noteq> 0 then (case close_channel K c s of (_, c, s) \<Rightarrow> (c, s)) else (c, s)
      else (c, s))"

text \<open>\<open>create\<close> ignores the host it is given.\<close>

definition RecvChannel_create :: "'s sockets \<Rightarrow> int \<Rightarrow> string \<Rightarrow> 's \<Rightarrow> (recv_channel option \<times> 's) res" where
  "RecvChannel_create K port h s =
     rbind (RecvChannel K port s) (\<lambda>(c, s). Inr (if ch_valid c then Some c else None, s))"

definition has_msg :: "recv_channel \<Rightarrow> bool" where "has_msg c \<longleftrightarrow> cur_msg_client c \<noteq> None"

definition rc_start :: "'s sockets \<Rightarrow> nat \<Rightarrow> rat \<Rightarrow> recv_channel \<Rightarrow> 's \<Rightarrow> (recv_channel \<times> 's) res" where
  "rc_start K raw timeout_usec c s =
     (if has_msg c then Inr (c, s)
      else rbind (try_recv K raw c (cur_msg c) timeout_usec s) (\<lambda>(res, buf, s).
        let c = c\<lparr>cur_msg := buf\<rparr> in
        Inr (if code res = IO_Ok then c\<lparr>cur_msg_client := Some (desc res)\<rparr> else c, s)))"

definition rc_next :: "'s sockets \<Rightarrow> nat \<Rightarrow> recv_channel \<Rightarrow> 's \<Rightarrow> (recv_channel \<times> 's) res" where
  "rc_next K raw c s = rc_start K raw 1000 (c\<lparr>cur_msg_client := None\<rparr>) s"

definition rc_cur :: "recv_channel \<Rightarrow> bytes" where "rc_cur c = cur_msg c"

definition reply_cur :: "'s sockets \<Rightarrow> recv_channel \<Rightarrow> bytes \<Rightarrow> 's \<Rightarrow> (string io_result \<times> 's) res" where
  "reply_cur K c buf s = rbind (opt_value (cur_msg_client c)) (\<lambda>addr. raw_send K c buf addr s)"

lemma parse_addr_ex: "parse_addr ''10.0.0.1:8888'' = Some (''10.0.0.1'', 8888)" "parse_addr ''host'' = None"
    "parse_addr ''h:x'' = None" "parse_addr ''h: -12z'' = Some (''h'', -12)"
  by code_simp+

end
