(* ===== verification/Multi_Msg.thy ===== *)
theory Multi_Msg
  imports Marshal
begin

text \<open>
  Several messages packed into one (\<^verbatim>\<open>bootstrap/multi_msg.hh\<close>, \<^verbatim>\<open>bootstrap/multi_msg_iter.hh\<close>):
  a header of 33 bytes inside the buffer, with the number of messages and the offset and size
  of each, then the messages.

  The \<open>header\<close> member points into the buffer's storage. Appending past the capacity of the
  \<open>std::string\<close> moves the storage, after which the pointer dangles: \<open>mm_live\<close> tells whether it is
  still valid, and an access through a dangling pointer is undefined. The capacity grows as in
  libstdc++.
\<close>

section \<open>The header\<close>

definition kMaxMultiMsg :: nat where "kMaxMultiMsg = 8"
definition max_entry_sz :: usize where "max_entry_sz = 65535"
definition MsgsHeader_size :: nat where "MsgsHeader_size = 33"

text \<open>A byte of the storage of a \<open>std::string\<close>: the characters, and the null behind them.\<close>

definition str_byte :: "bytes \<Rightarrow> nat \<Rightarrow> u8 res" where
  "str_byte b i = (if i < length b then Inr (b ! i) else if i = length b then Inr 0 else Inl UB)"

definition str_u16 :: "bytes \<Rightarrow> nat \<Rightarrow> u16 res" where
  "str_u16 b i = rbind (str_byte b i) (\<lambda>lo. rbind (str_byte b (i + 1)) (\<lambda>hi. Inr (of_nat (nat_le [lo, hi]))))"

definition mh_num :: "bytes \<Rightarrow> u8 res" where "mh_num b = str_byte b 0"

definition mh_entry :: "bytes \<Rightarrow> nat \<Rightarrow> (u16 \<times> u16) res" where
  "mh_entry b i =
     (if i < kMaxMultiMsg
      then rbind (str_u16 b (1 + 4 * i)) (\<lambda>off. rbind (str_u16 b (3 + 4 * i)) (\<lambda>sz. Inr (off, sz)))
      else Inl UB)"

definition mh_set_entry :: "bytes \<Rightarrow> nat \<Rightarrow> u16 \<times> u16 \<Rightarrow> bytes res" where
  "mh_set_entry b i e =
     (if i < kMaxMultiMsg then mem_put b (1 + 4 * i) (to_bytes (pair_pod u16_pod u16_pod) e) else Inl UB)"

definition has_free_entry :: "bytes \<Rightarrow> bool res" where
  "has_free_entry b = rbind (mh_num b) (\<lambda>num. Inr (unat num < kMaxMultiMsg))"

definition append_one :: "bytes \<Rightarrow> u16 \<Rightarrow> (bool \<times> bytes) res" where
  "append_one b sz =
     rbind (has_free_entry b) (\<lambda>free.
     if \<not> free then Inr (False, b)
     else
       rbind (mh_num b) (\<lambda>num.
       rbind (if num \<noteq> 0 then rbind (mh_entry b (unat num - 1)) (\<lambda>(o1, s1). Inr (o1 + s1))
              else Inr (of_nat MsgsHeader_size)) (\<lambda>off.
       rbind (mh_set_entry b (unat num) (off, sz)) (\<lambda>b.
       rbind (mem_put b 0 [num + 1]) (\<lambda>b. Inr (True, b))))))"

text \<open>The loop of \<open>sanity_check\<close> with \<open>k\<close> entries left from entry \<open>i\<close> on; \<open>cur_off\<close> is a \<open>u16\<close>.\<close>

fun mh_check :: "bytes \<Rightarrow> usize \<Rightarrow> nat \<Rightarrow> nat \<Rightarrow> u16 \<Rightarrow> bool res" where
  "mh_check b sz i 0 cur = Inr ((ucast cur :: usize) \<le> sz)"
| "mh_check b sz i (Suc k) cur =
     rbind (mh_entry b i) (\<lambda>(off, s). if off \<noteq> cur then Inr False else mh_check b sz (i + 1) k (cur + s))"

definition mh_sanity_check :: "bytes \<Rightarrow> usize \<Rightarrow> bool res" where
  "mh_sanity_check b sz =
     rbind (mh_num b) (\<lambda>num.
       if unat num > kMaxMultiMsg then Inr False else mh_check b sz 0 (unat num) (of_nat MsgsHeader_size))"

section \<open>Packed messages\<close>

record multi_msg =
  mm_buf :: bytes
  mm_cap :: nat
  mm_live :: bool

definition str_grow :: "nat \<Rightarrow> nat \<Rightarrow> nat" where
  "str_grow cap n = (if n \<le> cap then cap else max n (2 * cap))"

text \<open>\<open>init\<close> on the dump of an empty header. \<open>MAXSZ\<close> is the template parameter.\<close>

definition MultiMsg :: "nat \<Rightarrow> nat \<Rightarrow> multi_msg" where
  "MultiMsg MAXSZ reserve_sz =
     (let true_reserve_sz = min (max reserve_sz MsgsHeader_size) MAXSZ in
      \<lparr>mm_buf = replicate MsgsHeader_size 0, mm_cap = str_grow MsgsHeader_size true_reserve_sz, mm_live = True\<rparr>)"

text \<open>\<open>create_from\<close> keeps a pointer to the buffer it is given, of capacity \<open>cap\<close>.\<close>

definition create_from :: "nat \<Rightarrow> nat \<Rightarrow> bytes \<Rightarrow> multi_msg option res" where
  "create_from MAXSZ cap b =
     (if length b > MAXSZ then Inr None
      else rbind (mh_sanity_check b (of_nat (length b))) (\<lambda>ok.
        Inr (if ok then Some \<lparr>mm_buf = b, mm_cap = cap, mm_live = True\<rparr> else None)))"

text \<open>The size is a \<open>usize\<close> of 32 bits; callers pass a \<open>size_t\<close>, which is cut to it. The sum with
  \<open>sizeof\<close> has 64 bits.\<close>

definition create_exact :: "nat \<Rightarrow> usize \<Rightarrow> multi_msg option" where
  "create_exact MAXSZ sz =
     (if unat sz + MsgsHeader_size > MAXSZ then None else Some (MultiMsg MAXSZ (unat sz + MsgsHeader_size)))"

definition mm_header :: "multi_msg \<Rightarrow> bytes res" where
  "mm_header m = (if mm_live m then Inr (mm_buf m) else Inl UB)"

definition mm_append :: "nat \<Rightarrow> multi_msg \<Rightarrow> bytes \<Rightarrow> (bool \<times> multi_msg) res" where
  "mm_append MAXSZ m msg =
     (if length (mm_buf m) + length msg > MAXSZ then Inr (False, m)
      else
        rbind (mm_header m) (\<lambda>b.
        rbind (append_one b (of_nat (length msg))) (\<lambda>(ok, b).
        if \<not> ok then Inr (False, m)
        else Inr (True, \<lparr>mm_buf = b @ msg, mm_cap = str_grow (mm_cap m) (length b + length msg),
                         mm_live = (length b + length msg \<le> mm_cap m)\<rparr>))))"

definition num_msg :: "multi_msg \<Rightarrow> usize res" where
  "num_msg m = rbind (mm_header m) (\<lambda>b. rbind (mh_num b) (\<lambda>n. Inr (ucast n)))"

text \<open>\<open>sub_bytes\<close> are the characters from a pointer into the string on.\<close>

definition sub_bytes :: "bytes \<Rightarrow> nat \<Rightarrow> nat \<Rightarrow> bytes res" where
  "sub_bytes b off sz = (if off + sz \<le> length b then Inr (take sz (drop off b)) else Inl UB)"

definition query_one :: "multi_msg \<Rightarrow> usize \<Rightarrow> bytes option res" where
  "query_one m idx =
     rbind (num_msg m) (\<lambda>num.
     if idx \<ge> num then Inr None
     else
       rbind (mm_header m) (\<lambda>b.
       rbind (mh_entry b (unat idx)) (\<lambda>(off, sz).
       rbind (sub_bytes b (unat off) (unat sz)) (\<lambda>s. Inr (Some s)))))"

section \<open>Iteration\<close>

record msgs_iter =
  mi_msgs :: multi_msg
  mi_idx :: usize

definition MsgsIter :: "multi_msg \<Rightarrow> msgs_iter" where "MsgsIter m = \<lparr>mi_msgs = m, mi_idx = 0\<rparr>"

definition mi_valid :: "msgs_iter \<Rightarrow> bool res" where
  "mi_valid i = rbind (num_msg (mi_msgs i)) (\<lambda>n. Inr (mi_idx i < n))"

definition mi_next :: "msgs_iter \<Rightarrow> msgs_iter" where "mi_next i = i\<lparr>mi_idx := mi_idx i + 1\<rparr>"

text \<open>The pointer \<open>cur\<close> returns is the offset into the buffer.\<close>

definition mi_cur :: "msgs_iter \<Rightarrow> (nat \<times> usize) res" where
  "mi_cur i =
     rbind (mi_valid i) (\<lambda>v. rassert v
       (rbind (mm_header (mi_msgs i)) (\<lambda>b.
        rbind (mh_entry b (unat (mi_idx i))) (\<lambda>(off, sz). Inr (unat off, ucast sz)))))"

definition mi_cur_msg :: "msgs_iter \<Rightarrow> bytes res" where
  "mi_cur_msg i = rbind (mi_cur i) (\<lambda>(off, sz). sub_bytes (mm_buf (mi_msgs i)) off (unat sz))"

text \<open>The loop over all messages, with \<open>fuel\<close> for its iterations.\<close>

fun mi_collect :: "nat \<Rightarrow> msgs_iter \<Rightarrow> bytes list res" where
  "mi_collect 0 i = Inl Diverges"
| "mi_collect (Suc fuel) i =
     rbind (mi_valid i) (\<lambda>v.
     if v then rbind (mi_cur_msg i) (\<lambda>m. rbind (mi_collect fuel (mi_next i)) (\<lambda>ms. Inr (m # ms)))
     else Inr [])"

section \<open>What a packed buffer holds\<close>

definition layout :: "bytes list \<Rightarrow> (u16 \<times> u16) list" where
  "layout ms = map (\<lambda>i. (of_nat (33 + length (concat (take i ms))), of_nat (length (ms ! i)))) [0..<length ms]"

abbreviation entry_bytes :: "u16 \<times> u16 \<Rightarrow> bytes" where
  "entry_bytes \<equiv> to_bytes (pair_pod u16_pod u16_pod)"

text \<open>\<open>b\<close> is a buffer with the messages \<open>ms\<close>, and \<open>rest\<close> behind them.\<close>

definition packs :: "bytes \<Rightarrow> bytes list \<Rightarrow> bytes \<Rightarrow> bool" where
  "packs b ms rest \<longleftrightarrow> length ms \<le> 8 \<and> 33 + length (concat ms) < 65536 \<and>
     (\<exists>junk. length junk = 4 * (8 - length ms)
        \<and> b = of_nat (length ms) # concat (map entry_bytes (layout ms)) @ junk @ concat ms @ rest)"

lemma length_entry_bytes [simp]: "length (entry_bytes e) = 4"
  by (cases e) (simp add: pair_pod_def)

lemma length_layout [simp]: "length (layout ms) = length ms"
  by (simp add: layout_def)

lemma length_concat_entries [simp]: "length (concat (map entry_bytes es)) = 4 * length es"
  by (induction es) auto

lemma concat_entry_nth:
  "i < length es \<Longrightarrow> k < 4 \<Longrightarrow> concat (map entry_bytes es) ! (4 * i + k) = entry_bytes (es ! i) ! k"
proof (induction es arbitrary: i)
  case (Cons e es)
  then show ?case by (cases i) (auto simp: nth_append)
qed simp

lemma layout_append: "layout (ms @ [m]) = layout ms @ [(of_nat (33 + length (concat ms)), of_nat (length m))]"
  by (auto simp: layout_def nth_append)

lemma str_byte_in: "i < length b \<Longrightarrow> str_byte b i = Inr (b ! i)"
  by (simp add: str_byte_def)

lemma bytes_u16_back: "nat_le [entry_bytes (a, b) ! 0, entry_bytes (a, b) ! 1] = unat a"
    "nat_le [entry_bytes (a, b) ! 2, entry_bytes (a, b) ! 3] = unat b"
proof -
  have "nat_le (bytes_le 2 (unat (w :: u16))) = unat w" for w
    
  proof -
    have "unat w < 2 ^ 16" by (rule order_less_le_trans [OF unsigned_less]) simp
    then show ?thesis by (simp add: nat_le_bytes_le)
  qed
  moreover have "bytes_le 2 n = [of_nat (n mod 256), of_nat (n div 256 mod 256)]" for n
    by (simp add: numeral_2_eq_2)
  ultimately have "nat_le [of_nat (unat w mod 256), of_nat (unat w div 256 mod 256)] = unat w" for w :: u16
    by metis
  then show "nat_le [entry_bytes (a, b) ! 0, entry_bytes (a, b) ! 1] = unat a"
      "nat_le [entry_bytes (a, b) ! 2, entry_bytes (a, b) ! 3] = unat b"
    by (simp_all add: pair_pod_def u16_pod_def le_pod_def numeral_2_eq_2 numeral_3_eq_3)
qed


lemma nth_packs_num: "packs b ms rest \<Longrightarrow> b ! 0 = of_nat (length ms)"
  by (auto simp: packs_def)

lemma length_packs: "packs b ms rest \<Longrightarrow> length b = 33 + length (concat ms) + length rest"
  by (auto simp: packs_def)

lemma mh_num_packs: "packs b ms rest \<Longrightarrow> mh_num b = Inr (of_nat (length ms))"
  by (simp add: mh_num_def str_byte_def length_packs nth_packs_num)

lemma nth_packs_entry:
  assumes "packs b ms rest" "i < length ms" "k < 4"
  shows "b ! (1 + (4 * i + k)) = entry_bytes (layout ms ! i) ! k"
proof -
  have "4 * i + k < 4 * length ms" using assms(2,3) by linarith
  then show ?thesis using assms concat_entry_nth [of i "layout ms" k]
    by (auto simp: packs_def nth_append)
qed

lemma mh_entry_packs:
  assumes "packs b ms rest" "i < length ms"
  shows "mh_entry b i = Inr (layout ms ! i)"
proof -
  obtain a c where e: "layout ms ! i = (a, c)" by fastforce
  have l: "i < 8" using assms by (auto simp: packs_def)
  then have len: "4 * i + 4 < length b" using length_packs [OF assms(1)] by linarith
  have n: "b ! (Suc (4 * i)) = entry_bytes (a, c) ! 0" "b ! (Suc (4 * i + 1)) = entry_bytes (a, c) ! 1"
      "b ! (Suc (4 * i + 2)) = entry_bytes (a, c) ! 2" "b ! (Suc (4 * i + 3)) = entry_bytes (a, c) ! 3"
    using nth_packs_entry [OF assms, of 0] nth_packs_entry [OF assms, of 1] nth_packs_entry [OF assms, of 2]
      nth_packs_entry [OF assms, of 3] e by simp_all
  have "str_u16 b (1 + 4 * i) = Inr a"
    using len n(1,2) bytes_u16_back(1) [of a c] by (simp add: str_u16_def str_byte_in del: nat_le.simps)
  moreover have "str_u16 b (3 + 4 * i) = Inr c"
    using len n(3,4) bytes_u16_back(2) [of a c]
    by (simp add: str_u16_def str_byte_in eval_nat_numeral del: nat_le.simps)
  ultimately show ?thesis using l e by (simp add: mh_entry_def kMaxMultiMsg_def)
qed


lemma drop_packs: "packs b ms rest \<Longrightarrow> drop 33 b = concat ms @ rest"
  by (auto simp: packs_def)

lemma packs_rest: "packs b ms [] \<Longrightarrow> packs (b @ rest) ms rest"
  by (auto simp: packs_def)

lemma packs_empty: "packs (replicate 33 0) [] []"
proof -
  have "replicate 33 (0 :: u8) = 0 # replicate 32 0" by (simp flip: replicate_Suc)
  then show ?thesis unfolding packs_def by (intro conjI exI [of _ "replicate 32 0"]) (simp_all add: layout_def)
qed

lemma unat_of_nat_u16: "n < 65536 \<Longrightarrow> unat (of_nat n :: u16) = n"
  by (simp add: unat_of_nat take_bit_nat_eq_self)

lemma unat_ucast_u16_u32: "unat (ucast (x :: u16) :: u32) = unat x"
proof -
  have "unat x < 2 ^ 16" by (rule order_less_le_trans [OF unsigned_less]) simp
  then show ?thesis by (simp add: unsigned_ucast_eq take_bit_nat_eq_self)
qed

lemma unat_small_u8: "n \<le> 8 \<Longrightarrow> unat (of_nat n :: u8) = n"
  by (simp add: unat_of_nat take_bit_nat_eq_self)

lemma mem_put_middle:
  "length xs = n \<Longrightarrow> length ys = length zs \<Longrightarrow> mem_put (xs @ ys @ rest) n zs = Inr (xs @ zs @ rest)"
  by (simp add: mem_put_def)

lemma layout_end:
  assumes "ms \<noteq> []" "layout ms ! (length ms - 1) = (o1, s1)"
  shows "o1 + s1 = of_nat (33 + length (concat ms))"
proof -
  obtain xs x where ms: "ms = xs @ [x]" using assms(1) by (cases ms rule: rev_cases) auto
  then show ?thesis using assms(2) by (auto simp: layout_append nth_append)
qed

lemma append_one_packs:
  assumes b: "packs b ms []" and n: "length ms < 8" and m: "33 + length (concat ms) + length m < 65536"
  shows "\<exists>b'. append_one b (of_nat (length m)) = Inr (True, b') \<and> packs (b' @ m) (ms @ [m]) [] \<and> length b' = length b"
proof -
  let ?n = "length ms" and ?E = "concat (map entry_bytes (layout ms))" and ?C = "concat ms"
  let ?e = "(of_nat (33 + length ?C), of_nat (length m)) :: u16 \<times> u16"
  obtain junk where j: "length junk = 4 * (8 - ?n)" and be: "b = of_nat ?n # ?E @ junk @ ?C"
    using b by (auto simp: packs_def)
  obtain j1 j2 where jj: "junk = j1 @ j2" "length j1 = 4"
    using j n by (metis append_take_drop_id length_take min.absorb2 Suc_leI mult_le_mono2 mult.right_neutral
        One_nat_def zero_less_diff)
  have un: "unat (of_nat ?n :: u8) = ?n" using n by (simp add: unat_small_u8)
  have num: "mh_num b = Inr (of_nat ?n)" by (rule mh_num_packs [OF b])
  have off: "(if (of_nat ?n :: u8) \<noteq> 0 then rbind (mh_entry b (?n - 1)) (\<lambda>(o1, s1). Inr (o1 + s1))
      else Inr (of_nat MsgsHeader_size)) = Inr (of_nat (33 + length ?C))"
  proof (cases "ms = []")
    case False
    obtain o1 s1 where os: "layout ms ! (?n - 1) = (o1, s1)" by fastforce
    have nz: "(of_nat ?n :: u8) \<noteq> 0" using un False by (metis length_0_conv unat_0)
    have "mh_entry b (?n - 1) = Inr (o1, s1)"
      using mh_entry_packs [OF b, of "?n - 1"] os False by simp
    then show ?thesis using nz layout_end [OF False os] by simp
  qed (simp add: MsgsHeader_size_def)
  have put: "mh_set_entry b ?n ?e = Inr (of_nat ?n # ?E @ entry_bytes ?e @ j2 @ ?C)"
  proof -
    have "mem_put ((of_nat ?n # ?E) @ j1 @ j2 @ ?C) (1 + 4 * ?n) (entry_bytes ?e)
        = Inr ((of_nat ?n # ?E) @ entry_bytes ?e @ j2 @ ?C)"
      by (rule mem_put_middle) (simp_all add: jj)
    then show ?thesis using n by (simp add: mh_set_entry_def kMaxMultiMsg_def be jj)
  qed
  have "append_one b (of_nat (length m)) = Inr (True, (of_nat ?n + 1) # ?E @ entry_bytes ?e @ j2 @ ?C)"
  proof -
    have "mem_put (of_nat ?n # ?E @ entry_bytes ?e @ j2 @ ?C) 0 [of_nat ?n + 1]
        = Inr ((of_nat ?n + 1) # ?E @ entry_bytes ?e @ j2 @ ?C)" by (simp add: mem_put_def)
    then show ?thesis using n
      by (simp only: append_one_def has_free_entry_def kMaxMultiMsg_def num rbind.simps un off put if_True if_False
            not_True_eq_False)
  qed
  moreover have "packs (((of_nat ?n + 1) # ?E @ entry_bytes ?e @ j2 @ ?C) @ m) (ms @ [m]) []"
    using n m j jj by (auto simp: packs_def layout_append add.commute)
  moreover have "length ((of_nat ?n + 1) # ?E @ entry_bytes ?e @ j2 @ ?C) = length b"
    using be jj by simp
  ultimately show ?thesis by blast
qed

lemma append_one_full: "packs b ms [] \<Longrightarrow> length ms = 8 \<Longrightarrow> append_one b sz = Inr (False, b)"
  by (simp add: append_one_def has_free_entry_def mh_num_packs kMaxMultiMsg_def)

lemma query_packs:
  assumes b: "packs (mm_buf m) ms rest" and live: "mm_live m" and i: "i < length ms"
  shows "query_one m (of_nat i) = Inr (Some (ms ! i))"
proof -
  have l: "length ms \<le> 8" "33 + length (concat ms) < 65536" using b by (auto simp: packs_def)
  have split: "concat ms = concat (take i ms) @ ms ! i @ concat (drop (Suc i) ms)"
    using i by (metis append_Cons append_take_drop_id concat.simps(2) concat_append Cons_nth_drop_Suc)
  then have lc: "length (concat ms) = length (concat (take i ms)) + length (ms ! i) + length (concat (drop (Suc i) ms))"
    by (metis add.assoc length_append)
  have e: "layout ms ! i = (of_nat (33 + length (concat (take i ms))), of_nat (length (ms ! i)))"
    using i by (simp add: layout_def)
  have un: "unat (of_nat (33 + length (concat (take i ms))) :: u16) = 33 + length (concat (take i ms))"
      "unat (of_nat (length (ms ! i)) :: u16) = length (ms ! i)"
    by (rule unat_of_nat_u16, use l(2) lc in linarith)+
  have "drop (33 + length (concat (take i ms))) (mm_buf m)
      = drop (length (concat (take i ms))) (drop 33 (mm_buf m))" by (simp add: add.commute)
  also have "\<dots> = ms ! i @ concat (drop (Suc i) ms) @ rest"
    unfolding drop_packs [OF b] by (subst split) simp
  finally have d: "drop (33 + length (concat (take i ms))) (mm_buf m) = ms ! i @ concat (drop (Suc i) ms) @ rest" .
  have "sub_bytes (mm_buf m) (33 + length (concat (take i ms))) (length (ms ! i)) = Inr (ms ! i)"
    using d length_packs [OF b] lc by (simp add: sub_bytes_def)
  moreover have "(of_nat i :: usize) < of_nat (length ms)" "unat (of_nat i :: usize) = i"
    using i l(1) by (simp_all add: word_less_nat_alt unat_of_nat_32)
  moreover have "(ucast (of_nat (length ms) :: u8) :: usize) = of_nat (length ms)"
    by (metis l(1) of_nat_unat unat_small_u8)
  ultimately show ?thesis
    using mh_entry_packs [OF b i] un live
    by (simp add: query_one_def num_msg_def mm_header_def mh_num_packs [OF b] e not_le
          del: of_nat_add)
qed


section \<open>Packing and unpacking\<close>

definition mm_holds :: "multi_msg \<Rightarrow> bytes list \<Rightarrow> bool" where
  "mm_holds m ms \<longleftrightarrow> mm_live m \<and> packs (mm_buf m) ms [] \<and> length (mm_buf m) \<le> mm_cap m"

lemma str_grow_ge: "n \<le> str_grow cap n" "cap \<le> str_grow cap n"
  by (auto simp: str_grow_def)

lemma MultiMsg_holds: "33 \<le> MAXSZ \<Longrightarrow> mm_holds (MultiMsg MAXSZ r) [] \<and> min r MAXSZ \<le> mm_cap (MultiMsg MAXSZ r)"
  using packs_empty str_grow_ge [of 33 "min (max r 33) MAXSZ"] str_grow_ge [of "min (max r 33) MAXSZ" 33]
  by (auto simp: mm_holds_def MultiMsg_def MsgsHeader_size_def min_def max_def split: if_splits)

lemma mm_append_packs:
  assumes m: "mm_holds m ms" and n: "length ms < 8" and sz: "length (mm_buf m) + length msg \<le> MAXSZ" "MAXSZ < 65536"
  shows "\<exists>m'. mm_append MAXSZ m msg = Inr (True, m') \<and> packs (mm_buf m') (ms @ [msg]) []
      \<and> (length (mm_buf m) + length msg \<le> mm_cap m \<longrightarrow> mm_holds m' (ms @ [msg]) \<and> mm_cap m' = mm_cap m)"
proof -
  have p: "packs (mm_buf m) ms []" and live: "mm_live m" using m by (auto simp: mm_holds_def)
  have "33 + length (concat ms) + length msg < 65536" using sz length_packs [OF p] by simp
  from append_one_packs [OF p n this] obtain b' where
    "append_one (mm_buf m) (of_nat (length msg)) = Inr (True, b')" "packs (b' @ msg) (ms @ [msg]) []"
    "length b' = length (mm_buf m)" by blast
  then show ?thesis using live sz(1) by (auto simp: mm_append_def mm_header_def mm_holds_def str_grow_def)
qed

fun mm_append_all :: "nat \<Rightarrow> multi_msg \<Rightarrow> bytes list \<Rightarrow> multi_msg res" where
  "mm_append_all MAXSZ m [] = Inr m"
| "mm_append_all MAXSZ m (msg # msgs) = rbind (mm_append MAXSZ m msg) (\<lambda>(ok, m). rassert ok (mm_append_all MAXSZ m msgs))"

lemma mm_append_all_holds:
  "mm_holds m ms \<Longrightarrow> length ms + length msgs \<le> 8 \<Longrightarrow> length (mm_buf m) + length (concat msgs) \<le> min MAXSZ (mm_cap m)
    \<Longrightarrow> MAXSZ < 65536 \<Longrightarrow> \<exists>m'. mm_append_all MAXSZ m msgs = Inr m' \<and> mm_holds m' (ms @ msgs)"
proof (induction msgs arbitrary: m ms)
  case (Cons msg msgs)
  obtain m' where m': "mm_append MAXSZ m msg = Inr (True, m')" "mm_holds m' (ms @ [msg])" "mm_cap m' = mm_cap m"
    using mm_append_packs [of m ms msg MAXSZ] Cons.prems by auto
  have "length (mm_buf m') = length (mm_buf m) + length msg"
    using m'(2) Cons.prems(1) by (auto simp: mm_holds_def dest!: length_packs)
  then obtain m'' where "mm_append_all MAXSZ m' msgs = Inr m''" "mm_holds m'' ((ms @ [msg]) @ msgs)"
    using Cons.IH [OF m'(2)] Cons.prems m'(3) by auto
  then show ?case using m'(1) by simp
qed simp

lemma mh_check_packs:
  assumes b: "packs b ms rest" and sz: "sz = of_nat (length b)" "length b < 2 ^ 32"
  shows "i + k = length ms \<Longrightarrow> mh_check b sz i k (of_nat (33 + length (concat (take i ms)))) = Inr True"
proof (induction k arbitrary: i)
  case 0
  have "33 + length (concat ms) < 65536" using b by (auto simp: packs_def)
  then have "unat (of_nat (33 + length (concat ms)) :: u16) = 33 + length (concat ms)" by (rule unat_of_nat_u16)
  then have "(ucast (of_nat (33 + length (concat ms)) :: u16) :: usize) = of_nat (33 + length (concat ms))"
    by (metis of_nat_unat)
  moreover have "(of_nat (33 + length (concat ms)) :: usize) \<le> of_nat (length b)"
    using length_packs [OF b] sz(2) by (simp add: word_le_nat_alt unat_of_nat_32 del: of_nat_add)
  ultimately show ?case using 0 sz by (simp del: of_nat_add)
next
  case (Suc k)
  have e: "layout ms ! i = (of_nat (33 + length (concat (take i ms))), of_nat (length (ms ! i)))"
    using Suc.prems by (simp add: layout_def)
  have "33 + length (concat (take (Suc i) ms)) = 33 + length (concat (take i ms)) + length (ms ! i)"
    using Suc.prems by (simp add: take_Suc_conv_app_nth)
  then have "(of_nat (33 + length (concat (take i ms))) :: u16) + of_nat (length (ms ! i))
      = of_nat (33 + length (concat (take (Suc i) ms)))" by (metis of_nat_add)
  then show ?case using Suc.IH [of "Suc i"] Suc.prems mh_entry_packs [OF b, of i] e by (simp del: of_nat_add)
qed

lemma create_from_packs:
  assumes "packs b ms rest" "length b \<le> MAXSZ" "MAXSZ < 65536"
  shows "create_from MAXSZ cap b = Inr (Some \<lparr>mm_buf = b, mm_cap = cap, mm_live = True\<rparr>)"
proof -
  have n: "length ms \<le> 8" using assms(1) by (auto simp: packs_def)
  have "mh_check b (of_nat (length b)) 0 (length ms) (of_nat 33) = Inr True"
    using mh_check_packs [OF assms(1) refl, of 0 "length ms"] assms(2,3) by simp
  then have "mh_sanity_check b (of_nat (length b)) = Inr True"
    using n by (simp add: mh_sanity_check_def mh_num_packs [OF assms(1)] unat_small_u8 kMaxMultiMsg_def MsgsHeader_size_def)
  then show ?thesis using assms(2) by (simp add: create_from_def)
qed

lemma query_beyond:
  assumes "packs (mm_buf m) ms rest" "mm_live m" "unat idx \<ge> length ms"
  shows "query_one m idx = Inr None"
proof -
  have "length ms \<le> 8" using assms(1) by (auto simp: packs_def)
  then have "(ucast (of_nat (length ms) :: u8) :: usize) = of_nat (length ms)" "unat (of_nat (length ms) :: usize) = length ms"
    by (metis of_nat_unat unat_small_u8) (rule unat_of_nat_32, use \<open>length ms \<le> 8\<close> in simp)
  then show ?thesis using assms
    by (simp add: query_one_def num_msg_def mm_header_def mh_num_packs [OF assms(1)] word_le_nat_alt)
qed

lemma mi_collect_Suc: "mi_collect k i = Inr ms \<Longrightarrow> mi_collect (Suc k) i = Inr ms"
proof (induction k arbitrary: i ms)
  case (Suc k)
  note step = mi_collect.simps(2) [of "Suc k" i] mi_collect.simps(2) [of k i]
  show ?case
  proof (cases "mi_valid i")
    case (Inr v)
    show ?thesis
    proof (cases v)
      case True
      with Suc.prems Inr obtain m ms' where "mi_cur_msg i = Inr m" "mi_collect k (mi_next i) = Inr ms'" "ms = m # ms'"
        by (auto simp: step(2) rbind_Inr_iff simp del: mi_collect.simps)
      with Suc.IH show ?thesis using Inr True by (simp only: step(1) rbind.simps if_True)
    next
      case False
      with Suc.prems Inr show ?thesis by (simp only: step rbind.simps if_False)
    qed
  next
    case (Inl e)
    with Suc.prems show ?thesis by (simp only: step rbind.simps)
  qed
qed simp

lemma mi_collect_mono: "mi_collect k i = Inr ms \<Longrightarrow> k \<le> l \<Longrightarrow> mi_collect l i = Inr ms"
  by (induction l) (auto simp: le_Suc_eq simp del: mi_collect.simps intro: mi_collect_Suc)

lemma mi_collect_packs:
  assumes b: "packs (mm_buf m) ms rest" and live: "mm_live m"
  shows "i + k = length ms \<Longrightarrow> mi_collect (Suc k) \<lparr>mi_msgs = m, mi_idx = of_nat i\<rparr> = Inr (drop i ms)"
proof (induction k arbitrary: i)
  have "length ms \<le> 8" using b by (auto simp: packs_def)
  note n = this
  then have n32: "(ucast (of_nat (length ms) :: u8) :: usize) = of_nat (length ms)"
    by (metis of_nat_unat unat_small_u8)
  have num: "num_msg m = Inr (of_nat (length ms))"
    using n32 live by (simp add: num_msg_def mm_header_def mh_num_packs [OF b])
  {
    case 0
    then show ?case using num by (simp add: mi_valid_def)
  next
    case (Suc k)
    then have i: "i < length ms" by simp
    have lt: "(of_nat i :: usize) < of_nat (length ms)" "unat (of_nat i :: usize) = i"
      using i n by (simp_all add: word_less_nat_alt unat_of_nat_32)
    obtain off sz where e: "layout ms ! i = (off, sz)" by fastforce
    have nle: "(of_nat (length ms) \<le> (of_nat i :: usize)) = False" using lt(1) by (simp add: not_le)
    have "sub_bytes (mm_buf m) (unat off) (unat sz) = Inr (ms ! i)"
      using query_packs [OF b live i] lt num live e
      by (auto simp: query_one_def mm_header_def mh_entry_packs [OF b i] nle res_iff)
    then have "mi_cur_msg \<lparr>mi_msgs = m, mi_idx = of_nat i\<rparr> = Inr (ms ! i)"
      using num lt live e by (simp add: mi_cur_msg_def mi_cur_def mi_valid_def mm_header_def mh_entry_packs [OF b i]
          unat_ucast_u16_u32)
    then show ?case using Suc.IH [of "Suc i"] Suc.prems num lt i
      by (simp add: mi_valid_def mi_next_def add.commute Cons_nth_drop_Suc)
  }
qed


text \<open>C29: up to eight messages that fit, appended to a packed message of sufficient size, are all
  accepted; a receiver that gets the buffer, with anything behind it, accepts it and finds exactly
  these messages, by index and by iteration.\<close>

theorem multimsg_roundtrip:
  assumes "length ms \<le> 8" "33 + length (concat ms) + length pad \<le> MAXSZ" "MAXSZ < 65536"
    "length (concat ms) \<le> r"
  shows "\<exists>m m' m''. create_exact MAXSZ (of_nat (min r (MAXSZ - 33))) = Some m \<and> mm_append_all MAXSZ m ms = Inr m'
    \<and> create_from MAXSZ cap (mm_buf m' @ pad) = Inr (Some m'')
    \<and> mi_collect 9 (MsgsIter m'') = Inr ms
    \<and> (\<forall>i. query_one m'' i = Inr (if unat i < length ms then Some (ms ! unat i) else None))"
proof -
  have le: "33 \<le> MAXSZ" using assms(2) by simp
  define m where "m = MultiMsg MAXSZ (min r (MAXSZ - 33) + 33)"
  have "unat (of_nat (min r (MAXSZ - 33)) :: usize) = min r (MAXSZ - 33)"
    using assms(3) by (intro unat_of_nat_32 min.strict_coboundedI2) simp
  then have m: "create_exact MAXSZ (of_nat (min r (MAXSZ - 33))) = Some m"
    using le by (auto simp: create_exact_def MsgsHeader_size_def m_def simp del: of_nat_min)
  have h: "mm_holds m []" and cap: "33 + length (concat ms) \<le> mm_cap m"
    using MultiMsg_holds [OF le, of "min r (MAXSZ - 33) + 33"] assms(2,4) le unfolding m_def by linarith+
  have "length (mm_buf m) = 33" by (simp add: m_def MultiMsg_def MsgsHeader_size_def)
  then obtain m' where m': "mm_append_all MAXSZ m ms = Inr m'" "mm_holds m' ms"
    using mm_append_all_holds [OF h, of ms MAXSZ] assms(1-3) cap by auto
  have p: "packs (mm_buf m' @ pad) ms pad" using m'(2) by (auto simp: mm_holds_def intro: packs_rest)
  define m'' where "m'' = \<lparr>mm_buf = mm_buf m' @ pad, mm_cap = cap, mm_live = True\<rparr>"
  have "create_from MAXSZ cap (mm_buf m' @ pad) = Inr (Some m'')"
    unfolding m''_def using p assms(2,3) length_packs [OF p] by (intro create_from_packs) auto
  moreover have p': "packs (mm_buf m'') ms pad" and l: "mm_live m''" using p by (simp_all add: m''_def)
  have "mi_collect (Suc (length ms)) (MsgsIter m'') = Inr ms"
    using mi_collect_packs [OF p' l, of 0 "length ms"] by (simp add: MsgsIter_def)
  then have "mi_collect 9 (MsgsIter m'') = Inr ms"
    using mi_collect_mono [of "Suc (length ms)" _ _ 9] assms(1) by simp
  moreover have "query_one m'' i = Inr (if unat i < length ms then Some (ms ! unat i) else None)" for i
    using query_packs [OF p' l, of "unat i"] query_beyond [OF p' l, of i] by auto
  ultimately show ?thesis using m m'(1) by blast
qed

theorem multimsg_roundtrip_witness:
  "\<exists>m m' m''. create_exact 4096 5 = Some m \<and> mm_append_all 4096 m [[1, 2], [], [3, 4, 5]] = Inr m'
    \<and> create_from 4096 0 (mm_buf m' @ [9]) = Inr (Some m'') \<and> mi_collect 9 (MsgsIter m'') = Inr [[1, 2], [], [3, 4, 5]]"
  using multimsg_roundtrip [of "[[1, 2], [], [3, 4, 5]]" "[9]" 4096 5 0] by auto

text \<open>C30: the sanity check of a received buffer adds the sizes in 16 bits, so a header whose sizes wrap
  around passes it, and reading its first message goes beyond the buffer.\<close>

theorem sanity_check_wraps:
  "let b = [2, 33, 0, 255, 255, 32, 0, 0, 0] @ replicate 24 0; m = \<lparr>mm_buf = b, mm_cap = 33, mm_live = True\<rparr> in
     length b = 33 \<and> create_from 4096 33 b = Inr (Some m) \<and> query_one m 0 = Inl UB"
proof -
  define b :: bytes where "b = [2, 33, 0, 255, 255, 32, 0, 0, 0] @ replicate 24 0"
  have two: "(2 :: nat) = Suc (Suc 0)" by simp
  have len: "length b = 33" by (simp add: b_def)
  have num: "mh_num b = Inr 2" by (simp add: mh_num_def str_byte_def b_def)
  have e: "mh_entry b 0 = Inr (33, 65535)" "mh_entry b (Suc 0) = Inr (32, 0)"
    by (simp_all add: mh_entry_def str_u16_def str_byte_def b_def kMaxMultiMsg_def)
  have "mh_check b 33 0 (Suc (Suc 0)) 33 = Inr True" using e by simp
  then have "mh_sanity_check b 33 = Inr True"
    using num by (simp add: mh_sanity_check_def kMaxMultiMsg_def MsgsHeader_size_def flip: two)
  then have "create_from 4096 33 b = Inr (Some \<lparr>mm_buf = b, mm_cap = 33, mm_live = True\<rparr>)"
      "query_one \<lparr>mm_buf = b, mm_cap = 33, mm_live = True\<rparr> 0 = Inl UB"
    using num e len by (simp_all add: create_from_def query_one_def num_msg_def mm_header_def sub_bytes_def)
  then show ?thesis using len unfolding Let_def b_def by blast
qed

end
