(* ===== verification/Srpc.thy ===== *)
theory Srpc
  imports Channel Multi_Msg
begin

text \<open>
  The RPC that sets up connections (\<^verbatim>\<open>bootstrap/srpc.hh\<close>): a client with one outstanding call,
  whose replies it recognises by a checksum, and a server that dispatches on the id of a call.

  A \<open>ByteBuffer\<close> is a \<open>bytes\<close>; \<open>bb\<close> converts the text of an error. A handler of the server works on
  a state \<open>'c\<close> and may end with an exception (\<open>Thrown\<close>), after which the state it reached remains.
  Undefined behaviour or an abort in it ends the service: \<open>serve_msg\<close> then has no state.
\<close>

definition bb :: "string \<Rightarrow> bytes" where "bb s = map of_char s"

definition io_bb :: "string io_result \<Rightarrow> bytes io_result" where "io_bb r = io_transfer r (bb (desc r))"

section \<open>Messages\<close>

definition call_Ok :: u8 where "call_Ok = 0"
definition call_Nop :: u8 where "call_Nop = 1"
definition call_WrongReply :: u8 where "call_WrongReply = 2"
definition call_NotMatch :: u8 where "call_NotMatch = 3"
definition call_FatalErr :: u8 where "call_FatalErr = 4"

text \<open>\<open>SRpcHeader\<close>: id and checksum. \<open>SReplyHeader\<close>: status, checksum and \<open>dummy\<close>.\<close>

definition SRpcHeader_pod :: "(u8 \<times> u64) pod" where "SRpcHeader_pod = pair_pod u8_pod u64_pod"
definition SReplyHeader_pod :: "(u8 \<times> u64 \<times> u8) pod" where
  "SReplyHeader_pod = pair_pod u8_pod (pair_pod u64_pod u8_pod)"

definition HeartBeat :: u8 where "HeartBeat = 0"
definition FetchMr :: u8 where "FetchMr = 1"
definition CreateRC :: u8 where "CreateRC = 2"
definition CreateRCM :: u8 where "CreateRCM = 3"
definition DeleteRC :: u8 where "DeleteRC = 4"
definition FetchQPAttr :: u8 where "FetchQPAttr = 5"

section \<open>The client\<close>

definition invalid_checksum :: u64 where "invalid_checksum = 0"

record srpc =
  sp_channel :: send_channel
  sp_checksum :: u64

definition SRpc :: "'s sockets \<Rightarrow> string \<Rightarrow> ip_cache \<Rightarrow> 's \<Rightarrow> (srpc \<times> ip_cache \<times> 's) res" where
  "SRpc K addr cache s =
     (case SendChannel_create K addr cache s of (ch, cache, s) \<Rightarrow>
        rbind (opt_value ch) (\<lambda>ch. Inr (\<lparr>sp_channel = ch, sp_checksum = invalid_checksum + 1\<rparr>, cache, s)))"

text \<open>\<open>call\<close> reserves one byte, \<open>sizeof(rpc_id_t)\<close>, for the header it sends.\<close>

definition srpc_call :: "'s sockets \<Rightarrow> u8 \<Rightarrow> bytes \<Rightarrow> srpc \<Rightarrow> 's \<Rightarrow> (string io_result \<times> 's) res" where
  "srpc_call K rid parameter p s =
     (case create_exact kMaxMsgSz (of_nat (1 + length parameter)) of
        None \<Rightarrow> Inr (io_err ''Msg too large!, only kMaxMsgSz supported'', s)
      | Some m \<Rightarrow>
          rbind (rlib_dump SRpcHeader_pod (rid, sp_checksum p)) (\<lambda>h.
          rbind (mm_append kMaxMsgSz m h) (\<lambda>(ok, m). rassert ok
            (rbind (mm_append kMaxMsgSz m parameter) (\<lambda>(ok, m). rassert ok
               (sc_send K (sp_channel p) (mm_buf m) s))))))"

definition decode_reply :: "bytes \<Rightarrow> (multi_msg \<times> u8 \<times> u64 \<times> u8) res" where
  "decode_reply b =
     rbind (create_from kMaxMsgSz (length b) b) (\<lambda>o1. rbind (opt_value o1) (\<lambda>m.
     rbind (query_one m 0) (\<lambda>o2. rbind (opt_value o2) (\<lambda>q.
     rbind (opt_value (rlib_dedump SReplyHeader_pod q)) (\<lambda>h. Inr (m, h))))))"

text \<open>A statement inside \<open>try\<close> with \<open>catch (std::exception &)\<close>.\<close>

definition rcatch :: "'a res \<Rightarrow> 'a res \<Rightarrow> 'a res" where
  "rcatch m k = (case m of Inl Thrown \<Rightarrow> k | _ \<Rightarrow> m)"

definition normal_reply :: "multi_msg \<Rightarrow> u8 \<Rightarrow> u64 \<Rightarrow> srpc \<Rightarrow> (bytes io_result \<times> srpc) res" where
  "normal_reply m status ck p =
     (if ck = sp_checksum p then
        let p = p\<lparr>sp_checksum := sp_checksum p + 1\<rparr> in
        if status = call_Ok then
          rcatch (rbind (query_one m 1) (\<lambda>o1. rbind (opt_value o1) (\<lambda>r. Inr (io_ok r, p))))
            (Inr (io_err (bb ''decode reply error''), p))
        else if status = call_Nop then Inr (io_err (bb ''Not ready''), p)
        else Inr (io_err (bb ''unknown error''), p)
      else Inr (io_err (bb ''Fatal checksum error''), p))"

partial_function (option) receive_reply ::
    "'s sockets \<Rightarrow> nat \<Rightarrow> rat \<Rightarrow> bool \<Rightarrow> srpc \<Rightarrow> 's \<Rightarrow> (bytes io_result \<times> srpc \<times> 's) res option" where
  "receive_reply K raw timeout_usec heartbeat p s =
     (case sc_recv K raw (sp_channel p) timeout_usec s of Inl e \<Rightarrow> Some (Inl e)
      | Inr (res, s) \<Rightarrow>
          if code res \<noteq> IO_Ok then Some (Inr (res, p, s))
          else (case rcatch (rbind (decode_reply (desc res)) (\<lambda>d. Inr (Some d))) (Inr None) of
              Inl e \<Rightarrow> Some (Inl e)
            | Inr None \<Rightarrow> Some (Inr (io_err (bb ''decode reply error''), p, s))
            | Inr (Some (m, status, ck, dummy)) \<Rightarrow>
                if dummy \<noteq> 0 then
                  (if \<not> heartbeat then receive_reply K raw timeout_usec heartbeat p s
                   else Some (Inr (io_ok [], p, s)))
                else Some (rbind (normal_reply m status ck p) (\<lambda>(r, p). Inr (r, p, s)))))"

section \<open>The server\<close>

type_synonym 'c handler = "bytes \<Rightarrow> 'c \<Rightarrow> bytes res \<times> 'c"
type_synonym 'c rpc_factory = "u8 \<rightharpoonup> 'c handler"

definition heartbeat_handler :: "'c handler" where "heartbeat_handler b c = (Inr (bb ''1''), c)"

definition register_handler :: "u8 \<Rightarrow> 'c handler \<Rightarrow> 'c rpc_factory \<Rightarrow> bool \<times> 'c rpc_factory" where
  "register_handler rid f fs = (if fs rid = None then (True, fs(rid \<mapsto> f)) else (False, fs))"

definition RPCFactory :: "'c rpc_factory" where
  "RPCFactory = snd (register_handler HeartBeat heartbeat_handler Map.empty)"

text \<open>\<open>find(id)->second\<close> of an id that is not registered dereferences the end of the map.\<close>

definition call_one :: "'c rpc_factory \<Rightarrow> u8 \<Rightarrow> 'c handler" where
  "call_one fs rid parameter c = (case fs rid of None \<Rightarrow> (Inl UB, c) | Some f \<Rightarrow> f parameter c)"

definition decode_request :: "bytes \<Rightarrow> (multi_msg \<times> u8 \<times> u64) res" where
  "decode_request b =
     rbind (create_from kMaxMsgSz (length b) b) (\<lambda>o1. rbind (opt_value o1) (\<lambda>m.
     rbind (query_one m 0) (\<lambda>o2. rbind (opt_value o2) (\<lambda>q.
     rbind (opt_value (rlib_dedump SRpcHeader_pod q)) (\<lambda>h. Inr (m, h))))))"

definition encode_reply :: "u8 \<Rightarrow> u64 \<Rightarrow> u8 \<Rightarrow> bytes option \<Rightarrow> bytes res" where
  "encode_reply status ck dummy reply =
     rbind (opt_value (create_exact kMaxMsgSz (of_nat (size_of SReplyHeader_pod + (case reply of None \<Rightarrow> 0 | Some r \<Rightarrow> length r))))) (\<lambda>m.
     rbind (rlib_dump SReplyHeader_pod (status, ck, dummy)) (\<lambda>h.
     rbind (mm_append kMaxMsgSz m h) (\<lambda>(_, m).
     case reply of None \<Rightarrow> Inr (mm_buf m) | Some r \<Rightarrow> rbind (mm_append kMaxMsgSz m r) (\<lambda>(_, m). Inr (mm_buf m)))))"

text \<open>The reply to one message, with the two levels of \<open>try\<close>: a request whose header cannot be
  decoded is answered with the checksum 0.\<close>

definition serve_msg :: "'c rpc_factory \<Rightarrow> bytes \<Rightarrow> 'c \<Rightarrow> (bytes \<times> 'c) res" where
  "serve_msg fs msg c =
     (case decode_request msg of
        Inl e \<Rightarrow> rcatch (Inl e) (rbind (encode_reply call_FatalErr invalid_checksum 0 None) (\<lambda>b. Inr (b, c)))
      | Inr (m, rid, ck) \<Rightarrow>
          (case rbind (query_one m 1) opt_value of
             Inl e \<Rightarrow> rcatch (Inl e) (rbind (encode_reply call_Nop ck 0 None) (\<lambda>b. Inr (b, c)))
           | Inr parameter \<Rightarrow>
               (case call_one fs rid parameter c of (r, c) \<Rightarrow>
                  rcatch (rbind r (\<lambda>reply.
                      rbind (encode_reply call_Ok ck (if rid = HeartBeat then 1 else 0) (Some reply)) (\<lambda>b. Inr (b, c))))
                    (rbind (encode_reply call_Nop ck 0 None) (\<lambda>b. Inr (b, c))))))"

record 'c srpc_handler =
  sh_channel :: recv_channel
  sh_factory :: "'c rpc_factory"

definition SRpcHandler :: "'s sockets \<Rightarrow> int \<Rightarrow> string \<Rightarrow> 's \<Rightarrow> ('c srpc_handler \<times> 's) res" where
  "SRpcHandler K port h s =
     rbind (RecvChannel_create K port h s) (\<lambda>(ch, s). rbind (opt_value ch) (\<lambda>ch.
       Inr (\<lparr>sh_channel = ch, sh_factory = RPCFactory\<rparr>, s)))"

definition sh_register_handler :: "u8 \<Rightarrow> 'c handler \<Rightarrow> 'c srpc_handler \<Rightarrow> bool \<times> 'c srpc_handler" where
  "sh_register_handler rid f h =
     (case register_handler rid f (sh_factory h) of (ok, fs) \<Rightarrow> (ok, h\<lparr>sh_factory := fs\<rparr>))"

partial_function (option) event_loop ::
    "'s sockets \<Rightarrow> nat \<Rightarrow> 'c rpc_factory \<Rightarrow> recv_channel \<Rightarrow> 'c \<Rightarrow> 's \<Rightarrow> usize \<Rightarrow> (usize \<times> recv_channel \<times> 'c \<times> 's) res option" where
  "event_loop K raw fs ch c s count =
     (if \<not> has_msg ch then Some (Inr (count, ch, c, s))
      else case serve_msg fs (rc_cur ch) c of
          Inl e \<Rightarrow> Some (Inl e)
        | Inr (reply, c) \<Rightarrow>
            (case rbind (reply_cur K ch reply s) (\<lambda>(_, s). rc_next K raw ch s) of
               Inl e \<Rightarrow> Some (Inl e)
             | Inr (ch, s) \<Rightarrow> event_loop K raw fs ch c s (count + 1)))"

definition run_one_event_loop :: "'s sockets \<Rightarrow> nat \<Rightarrow> 'c srpc_handler \<Rightarrow> 'c \<Rightarrow> 's \<Rightarrow> (usize \<times> 'c srpc_handler \<times> 'c \<times> 's) res" where
  "run_one_event_loop K raw h c s =
     rbind (rc_start K raw 1000000 (sh_channel h) s) (\<lambda>(ch, s).
     rbind (loop_res (event_loop K raw (sh_factory h) ch c s 0)) (\<lambda>(count, ch, c, s).
       Inr (count, h\<lparr>sh_channel := ch\<rparr>, c, s)))"

section \<open>Properties\<close>

interpretation srpc_header: pod_codec SRpcHeader_pod
  unfolding SRpcHeader_pod_def by (intro pod_codec_pair u8.pod_codec_axioms u64.pod_codec_axioms)

interpretation sreply_header: pod_codec SReplyHeader_pod
  unfolding SReplyHeader_pod_def by (intro pod_codec_pair u8.pod_codec_axioms u64.pod_codec_axioms)

lemma srpc_sizes [simp]: "size_of SRpcHeader_pod = 9" "size_of SReplyHeader_pod = 10"
  by (simp_all add: SRpcHeader_pod_def SReplyHeader_pod_def)

lemma create_exact_ok:
  assumes "0 < k" "k + 33 \<le> kMaxMsgSz"
  shows "\<exists>m. create_exact kMaxMsgSz (of_nat k) = Some m \<and> mm_holds m [] \<and> length (mm_buf m) = 33 \<and> 66 \<le> mm_cap m"
proof -
  have "unat (of_nat k :: usize) = k" using assms(2) by (intro unat_of_nat_32) (simp add: kMaxMsgSz_def)
  then show ?thesis
    using assms MultiMsg_holds [of kMaxMsgSz "k + 33"]
    by (auto simp: create_exact_def kMaxMsgSz_def MsgsHeader_size_def MultiMsg_def str_grow_def)
qed

text \<open>A header and a body, as the client and the server pack them.\<close>

lemma two_appends:
  assumes "mm_holds m []" "length (mm_buf m) = 33" "66 \<le> mm_cap m" "length a \<le> 33" "33 + length a + length b \<le> kMaxMsgSz"
  shows "\<exists>m1 m2. mm_append kMaxMsgSz m a = Inr (True, m1) \<and> packs (mm_buf m1) [a] []
      \<and> mm_append kMaxMsgSz m1 b = Inr (True, m2) \<and> packs (mm_buf m2) [a, b] []"
proof -
  obtain m1 where m1: "mm_append kMaxMsgSz m a = Inr (True, m1)" "mm_holds m1 [a]"
    using mm_append_packs [of m "[]" a kMaxMsgSz] assms by (auto simp: kMaxMsgSz_def)
  then have p1: "packs (mm_buf m1) [a] []" by (simp add: mm_holds_def)
  then have "length (mm_buf m1) = 33 + length a" using length_packs by fastforce
  then obtain m2 where "mm_append kMaxMsgSz m1 b = Inr (True, m2)" "packs (mm_buf m2) [a, b] []"
    using mm_append_packs [OF m1(2), of b kMaxMsgSz] assms by (auto simp: kMaxMsgSz_def)
  then show ?thesis using m1(1) p1 by blast
qed

lemma unpack_two:
  assumes p: "packs b [h, x] []" and l: "length (b @ pad) = kMaxMsgSz"
  shows "create_from kMaxMsgSz (length (b @ pad)) (b @ pad) = Inr (Some \<lparr>mm_buf = b @ pad, mm_cap = length (b @ pad), mm_live = True\<rparr>)
    \<and> query_one \<lparr>mm_buf = b @ pad, mm_cap = length (b @ pad), mm_live = True\<rparr> 0 = Inr (Some h)
    \<and> query_one \<lparr>mm_buf = b @ pad, mm_cap = length (b @ pad), mm_live = True\<rparr> 1 = Inr (Some x)"
proof -
  have q: "packs (b @ pad) [h, x] pad" by (rule packs_rest [OF p])
  then have "packs (mm_buf \<lparr>mm_buf = b @ pad, mm_cap = length (b @ pad), mm_live = True\<rparr>) [h, x] pad" by simp
  note query = query_packs [OF this]
  show ?thesis using create_from_packs [OF q, of kMaxMsgSz] query [of 0] query [of 1] l by (auto simp: kMaxMsgSz_def)
qed

lemma srpc_call_sends:
  assumes "length parameter \<le> 4054"
  shows "\<exists>b. packs b [to_bytes SRpcHeader_pod (rid, ck), parameter] [] \<and> length b \<le> kMaxMsgSz
    \<and> (\<forall>K p s. sp_checksum p = ck \<longrightarrow> srpc_call K rid parameter p s = sc_send K (sp_channel p) b s)"
proof -
  obtain m where m: "create_exact kMaxMsgSz (of_nat (1 + length parameter)) = Some m" "mm_holds m []" "length (mm_buf m) = 33"
      "66 \<le> mm_cap m"
    using create_exact_ok [of "1 + length parameter"] assms by (auto simp: kMaxMsgSz_def)
  obtain m1 m2 where a: "mm_append kMaxMsgSz m (to_bytes SRpcHeader_pod (rid, ck)) = Inr (True, m1)"
      "mm_append kMaxMsgSz m1 parameter = Inr (True, m2)"
      "packs (mm_buf m2) [to_bytes SRpcHeader_pod (rid, ck), parameter] []"
    using two_appends [OF m(2-4), of "to_bytes SRpcHeader_pod (rid, ck)" parameter] assms
    by (auto simp: srpc_header.len kMaxMsgSz_def)
  have "length (mm_buf m2) \<le> kMaxMsgSz"
    using length_packs [OF a(3)] assms by (simp add: srpc_header.len kMaxMsgSz_def)
  then show ?thesis using m(1) a by (auto simp: srpc_call_def srpc_header.rlib_dump_ok simp del: of_nat_add of_nat_Suc)
qed

lemma encode_reply_ok:
  assumes "length r \<le> 4053"
  shows "\<exists>b. encode_reply st ck dummy (Some r) = Inr b \<and> length b \<le> kMaxMsgSz
    \<and> packs b [to_bytes SReplyHeader_pod (st, ck, dummy), r] []"
proof -
  obtain m where m: "create_exact kMaxMsgSz (of_nat (10 + length r)) = Some m" "mm_holds m []" "length (mm_buf m) = 33"
      "66 \<le> mm_cap m"
    using create_exact_ok [of "10 + length r"] assms by (auto simp: kMaxMsgSz_def)
  obtain m1 m2 where a: "mm_append kMaxMsgSz m (to_bytes SReplyHeader_pod (st, ck, dummy)) = Inr (True, m1)"
      "mm_append kMaxMsgSz m1 r = Inr (True, m2)" "packs (mm_buf m2) [to_bytes SReplyHeader_pod (st, ck, dummy), r] []"
    using two_appends [OF m(2-4), of "to_bytes SReplyHeader_pod (st, ck, dummy)" r] assms
    by (auto simp: sreply_header.len kMaxMsgSz_def)
  have "length (mm_buf m2) \<le> kMaxMsgSz"
    using length_packs [OF a(3)] assms by (simp add: sreply_header.len kMaxMsgSz_def)
  then show ?thesis using m(1) a by (auto simp: encode_reply_def sreply_header.rlib_dump_ok simp del: of_nat_add)
qed


lemma encode_reply_None: "\<exists>b. encode_reply st ck dummy None = Inr b"
proof -
  obtain m where m: "create_exact kMaxMsgSz (of_nat 10) = Some m" "mm_holds m []" "length (mm_buf m) = 33"
    using create_exact_ok [of 10] by (auto simp: kMaxMsgSz_def)
  obtain m1 where "mm_append kMaxMsgSz m (to_bytes SReplyHeader_pod (st, ck, dummy)) = Inr (True, m1)"
    using mm_append_packs [OF m(2), of "to_bytes SReplyHeader_pod (st, ck, dummy)" kMaxMsgSz] m(3)
    by (auto simp: sreply_header.len kMaxMsgSz_def)
  then show ?thesis using m(1) by (simp add: encode_reply_def sreply_header.rlib_dump_ok)
qed

lemma decode_request_ok:
  assumes "packs b [to_bytes SRpcHeader_pod (rid, ck), x] []" "length (b @ pad) = kMaxMsgSz"
  shows "\<exists>m. decode_request (b @ pad) = Inr (m, rid, ck) \<and> query_one m 1 = Inr (Some x)"
  using unpack_two [OF assms] srpc_header.rlib_dedump_ok [of "(rid, ck)" "[]"] by (simp add: decode_request_def)

lemma decode_reply_ok:
  assumes "packs b [to_bytes SReplyHeader_pod (st, ck, dummy), x] []" "length (b @ pad) = kMaxMsgSz"
  shows "\<exists>m. decode_reply (b @ pad) = Inr (m, st, ck, dummy) \<and> query_one m 1 = Inr (Some x)"
  using unpack_two [OF assms] sreply_header.rlib_dedump_ok [of "(st, ck, dummy)" "[]"] by (simp add: decode_reply_def)

text \<open>What the server does with a call, and the client with its reply; \<open>over b old\<close> is a receive
  buffer \<open>old\<close> after the message \<open>b\<close> arrived in it.\<close>

definition over :: "bytes \<Rightarrow> bytes \<Rightarrow> bytes" where "over b old = b @ drop (length b) old"

lemma length_over: "length b \<le> length old \<Longrightarrow> length (over b old) = length old"
  by (simp add: over_def)

lemma srpc_exchange:
  fixes K :: "'s sockets"
  assumes "length parameter \<le> 4054" "fs rid = Some f" "f parameter c = (Inr reply, c')" "length reply \<le> 4053"
    "rid \<noteq> HeartBeat"
  shows "\<exists>req rep. (\<forall>p s. sp_checksum p = ck \<longrightarrow> srpc_call K rid parameter p s = sc_send K (sp_channel p) req s)
    \<and> (\<forall>old. length old = kMaxMsgSz \<longrightarrow> serve_msg fs (over req old) c = Inr (rep, c'))
    \<and> (\<forall>raw t hb p s s' old. length old = kMaxMsgSz \<longrightarrow> sc_recv K raw (sp_channel p) t s = Inr (io_ok (over rep old), s')
        \<longrightarrow> receive_reply K raw t hb p s = Some (Inr
              (if sp_checksum p = ck then (io_ok reply, p\<lparr>sp_checksum := ck + 1\<rparr>, s')
               else (io_err (bb ''Fatal checksum error''), p, s'))))"
proof -
  obtain req where req: "packs req [to_bytes SRpcHeader_pod (rid, ck), parameter] []" "length req \<le> kMaxMsgSz"
      "\<forall>K p (s :: 's). sp_checksum p = ck \<longrightarrow> srpc_call K rid parameter p s = sc_send K (sp_channel p) req s"
    using srpc_call_sends [OF assms(1)] by blast
  obtain rep where rep: "encode_reply call_Ok ck 0 (Some reply) = Inr rep" "length rep \<le> kMaxMsgSz"
      "packs rep [to_bytes SReplyHeader_pod (call_Ok, ck, 0), reply] []"
    using encode_reply_ok [OF assms(4)] by blast
  have serve: "serve_msg fs (over req old) c = Inr (rep, c')" if l: "length old = kMaxMsgSz" for old
  proof -
    obtain m where "decode_request (over req old) = Inr (m, rid, ck)" "query_one m 1 = Inr (Some parameter)"
      using decode_request_ok [OF req(1), of "drop (length req) old"] req(2) l by (auto simp: over_def)
    then show ?thesis using assms rep(1) by (simp add: serve_msg_def call_one_def rcatch_def)
  qed
  have recv: "receive_reply K raw t hb p s = Some (Inr (if sp_checksum p = ck then (io_ok reply, p\<lparr>sp_checksum := ck + 1\<rparr>, s')
               else (io_err (bb ''Fatal checksum error''), p, s')))"
    if l: "length old = kMaxMsgSz" and got: "sc_recv K raw (sp_channel p) t s = Inr (io_ok (over rep old), s')" for raw t hb p s s' old
  proof -
    obtain m where "decode_reply (over rep old) = Inr (m, call_Ok, ck, 0)" "query_one m 1 = Inr (Some reply)"
      using decode_reply_ok [OF rep(3), of "drop (length rep) old"] rep(2) l by (auto simp: over_def)
    then show ?thesis using got
      by (subst receive_reply.simps) (auto simp: io_ok_def rcatch_def normal_reply_def)
  qed
  show ?thesis using req(3) serve recv by blast
qed

text \<open>C31: a call of a registered handler and its reply. The message the client sends, received over
  whatever the server's buffer held, is served by the handler with the client's parameter; the
  reply, received over whatever the client's buffer held, is accepted exactly by the call that has
  its checksum, which moves on to the next checksum.\<close>

theorem srpc_roundtrip:
  fixes K :: "'s sockets"
  assumes "length parameter \<le> 4054" "fs rid = Some f" "f parameter c = (Inr reply, c')" "length reply \<le> 4053"
    "rid \<noteq> HeartBeat"
  shows "\<exists>req rep. (\<forall>p s. sp_checksum p = ck \<longrightarrow> srpc_call K rid parameter p s = sc_send K (sp_channel p) req s)
    \<and> (\<forall>old. length old = kMaxMsgSz \<longrightarrow> serve_msg fs (over req old) c = Inr (rep, c'))
    \<and> (\<forall>raw t hb p s s' old. length old = kMaxMsgSz \<longrightarrow> sc_recv K raw (sp_channel p) t s = Inr (io_ok (over rep old), s')
        \<longrightarrow> receive_reply K raw t hb p s = Some (Inr
              (if sp_checksum p = ck then (io_ok reply, p\<lparr>sp_checksum := ck + 1\<rparr>, s')
               else (io_err (bb ''Fatal checksum error''), p, s'))))"
  by (rule srpc_exchange [of parameter fs rid f c reply c', OF assms])

theorem srpc_roundtrip_witness:
  "\<exists>req rep. serve_msg (RPCFactory(3 \<mapsto> (\<lambda>b n. (Inr (rev b), Suc n)))) (over req (replicate kMaxMsgSz 7)) 0 = Inr (rep, Suc 0)"
proof -
  let ?fs = "RPCFactory(3 \<mapsto> (\<lambda>b n. (Inr (rev b), Suc n)))"
  have "\<exists>req rep. \<forall>old. length old = kMaxMsgSz \<longrightarrow> serve_msg ?fs (over req old) 0 = Inr (rep, Suc 0)"
    using srpc_roundtrip [of "[1, 2]" ?fs 3 "\<lambda>b n. (Inr (rev b), Suc n)" 0 "[2, 1]" "Suc 0"]
    by (force simp: HeartBeat_def)
  then show ?thesis by (metis length_replicate)
qed

lemma srpc_call_large:
  assumes "4055 \<le> length parameter" "(1 + length parameter) mod 2 ^ 32 + 33 \<le> kMaxMsgSz"
  shows "srpc_call K rid parameter p s = Inl AssertFailed"
proof -
  let ?k = "unat (of_nat (1 + length parameter) :: usize)" and ?h = "to_bytes SRpcHeader_pod (rid, sp_checksum p)"
  define m where "m = MultiMsg kMaxMsgSz (?k + 33)"
  have "?k = (1 + length parameter) mod 2 ^ 32" by (simp only: unat_of_nat) simp
  then have m: "create_exact kMaxMsgSz (of_nat (1 + length parameter)) = Some m"
    using assms(2) by (simp add: create_exact_def m_def MsgsHeader_size_def del: of_nat_add of_nat_Suc)
  have h: "mm_holds m []" "length (mm_buf m) = 33"
    using MultiMsg_holds [of kMaxMsgSz "?k + 33"] by (simp_all add: m_def MultiMsg_def MsgsHeader_size_def kMaxMsgSz_def)
  obtain m1 where a: "mm_append kMaxMsgSz m ?h = Inr (True, m1)" "packs (mm_buf m1) [?h] []"
    using mm_append_packs [OF h(1), of ?h kMaxMsgSz] h(2) by (auto simp: srpc_header.len kMaxMsgSz_def)
  have "length (mm_buf m1) = 42" using length_packs [OF a(2)] by (simp add: srpc_header.len)
  then have "mm_append kMaxMsgSz m1 parameter = Inr (False, m1)" using assms by (simp add: mm_append_def kMaxMsgSz_def)
  then show ?thesis using m a(1) by (simp add: srpc_call_def srpc_header.rlib_dump_ok del: of_nat_add of_nat_Suc)
qed

text \<open>C32: a call whose parameter does not fit a message (4055 bytes and more) either gives an error or
  aborts the process. The size check counts one byte for the header of nine, and cuts the size
  to 32 bits: between 4055 and 4062 bytes, and again when the size is within 4063 bytes above
  a multiple of \<open>2 ^ 32\<close> less one, the check passes and the process aborts when the parameter
  is appended; otherwise the call returns the error.\<close>

theorem srpc_call_oversize:
  assumes "4055 \<le> length parameter"
  shows "srpc_call K rid parameter p s =
    (if (1 + length parameter) mod 2 ^ 32 \<le> 4063 then Inl AssertFailed
     else Inr (io_err ''Msg too large!, only kMaxMsgSz supported'', s))"
proof (cases "(1 + length parameter) mod 2 ^ 32 \<le> 4063")
  case True
  then show ?thesis using srpc_call_large [OF assms] by (simp add: kMaxMsgSz_def)
next
  case False
  have "unat (of_nat (1 + length parameter) :: usize) = (1 + length parameter) mod 2 ^ 32" by (simp only: unat_of_nat) simp
  then have "create_exact kMaxMsgSz (of_nat (1 + length parameter)) = None"
    using False by (simp add: create_exact_def kMaxMsgSz_def MsgsHeader_size_def del: of_nat_add of_nat_Suc)
  then show ?thesis using False by (simp add: srpc_call_def del: of_nat_add of_nat_Suc)
qed

theorem srpc_call_oversize_witness:
  "(\<forall>K p. srpc_call (K :: unit sockets) 1 (replicate 4060 0) p () = Inl AssertFailed)
   \<and> (\<forall>K p. srpc_call (K :: unit sockets) 1 (replicate 5000 0) p ()
        = Inr (io_err ''Msg too large!, only kMaxMsgSz supported'', ()))"
  using srpc_call_oversize [of "replicate 4060 0" _ 1 _ "()"] srpc_call_oversize [of "replicate 5000 0" _ 1 _ "()"] by simp

text \<open>A request with an id nobody registered is undefined behaviour at the server.\<close>

lemma serve_unregistered:
  assumes "decode_request msg = Inr (m, rid, ck)" "query_one m 1 = Inr (Some p)" "fs rid = None"
  shows "serve_msg fs msg c = Inl UB"
  using assms by (simp add: serve_msg_def call_one_def rcatch_def)

end
