(* ===== verification/Rctrl.thy ===== *)
theory Rctrl
  imports Rlib_QP Srpc
begin

text \<open>
  The control path of RLib: the wire format of its requests (\<^verbatim>\<open>bootstrap/proto.hh\<close>), the
  daemon that serves registered memory and creates queue pairs (\<^verbatim>\<open>rctrl.hh\<close>), the variant for
  two-sided messages (\<^verbatim>\<open>qps/rc_recv_manager.hh\<close>) and the client (\<^verbatim>\<open>lib.hh\<close>).

  Registered queue pairs are shared objects, positions of \<open>rt_objs\<close>. A handler returns the state it
  reached also when it throws. The daemon's thread is left out: its loop runs as often as it finds
  \<open>running\<close> set.
\<close>

section \<open>The wire format\<close>

definition kMaxQPNameLen :: nat where "kMaxQPNameLen = 63"

text \<open>A \<open>char[n]\<close>, and the \<open>std::string\<close> made from one that holds a null.\<close>

definition chars_pod :: "nat \<Rightarrow> bytes pod" where
  "chars_pod n = \<lparr>size_of = n, to_bytes = (\<lambda>b. take n (b @ replicate n 0)), of_bytes = take n\<rparr>"

definition cstr :: "bytes \<Rightarrow> bytes res" where
  "cstr b = (if 0 \<in> set b then Inr (takeWhile (\<lambda>c. c \<noteq> 0) b) else Inl UB)"

text \<open>\<open>memcpy\<close> of a string into a zeroed \<open>char[64]\<close>.\<close>

definition name_field :: "bytes \<Rightarrow> bytes res" where
  "name_field name = mem_put (replicate (kMaxQPNameLen + 1) 0) 0 name"

definition st_Ok :: u8 where "st_Ok = 0"
definition st_Err :: u8 where "st_Err = 1"
definition st_NotFound :: u8 where "st_NotFound = 2"
definition st_WrongArg :: u8 where "st_WrongArg = 3"
definition st_ConnectErr :: u8 where "st_ConnectErr = 4"
definition st_AuthErr :: u8 where "st_AuthErr = 5"

definition RegAttr_pod :: "reg_attr pod" where
  "RegAttr_pod = iso_pod (\<lambda>a. (attr_buf a, attr_sz a, attr_key a, attr_lkey a))
     (\<lambda>(b, s, k, l). \<lparr>attr_buf = b, attr_sz = s, attr_key = k, attr_lkey = l\<rparr>)
     (pair_pod u64_pod (pair_pod u64_pod (pair_pod u32_pod u32_pod)))"

definition QPAttr_pod :: "qp_attr pod" where
  "QPAttr_pod = iso_pod
     (\<lambda>a. (subnet_prefix (q_addr a), interface_id (q_addr a), local_id (q_addr a), q_lid a, q_psn a, q_port_id a, q_qpn a, q_qkey a))
     (\<lambda>(s, i, l, lid, psn, port, qpn, k). \<lparr>q_addr = \<lparr>subnet_prefix = s, interface_id = i, local_id = l\<rparr>,
        q_lid = lid, q_psn = psn, q_port_id = port, q_qpn = qpn, q_qkey = k\<rparr>)
     (pair_pod u64_pod (pair_pod u64_pod (pair_pod u32_pod (pair_pod u64_pod (pair_pod u64_pod
        (pair_pod u64_pod (pair_pod u64_pod u64_pod)))))))"

definition QPConfig_pod :: "qp_config pod" where
  "QPConfig_pod = iso_pod
     (\<lambda>c. (access_flags c, max_rd_atomic c, max_dest_rd_atomic c, rq_psn c, sq_psn c, qp_timeout c, max_send_size c,
           max_recv_size c, qkey c))
     (\<lambda>(a, r, d, rp, sp, t, ms, mr, k). \<lparr>access_flags = a, max_rd_atomic = r, max_dest_rd_atomic = d, rq_psn = rp,
        sq_psn = sp, qp_timeout = t, max_send_size = ms, max_recv_size = mr, qkey = k\<rparr>)
     (pair_pod i32_pod (pair_pod i32_pod (pair_pod i32_pod (pair_pod i32_pod (pair_pod i32_pod (pair_pod i32_pod
        (pair_pod i32_pod (pair_pod i32_pod i32_pod))))))))"

definition zero_reg_attr :: reg_attr where
  "zero_reg_attr = \<lparr>attr_buf = 0, attr_sz = 0, attr_key = 0, attr_lkey = 0\<rparr>"

definition zero_qpattr :: qp_attr where
  "zero_qpattr = \<lparr>q_addr = \<lparr>subnet_prefix = 0, interface_id = 0, local_id = 0\<rparr>, q_lid = 0, q_psn = 0, q_port_id = 0,
     q_qpn = 0, q_qkey = 0\<rparr>"

definition MRReq_pod :: "u64 pod" where "MRReq_pod = u64_pod"
definition MRReply_pod :: "(u8 \<times> reg_attr) pod" where "MRReply_pod = pair_pod u8_pod RegAttr_pod"

text \<open>Name and key.\<close>

definition QPReq_pod :: "(bytes \<times> u64) pod" where "QPReq_pod = pair_pod (chars_pod (kMaxQPNameLen + 1)) u64_pod"
definition DelRCReq_pod :: "(bytes \<times> u64) pod" where "DelRCReq_pod = pair_pod (chars_pod (kMaxQPNameLen + 1)) u64_pod"

record rc_req =
  rq_name :: bytes
  rq_name_recv :: bytes
  whether_create :: u8
  whether_recv :: u8
  rq_nic_id :: u64
  rq_config :: qp_config
  rq_attr :: qp_attr
  max_recv_msg_sz :: u64

definition zero_rc_req :: rc_req where
  "zero_rc_req = \<lparr>rq_name = replicate (kMaxQPNameLen + 1) 0, rq_name_recv = replicate (kMaxQPNameLen + 1) 0, whether_create = 0,
     whether_recv = 0, rq_nic_id = 0, rq_config = QPConfig, rq_attr = zero_qpattr, max_recv_msg_sz = 4096\<rparr>"

definition RCReq_pod :: "rc_req pod" where
  "RCReq_pod = iso_pod
     (\<lambda>r. (rq_name r, rq_name_recv r, whether_create r, whether_recv r, rq_nic_id r, rq_config r, rq_attr r, max_recv_msg_sz r))
     (\<lambda>(n, nr, wc, wr, nic, c, a, m). \<lparr>rq_name = n, rq_name_recv = nr, whether_create = wc, whether_recv = wr,
        rq_nic_id = nic, rq_config = c, rq_attr = a, max_recv_msg_sz = m\<rparr>)
     (pair_pod (chars_pod (kMaxQPNameLen + 1)) (pair_pod (chars_pod (kMaxQPNameLen + 1)) (pair_pod u8_pod (pair_pod u8_pod
        (pair_pod u64_pod (pair_pod QPConfig_pod (pair_pod QPAttr_pod u64_pod)))))))"

text \<open>Status, attribute and key.\<close>

definition RCReply_pod :: "(u8 \<times> qp_attr \<times> u64) pod" where
  "RCReply_pod = pair_pod u8_pod (pair_pod QPAttr_pod u64_pod)"

section \<open>The daemon\<close>

datatype any_qp = QP_RC rc | QP_UD ud

record ('n, 'r) rctrl =
  rt_net :: 'n
  rt_rnd :: 'r
  registered_mrs :: "(u64, reg_handler) factory"
  registered_qps :: "(bytes, nat) factory"
  opened_nics :: "(u64, rnic) factory"
  rt_objs :: "any_qp list"

definition my_attr :: "'n verbs \<Rightarrow> any_qp \<Rightarrow> 'n \<Rightarrow> qp_attr res" where
  "my_attr V q n = (case q of QP_RC q \<Rightarrow> rc_my_attr V q n | QP_UD q \<Rightarrow> ud_my_attr V q n)"

text \<open>The destructor of a queue pair.\<close>

definition qp_destroy :: "'n verbs \<Rightarrow> 'a qp_scheme \<Rightarrow> 'n \<Rightarrow> 'n" where
  "qp_destroy V q n = (case qp_qp q of None \<Rightarrow> n | Some h \<Rightarrow> snd (v_destroy_qp V h n))"

definition any_destroy :: "'n verbs \<Rightarrow> any_qp \<Rightarrow> 'n \<Rightarrow> 'n" where
  "any_destroy V q n = (case q of QP_RC q \<Rightarrow> qp_destroy V q n | QP_UD q \<Rightarrow> qp_destroy V q n)"

definition fetch_mr_handler :: "('n, 'r, 'z) rctrl_scheme handler" where
  "fetch_mr_handler b st =
     ((case rlib_dedump MRReq_pod b of
         Some req_id \<Rightarrow>
           (case fac_query (registered_mrs st) req_id of
              Some mr \<Rightarrow> rbind (opt_value (get_reg_attr mr)) (\<lambda>attr. rlib_dump MRReply_pod (st_Ok, attr))
            | None \<Rightarrow> rlib_dump MRReply_pod (st_NotFound, zero_reg_attr))
       | None \<Rightarrow> rlib_dump MRReply_pod (st_WrongArg, zero_reg_attr)), st)"

definition rc_reply :: "u8 \<Rightarrow> bytes res" where
  "rc_reply status = rlib_dump RCReply_pod (status, zero_qpattr, 0)"

text \<open>The object is destroyed with its last reference, the one the factory held.\<close>

definition delete_rc :: "'n verbs \<Rightarrow> ('n, 'r, 'z) rctrl_scheme handler" where
  "delete_rc V b st =
     (case rlib_dedump DelRCReq_pod b of
        None \<Rightarrow> (rc_reply st_WrongArg, st)
      | Some (name, key) \<Rightarrow>
          (case cstr name of Inl e \<Rightarrow> (Inl e, st)
           | Inr name \<Rightarrow>
               (case fac_dereg (registered_qps st) name key of
                  (qps, None) \<Rightarrow> (rc_reply st_WrongArg, st\<lparr>registered_qps := qps\<rparr>)
                | (qps, Some i) \<Rightarrow>
                    (rc_reply st_Ok, st\<lparr>registered_qps := qps, rt_net := any_destroy V (rt_objs st ! i) (rt_net st)\<rparr>))))"

definition fetch_qp_attr :: "'n verbs \<Rightarrow> bytes \<Rightarrow> u64 \<Rightarrow> ('n, 'r, 'z) rctrl_scheme \<Rightarrow> bytes res" where
  "fetch_qp_attr V name key st =
     rbind (cstr name) (\<lambda>name.
     case fac_query (registered_qps st) name of
       Some i \<Rightarrow> rbind (my_attr V (rt_objs st ! i) (rt_net st)) (\<lambda>attr. rlib_dump RCReply_pod (st_Ok, attr, key))
     | None \<Rightarrow> rc_reply st_NotFound)"

definition fetch_qp_attr_wrapper :: "'n verbs \<Rightarrow> ('n, 'r, 'z) rctrl_scheme handler" where
  "fetch_qp_attr_wrapper V b st =
     (case rlib_dedump QPReq_pod b of
        None \<Rightarrow> (rc_reply st_WrongArg, st)
      | Some (name, _) \<Rightarrow> (fetch_qp_attr V name 0 st, st))"

text \<open>Creating, registering and connecting a queue pair: the key of the registration, or \<open>None\<close> for
  the jump to the reply \<open>WrongArg\<close>. \<open>connect\<close> changes the registered object. It throws before it
  changes anything.\<close>

definition create_and_connect ::
    "'n verbs \<Rightarrow> ('r \<Rightarrow> u64 \<times> 'r) \<Rightarrow> rc_req \<Rightarrow> rnic \<Rightarrow> nat option \<Rightarrow> ('n, 'r, 'z) rctrl_scheme
      \<Rightarrow> (u64 \<times> rc) option res \<times> ('n, 'r, 'z) rctrl_scheme" where
  "create_and_connect V rand r nic recv_cq st =
     (case RC_create V nic (rq_config r) recv_cq (rt_net st) of
        Inl e \<Rightarrow> (Inl e, st)
      | Inr (None, n) \<Rightarrow> (Inl Thrown, st\<lparr>rt_net := n\<rparr>)
      | Inr (Some q, n) \<Rightarrow>
          (case rbind (cstr (rq_name r)) (\<lambda>name.
                  rbind (fac_reg rand (rt_rnd st) (registered_qps st) name (length (rt_objs st))) (\<lambda>reg. Inr (name, reg))) of
             Inl e \<Rightarrow> (Inl e, st\<lparr>rt_net := n\<rparr>)
           | Inr (_, rnd, _, None) \<Rightarrow> (Inr None, st\<lparr>rt_net := qp_destroy V q n, rt_rnd := rnd\<rparr>)
           | Inr (name, rnd, qps, Some key) \<Rightarrow>
               let st = st\<lparr>rt_net := n, rt_rnd := rnd, registered_qps := qps, rt_objs := rt_objs st @ [QP_RC q]\<rparr> in
               (case rc_connect V (rq_attr r) q n of
                  Inl e \<Rightarrow> (Inl e, st)
                | Inr (res, q, n) \<Rightarrow>
                    if code res \<noteq> IO_Ok then
                      (Inr None, st\<lparr>registered_qps := fst (fac_dereg qps name key), rt_net := qp_destroy V q n\<rparr>)
                    else (Inr (Some (key, q)), st\<lparr>rt_objs := butlast (rt_objs st) @ [QP_RC q], rt_net := n\<rparr>))))"

definition rc_handler :: "'n verbs \<Rightarrow> ('r \<Rightarrow> u64 \<times> 'r) \<Rightarrow> ('n, 'r, 'z) rctrl_scheme handler" where
  "rc_handler V rand b st =
     (case rlib_dedump RCReq_pod b of
        None \<Rightarrow> (rc_reply st_WrongArg, st)
      | Some r \<Rightarrow>
          if \<not> (whether_create r = 1 \<or> whether_create r \<noteq> 0) then (rc_reply st_WrongArg, st)
          else if whether_create r = 1 then
            (case fac_query (opened_nics st) (rq_nic_id r) of
               None \<Rightarrow> (rc_reply st_WrongArg, st)
             | Some nic \<Rightarrow>
                 (case create_and_connect V rand r nic None st of
                    (Inl e, st) \<Rightarrow> (Inl e, st)
                  | (Inr None, st) \<Rightarrow> (rc_reply st_WrongArg, st)
                  | (Inr (Some (key, _)), st) \<Rightarrow> (fetch_qp_attr V (rq_name r) key st, st)))
          else (fetch_qp_attr V (rq_name r) 0 st, st))"

text \<open>The constructor registers the four handlers.\<close>

definition RCtrl :: "'n verbs \<Rightarrow> ('r \<Rightarrow> u64 \<times> 'r) \<Rightarrow> 's sockets \<Rightarrow> int \<Rightarrow> string \<Rightarrow> 's \<Rightarrow> (('n, 'r, 'z) rctrl_scheme srpc_handler \<times> 's) res" where
  "RCtrl V rand K port h s =
     rbind (SRpcHandler K port h s) (\<lambda>(rpc, s).
       case sh_register_handler FetchMr fetch_mr_handler rpc of (ok, rpc) \<Rightarrow> rassert ok
      (case sh_register_handler CreateRC (rc_handler V rand) rpc of (ok, rpc) \<Rightarrow> rassert ok
      (case sh_register_handler DeleteRC (delete_rc V) rpc of (ok, rpc) \<Rightarrow> rassert ok
      (case sh_register_handler FetchQPAttr (fetch_qp_attr_wrapper V) rpc of (ok, rpc) \<Rightarrow> rassert ok
      (Inr (rpc, s))))))"

fun rctrl_daemon :: "'s sockets \<Rightarrow> nat \<Rightarrow> nat \<Rightarrow> u64 \<Rightarrow> 'c srpc_handler \<Rightarrow> 'c \<Rightarrow> 's \<Rightarrow> (u64 \<times> 'c srpc_handler \<times> 'c \<times> 's) res" where
  "rctrl_daemon K raw 0 reqs rpc c s = Inr (reqs, rpc, c, s)"
| "rctrl_daemon K raw (Suc k) reqs rpc c s =
     rbind (run_one_event_loop K raw rpc c s) (\<lambda>(count, rpc, c, s). rctrl_daemon K raw k (reqs + ucast count) rpc c s)"

section \<open>Queue pairs for messages\<close>

record recv_common =
  cm_cq :: nat
  cm_allocator :: nat

definition RecvCommon_create :: "nat \<Rightarrow> nat \<Rightarrow> recv_common option" where
  "RecvCommon_create cq alloc = Some \<lparr>cm_cq = cq, cm_allocator = alloc\<rparr>"

record ('n, 'r, 'a) recv_manager = "('n, 'r) rctrl" +
  reg_recv_cqs :: "(bytes, recv_common) factory"
  reg_recv_entries :: "(bytes, recv_entries) factory"
  rm_alloc :: 'a

text \<open>The allocator after at most \<open>k\<close> requests, the last of which may have failed.\<close>

fun alloc_run :: "('a \<Rightarrow> (u64 \<times> u32) option \<times> 'a) \<Rightarrow> nat \<Rightarrow> 'a \<Rightarrow> 'a" where
  "alloc_run alloc 0 a = a"
| "alloc_run alloc (Suc k) a = (case alloc a of (None, a) \<Rightarrow> a | (Some _, a) \<Rightarrow> alloc_run alloc k a)"

definition msg_setup ::
    "'n verbs \<Rightarrow> ('r \<Rightarrow> u64 \<times> 'r) \<Rightarrow> (nat \<Rightarrow> u32 \<Rightarrow> 'a \<Rightarrow> (u64 \<times> u32) option \<times> 'a) \<Rightarrow> nat \<Rightarrow> wc list \<Rightarrow> rc_req \<Rightarrow> rc
      \<Rightarrow> ('n, 'r, 'a) recv_manager \<Rightarrow> unit res \<times> ('n, 'r, 'a) recv_manager" where
  "msg_setup V rand alloc R wcs r q st =
     (case rbind (cstr (rq_name_recv r)) (\<lambda>name. opt_value (fac_query (reg_recv_cqs st) name)) of
        Inl e \<Rightarrow> (Inl e, st)
      | Inr cm \<Rightarrow>
          let sz = (ucast (max_recv_msg_sz r) :: usize); get = alloc (cm_allocator cm) sz;
              st' = st\<lparr>rm_alloc := alloc_run get R (rm_alloc st)\<rparr> in
          (case RecvEntries_create get sz R wcs (rm_alloc st) of
             Inl e \<Rightarrow> (Inl e, st')
           | Inr (entries, _) \<Rightarrow>
               (case rbind (cstr (rq_name r)) (\<lambda>name.
                       rbind (fac_reg rand (rt_rnd st) (reg_recv_entries st) name entries) (\<lambda>reg. Inr (name, reg))) of
                  Inl e \<Rightarrow> (Inl e, st')
                | Inr (_, _, _, None) \<Rightarrow> (Inl AssertFailed, st')
                | Inr (name, rnd, es, Some key) \<Rightarrow>
                    (case post_recvs V q entries (of_nat R) (rt_net st) of
                       Inl e \<Rightarrow> (Inl e, st')
                     | Inr (res, entries, n) \<Rightarrow>
                         (rassert (code res = IO_Ok) (Inr ()),
                          st'\<lparr>rt_rnd := rnd, reg_recv_entries := AList.update name (entries, key) es, rt_net := n\<rparr>)))))"

definition msg_rc_handler ::
    "'n verbs \<Rightarrow> ('r \<Rightarrow> u64 \<times> 'r) \<Rightarrow> (nat \<Rightarrow> u32 \<Rightarrow> 'a \<Rightarrow> (u64 \<times> u32) option \<times> 'a) \<Rightarrow> nat \<Rightarrow> wc list
      \<Rightarrow> ('n, 'r, 'a) recv_manager handler" where
  "msg_rc_handler V rand alloc R wcs b st =
     (case rlib_dedump RCReq_pod b of
        None \<Rightarrow> (rc_reply st_WrongArg, st)
      | Some r \<Rightarrow>
          if \<not> (whether_create r = 1 \<or> whether_create r \<noteq> 0) then (rc_reply st_WrongArg, st)
          else if whether_create r = 1 then
            (case fac_query (opened_nics st) (rq_nic_id r) of
               None \<Rightarrow> (rc_reply st_WrongArg, st)
             | Some nic \<Rightarrow>
                 (case (if whether_recv r = 1 then rbind (cstr (rq_name_recv r)) (\<lambda>name.
                          Inr (map_option cm_cq (fac_query (reg_recv_cqs st) name))) else Inr None) of
                    Inl e \<Rightarrow> (Inl e, st)
                  | Inr recv_cq \<Rightarrow>
                      (case create_and_connect V rand r nic recv_cq st of
                         (Inl e, st) \<Rightarrow> (Inl e, st)
                       | (Inr None, st) \<Rightarrow> (rc_reply st_WrongArg, st)
                       | (Inr (Some (key, q)), st) \<Rightarrow>
                           (case msg_setup V rand alloc R wcs r q st of
                              (Inl e, st) \<Rightarrow> (Inl e, st)
                            | (Inr _, st) \<Rightarrow> (fetch_qp_attr V (rq_name r) key st, st)))))
          else (fetch_qp_attr V (rq_name r) 0 st, st))"

definition RecvManager :: "'n verbs \<Rightarrow> ('r \<Rightarrow> u64 \<times> 'r) \<Rightarrow> (nat \<Rightarrow> u32 \<Rightarrow> 'a \<Rightarrow> (u64 \<times> u32) option \<times> 'a) \<Rightarrow> nat \<Rightarrow> wc list
      \<Rightarrow> ('n, 'r, 'a) recv_manager srpc_handler \<Rightarrow> ('n, 'r, 'a) recv_manager srpc_handler res" where
  "RecvManager V rand alloc R wcs rpc =
     (case sh_register_handler CreateRCM (msg_rc_handler V rand alloc R wcs) rpc of (ok, rpc) \<Rightarrow> rassert ok (Inr rpc))"

end
