(* ===== verification/Connect_Manager.thy ===== *)
theory Connect_Manager
  imports Rctrl
begin

text \<open>
  The client of the control path (\<^verbatim>\<open>deps/rlib/core/lib.hh\<close>): waiting for a server, fetching the
  attributes of registered memory and queue pairs, creating and deleting queue pairs at the other
  machine. A \<open>ConnectManager\<close> is its \<open>srpc\<close>; texts in results are byte strings.
\<close>

definition err_name_to_long :: bytes where "err_name_to_long = bb ''Name to long''"
definition err_decode_reply :: bytes where "err_decode_reply = bb ''Decode reply error''"
definition err_not_found :: bytes where "err_not_found = bb ''attribute not found''"
definition err_unknown_status :: bytes where "err_unknown_status = bb ''Unknown status code''"

definition recv_reply :: "'s sockets \<Rightarrow> nat \<Rightarrow> rat \<Rightarrow> bool \<Rightarrow> srpc \<Rightarrow> 's \<Rightarrow> (bytes io_result \<times> srpc \<times> 's) res" where
  "recv_reply K raw t hb p s = loop_res (receive_reply K raw t hb p s)"

fun wait_ready :: "'s sockets \<Rightarrow> nat \<Rightarrow> rat \<Rightarrow> nat \<Rightarrow> srpc \<Rightarrow> 's \<Rightarrow> (bytes io_result \<times> srpc \<times> 's) res" where
  "wait_ready K raw t 0 p s = Inr (io_timeout (bb ''retry exceeds num''), p, s)"
| "wait_ready K raw t (Suc retry) p s =
     rbind (srpc_call K HeartBeat [48] p s) (\<lambda>(res, s).
     if code res \<noteq> IO_Ok \<and> code res \<noteq> IO_Timeout then Inr (io_bb res, p, s)
     else
       rbind (recv_reply K raw t True p s) (\<lambda>(res_reply, p, s).
       if code res_reply = IO_Ok \<or> code res_reply = IO_Err then Inr (res_reply, p, s)
       else wait_ready K raw t retry p s))"

text \<open>The last statement builds an error and does not return it: the function ends without a value.\<close>

definition delete_remote_rc ::
    "'s sockets \<Rightarrow> nat \<Rightarrow> bytes \<Rightarrow> u64 \<Rightarrow> rat \<Rightarrow> srpc \<Rightarrow> 's \<Rightarrow> (bytes io_result \<times> srpc \<times> 's) res" where
  "delete_remote_rc K raw name key t p s =
     (if length name > kMaxQPNameLen then Inr (io_err err_name_to_long, p, s)
      else
        rbind (name_field name) (\<lambda>f.
        rbind (rlib_dump DelRCReq_pod (f, key)) (\<lambda>req.
        rbind (srpc_call K DeleteRC req p s) (\<lambda>(res, s).
        if code res \<noteq> IO_Ok then Inr (io_bb res, p, s)
        else
          rbind (recv_reply K raw t False p s) (\<lambda>(res_reply, p, s).
          if code res_reply \<noteq> IO_Ok then Inl UB
          else case rlib_dedump RCReply_pod (desc res_reply) of
              None \<Rightarrow> Inl UB
            | Some (status, _) \<Rightarrow>
                if status = st_Ok then Inr (io_ok [], p, s)
                else if status = st_WrongArg then Inr (io_err (bb ''wrong arg''), p, s)
                else if status = st_AuthErr then Inr (io_err (bb ''auth failure''), p, s)
                else Inl UB)))))"

text \<open>What \<open>cc_rc\<close> and \<open>cc_rc_msg\<close> do once the request is built.\<close>

definition cc_rc_exchange ::
    "'n verbs \<Rightarrow> 's sockets \<Rightarrow> nat \<Rightarrow> u8 \<Rightarrow> rc_req \<Rightarrow> rat \<Rightarrow> rc \<Rightarrow> srpc \<Rightarrow> 'n \<Rightarrow> 's
      \<Rightarrow> ((bytes \<times> u64) io_result \<times> rc \<times> srpc \<times> 'n \<times> 's) res" where
  "cc_rc_exchange V K raw rid req t q p n s =
     rbind (rlib_dump RCReq_pod req) (\<lambda>b.
     rbind (srpc_call K rid b p s) (\<lambda>(res, s).
     if code res \<noteq> IO_Ok then Inr (io_err (bb (desc res), 0), q, p, n, s)
     else
       rbind (recv_reply K raw t False p s) (\<lambda>(res_reply, p, s).
       if code res_reply \<noteq> IO_Ok then Inr (io_err (bb ''unknown error'', 0), q, p, n, s)
       else case rlib_dedump RCReply_pod (desc res_reply) of
           None \<Rightarrow> Inr (io_err (err_decode_reply, 0), q, p, n, s)
         | Some (status, attr, key) \<Rightarrow>
             if status = st_Ok then
               rcatch (rbind (rc_connect V attr q n) (\<lambda>(ret, q, n).
                   Inr (if code ret \<noteq> IO_Ok then io_err (bb (desc ret), 0) else io_ok ([], key), q, p, n, s)))
                 (Inr (io_err (err_decode_reply, 0), q, p, n, s))
             else if status = st_ConnectErr then Inr (io_err (bb ''Remote connect error'', 0), q, p, n, s)
             else if status = st_WrongArg then
               Inr (io_err (bb ''Wrong arguments, possible the QP has exsists'', 0), q, p, n, s)
             else Inr (io_err (err_unknown_status, 0), q, p, n, s))))"

definition cc_rc ::
    "'n verbs \<Rightarrow> 's sockets \<Rightarrow> nat \<Rightarrow> bytes \<Rightarrow> u64 \<Rightarrow> qp_config \<Rightarrow> rat \<Rightarrow> rc \<Rightarrow> srpc \<Rightarrow> 'n \<Rightarrow> 's
      \<Rightarrow> ((bytes \<times> u64) io_result \<times> rc \<times> srpc \<times> 'n \<times> 's) res" where
  "cc_rc V K raw name nic config t q p n s =
     (if length name > kMaxQPNameLen then Inr (io_err (err_name_to_long, 0), q, p, n, s)
      else
        rbind (name_field name) (\<lambda>f.
        rbind (rc_my_attr V q n) (\<lambda>attr.
          cc_rc_exchange V K raw CreateRC
            (zero_rc_req\<lparr>rq_name := f, whether_create := 1, whether_recv := 0, rq_nic_id := nic, rq_config := config,
                         rq_attr := attr\<rparr>) t q p n s)))"

text \<open>The name of the channel is copied without a check of its size.\<close>

definition cc_rc_msg ::
    "'n verbs \<Rightarrow> 's sockets \<Rightarrow> nat \<Rightarrow> bytes \<Rightarrow> bytes \<Rightarrow> usize \<Rightarrow> u64 \<Rightarrow> qp_config \<Rightarrow> rat \<Rightarrow> rc \<Rightarrow> srpc \<Rightarrow> 'n \<Rightarrow> 's
      \<Rightarrow> ((bytes \<times> u64) io_result \<times> rc \<times> srpc \<times> 'n \<times> 's) res" where
  "cc_rc_msg V K raw qp_name channel_name msg_sz nic config t q p n s =
     (if length qp_name > kMaxQPNameLen then Inr (io_err (err_name_to_long, 0), q, p, n, s)
      else
        rbind (name_field qp_name) (\<lambda>f.
        rbind (name_field channel_name) (\<lambda>g.
        rbind (rc_my_attr V q n) (\<lambda>attr.
          cc_rc_exchange V K raw CreateRCM
            (zero_rc_req\<lparr>rq_name := f, rq_name_recv := g, whether_create := 1, whether_recv := 1, rq_nic_id := nic,
                         rq_config := config, rq_attr := attr, max_recv_msg_sz := ucast msg_sz\<rparr>) t q p n s))))"

text \<open>The result of the call is not looked at.\<close>

definition fetch_remote_mr ::
    "'s sockets \<Rightarrow> nat \<Rightarrow> u64 \<Rightarrow> rat \<Rightarrow> srpc \<Rightarrow> 's \<Rightarrow> ((bytes \<times> reg_attr) io_result \<times> srpc \<times> 's) res" where
  "fetch_remote_mr K raw mr_id t p s =
     rbind (rlib_dump MRReq_pod mr_id) (\<lambda>b.
     rbind (srpc_call K FetchMr b p s) (\<lambda>(_, s).
     rbind (recv_reply K raw t False p s) (\<lambda>(res_reply, p, s).
     if code res_reply = IO_Ok then
       (case rlib_dedump MRReply_pod (desc res_reply) of
          None \<Rightarrow> Inr (io_err (err_decode_reply, zero_reg_attr), p, s)
        | Some (status, attr) \<Rightarrow>
            if status = st_Ok then Inr (io_ok ([], attr), p, s)
            else if status = st_NotFound then Inr (io_not_ready ([], zero_reg_attr), p, s)
            else Inr (io_err (err_unknown_status, zero_reg_attr), p, s))
     else Inr (io_transfer res_reply (desc res_reply, zero_reg_attr), p, s))))"

definition cm_fetch_qp_attr ::
    "'s sockets \<Rightarrow> nat \<Rightarrow> bytes \<Rightarrow> rat \<Rightarrow> srpc \<Rightarrow> 's \<Rightarrow> ((bytes \<times> qp_attr) io_result \<times> srpc \<times> 's) res" where
  "cm_fetch_qp_attr K raw name t p s =
     (if length name > kMaxQPNameLen then Inr (io_err (err_name_to_long, zero_qpattr), p, s)
      else
        rbind (name_field name) (\<lambda>f.
        rbind (rlib_dump QPReq_pod (f, 0)) (\<lambda>b.
        rbind (srpc_call K FetchQPAttr b p s) (\<lambda>(res, s).
        if code res \<noteq> IO_Ok then Inr (io_err (bb (desc res), zero_qpattr), p, s)
        else
          rbind (recv_reply K raw t False p s) (\<lambda>(res_reply, p, s).
          if code res_reply = IO_Ok then
            (case rlib_dedump RCReply_pod (desc res_reply) of
               None \<Rightarrow> Inr (io_err (err_decode_reply, zero_qpattr), p, s)
             | Some (status, attr, _) \<Rightarrow>
                 if status = st_Ok then Inr (io_ok ([], attr), p, s)
                 else if status = st_NotFound then Inr (io_not_ready (err_not_found, zero_qpattr), p, s)
                 else Inr (io_err (err_unknown_status, zero_qpattr), p, s))
          else Inr (io_transfer res_reply (desc res_reply, zero_qpattr), p, s))))))"

definition CMFactory_create ::
    "'s sockets \<Rightarrow> nat \<Rightarrow> string \<Rightarrow> rat \<Rightarrow> nat \<Rightarrow> ip_cache \<Rightarrow> 's \<Rightarrow> (srpc option io_result \<times> ip_cache \<times> 's) res" where
  "CMFactory_create K raw addr t retry cache s =
     rbind (SRpc K addr cache s) (\<lambda>(cm, cache, s).
     rbind (wait_ready K raw t retry cm s) (\<lambda>(res, cm, s).
       Inr (if code res \<noteq> IO_Ok then io_transfer res None else io_ok (Some cm), cache, s)))"

section \<open>Round trips of the wire format\<close>

interpretation reg_attr: pod_codec RegAttr_pod
  unfolding RegAttr_pod_def
  by (intro pod_codec_iso pod_codec_pair u64.pod_codec_axioms u32.pod_codec_axioms) simp

interpretation qp_attr: pod_codec QPAttr_pod
  unfolding QPAttr_pod_def
  by (intro pod_codec_iso pod_codec_pair u64.pod_codec_axioms u32.pod_codec_axioms) simp

interpretation qp_config: pod_codec QPConfig_pod
  unfolding QPConfig_pod_def
  by (intro pod_codec_iso pod_codec_pair i32.pod_codec_axioms) simp

interpretation mr_reply: pod_codec MRReply_pod
  unfolding MRReply_pod_def by (intro pod_codec_pair u8.pod_codec_axioms reg_attr.pod_codec_axioms)

interpretation rc_reply: pod_codec RCReply_pod
  unfolding RCReply_pod_def
  by (intro pod_codec_pair u8.pod_codec_axioms qp_attr.pod_codec_axioms u64.pod_codec_axioms)

lemma wire_sizes [simp]:
  "size_of MRReq_pod = 8" "size_of MRReply_pod = 25" "size_of RCReply_pod = 69" "size_of QPReq_pod = 72"
  "size_of DelRCReq_pod = 72" "size_of RCReq_pod = 242"
  by (simp_all add: MRReq_pod_def MRReply_pod_def RegAttr_pod_def RCReply_pod_def QPAttr_pod_def QPReq_pod_def
      DelRCReq_pod_def RCReq_pod_def chars_pod_def QPConfig_pod_def kMaxQPNameLen_def)

end
