(* ===== verification/Rctrl_Correct.thy ===== *)
theory Rctrl_Correct
  imports Connect_Manager Rlib_QP_Correct
begin

text \<open>
  Properties of the control path: the client reads the attributes the server registered, no request
  of a client takes a registered queue pair away from another one, and the query of an existing queue
  pair through the creation request is refused.
\<close>

section \<open>Requests on the wire\<close>

definition encodes :: "'a pod \<Rightarrow> 'a \<Rightarrow> bool" where
  "encodes p x \<longleftrightarrow> length (to_bytes p x) = size_of p \<and> of_bytes p (to_bytes p x) = x"

lemma encodes_codec: "pod_codec p \<Longrightarrow> encodes p x"
  by (simp add: encodes_def pod_codec_def)

lemma encodes_pair: "encodes p x \<Longrightarrow> encodes q y \<Longrightarrow> encodes (pair_pod p q) (x, y)"
  by (simp add: encodes_def pair_pod_def)

lemma encodes_iso: "encodes p (f x) \<Longrightarrow> g (f x) = x \<Longrightarrow> encodes (iso_pod f g p) x"
  by (simp add: encodes_def iso_pod_def)

lemma encodes_chars: "length b = n \<Longrightarrow> encodes (chars_pod n) b"
  by (simp add: encodes_def chars_pod_def)

lemma encodes_dedump: "encodes p x \<Longrightarrow> rlib_dedump p (to_bytes p x) = Some x"
  by (simp add: encodes_def rlib_dedump_def)

lemma encodes_rc_req:
  "length (rq_name r) = 64 \<Longrightarrow> length (rq_name_recv r) = 64 \<Longrightarrow> encodes RCReq_pod r"
  unfolding RCReq_pod_def
  by (intro encodes_iso encodes_pair encodes_chars encodes_codec [OF u8.pod_codec_axioms]
      encodes_codec [OF u64.pod_codec_axioms] encodes_codec [OF qp_config.pod_codec_axioms]
      encodes_codec [OF qp_attr.pod_codec_axioms]) (simp_all add: kMaxQPNameLen_def)

section \<open>Fetching registered memory\<close>

lemma fetch_mr_reply:
  assumes "fac_query (registered_mrs st) i = Some h" "get_reg_attr h = Some attr"
  shows "fetch_mr_handler (to_bytes MRReq_pod i) st = (Inr (to_bytes MRReply_pod (st_Ok, attr)), st)"
  using assms u64.rlib_dedump_ok [of i "[]"]
  by (simp add: fetch_mr_handler_def MRReq_pod_def mr_reply.rlib_dump_ok)

text \<open>C34: a client that fetches the memory registered under a number gets the attribute of that
  memory: the request it sends is answered, and when the answer arrives in its receive buffer, it
  returns the address, size and keys of the registration.\<close>

theorem fetch_remote_mr_correct:
  fixes K :: "'s sockets"
  assumes "fs FetchMr = Some fetch_mr_handler" "fac_query (registered_mrs st) i = Some h" "get_reg_attr h = Some attr"
  shows "\<exists>req rep. (\<forall>old. length old = kMaxMsgSz \<longrightarrow> serve_msg fs (over req old) st = Inr (rep, st))
    \<and> (\<forall>raw t p s s' s'' old. sp_checksum p = ck \<longrightarrow> length old = kMaxMsgSz
        \<longrightarrow> sc_send K (sp_channel p) req s = Inr (io_ok [], s')
        \<longrightarrow> sc_recv K raw (sp_channel p) t s' = Inr (io_ok (over rep old), s'')
        \<longrightarrow> fetch_remote_mr K raw i t p s = Inr (io_ok ([], attr), p\<lparr>sp_checksum := ck + 1\<rparr>, s''))"
proof -
  have l: "length (to_bytes MRReq_pod i) \<le> 4054" "length (to_bytes MRReply_pod (st_Ok, attr)) \<le> 4053"
    by (simp_all add: MRReq_pod_def mr_reply.len)
  have dump: "rlib_dump MRReq_pod i = Inr (to_bytes MRReq_pod i)"
    unfolding MRReq_pod_def by (rule u64.rlib_dump_ok) simp
  have dedump: "rlib_dedump MRReply_pod (to_bytes MRReply_pod (st_Ok, attr)) = Some (st_Ok, attr)"
    using mr_reply.rlib_dedump_ok [of "(st_Ok, attr)" "[]"] by simp
  have "FetchMr \<noteq> HeartBeat" by (simp add: FetchMr_def HeartBeat_def)
  from srpc_exchange [where K = K and ck = ck, of "to_bytes MRReq_pod i" fs FetchMr fetch_mr_handler st
      "to_bytes MRReply_pod (st_Ok, attr)" st, OF l(1) assms(1) fetch_mr_reply [OF assms(2,3)] l(2) this]
  obtain req rep where
    send: "\<forall>p s. sp_checksum p = ck \<longrightarrow> srpc_call K FetchMr (to_bytes MRReq_pod i) p s = sc_send K (sp_channel p) req s" and
    serve: "\<forall>old. length old = kMaxMsgSz \<longrightarrow> serve_msg fs (over req old) st = Inr (rep, st)" and
    recv: "\<forall>raw t hb p s s' old. length old = kMaxMsgSz \<longrightarrow> sc_recv K raw (sp_channel p) t s = Inr (io_ok (over rep old), s')
        \<longrightarrow> receive_reply K raw t hb p s = Some (Inr
              (if sp_checksum p = ck then (io_ok (to_bytes MRReply_pod (st_Ok, attr)), p\<lparr>sp_checksum := ck + 1\<rparr>, s')
               else (io_err (bb ''Fatal checksum error''), p, s')))"
    by blast
  have "fetch_remote_mr K raw i t p s = Inr (io_ok ([], attr), p\<lparr>sp_checksum := ck + 1\<rparr>, s'')"
    if "sp_checksum p = ck" "length old = kMaxMsgSz" "sc_send K (sp_channel p) req s = Inr (io_ok [], s')"
      "sc_recv K raw (sp_channel p) t s' = Inr (io_ok (over rep old), s'')" for raw t p s s' s'' old
  proof -
    have "recv_reply K raw t False p s' = Inr (io_ok (to_bytes MRReply_pod (st_Ok, attr)), p\<lparr>sp_checksum := ck + 1\<rparr>, s'')"
      using recv that unfolding recv_reply_def by fastforce
    moreover have "srpc_call K FetchMr (to_bytes MRReq_pod i) p s = Inr (io_ok [], s')" using send that(1,3) by simp
    ultimately show ?thesis using dedump by (simp add: fetch_remote_mr_def dump io_ok_def)
  qed
  then show ?thesis using serve by blast
qed

text \<open>A network that acknowledges every send and delivers the bytes of its state.\<close>

definition ex_sockets :: "bytes sockets" where
  "ex_sockets = \<lparr>so_sendto = (\<lambda>_ b _ s. (int (length b) + 1, s)), so_select = (\<lambda>_ _ s. ((1, True), s)),
     so_recvfrom = (\<lambda>_ _ s. (Some (s, 0), s)), so_socket = (\<lambda>_ s. (3, s)), so_socket_inet = (\<lambda>s. (3, s)),
     so_bind = (\<lambda>_ _ s. (0, s)), so_set_nonblock = (\<lambda>_ s. s), so_close = (\<lambda>_ s. s), so_strerror = (\<lambda>_. []),
     so_getaddrinfo = (\<lambda>_ _ s. (Some [0], s)), so_getnameinfo = (\<lambda>_ _. []), so_inet_addr = (\<lambda>_ _. 0),
     so_any_addr = (\<lambda>_. 0), so_to_string = (\<lambda>_. []), so_clock = (\<lambda>s. (0, s))\<rparr>"

definition ex_srpc :: srpc where
  "ex_srpc = \<lparr>sp_channel = \<lparr>sock_fd = 3, end_addr = 0\<rparr>, sp_checksum = 1\<rparr>"

definition ex_attr :: reg_attr where
  "ex_attr = \<lparr>attr_buf = 4096, attr_sz = 64, attr_key = 8, attr_lkey = 7\<rparr>"

definition ex_handler :: reg_handler where
  "ex_handler = \<lparr>h_mr = Some (0, 7, 8), h_nic = ex_nic, h_rmem = \<lparr>raw_ptr = 4096, rmem_sz = 64\<rparr>\<rparr>"

definition ex_rctrl :: "(wc list, nat) rctrl" where
  "ex_rctrl = \<lparr>rt_net = [], rt_rnd = 1, registered_mrs = [(5, ex_handler, 9)], registered_qps = [], opened_nics = [(1, ex_nic, 2)],
     rt_objs = []\<rparr>"

lemma ex_send: "sc_send ex_sockets (sp_channel ex_srpc) b s = Inr (io_ok [], s)"
  by (simp add: sc_send_def raw_send_def ex_sockets_def ex_srpc_def ch_valid_def)

lemma ex_recv: "sc_recv ex_sockets raw (sp_channel ex_srpc) t s = Inr (io_ok (over s (replicate kMaxMsgSz 0)), s)"
  by (simp add: sc_recv_def try_recv_def ex_sockets_def ex_srpc_def over_def io_ok_def)

theorem fetch_remote_mr_correct_witness:
  "\<exists>req rep. serve_msg (Map.empty(FetchMr \<mapsto> fetch_mr_handler)) (over req (replicate kMaxMsgSz 0)) ex_rctrl = Inr (rep, ex_rctrl)
    \<and> fetch_remote_mr ex_sockets 0 5 1000 ex_srpc rep = Inr (io_ok ([], ex_attr), ex_srpc\<lparr>sp_checksum := 1 + 1\<rparr>, rep)"
proof -
  have h: "(Map.empty(FetchMr \<mapsto> fetch_mr_handler)) FetchMr = Some (fetch_mr_handler :: (wc list, nat) rctrl handler)"
    "fac_query (registered_mrs ex_rctrl) 5 = Some ex_handler" "get_reg_attr ex_handler = Some ex_attr"
    by (simp_all add: ex_rctrl_def fac_query_def get_reg_attr_def ex_handler_def ex_attr_def)
  have ck: "sp_checksum ex_srpc = 1" "length (replicate kMaxMsgSz (0 :: u8)) = kMaxMsgSz" by (simp_all add: ex_srpc_def)
  from fetch_remote_mr_correct [of "Map.empty(FetchMr \<mapsto> fetch_mr_handler)" ex_rctrl 5 ex_handler ex_attr 1 ex_sockets, OF h] obtain req rep where
    "\<forall>old. length old = kMaxMsgSz \<longrightarrow> serve_msg (Map.empty(FetchMr \<mapsto> fetch_mr_handler)) (over req old) ex_rctrl = Inr (rep, ex_rctrl)"
    "\<forall>raw t p s s' s'' old. sp_checksum p = 1 \<longrightarrow> length old = kMaxMsgSz
        \<longrightarrow> sc_send ex_sockets (sp_channel p) req s = Inr (io_ok [], s')
        \<longrightarrow> sc_recv ex_sockets raw (sp_channel p) t s' = Inr (io_ok (over rep old), s'')
        \<longrightarrow> fetch_remote_mr ex_sockets raw 5 t p s = Inr (io_ok ([], ex_attr), p\<lparr>sp_checksum := 1 + 1\<rparr>, s'')" by blast
  then show ?thesis using ck ex_send ex_recv by blast
qed

section \<open>Registered queue pairs\<close>

text \<open>Every registered queue pair is an object.\<close>

definition qps_ok :: "('n, 'r, 'z) rctrl_scheme \<Rightarrow> bool" where
  "qps_ok st \<longleftrightarrow> (\<forall>name i k. map_of (registered_qps st) name = Some (i, k) \<longrightarrow> i < length (rt_objs st))"

text \<open>\<open>st'\<close> has all queue pairs of \<open>st\<close>, under the same name and key, but perhaps those \<open>gone\<close> allows
  to be gone.\<close>

definition keeps :: "('n, 'r, 'z) rctrl_scheme \<Rightarrow> (bytes \<Rightarrow> u64 \<Rightarrow> bool) \<Rightarrow> ('n, 'r, 'z) rctrl_scheme \<Rightarrow> bool" where
  "keeps st gone st' \<longleftrightarrow> qps_ok st' \<and>
     (\<forall>name i k. map_of (registered_qps st) name = Some (i, k) \<longrightarrow> gone name k \<or>
        (map_of (registered_qps st') name = Some (i, k) \<and> rt_objs st' ! i = rt_objs st ! i))"

lemma keeps_refl: "qps_ok st \<Longrightarrow> keeps st gone st"
  by (simp add: keeps_def)

lemma keeps_same: "qps_ok st \<Longrightarrow> registered_qps st' = registered_qps st \<Longrightarrow> rt_objs st' = rt_objs st \<Longrightarrow> keeps st gone st'"
  by (auto simp: keeps_def qps_ok_def)

lemma keeps_extend:
  assumes ok: "qps_ok st" and objs: "rt_objs st' = rt_objs st @ [q]"
    and old: "\<And>name i k. map_of (registered_qps st) name = Some (i, k) \<Longrightarrow> map_of (registered_qps st') name = Some (i, k)"
    and new: "\<And>name i k. map_of (registered_qps st') name = Some (i, k) \<Longrightarrow>
        map_of (registered_qps st) name = Some (i, k) \<or> i = length (rt_objs st)"
  shows "keeps st gone st'"
proof -
  have b: "i < length (rt_objs st)" if "map_of (registered_qps st) name = Some (i, k)" for name i k
    using ok that unfolding qps_ok_def by blast
  have "qps_ok st'" unfolding qps_ok_def objs using new b by fastforce
  then show ?thesis unfolding keeps_def objs using old b by (simp add: nth_append)
qed

lemma fac_reg_new: "fac_reg rand rnd store k v = Inr (rnd', store', Some key) \<Longrightarrow> map_of store k = None \<and> store' = (k, v, key) # store"
  by (cases "map_of store k") (auto simp: fac_reg_def res_iff split: if_splits option.splits)

lemma create_keeps:
  assumes ok: "qps_ok st" and c: "create_and_connect V rand r nic cq st = (res, st')"
  shows "keeps st gone st'"
proof (cases "RC_create V nic (rq_config r) cq (rt_net st)")
  case (Inl e)
  then show ?thesis using c ok by (auto simp: create_and_connect_def intro: keeps_refl)
next
  case (Inr x)
  obtain qo n where x: "x = (qo, n)" by fastforce
  show ?thesis
  proof (cases qo)
    case None
    then show ?thesis using c ok Inr x by (auto simp: create_and_connect_def intro!: keeps_same)
  next
    case (Some q)
    let ?reg = "rbind (cstr (rq_name r)) (\<lambda>name.
        rbind (fac_reg rand (rt_rnd st) (registered_qps st) name (length (rt_objs st))) (\<lambda>reg. Inr (name, reg)))"
    show ?thesis
    proof (cases ?reg)
      case (Inl e)
      then show ?thesis using c ok Inr x Some by (auto simp: create_and_connect_def intro!: keeps_same)
    next
      case reg: (Inr y)
      obtain name rnd qps ko where y: "y = (name, rnd, qps, ko)" by (cases y) auto
      show ?thesis
      proof (cases ko)
        case None
        then show ?thesis using c ok Inr x Some reg y by (auto simp: create_and_connect_def intro!: keeps_same)
      next
        case key: (Some key)
        then have new: "map_of (registered_qps st) name = None" "qps = (name, length (rt_objs st), key) # registered_qps st"
          using reg y by (auto simp: res_iff dest: fac_reg_new)
        have del: "fst (fac_dereg qps name key) = registered_qps st"
          using new by (simp add: fac_dereg_def delete_idem map_of_eq_None_iff)
        have "keeps st gone st1" if "registered_qps st1 = qps" "rt_objs st1 = rt_objs st @ [q']" for st1 q'
          by (rule keeps_extend [OF ok that(2)]) (use that(1) new in \<open>auto split: if_splits\<close>)
        moreover have "keeps st gone st1" if "registered_qps st1 = registered_qps st" "rt_objs st1 = rt_objs st @ [q']" for st1 q'
          by (rule keeps_extend [OF ok that(2)]) (simp_all add: that(1))
        ultimately show ?thesis using c Inr x Some reg y key del
          by (auto simp: create_and_connect_def Let_def split: sum.splits prod.splits if_splits)
      qed
    qed
  qed
qed


lemma rc_handler_keeps:
  assumes "qps_ok st" "rc_handler V rand b st = (res, st')"
  shows "keeps st gone st'"
  using assms by (auto simp: rc_handler_def keeps_refl create_keeps split: option.splits if_splits sum.splits prod.splits)

lemma delete_rc_keeps:
  assumes ok: "qps_ok st" and d: "delete_rc V b st = (res, st')"
  shows "keeps st (\<lambda>name k. \<exists>f. rlib_dedump DelRCReq_pod b = Some (f, k) \<and> cstr f = Inr name) st'"
proof (cases "rlib_dedump DelRCReq_pod b")
  case None
  then show ?thesis using ok d by (auto simp: delete_rc_def keeps_refl)
next
  case (Some y)
  obtain f key where y: "y = (f, key)" by fastforce
  show ?thesis
  proof (cases "cstr f")
    case (Inl e)
    then show ?thesis using ok d Some y by (auto simp: delete_rc_def keeps_refl)
  next
    case (Inr name)
    obtain qps w where dr: "fac_dereg (registered_qps st) name key = (qps, w)" by fastforce
    then have st': "registered_qps st' = qps" "rt_objs st' = rt_objs st"
      using d Some y Inr by (auto simp: delete_rc_def split: option.splits)
    have "map_of qps n = (if n = name \<and> qps \<noteq> registered_qps st then None else map_of (registered_qps st) n)" for n
      using dr by (auto simp: fac_dereg_def delete_conv split: option.splits if_splits)
    moreover have "qps \<noteq> registered_qps st \<Longrightarrow> \<exists>i. map_of (registered_qps st) name = Some (i, key)"
      using dr by (auto simp: fac_dereg_def split: option.splits if_splits)
    ultimately show ?thesis using ok Some y Inr unfolding keeps_def qps_ok_def st' by (auto split: if_splits)
  qed
qed

definition rctrl_factory :: "'n verbs \<Rightarrow> ('r \<Rightarrow> u64 \<times> 'r) \<Rightarrow> ('n, 'r, 'z) rctrl_scheme rpc_factory" where
  "rctrl_factory V rand = [HeartBeat \<mapsto> heartbeat_handler, FetchMr \<mapsto> fetch_mr_handler, CreateRC \<mapsto> rc_handler V rand,
     DeleteRC \<mapsto> delete_rc V, FetchQPAttr \<mapsto> fetch_qp_attr_wrapper V]"

lemma register_fresh:
  "sh_factory h i = None \<Longrightarrow> sh_register_handler i f h = (True, h\<lparr>sh_factory := (sh_factory h)(i \<mapsto> f)\<rparr>)"
  by (simp add: sh_register_handler_def register_handler_def)

lemma RCtrl_factory:
  fixes K :: "'s sockets" and rpc :: "('n, 'r, 'z) rctrl_scheme srpc_handler"
  assumes "RCtrl V rand K port h s = Inr (rpc, s')"
  shows "sh_factory rpc = rctrl_factory V rand"
proof -
  obtain rpc0 :: "('n, 'r, 'z) rctrl_scheme srpc_handler" and s0 where r0: "SRpcHandler K port h s = Inr (rpc0, s0)"
    using assms by (cases "SRpcHandler K port h s :: (('n, 'r, 'z) rctrl_scheme srpc_handler \<times> 's) res") (auto simp: RCtrl_def)
  then have f0: "sh_factory rpc0 = [HeartBeat \<mapsto> heartbeat_handler]"
    by (auto simp: SRpcHandler_def RPCFactory_def register_handler_def res_iff)
  show ?thesis using assms
    by (simp add: RCtrl_def r0 f0 register_fresh HeartBeat_def FetchMr_def CreateRC_def DeleteRC_def FetchQPAttr_def
        rctrl_factory_def) auto
qed

text \<open>The message is a request to delete the queue pair \<open>name\<close> with the key \<open>k\<close>.\<close>

definition asks_delete :: "bytes \<Rightarrow> bytes \<Rightarrow> u64 \<Rightarrow> bool" where
  "asks_delete msg name k \<longleftrightarrow> (\<exists>m ck p f. decode_request msg = Inr (m, DeleteRC, ck) \<and> query_one m 1 = Inr (Some p)
     \<and> rlib_dedump DelRCReq_pod p = Some (f, k) \<and> cstr f = Inr name)"

lemma serve_keeps:
  assumes ok: "qps_ok st" and s: "serve_msg (rctrl_factory V rand) msg st = Inr (reply, st')"
  shows "keeps st (asks_delete msg) st'"
proof (cases "decode_request msg")
  case (Inl e)
  then have "st' = st" using s by (auto simp: serve_msg_def rcatch_def res_iff split: fault.splits)
  then show ?thesis using ok by (simp add: keeps_refl)
next
  case (Inr x)
  obtain m rid ck where x: "x = (m, rid, ck)" by (cases x) auto
  show ?thesis
  proof (cases "rbind (query_one m 1) opt_value")
    case (Inl e)
    then have "st' = st" using s Inr x by (auto simp: serve_msg_def rcatch_def res_iff split: fault.splits)
    then show ?thesis using ok by (simp add: keeps_refl)
  next
    case p: (Inr p)
    obtain r where call: "call_one (rctrl_factory V rand) rid p st = (r, st')"
      using s Inr x p by (auto simp: serve_msg_def rcatch_def res_iff split: prod.splits sum.splits fault.splits)
    have q: "query_one m 1 = Inr (Some p)" using p by (auto simp: res_iff)
    consider "rid = DeleteRC" | "rid = CreateRC" | "rid \<noteq> DeleteRC" "rid \<noteq> CreateRC" by blast
    then show ?thesis
    proof cases
      case 1
      then have "delete_rc V p st = (r, st')"
        using call by (simp add: call_one_def rctrl_factory_def DeleteRC_def FetchQPAttr_def)
      from delete_rc_keeps [OF ok this] show ?thesis
        using Inr x q 1 unfolding keeps_def asks_delete_def by blast
    next
      case 2
      then have "rc_handler V rand p st = (r, st')"
        using call by (simp add: call_one_def rctrl_factory_def DeleteRC_def FetchQPAttr_def CreateRC_def)
      then show ?thesis by (rule rc_handler_keeps [OF ok])
    next
      case 3
      then have "st' = st" using call
        by (auto simp: call_one_def rctrl_factory_def fetch_mr_handler_def heartbeat_handler_def fetch_qp_attr_wrapper_def
            split: option.splits if_splits)
      then show ?thesis using ok by (simp add: keeps_refl)
    qed
  qed
qed


text \<open>C35: whenever the daemon survives the service of a message, well-formed or not, it has lost and
  replaced no registered queue pair, also when the handler ended with an exception; only a
  request to delete with the name and the key of the queue pair removes it. (A message can end
  the daemon: one with an id that has no handler is undefined behaviour.)\<close>

theorem rctrl_keeps_queue_pairs:
  assumes "RCtrl V rand K port h s = Inr (rpc, s')" "qps_ok st" "serve_msg (sh_factory rpc) msg st = Inr (reply, st')"
  shows "qps_ok st' \<and> (\<forall>name i k. map_of (registered_qps st) name = Some (i, k) \<longrightarrow>
    (map_of (registered_qps st') name = Some (i, k) \<and> rt_objs st' ! i = rt_objs st ! i) \<or> asks_delete msg name k)"
  using serve_keeps [OF assms(2), of V rand msg reply st'] assms(3) unfolding RCtrl_factory [OF assms(1)] keeps_def by blast

definition ex_rpc :: "(wc list, nat) rctrl srpc_handler" where
  "ex_rpc = \<lparr>sh_channel = \<lparr>sock_fd = 3, cur_msg_client = None, cur_msg = replicate kMaxMsgSz 0\<rparr>,
     sh_factory = rctrl_factory ex_verbs (\<lambda>n. (of_nat n, Suc n))\<rparr>"

theorem rctrl_keeps_queue_pairs_witness:
  "\<exists>reply st'. serve_msg (rctrl_factory ex_verbs (\<lambda>n. (of_nat n, Suc n))) [] (ex_rctrl\<lparr>registered_qps := [([65], 0, 9)], rt_objs := [QP_RC ex_rc]\<rparr>)
      = Inr (reply, st') \<and> map_of (registered_qps st') [65] = Some (0, 9)"
proof -
  let ?rand = "\<lambda>n. (of_nat n, Suc n)"
  let ?st = "ex_rctrl\<lparr>registered_qps := [([65], 0, 9)], rt_objs := [QP_RC ex_rc]\<rparr>"
  have r: "RCtrl ex_verbs ?rand ex_sockets 0 [] [] = Inr (ex_rpc, [])"
    by (simp add: RCtrl_def SRpcHandler_def RecvChannel_create_def RecvChannel_def ex_sockets_def ch_valid_def register_fresh
        RPCFactory_def register_handler_def HeartBeat_def FetchMr_def CreateRC_def DeleteRC_def FetchQPAttr_def ex_rpc_def
        rctrl_factory_def)
  have ok: "qps_ok ?st" by (simp add: qps_ok_def)
  have d: "decode_request [] = Inl Thrown"
    by (simp add: decode_request_def create_from_def mh_sanity_check_def mh_num_def str_byte_def kMaxMsgSz_def MsgsHeader_size_def)
  obtain reply where "encode_reply call_FatalErr invalid_checksum 0 None = Inr reply" using encode_reply_None by blast
  with d have s: "serve_msg (sh_factory ex_rpc) [] ?st = Inr (reply, ?st)"
    by (simp add: serve_msg_def rcatch_def)
  have nd: "\<not> asks_delete [] [65] 9" using d by (simp add: asks_delete_def)
  have "map_of (registered_qps ?st) [65] = Some (0, 9)" by simp
  then have "map_of (registered_qps ?st) [65] = Some (0, 9)"
    using rctrl_keeps_queue_pairs [OF r ok s] nd by blast
  then show ?thesis using s by (auto simp: ex_rpc_def)
qed

text \<open>A request that is not to create a queue pair but to query one, with \<open>whether_create\<close> 0, is
  always refused as a wrong argument, whether or not the queue pair exists.\<close>

lemma rc_handler_query_refused:
  "rlib_dedump RCReq_pod b = Some r \<Longrightarrow> whether_create r = 0 \<Longrightarrow> rc_handler V rand b st = (rc_reply st_WrongArg, st)"
  by (simp add: rc_handler_def)

end
