(* ===== verification/Xcomm_Rpc.thy ===== *)
theory Xcomm_Rpc
  imports Rlib_Core Byte_Memory
begin

text \<open>
  The RPC layer (\<^verbatim>\<open>xcomm/src/rpc\<close>) over any transport (\<^verbatim>\<open>xcomm/src/transport/trait.hh\<close>): the header
  of a message, building a message (\<^verbatim>\<open>op.hh\<close>), the replies the coroutines wait for
  (\<^verbatim>\<open>reply_station.hh\<close>) and the dispatch of received messages (\<^verbatim>\<open>mod.hh\<close>).

  The templates are parametric in the transport, and so are the definitions: a sending transport is
  a record of functions on a session \<open>'s\<close> and the network \<open>'n\<close>, a receiving one a record of functions
  on its state \<open>'r\<close> and the world \<open>'g\<close>. Objects the code leaves uninitialised are arguments. The buffers the coroutines
  register for replies are a store from the number of the buffer to its bytes.
\<close>

section \<open>Memory blocks\<close>

text \<open>\<open>mb_mem\<close> is the memory that is really there behind the pointer.\<close>

record mem_block =
  mb_ptr :: u64
  mb_sz :: u32
  mb_mem :: bytes

definition MemBlock :: "u64 \<Rightarrow> bytes \<Rightarrow> mem_block" where
  "MemBlock p m = \<lparr>mb_ptr = p, mb_sz = of_nat (length m), mb_mem = m\<rparr>"

definition block_bytes :: "mem_block \<Rightarrow> bytes" where "block_bytes b = take (unat (mb_sz b)) (mb_mem b)"

text \<open>\<open>*interpret_as<T>(offset)\<close>: the subtraction wraps around, a null pointer is not checked by the
  callers.\<close>

definition interpret_as :: "'a pod \<Rightarrow> u32 \<Rightarrow> mem_block \<Rightarrow> 'a option res" where
  "interpret_as p off b =
     (if unat (mb_sz b - off) < size_of p then Inr None
      else rbind (obj_get p (mb_mem b) (unat off)) (\<lambda>x. Inr (Some x)))"

definition deref :: "'a option res \<Rightarrow> 'a res" where
  "deref r = rbind r (\<lambda>x. case x of None \<Rightarrow> Inl UB | Some v \<Rightarrow> Inr v)"

section \<open>The header\<close>

definition Req :: "2 word" where "Req = 1"
definition Reply :: "2 word" where "Reply = 2"
definition Connect :: "2 word" where "Connect = 3"

text \<open>Four bit fields of one \<open>u32\<close>, the first in the lowest bits; the struct is aligned to eight bytes.\<close>

record rpc_header =
  h_type :: "2 word"
  h_rpc_id :: "5 word"
  h_payload :: "18 word"
  h_cor_id :: "7 word"
  h_pad :: u32

definition header_word :: "rpc_header \<Rightarrow> u32" where
  "header_word h = or (ucast (h_type h)) (or (push_bit 2 (ucast (h_rpc_id h)))
     (or (push_bit 7 (ucast (h_payload h))) (push_bit 25 (ucast (h_cor_id h)))))"

definition word_header :: "u32 \<Rightarrow> u32 \<Rightarrow> rpc_header" where
  "word_header w pad = \<lparr>h_type = ucast w, h_rpc_id = ucast (drop_bit 2 w), h_payload = ucast (drop_bit 7 w),
     h_cor_id = ucast (drop_bit 25 w), h_pad = pad\<rparr>"

definition header_pod :: "rpc_header pod" where
  "header_pod = iso_pod (\<lambda>h. (header_word h, h_pad h)) (\<lambda>(w, p). word_header w p) (pair_pod u32_pod u32_pod)"

section \<open>Transports\<close>

record ('s, 'n) send_trait =
  st_send :: "mem_block \<Rightarrow> 's \<Rightarrow> 'n \<Rightarrow> (string io_result \<times> 's \<times> 'n) res"
  st_send_w_key :: "mem_block \<Rightarrow> u32 \<Rightarrow> 's \<Rightarrow> 'n \<Rightarrow> (string io_result \<times> 's \<times> 'n) res"
  st_get_connect_data :: "'s \<Rightarrow> 'n \<Rightarrow> bytes option res"

record ('r, 'g) recv_trait =
  rt_begin :: "'r \<Rightarrow> 'g \<Rightarrow> ('r \<times> 'g) res"
  rt_has_msgs :: "'r \<Rightarrow> bool"
  rt_cur_msg :: "'r \<Rightarrow> 'g \<Rightarrow> mem_block res"
  rt_cur_session_id :: "'r \<Rightarrow> u32 res"
  rt_next :: "'r \<Rightarrow> 'r"
  rt_end :: "'r \<Rightarrow> 'g \<Rightarrow> ('r \<times> 'g) res"

section \<open>Replies\<close>

text \<open>\<open>rp_pos\<close> is \<open>cur_ptr\<close> as an offset into the buffer.\<close>

record reply_entry =
  rp_pending :: usize
  rp_buf :: nat
  rp_sz :: u32
  rp_pos :: nat

definition ReplyEntry :: "nat \<Rightarrow> u32 \<Rightarrow> reply_entry" where
  "ReplyEntry b sz = \<lparr>rp_pending = 1, rp_buf = b, rp_sz = sz, rp_pos = 0\<rparr>"

definition no_reply_entry :: reply_entry where
  "no_reply_entry = \<lparr>rp_pending = 0, rp_buf = 0, rp_sz = 0, rp_pos = 0\<rparr>"

definition ReplyStation :: "i32 \<Rightarrow> reply_entry list res" where
  "ReplyStation num_cors = (if sint num_cors < 0 then Inl Thrown else Inr (replicate (nat (sint num_cors)) no_reply_entry))"

text \<open>The comparison of an \<open>int\<close> with a \<open>size_t\<close> converts the \<open>int\<close>.\<close>

definition add_pending_reply :: "i32 \<Rightarrow> reply_entry \<Rightarrow> reply_entry list \<Rightarrow> (bool \<times> reply_entry list) res" where
  "add_pending_reply cor reply st =
     rassert (unat (scast cor :: u64) < length st)
       (if 0 < rp_pending (st ! nat (sint cor)) then Inr (False, st)
        else Inr (True, st[nat (sint cor) := reply]))"

definition rp_at :: "reply_entry list \<Rightarrow> i32 \<Rightarrow> reply_entry res" where
  "rp_at st cor = (if sint cor < 0 then Inl UB else vec_at st (nat (sint cor)))"

definition cor_ready :: "i32 \<Rightarrow> reply_entry list \<Rightarrow> bool res" where
  "cor_ready cor st = rbind (rp_at st cor) (\<lambda>r. Inr (rp_pending r = 0))"

definition append_reply ::
    "i32 \<Rightarrow> bytes \<Rightarrow> reply_entry list \<Rightarrow> (nat \<Rightarrow> bytes) \<Rightarrow> (bool \<times> reply_entry list \<times> (nat \<Rightarrow> bytes)) res" where
  "append_reply cor payload st bufs =
     rbind (cor_ready cor st) (\<lambda>ready. if ready then Inr (False, st, bufs)
     else rbind (rp_at st cor) (\<lambda>r.
       rassert (rp_pos r + length payload \<le> unat (rp_sz r))
         (rbind (mem_put (bufs (rp_buf r)) (rp_pos r) payload) (\<lambda>b.
            Inr (True, st[nat (sint cor) := r\<lparr>rp_pos := rp_pos r + length payload, rp_pending := rp_pending r - 1\<rparr>],
                 bufs(rp_buf r := b))))))"

section \<open>Building a message\<close>

text \<open>\<open>op_cur\<close> is \<open>cur_ptr\<close> as an offset into the block.\<close>

record rpc_op =
  op_header :: rpc_header
  op_msg :: mem_block
  op_cur :: nat

definition RPCOp :: "rpc_header \<Rightarrow> rpc_op" where
  "RPCOp raw = \<lparr>op_header = raw, op_msg = \<lparr>mb_ptr = 0, mb_sz = 0, mb_mem = []\<rparr>, op_cur = 0\<rparr>"

definition set_msg :: "mem_block \<Rightarrow> rpc_op \<Rightarrow> rpc_op res" where
  "set_msg b opn = rassert (8 \<le> unat (mb_sz b)) (Inr (opn\<lparr>op_msg := b, op_cur := 8\<rparr>))"

definition set_rpc_id :: "u32 \<Rightarrow> rpc_op \<Rightarrow> rpc_op" where
  "set_rpc_id i opn = opn\<lparr>op_header := (op_header opn)\<lparr>h_rpc_id := ucast i\<rparr>\<rparr>"

definition set_type :: "2 word \<Rightarrow> rpc_op \<Rightarrow> rpc_op" where
  "set_type t opn = opn\<lparr>op_header := (op_header opn)\<lparr>h_type := t\<rparr>\<rparr>"

definition set_req :: "rpc_op \<Rightarrow> rpc_op" where "set_req = set_type Req"
definition set_connect :: "rpc_op \<Rightarrow> rpc_op" where "set_connect = set_type Connect"
definition set_reply :: "rpc_op \<Rightarrow> rpc_op" where "set_reply = set_type Reply"

definition set_corid :: "u32 \<Rightarrow> rpc_op \<Rightarrow> rpc_op" where
  "set_corid i opn = opn\<lparr>op_header := (op_header opn)\<lparr>h_cor_id := ucast i\<rparr>\<rparr>"

text \<open>The answer of \<open>add_pending_reply\<close> is dropped.\<close>

definition add_reply_entry :: "reply_entry \<Rightarrow> rpc_op \<Rightarrow> reply_entry list \<Rightarrow> reply_entry list res" where
  "add_reply_entry reply opn st =
     rbind (add_pending_reply (ucast (h_cor_id (op_header opn))) reply st) (\<lambda>(_, st). Inr st)"

definition add_one_reply :: "nat \<Rightarrow> u32 \<Rightarrow> rpc_op \<Rightarrow> reply_entry list \<Rightarrow> reply_entry list res" where
  "add_one_reply b sz opn st = add_reply_entry (ReplyEntry b sz) opn st"

definition cur_sz :: "rpc_op \<Rightarrow> usize" where "cur_sz opn = of_nat (op_cur opn)"

definition add_opaque :: "bytes \<Rightarrow> rpc_op \<Rightarrow> (bool \<times> rpc_op) res" where
  "add_opaque data opn =
     (if unat (mb_sz (op_msg opn)) < length data + unat (cur_sz opn) then Inr (False, opn)
      else rbind (mem_put (mb_mem (op_msg opn)) (op_cur opn) data) (\<lambda>m.
        Inr (True, opn\<lparr>op_msg := (op_msg opn)\<lparr>mb_mem := m\<rparr>, op_cur := op_cur opn + length data\<rparr>)))"

definition add_arg :: "'a pod \<Rightarrow> 'a \<Rightarrow> rpc_op \<Rightarrow> (bool \<times> rpc_op) res" where
  "add_arg p x opn =
     (if unat (mb_sz (op_msg opn)) < size_of p + unat (cur_sz opn) then Inr (False, opn)
      else rbind (obj_put p (mb_mem (op_msg opn)) (op_cur opn) x) (\<lambda>m.
        Inr (True, opn\<lparr>op_msg := (op_msg opn)\<lparr>mb_mem := m\<rparr>, op_cur := op_cur opn + size_of p\<rparr>)))"

text \<open>The payload length is cut to the 18 bits of the field, also for the size of the block.\<close>

definition finalize :: "rpc_op \<Rightarrow> rpc_op res" where
  "finalize opn =
     (let h = (op_header opn)\<lparr>h_payload := ucast (ucast (cur_sz opn) - 8 :: u64)\<rparr> in
      rbind (obj_put header_pod (mb_mem (op_msg opn)) 0 h) (\<lambda>m.
        Inr (opn\<lparr>op_header := h, op_msg := (op_msg opn)\<lparr>mb_mem := m, mb_sz := ucast (h_payload h) + 8\<rparr>\<rparr>)))"

definition rpc_execute :: "('s, 'n) send_trait \<Rightarrow> rpc_op \<Rightarrow> 's \<Rightarrow> 'n \<Rightarrow> (string io_result \<times> 's \<times> 'n) res" where
  "rpc_execute T opn s n = rbind (finalize opn) (\<lambda>opn. st_send T (op_msg opn) s n)"

definition rpc_execute_w_key ::
    "('s, 'n) send_trait \<Rightarrow> u32 \<Rightarrow> rpc_op \<Rightarrow> 's \<Rightarrow> 'n \<Rightarrow> (string io_result \<times> 's \<times> 'n) res" where
  "rpc_execute_w_key T lkey opn s n = rbind (finalize opn) (\<lambda>opn. st_send_w_key T (op_msg opn) lkey s n)"

definition get_connect_op :: "rpc_header \<Rightarrow> mem_block \<Rightarrow> bytes \<Rightarrow> rpc_op res" where
  "get_connect_op raw b data =
     rbind (set_msg b (RPCOp raw)) (\<lambda>opn. rbind (add_opaque data (set_connect opn)) (\<lambda>(_, opn). Inr opn))"

section \<open>Dispatch\<close>

text \<open>\<open>incoming_sesions\<close> maps an identifier to a pointer, which is null when \<open>operator[]\<close> made the
  entry. A callback gets the pointer and the world.\<close>

type_synonym ('s, 'g) rpc_func = "rpc_header \<Rightarrow> mem_block \<Rightarrow> 's option \<Rightarrow> 'g \<Rightarrow> ('s option \<times> 'g) res"

record ('s, 'g) rpc_core =
  rc_sessions :: "u32 \<rightharpoonup> 's option"
  rc_station :: "reply_entry list"
  rc_bufs :: "nat \<Rightarrow> bytes"
  rc_callbacks :: "('s, 'g) rpc_func list"

definition RPCCore :: "i32 \<Rightarrow> (nat \<Rightarrow> bytes) \<Rightarrow> ('s, 'g) rpc_core res" where
  "RPCCore num_cors bufs =
     rbind (ReplyStation num_cors) (\<lambda>st. Inr \<lparr>rc_sessions = Map.empty, rc_station = st, rc_bufs = bufs, rc_callbacks = []\<rparr>)"

definition reg_callback :: "('s, 'g) rpc_func \<Rightarrow> ('s, 'g) rpc_core \<Rightarrow> usize \<times> ('s, 'g) rpc_core" where
  "reg_callback f c = (of_nat (length (rc_callbacks c)), c\<lparr>rc_callbacks := rc_callbacks c @ [f]\<rparr>)"

definition core_execute :: "('s, 'n) send_trait \<Rightarrow> rpc_op \<Rightarrow> 's \<Rightarrow> 'n \<Rightarrow> (string io_result \<times> 's \<times> 'n) res" where
  "core_execute T opn s n = st_send T (op_msg opn) s n"

definition core_execute_w_key ::
    "('s, 'n) send_trait \<Rightarrow> rpc_op \<Rightarrow> u32 \<Rightarrow> 's \<Rightarrow> 'n \<Rightarrow> (string io_result \<times> 's \<times> 'n) res" where
  "core_execute_w_key T opn k s n = st_send_w_key T (op_msg opn) k s n"

text \<open>\<open>try { ... } catch (...) { ASSERT(false) }\<close>.\<close>

definition try_abort :: "'a res \<Rightarrow> 'a res" where
  "try_abort r = (case r of Inl Thrown \<Rightarrow> Inl AssertFailed | _ \<Rightarrow> r)"

definition call_back :: "rpc_header \<Rightarrow> mem_block \<Rightarrow> u32 \<Rightarrow> ('s, 'g) rpc_core \<Rightarrow> 'g \<Rightarrow> (('s, 'g) rpc_core \<times> 'g) res" where
  "call_back h payload sid c g =
     (let s = (case rc_sessions c sid of None \<Rightarrow> None | Some p \<Rightarrow> p) in
      try_abort
        (if unat (h_rpc_id h) < length (rc_callbacks c)
         then rbind ((rc_callbacks c ! unat (h_rpc_id h)) h payload s g) (\<lambda>(s, g).
                Inr (c\<lparr>rc_sessions := (rc_sessions c)(sid \<mapsto> s)\<rparr>, g))
         else Inl Thrown))"

text \<open>The body of both loops over the received messages. \<open>add_impl\<close> is the one of the session
  manager; the second component of the result is the coroutine whose last reply came in.\<close>

definition handle_msg ::
    "(u32 \<Rightarrow> mem_block \<Rightarrow> (u32 \<rightharpoonup> 's option) \<Rightarrow> 'g \<Rightarrow> ((u32 \<rightharpoonup> 's option) \<times> 'g) res)
      \<Rightarrow> u32 \<Rightarrow> mem_block \<Rightarrow> ('s, 'g) rpc_core \<Rightarrow> 'g \<Rightarrow> (('s, 'g) rpc_core \<times> usize option \<times> 'g) res" where
  "handle_msg add_impl sid m c g =
     rassert (8 \<le> unat (mb_sz m))
       (rbind (obj_get header_pod (mb_mem m) 0) (\<lambda>h.
        rassert (unat (h_payload h) + 8 \<le> unat (mb_sz m))
          (let payload = \<lparr>mb_ptr = mb_ptr m + 8, mb_sz = ucast (h_payload h), mb_mem = drop 8 (mb_mem m)\<rparr> in
           if h_type h = Req then rbind (call_back h payload sid c g) (\<lambda>(c, g). Inr (c, None, g))
           else if h_type h = Reply then
             rbind (append_reply (ucast (h_cor_id h)) (block_bytes payload) (rc_station c) (rc_bufs c)) (\<lambda>(ok, st, bufs).
             rassert ok
               (rbind (cor_ready (ucast (h_cor_id h)) st) (\<lambda>ready.
                  Inr (c\<lparr>rc_station := st, rc_bufs := bufs\<rparr>, if ready then Some (ucast (h_cor_id h)) else None, g))))
           else if h_type h = Connect then
             rbind (add_impl sid payload (rc_sessions c) g) (\<lambda>(ss, g). Inr (c\<lparr>rc_sessions := ss\<rparr>, None, g))
           else Inl AssertFailed)))"

text \<open>\<open>for (recv->begin(); recv->has_msgs(); recv->next())\<close> with the number of messages.\<close>

partial_function (option) recv_loop ::
    "('r, 'g) recv_trait \<Rightarrow> (u32 \<Rightarrow> mem_block \<Rightarrow> 'c \<Rightarrow> 'g \<Rightarrow> ('c \<times> 'g) res) \<Rightarrow> usize \<Rightarrow> 'r \<Rightarrow> 'c \<Rightarrow> 'g
      \<Rightarrow> (usize \<times> 'r \<times> 'c \<times> 'g) res option" where
  "recv_loop RT body num r c g =
     (if \<not> rt_has_msgs RT r then Some (Inr (num, r, c, g))
      else case rbind (rt_cur_msg RT r g) (\<lambda>m. rbind (rt_cur_session_id RT r) (\<lambda>sid. body sid m c g)) of
             Inl e \<Rightarrow> Some (Inl e)
           | Inr (c, g) \<Rightarrow> recv_loop RT body (num + 1) (rt_next RT r) c g)"

definition recv_event_loop ::
    "('r, 'g) recv_trait \<Rightarrow> (u32 \<Rightarrow> mem_block \<Rightarrow> (u32 \<rightharpoonup> 's option) \<Rightarrow> 'g \<Rightarrow> ((u32 \<rightharpoonup> 's option) \<times> 'g) res)
      \<Rightarrow> 'r \<Rightarrow> ('s, 'g) rpc_core \<Rightarrow> 'g \<Rightarrow> (usize \<times> 'r \<times> ('s, 'g) rpc_core \<times> 'g) res" where
  "recv_event_loop RT add_impl r c g =
     rbind (rt_begin RT r g) (\<lambda>(r, g).
     rbind (loop_res (recv_loop RT (\<lambda>sid m c g. rbind (handle_msg add_impl sid m c g) (\<lambda>(c, _, g). Inr (c, g))) 0 r c g))
       (\<lambda>(num, r, c, g). rbind (rt_end RT r g) (\<lambda>(r, g). Inr (num, r, c, g))))"

text \<open>The future a client registers also puts ready coroutines back; \<open>addback\<close> is
  \<open>addback_coroutine\<close> of the scheduler \<open>'q\<close>.\<close>

definition poll_future ::
    "('r, 'g) recv_trait \<Rightarrow> (u32 \<Rightarrow> mem_block \<Rightarrow> (u32 \<rightharpoonup> 's option) \<Rightarrow> 'g \<Rightarrow> ((u32 \<rightharpoonup> 's option) \<times> 'g) res)
      \<Rightarrow> (usize \<Rightarrow> 'q \<Rightarrow> 'q res) \<Rightarrow> 'r \<Rightarrow> ('s, 'g) rpc_core \<Rightarrow> 'g \<Rightarrow> 'q
      \<Rightarrow> ((u8 \<times> usize) io_result \<times> 'r \<times> ('s, 'g) rpc_core \<times> 'g \<times> 'q) res" where
  "poll_future RT add_impl addback r c g q =
     rbind (rt_begin RT r g) (\<lambda>(r, g).
     rbind (loop_res (recv_loop RT (\<lambda>sid m (c, q) g. rbind (handle_msg add_impl sid m c g) (\<lambda>(c, ready, g).
         case ready of None \<Rightarrow> Inr ((c, q), g) | Some i \<Rightarrow> rbind (addback i q) (\<lambda>q. Inr ((c, q), g)))) 0 r (c, q) g))
       (\<lambda>(num, r, (c, q), g). rbind (rt_end RT r g) (\<lambda>(r, g). Inr (io_not_ready (0, 0), r, c, g, q))))"

end
