(* ===== verification/Remote_Memory.thy ===== *)
theory Remote_Memory
  imports Rctrl Rolex
begin

text \<open>
  The memory of a memory node: regions (\<^verbatim>\<open>rolex/memory_region.hh\<close>), regions of huge pages
  (\<^verbatim>\<open>rolex/huge_region.hh\<close>) and the constructor of \<open>RemoteMemory\<close>
  (\<^verbatim>\<open>rolex/remote_memory.hh\<close>), which opens every network card, registers one region for the
  models at each card and one for the leaves, and creates the two allocators in them.

  The pages of \<open>mmap\<close> and of \<open>new\<close> are a parameter, a function from a size to the address; their
  contents before construction are arguments.
\<close>

section \<open>Regions\<close>

record memory_region =
  mr_sz :: u64
  mr_addr :: u64

definition mr_valid :: "memory_region \<Rightarrow> bool" where "mr_valid r \<longleftrightarrow> mr_addr r \<noteq> 0"
definition start_ptr :: "memory_region \<Rightarrow> u64" where "start_ptr r = mr_addr r"
definition mr_size :: "memory_region \<Rightarrow> u64" where "mr_size r = mr_sz r"

definition convert_to_rmem :: "memory_region \<Rightarrow> rmem option" where
  "convert_to_rmem r = (if \<not> mr_valid r then None else Some (RMem (mr_sz r) (\<lambda>_. mr_addr r)))"

text \<open>\<open>new char[sz]\<close> returns a null pointer only by throwing.\<close>

definition DRAMRegion_create :: "(u64 \<Rightarrow> 'n \<Rightarrow> u64 option \<times> 'n) \<Rightarrow> u64 \<Rightarrow> 'n \<Rightarrow> (memory_region option \<times> 'n) res" where
  "DRAMRegion_create alloc_bytes sz n =
     (case alloc_bytes sz n of (None, n) \<Rightarrow> Inl Thrown | (Some a, n) \<Rightarrow> Inr (Some \<lparr>mr_sz = sz, mr_addr = a\<rparr>, n))"

text \<open>The alignment is converted to \<open>u64\<close>; the sum wraps around.\<close>

definition align_to_sz :: "u64 \<Rightarrow> usize \<Rightarrow> u64" where
  "align_to_sz x align_sz = (x + ucast align_sz - 1) div ucast align_sz * ucast align_sz"

definition kHugeAlign :: usize where "kHugeAlign = push_bit 20 2"

definition HugeRegion :: "(u64 \<Rightarrow> 'n \<Rightarrow> u64 option \<times> 'n) \<Rightarrow> u64 \<Rightarrow> usize \<Rightarrow> 'n \<Rightarrow> memory_region \<times> 'n" where
  "HugeRegion mmap sz align_sz n =
     (let s = align_to_sz sz align_sz in
      case mmap s n of (ptr, n) \<Rightarrow> (\<lparr>mr_sz = s, mr_addr = (case ptr of None \<Rightarrow> 0 | Some a \<Rightarrow> a)\<rparr>, n))"

definition HugeRegion_create :: "(u64 \<Rightarrow> 'n \<Rightarrow> u64 option \<times> 'n) \<Rightarrow> u64 \<Rightarrow> usize \<Rightarrow> 'n \<Rightarrow> memory_region option \<times> 'n" where
  "HugeRegion_create mmap sz align_sz n =
     (case HugeRegion mmap sz align_sz n of (r, n) \<Rightarrow> (if mr_valid r then Some r else None, n))"

section \<open>The memory node\<close>

record rm_config =
  model_region_size :: u64
  leaf_region_size :: u64
  rm_reg_leaf :: u64
  rm_leaf_num :: u64

fun register_nics ::
    "'n verbs \<Rightarrow> ('r \<Rightarrow> u64 \<times> 'r) \<Rightarrow> dev_idx list \<Rightarrow> u64 \<Rightarrow> ('n, 'r, 'z) rctrl_scheme \<Rightarrow> ('n, 'r, 'z) rctrl_scheme res" where
  "register_nics V rand [] i st = Inr st"
| "register_nics V rand (d # ds) i st =
     (case RNic_create V d 0 (rt_net st) of (nic, n) \<Rightarrow>
      rbind (opt_value nic) (\<lambda>nic.
      rbind (fac_reg rand (rt_rnd st) (opened_nics st) i nic) (\<lambda>(rnd, nics, key).
      rassert (key \<noteq> None)
        (register_nics V rand ds (i + 1) (st\<lparr>rt_net := n, rt_rnd := rnd, opened_nics := nics\<rparr>)))))"

definition register_nic ::
    "'n verbs \<Rightarrow> ('r \<Rightarrow> u64 \<times> 'r) \<Rightarrow> ('n, 'r, 'z) rctrl_scheme \<Rightarrow> (dev_idx list \<times> ('n, 'r, 'z) rctrl_scheme) res" where
  "register_nic V rand st =
     rbind (query_dev_names V (rt_net st)) (\<lambda>(all_nics, n).
     rbind (register_nics V rand all_nics 0 (st\<lparr>rt_net := n\<rparr>)) (\<lambda>st. Inr (all_nics, st)))"

text \<open>The result of \<open>create_then_reg\<close> is not looked at.\<close>

definition reg_region ::
    "'n verbs \<Rightarrow> ('r \<Rightarrow> u64 \<times> 'r) \<Rightarrow> u64 \<Rightarrow> memory_region \<Rightarrow> u64 \<Rightarrow> ('n, 'r, 'z) rctrl_scheme \<Rightarrow> ('n, 'r, 'z) rctrl_scheme res" where
  "reg_region V rand i region nic st =
     rbind (opt_value (convert_to_rmem region)) (\<lambda>mem.
     rbind (opt_value (fac_query (opened_nics st) nic)) (\<lambda>nic.
     case RegHandler_create V mem nic MemoryFlags (rt_net st) of (h, n) \<Rightarrow>
     rbind (create_then_reg rand (rt_rnd st) (registered_mrs st) i h) (\<lambda>(rnd, mrs, _).
       Inr (st\<lparr>rt_net := n, rt_rnd := rnd, registered_mrs := mrs\<rparr>))))"

fun reg_models ::
    "'n verbs \<Rightarrow> ('r \<Rightarrow> u64 \<times> 'r) \<Rightarrow> memory_region \<Rightarrow> nat \<Rightarrow> u64 \<Rightarrow> ('n, 'r, 'z) rctrl_scheme \<Rightarrow> ('n, 'r, 'z) rctrl_scheme res" where
  "reg_models V rand region 0 i st = Inr st"
| "reg_models V rand region (Suc k) i st =
     rbind (reg_region V rand i region i st) (\<lambda>st. reg_models V rand region k (i + 1) st)"

definition create_regions ::
    "'n verbs \<Rightarrow> ('r \<Rightarrow> u64 \<times> 'r) \<Rightarrow> (u64 \<Rightarrow> 'n \<Rightarrow> u64 option \<times> 'n) \<Rightarrow> rm_config \<Rightarrow> dev_idx list \<Rightarrow> ('n, 'r, 'z) rctrl_scheme
      \<Rightarrow> (memory_region \<times> memory_region \<times> ('n, 'r, 'z) rctrl_scheme) res" where
  "create_regions V rand mmap conf all_nics st =
     (case HugeRegion_create mmap (model_region_size conf) kHugeAlign (rt_net st) of (mreg, n) \<Rightarrow>
      rbind (opt_value mreg) (\<lambda>mreg.
      rbind (reg_models V rand mreg (length all_nics) 0 (st\<lparr>rt_net := n\<rparr>)) (\<lambda>st.
      case HugeRegion_create mmap (leaf_region_size conf) kHugeAlign (rt_net st) of (lreg, n) \<Rightarrow>
      rbind (opt_value lreg) (\<lambda>lreg.
      rbind (reg_region V rand (rm_reg_leaf conf) lreg 0 (st\<lparr>rt_net := n\<rparr>)) (\<lambda>st.
        Inr (mreg, lreg, st))))))"

text \<open>\<open>sizeof(leaf_t)\<close> is 1024. The allocators throw or abort when a region is too small.\<close>

definition leaf_t_size :: usize where "leaf_t_size = 1024"

definition init_allocator :: "rm_config \<Rightarrow> memory_region \<Rightarrow> memory_region \<Rightarrow> (u64 \<Rightarrow> leaf) \<Rightarrow> bytes \<Rightarrow> remote_mem res" where
  "init_allocator conf mreg lreg raw_leaf raw_model =
     rbind (LeafAllocator_num (mr_size lreg) leaf_t_size (rm_leaf_num conf) raw_leaf) (\<lambda>lp.
     rbind (ModelAllocator raw_model (mr_size mreg)) (\<lambda>mp.
       Inr \<lparr>leaf_allocator = lp, model_allocator = mp\<rparr>))"

definition RemoteMemory ::
    "'n verbs \<Rightarrow> ('r \<Rightarrow> u64 \<times> 'r) \<Rightarrow> (u64 \<Rightarrow> 'n \<Rightarrow> u64 option \<times> 'n) \<Rightarrow> rm_config \<Rightarrow> (u64 \<Rightarrow> leaf) \<Rightarrow> (u64 \<Rightarrow> bytes)
      \<Rightarrow> ('n, 'r, 'z) rctrl_scheme \<Rightarrow> (remote_mem \<times> memory_region \<times> memory_region \<times> ('n, 'r, 'z) rctrl_scheme) res" where
  "RemoteMemory V rand mmap conf raw_leaf raw_model st =
     rbind (register_nic V rand st) (\<lambda>(all_nics, st).
     rbind (create_regions V rand mmap conf all_nics st) (\<lambda>(mreg, lreg, st).
     rbind (init_allocator conf mreg lreg raw_leaf (raw_model (mr_size mreg))) (\<lambda>rm.
       Inr (rm, mreg, lreg, st))))"

end
