(* ===== verification/Local_Connection.thy ===== *)
theory Local_Connection
  imports Rlib_Op Connect_Manager Remote_Memory
begin

text \<open>
  The connection of a compute node: the buffers it registers (\<^verbatim>\<open>rolex/local_allocator.hh\<close>) and
  the two queue pairs to the memory node with the one-sided requests on them
  (\<^verbatim>\<open>rolex/local_connection.hh\<close>).

  The memory of the compute node is part of the state \<open>'n\<close> of the network, which writes into it:
  \<open>'n local_mem\<close> are the loads and stores of the program.
\<close>

record 'n local_mem =
  lm_load :: "u64 \<Rightarrow> nat \<Rightarrow> 'n \<Rightarrow> bytes res"
  lm_store :: "u64 \<Rightarrow> bytes \<Rightarrow> 'n \<Rightarrow> 'n res"

definition load_obj :: "'n local_mem \<Rightarrow> 'a pod \<Rightarrow> u64 \<Rightarrow> 'n \<Rightarrow> 'a res" where
  "load_obj L p a n = rbind (lm_load L a (size_of p) n) (\<lambda>b. Inr (of_bytes p b))"

section \<open>Buffers\<close>

text \<open>All sizes are \<open>usize\<close>, also the size of the memory, which is a \<open>u64\<close>.\<close>

record local_allocator =
  la_buf :: u64
  total_mem :: usize
  la_mr :: reg_attr
  la_key :: u32
  cur_alloc_off :: usize
  leaf_buf_off :: usize

definition LocalAllocator :: "rmem \<Rightarrow> reg_attr \<Rightarrow> local_allocator" where
  "LocalAllocator mem mr = \<lparr>la_buf = raw_ptr mem, total_mem = ucast (rmem_sz mem), la_mr = mr, la_key = attr_key mr,
     cur_alloc_off = 0, leaf_buf_off = 0\<rparr>"

definition reset_for_leaf :: "usize \<Rightarrow> local_allocator \<Rightarrow> local_allocator" where
  "reset_for_leaf leaf_buf_size a = a\<lparr>leaf_buf_off := 0, cur_alloc_off := leaf_buf_size\<rparr>"

definition la_get_leaf_buf :: "local_allocator \<Rightarrow> u64" where
  "la_get_leaf_buf a = la_buf a + ucast (leaf_buf_off a)"

definition la_alloc :: "usize \<Rightarrow> local_allocator \<Rightarrow> (u64 \<times> local_allocator) res" where
  "la_alloc sz a =
     rassert (\<not> cur_alloc_off a + sz > total_mem a)
       (Inr (la_buf a + ucast (cur_alloc_off a), a\<lparr>cur_alloc_off := cur_alloc_off a + sz\<rparr>))"

section \<open>The connection\<close>

record lc_config =
  server_addr :: string
  client_id :: i32
  thread_id :: i32
  nic_idx :: u32
  alloc_mem_size :: u64
  reg_model_region :: u64
  reg_leaf_region :: u64

definition LC_config :: "string \<Rightarrow> i32 \<Rightarrow> u64 \<Rightarrow> u64 \<Rightarrow> u64 \<Rightarrow> u32 \<Rightarrow> i32 \<Rightarrow> lc_config" where
  "LC_config addr tid rmr rlr ams ni cid = \<lparr>server_addr = addr, client_id = cid, thread_id = tid, nic_idx = ni,
     alloc_mem_size = ams, reg_model_region = rmr, reg_leaf_region = rlr\<rparr>"

record local_connection =
  lc_conf :: lc_config
  lc_nic :: rnic
  lc_handler :: reg_handler
  localAlloc :: local_allocator
  lc_cm :: srpc
  model_rc :: rc
  data_rc :: rc

definition get_buf :: "usize \<Rightarrow> local_connection \<Rightarrow> (u64 \<times> local_connection) res" where
  "get_buf sz lc = rbind (la_alloc sz (localAlloc lc)) (\<lambda>(b, a). Inr (b, lc\<lparr>localAlloc := a\<rparr>))"

definition get_leaf_buf :: "local_connection \<Rightarrow> u64" where
  "get_leaf_buf lc = la_get_leaf_buf (localAlloc lc)"

definition alloc_reset_for_leaf :: "usize \<Rightarrow> local_connection \<Rightarrow> local_connection" where
  "alloc_reset_for_leaf sz lc = lc\<lparr>localAlloc := reset_for_leaf sz (localAlloc lc)\<rparr>"

text \<open>A request of its own, signaled, and the wait for its completion. The completion read before
  one arrives is \<open>raw\<close>.\<close>

definition execute_wait :: "'n verbs \<Rightarrow> wc \<Rightarrow> send_wr \<Rightarrow> rc \<Rightarrow> 'n \<Rightarrow> (send_wr \<times> rc \<times> 'n) res" where
  "execute_wait V raw w q n =
     rbind (op_execute V [w] 0 IBV_SEND_SIGNALED 0 q n) (\<lambda>(r, ops, q, n).
     rassert (code r = IO_Ok)
       (rbind (wait_one_comp V raw no_timeout q n) (\<lambda>(r, q, n).
        rassert (code r = IO_Ok) (Inr (hd ops, q, n)))))"

definition read_op :: "u64 \<Rightarrow> u64 \<Rightarrow> u32 \<Rightarrow> rc \<Rightarrow> send_wr \<Rightarrow> send_wr res" where
  "read_op remote_off local_buf len q w =
     rbind (opt_value (remote_mr q)) (\<lambda>rmr. rbind (opt_value (local_mr q)) (\<lambda>lmr.
       Inr (snd (op_set_payload local_buf len (attr_lkey lmr) 0 (op_set_read (op_set_rdma_addr remote_off rmr w))))))"

definition write_op :: "u64 \<Rightarrow> u64 \<Rightarrow> u32 \<Rightarrow> rc \<Rightarrow> send_wr \<Rightarrow> send_wr res" where
  "write_op remote_off local_buf len q w =
     rbind (opt_value (remote_mr q)) (\<lambda>rmr. rbind (opt_value (local_mr q)) (\<lambda>lmr.
       Inr (snd (op_set_payload local_buf len (attr_lkey lmr) 0 (op_set_write (op_set_rdma_addr remote_off rmr w))))))"

definition read_syn :: "'n verbs \<Rightarrow> wc \<Rightarrow> u64 \<Rightarrow> u64 \<Rightarrow> u32 \<Rightarrow> local_connection \<Rightarrow> 'n \<Rightarrow> (local_connection \<times> 'n) res" where
  "read_syn V raw remote_off local_buf len lc n =
     rbind (read_op remote_off local_buf len (model_rc lc) (new_op 1)) (\<lambda>w.
     rbind (execute_wait V raw w (model_rc lc) n) (\<lambda>(_, q, n). Inr (lc\<lparr>model_rc := q\<rparr>, n)))"

definition lc_cas ::
    "'n verbs \<Rightarrow> 'n local_mem \<Rightarrow> wc \<Rightarrow> u64 \<Rightarrow> u64 \<Rightarrow> u64 \<Rightarrow> u64 \<Rightarrow> local_connection \<Rightarrow> 'n \<Rightarrow> (bool \<times> local_connection \<times> 'n) res" where
  "lc_cas V L raw local_buf equal val off lc n =
     rbind (opt_value (remote_mr (data_rc lc))) (\<lambda>rmr.
     rbind (opt_value (local_mr (data_rc lc))) (\<lambda>lmr.
     let w = op_set_cas equal val (op_set_atomic_rbuf (attr_buf rmr + off) (attr_key rmr) (new_op 1));
         w = snd (op_set_payload local_buf 8 (attr_lkey lmr) 0 w) in
     rbind (execute_wait V raw w (data_rc lc) n) (\<lambda>(_, q, n).
     rbind (load_obj L u64_pod local_buf n) (\<lambda>r_data. Inr (equal = r_data, lc\<lparr>data_rc := q\<rparr>, n)))))"

section \<open>Setting it up\<close>

text \<open>\<open>std::to_string\<close> of an \<open>int\<close>.\<close>

fun digits :: "nat \<Rightarrow> string" where
  "digits k = (if k < 10 then [char_of (48 + k)] else digits (k div 10) @ [char_of (48 + k mod 10)])"

declare digits.simps [simp del]

definition to_string :: "int \<Rightarrow> string" where
  "to_string i = (if i < 0 then CHR ''-'' # digits (nat (- i)) else digits (nat i))"

text \<open>\<open>conf.client_id + " model-qp"\<close> adds a number to a pointer: the name begins \<open>client_id\<close>
  characters into the literal, and there is none outside of it.\<close>

definition qp_name :: "string \<Rightarrow> lc_config \<Rightarrow> bytes res" where
  "qp_name literal conf =
     (if sint (client_id conf) < 0 \<or> sint (client_id conf) > int (length literal) then Inl UB
      else Inr (bb (drop (nat (sint (client_id conf))) literal @ to_string (sint (thread_id conf)))))"

definition local_memory_allocator ::
    "'n verbs \<Rightarrow> (u64 \<Rightarrow> 'n \<Rightarrow> u64 option \<times> 'n) \<Rightarrow> lc_config \<Rightarrow> rnic \<Rightarrow> 'n \<Rightarrow> (reg_handler \<times> local_allocator \<times> 'n) res" where
  "local_memory_allocator V mmap conf nic n =
     (case HugeRegion_create mmap (alloc_mem_size conf) kHugeAlign n of (region, n) \<Rightarrow>
      rbind (opt_value region) (\<lambda>region.
      rbind (opt_value (convert_to_rmem region)) (\<lambda>mem.
      case RegHandler_create V mem nic MemoryFlags n of (handler, n) \<Rightarrow>
      rbind (opt_value handler) (\<lambda>handler.
      rbind (opt_value (get_reg_attr handler)) (\<lambda>mr. Inr (handler, LocalAllocator mem mr, n))))))"

definition connect_remote :: "'s sockets \<Rightarrow> nat \<Rightarrow> lc_config \<Rightarrow> ip_cache \<Rightarrow> 's \<Rightarrow> (srpc \<times> ip_cache \<times> 's) res" where
  "connect_remote K raw conf cache s =
     rbind (SRpc K (server_addr conf) cache s) (\<lambda>(cm, cache, s).
     rbind (wait_ready K raw 1000000 2 cm s) (\<lambda>(res, cm, s).
     rassert (code res \<noteq> IO_Timeout) (Inr (cm, cache, s))))"

text \<open>The calls of the connect manager wait one second, the default.\<close>

definition create_rc ::
    "'n verbs \<Rightarrow> 's sockets \<Rightarrow> nat \<Rightarrow> bytes \<Rightarrow> u64 \<Rightarrow> lc_config \<Rightarrow> rnic \<Rightarrow> reg_handler \<Rightarrow> srpc \<Rightarrow> 'n \<Rightarrow> 's
      \<Rightarrow> (rc \<times> srpc \<times> 'n \<times> 's) res" where
  "create_rc V K raw name reg_mr conf nic handler cm n s =
     rbind (RC_create V nic QPConfig None n) (\<lambda>(q, n).
     rbind (opt_value q) (\<lambda>q.
     rbind (cc_rc V K raw name (ucast (nic_idx conf)) QPConfig 1000000 q cm n s) (\<lambda>(qp_res, q, cm, n, s).
     rassert (code qp_res = IO_Ok)
       (rbind (fetch_remote_mr K raw reg_mr 1000000 cm s) (\<lambda>(fetch_res, cm, s).
        rassert (code fetch_res = IO_Ok)
          (rbind (opt_value (get_reg_attr handler)) (\<lambda>mine.
             Inr (bind_local_mr mine (bind_remote_mr (snd (desc fetch_res)) q), cm, n, s))))))))"

definition LocalConnection ::
    "'n verbs \<Rightarrow> 's sockets \<Rightarrow> nat \<Rightarrow> (u64 \<Rightarrow> 'n \<Rightarrow> u64 option \<times> 'n) \<Rightarrow> lc_config \<Rightarrow> ip_cache \<Rightarrow> 'n \<Rightarrow> 's
      \<Rightarrow> (local_connection \<times> ip_cache \<times> 'n \<times> 's) res" where
  "LocalConnection V K raw mmap conf cache n s =
     rbind (query_dev_names V n) (\<lambda>(names, n).
     rbind (if unat (nic_idx conf) < length names then Inr (names ! unat (nic_idx conf)) else Inl Thrown) (\<lambda>d.
     case RNic_create V d 0 n of (nic, n) \<Rightarrow>
     rbind (opt_value nic) (\<lambda>nic.
     rbind (local_memory_allocator V mmap conf nic n) (\<lambda>(handler, la, n).
     rbind (connect_remote K raw conf cache s) (\<lambda>(cm, cache, s).
     rbind (qp_name '' model-qp'' conf) (\<lambda>mname.
     rbind (create_rc V K raw mname (reg_model_region conf) conf nic handler cm n s) (\<lambda>(mrc, cm, n, s).
     rbind (qp_name '' data-qp'' conf) (\<lambda>dname.
     rbind (create_rc V K raw dname (reg_leaf_region conf) conf nic handler cm n s) (\<lambda>(drc, cm, n, s).
       Inr (\<lparr>lc_conf = conf, lc_nic = nic, lc_handler = handler, localAlloc = la, lc_cm = cm, model_rc = mrc, data_rc = drc\<rparr>,
            cache, n, s))))))))))"

end
