(* ===== verification/Ud_Transport.thy ===== *)
theory Ud_Transport
  imports Xcomm_Rpc Rctrl Local_Connection
begin

text \<open>
  The transport over unreliable datagrams: sessions (\<^verbatim>\<open>r2/src/msg/ud_session.hh\<close>), the two ends of the
  transport and its session manager (\<^verbatim>\<open>xcomm/src/transport/rdma_ud_t.hh\<close>) and the allocator of the
  receive buffers (\<^verbatim>\<open>xcomm/tests/transport_util.hh\<close>).

  All sessions share one queue pair, so it is part of the network a session works on: a pair of the
  queue pair and the state of the library. The bytes of a message lie in memory at the address of its
  block. \<open>wstr\<close> is the text the library has for a completion; \<open>raw\<close> stands for an uninitialised
  completion or request.
\<close>

section \<open>Sessions\<close>

record ud_session =
  us_ah :: "nat option"
  us_qkey :: u64
  us_qpn :: u64
  us_wr :: send_wr
  us_depth :: cint

text \<open>\<open>max_send_sz() / 2\<close> in \<open>int\<close>.\<close>

definition half :: "cint \<Rightarrow> cint" where
  "half x = of_int (if sint x < 0 then - (- sint x div 2) else sint x div 2)"

definition UDSession :: "'n verbs \<Rightarrow> send_wr \<Rightarrow> u32 \<Rightarrow> qp_attr \<Rightarrow> ud \<times> 'n \<Rightarrow> (ud_session \<times> ud \<times> 'n) res" where
  "UDSession V raw i attr = (\<lambda>(q, n).
     rbind (create_ah V q attr n) (\<lambda>(ah, n).
       Inr (\<lparr>us_ah = ah, us_qkey = q_qkey attr, us_qpn = q_qpn attr,
             us_wr = raw\<lparr>s_opcode := WR_SEND_WITH_IMM, s_next := None, s_imm := i, s_ah := ah,
                         s_remote_qpn := ucast (q_qpn attr), s_remote_qkey := ucast (q_qkey attr)\<rparr>,
             us_depth = half (max_send_sz (ud_config q))\<rparr>, q, n)))"

definition UDSession_create ::
    "'n verbs \<Rightarrow> send_wr \<Rightarrow> u32 \<Rightarrow> qp_attr \<Rightarrow> ud \<times> 'n \<Rightarrow> (ud_session option \<times> ud \<times> 'n) res" where
  "UDSession_create V raw i attr qn =
     rbind (UDSession V raw i attr qn) (\<lambda>(us, qn). Inr (if us_ah us \<noteq> None then Some us else None, qn))"

definition setup_sge :: "mem_block \<Rightarrow> u32 \<Rightarrow> sge" where
  "setup_sge msg lkey = \<lparr>sge_addr = mb_ptr msg, sge_length = mb_sz msg, sge_lkey = lkey\<rparr>"

definition my_id :: "ud_session \<Rightarrow> u32" where "my_id us = s_imm (us_wr us)"
definition my_wr :: "ud_session \<Rightarrow> send_wr" where "my_wr us = us_wr us"

definition ud_flags :: "bool \<Rightarrow> mem_block \<Rightarrow> u32" where
  "ud_flags signaled msg =
     or (if signaled then IBV_SEND_SIGNALED else 0) (if mb_sz msg \<le> kMaxInlinSz then IBV_SEND_INLINE else 0)"

definition post_wr :: "'n verbs \<Rightarrow> ud_session \<Rightarrow> ud \<times> 'n \<Rightarrow> (string io_result \<times> ud_session \<times> ud \<times> 'n) res" where
  "post_wr V us = (\<lambda>(q, n).
     rbind (the_handle (qp_qp q)) (\<lambda>h.
       case v_post_send V h [us_wr us] n of (rc, n) \<Rightarrow>
         Inr (if rc \<noteq> 0 then io_err (v_strerror V n) else io_ok [], us, q, n)))"

definition send_pending :: "'n verbs \<Rightarrow> mem_block \<Rightarrow> ud_session \<Rightarrow> ud \<times> 'n \<Rightarrow> (string io_result \<times> ud_session \<times> ud \<times> 'n) res" where
  "send_pending V msg us qn =
     post_wr V (us\<lparr>us_wr := (us_wr us)\<lparr>s_sges := [setup_sge msg 0], s_flags := ud_flags True msg\<rparr>\<rparr>) qn"

definition send_blocking ::
    "'n verbs \<Rightarrow> wc \<Rightarrow> (wc \<Rightarrow> string) \<Rightarrow> mem_block \<Rightarrow> rat \<Rightarrow> ud_session \<Rightarrow> ud \<times> 'n
      \<Rightarrow> (string io_result \<times> ud_session \<times> ud \<times> 'n) res" where
  "send_blocking V raw wstr msg timeout us qn =
     rbind (send_pending V msg us qn) (\<lambda>(ret_s, us, q, n).
     if code ret_s \<noteq> IO_Ok then Inr (ret_s, us, q, n)
     else
       rbind (wait_one_comp V raw timeout q n) (\<lambda>(ret, q, n).
         Inr (if code ret \<noteq> IO_Ok then io_transfer ret (wstr (desc ret)) else io_ok [], us, q, n)))"

text \<open>\<open>send\<close> and \<open>send_pending\<close> for coroutines are not implemented.\<close>

definition send_async :: "string io_result" where "send_async = io_err ''not implemented''"

text \<open>One request in \<open>send_depth + 2\<close> is signaled, the one that finds no request pending; its completion
  is awaited when more than \<open>send_depth\<close> are pending. The \<open>int\<close> is compared as an unsigned number.\<close>

definition send_unsignaled ::
    "'n verbs \<Rightarrow> wc \<Rightarrow> (wc \<Rightarrow> string) \<Rightarrow> mem_block \<Rightarrow> u32 \<Rightarrow> ud_session \<Rightarrow> ud \<times> 'n
      \<Rightarrow> (string io_result \<times> ud_session \<times> ud \<times> 'n) res" where
  "send_unsignaled V raw wstr msg lkey us = (\<lambda>(q, n).
     let us = us\<lparr>us_wr := (us_wr us)\<lparr>s_sges := [setup_sge msg lkey], s_flags := ud_flags (ud_pending_reqs q = 0) msg\<rparr>\<rparr> in
     if us_depth us < ud_pending_reqs q then
       rbind (wait_one_comp V raw 1000000 q n) (\<lambda>(ret, q, n).
       if code ret \<noteq> IO_Ok then Inr (io_transfer ret (wstr (desc ret)), us, q, n)
       else post_wr V us (q\<lparr>ud_pending_reqs := 0\<rparr>, n))
     else post_wr V us (q\<lparr>ud_pending_reqs := ud_pending_reqs q + 1\<rparr>, n))"

definition flush_a_doorbell :: "'n verbs \<Rightarrow> doorbell \<Rightarrow> ud \<times> 'n \<Rightarrow> (string io_result \<times> doorbell \<times> ud \<times> 'n) res" where
  "flush_a_doorbell V d = (\<lambda>(q, n).
     if db_empty d then Inr (io_ok [], d, q, n)
     else
       rbind (db_freeze d) (\<lambda>d.
       rbind (loop_res (send_chain (db_wrs d) (Some 0))) (\<lambda>ws.
       rbind (the_handle (qp_qp q)) (\<lambda>h.
         case v_post_send V h ws n of (rc, n) \<Rightarrow>
         rbind (db_clear d) (\<lambda>d.
           Inr (if rc \<noteq> 0 then io_err (v_strerror V n) else io_ok [], d, q, n))))))"

definition send_unsignaled_doorbell ::
    "'n verbs \<Rightarrow> wc \<Rightarrow> (wc \<Rightarrow> string) \<Rightarrow> doorbell \<Rightarrow> mem_block \<Rightarrow> u32 \<Rightarrow> send_wr \<Rightarrow> ud_session \<Rightarrow> ud \<times> 'n
      \<Rightarrow> (string io_result \<times> doorbell \<times> ud \<times> 'n) res" where
  "send_unsignaled_doorbell V raw wstr d msg lkey target_wr us = (\<lambda>(q, n).
     rbind (if us_depth us < ud_pending_reqs q then
              rbind (wait_one_comp V raw 1000000 q n) (\<lambda>(ret, q, n).
                Inr (if code ret \<noteq> IO_Ok then Some (io_transfer ret (wstr (desc ret))) else None,
                     if code ret \<noteq> IO_Ok then q else q\<lparr>ud_pending_reqs := 0\<rparr>, n))
            else Inr (None, q\<lparr>ud_pending_reqs := ud_pending_reqs q + 1\<rparr>, n)) (\<lambda>(failed, q, n).
     case failed of Some r \<Rightarrow> Inr (r, d, q, n)
     | None \<Rightarrow>
         rbind (db_set_cur_sge (setup_sge msg lkey) (snd (db_next d))) (\<lambda>d.
         rbind (db_set_cur_wr (\<lambda>w. w\<lparr>s_ah := s_ah target_wr, s_remote_qpn := s_remote_qpn target_wr,
                   s_remote_qkey := s_remote_qkey target_wr, s_imm := my_id us,
                   s_flags := ud_flags (ud_pending_reqs q = 0) msg\<rparr>) d) (\<lambda>d.
         if db_full d then flush_a_doorbell V d (q, n) else Inr (io_ok [], d, q, n)))))"

section \<open>The transport\<close>

text \<open>A \<open>UDTransport\<close> is its session, possibly null. The \<open>ConnectManager\<close> is closed when \<open>connect\<close>
  returns.\<close>

definition close_cm :: "'s sockets \<Rightarrow> srpc \<Rightarrow> 's \<Rightarrow> 's" where
  "close_cm K cm s = snd (snd (close_channel K (sp_channel cm) s))"

definition ud_connect ::
    "'s sockets \<Rightarrow> nat \<Rightarrow> 'n verbs \<Rightarrow> send_wr \<Rightarrow> string \<Rightarrow> bytes \<Rightarrow> u32 \<Rightarrow> ud_session option \<Rightarrow> ip_cache \<Rightarrow> ud \<times> 'n \<Rightarrow> 's
      \<Rightarrow> (unit io_result \<times> ud_session option \<times> ip_cache \<times> (ud \<times> 'n) \<times> 's) res" where
  "ud_connect K rawk V raw addr s_name i t cache qn s =
     (case t of Some us \<Rightarrow> Inr (io_ok (), t, cache, qn, s)
      | None \<Rightarrow>
          rbind (SRpc K addr cache s) (\<lambda>(cm, cache, s).
          rbind (wait_ready K rawk 1000000 4 cm s) (\<lambda>(wait_res, cm, s).
          if code wait_res \<noteq> IO_Ok then Inr (io_transfer_raw wait_res, None, cache, qn, close_cm K cm s)
          else
            rbind (cm_fetch_qp_attr K rawk s_name 1000000 cm s) (\<lambda>(res, cm, s).
            if code res \<noteq> IO_Ok then Inr (io_transfer_raw res, None, cache, qn, close_cm K cm s)
            else
              rbind (UDSession V raw i (snd (desc res)) qn) (\<lambda>(us, qn).
                Inr (io_ok (), Some us, cache, qn, close_cm K cm s))))))"

definition get_connect_data :: "'n verbs \<Rightarrow> ud_session option \<Rightarrow> ud \<times> 'n \<Rightarrow> bytes option res" where
  "get_connect_data V t = (\<lambda>(q, n).
     case t of None \<Rightarrow> Inr None
     | Some us \<Rightarrow> rbind (ud_my_attr V q n) (\<lambda>a.
         rbind (mem_put (replicate (size_of QPAttr_pod) 48) 0 (to_bytes QPAttr_pod a)) (\<lambda>b. Inr (Some b))))"

definition send_w_key_impl ::
    "'n verbs \<Rightarrow> 'n local_mem \<Rightarrow> wc \<Rightarrow> (wc \<Rightarrow> string) \<Rightarrow> mem_block \<Rightarrow> u32 \<Rightarrow> ud_session option \<Rightarrow> ud \<times> 'n
      \<Rightarrow> (string io_result \<times> ud_session option \<times> ud \<times> 'n) res" where
  "send_w_key_impl V L raw wstr msg k t = (\<lambda>(q, n).
     case t of None \<Rightarrow> Inl UB
     | Some us \<Rightarrow>
         rbind (lm_store L (mb_ptr msg) (block_bytes msg) n) (\<lambda>n.
         rbind (send_unsignaled V raw wstr msg k us (q, n)) (\<lambda>(r, us, qn). Inr (r, Some us, qn))))"

definition ud_send_trait ::
    "'n verbs \<Rightarrow> 'n local_mem \<Rightarrow> wc \<Rightarrow> (wc \<Rightarrow> string) \<Rightarrow> (ud_session option, ud \<times> 'n) send_trait" where
  "ud_send_trait V L raw wstr = \<lparr>st_send = (\<lambda>msg. send_w_key_impl V L raw wstr msg 0),
     st_send_w_key = send_w_key_impl V L raw wstr, st_get_connect_data = get_connect_data V\<rparr>"

text \<open>The receiving end: the entries and the iterator over completions. A message is at most 4000
  bytes behind the global routing header.\<close>

record ud_recv =
  ur_entries :: recv_entries
  ur_iter :: recv_iter

definition UDRecvTransport :: "wc list \<Rightarrow> recv_entries \<Rightarrow> ud \<Rightarrow> ud_recv" where
  "UDRecvTransport raw e q = \<lparr>ur_entries = e, ur_iter = ri_set_meta q e (default_iter raw)\<rparr>"

definition ur_begin :: "'n verbs \<Rightarrow> ud_recv \<Rightarrow> ud \<times> 'n \<Rightarrow> (ud_recv \<times> ud \<times> 'n) res" where
  "ur_begin V r = (\<lambda>(q, n). rbind (ri_begin V q (ur_iter r) n) (\<lambda>(it, n). Inr (r\<lparr>ur_iter := it\<rparr>, q, n)))"

definition ur_end :: "'n verbs \<Rightarrow> ud_recv \<Rightarrow> ud \<times> 'n \<Rightarrow> (ud_recv \<times> ud \<times> 'n) res" where
  "ur_end V r = (\<lambda>(q, n).
     rbind (ri_clear V q (ur_entries r) (ur_iter r) n) (\<lambda>(it, e, n). Inr (\<lparr>ur_entries = e, ur_iter = it\<rparr>, q, n)))"

definition ur_cur_msg :: "'n local_mem \<Rightarrow> ud_recv \<Rightarrow> ud \<times> 'n \<Rightarrow> mem_block res" where
  "ur_cur_msg L r = (\<lambda>(q, n).
     rbind (ri_cur_msg (ur_iter r)) (\<lambda>m. rbind (opt_value m) (\<lambda>(_, a).
     let p = a + ucast kGRHSz in
     rbind (lm_load L p 4000 n) (\<lambda>b. Inr \<lparr>mb_ptr = p, mb_sz = 4000, mb_mem = b\<rparr>))))"

definition ur_cur_session_id :: "ud_recv \<Rightarrow> u32 res" where
  "ur_cur_session_id r = rbind (ri_cur_msg (ur_iter r)) (\<lambda>m. rbind (opt_value m) (\<lambda>(i, _). Inr i))"

definition ud_recv_trait :: "'n verbs \<Rightarrow> 'n local_mem \<Rightarrow> (ud_recv, ud \<times> 'n) recv_trait" where
  "ud_recv_trait V L = \<lparr>rt_begin = ur_begin V, rt_has_msgs = (\<lambda>r. ri_has_msgs (ur_iter r)), rt_cur_msg = ur_cur_msg L,
     rt_cur_session_id = ur_cur_session_id, rt_next = (\<lambda>r. r\<lparr>ur_iter := ri_next (ur_iter r)\<rparr>), rt_end = ur_end V\<rparr>"

text \<open>\<open>insert\<close> keeps an entry that is already there.\<close>

definition ud_add_impl ::
    "'n verbs \<Rightarrow> send_wr \<Rightarrow> u32 \<Rightarrow> mem_block \<Rightarrow> (u32 \<rightharpoonup> ud_session option option) \<Rightarrow> ud \<times> 'n
      \<Rightarrow> ((u32 \<rightharpoonup> ud_session option option) \<times> ud \<times> 'n) res" where
  "ud_add_impl V raw i raw_connect_data ss qn =
     rbind (interpret_as QPAttr_pod 0 raw_connect_data) (\<lambda>attr.
     case attr of None \<Rightarrow> Inl AssertFailed
     | Some a \<Rightarrow> rbind (UDSession V raw i a qn) (\<lambda>(us, qn).
         Inr (if i \<in> dom ss then ss else ss(i \<mapsto> Some (Some us)), qn)))"

section \<open>The allocator of receive buffers\<close>

record simple_allocator =
  sa_buf :: u64
  sa_total :: usize
  sa_key :: u32
  sa_mr :: reg_attr

definition SimpleAllocator :: "rmem \<Rightarrow> reg_attr \<Rightarrow> simple_allocator" where
  "SimpleAllocator mem mr = \<lparr>sa_buf = raw_ptr mem, sa_total = ucast (rmem_sz mem), sa_key = attr_key mr, sa_mr = mr\<rparr>"

definition sa_alloc_one :: "usize \<Rightarrow> simple_allocator \<Rightarrow> (u64 \<times> u32) option \<times> simple_allocator" where
  "sa_alloc_one sz a =
     (if sa_total a < sz then (None, a)
      else (Some (sa_buf a, sa_key a), a\<lparr>sa_buf := sa_buf a + ucast sz, sa_total := sa_total a - sz\<rparr>))"

definition sa_alloc_one_for_remote :: "usize \<Rightarrow> simple_allocator \<Rightarrow> (u64 \<times> reg_attr) option \<times> simple_allocator" where
  "sa_alloc_one_for_remote sz a =
     (if sa_total a < sz then (None, a)
      else (Some (sa_buf a, sa_mr a), a\<lparr>sa_buf := sa_buf a + ucast sz, sa_total := sa_total a - sz\<rparr>))"

definition align_up :: "u64 \<Rightarrow> u64 \<Rightarrow> u64" where
  "align_up x a = (let r = x mod a in if r \<noteq> 0 then x + a - r else x)"

end
