(* ===== verification/Rolex_Service.thy ===== *)
theory Rolex_Service
  imports Xcomm_Rpc Rolex
begin

text \<open>
  The operations of the index over the network: the callbacks of the memory node
  (\<^verbatim>\<open>rolex/rolex_server.hpp\<close>), the calls of a compute node (\<^verbatim>\<open>rolex/rolex_client.hpp\<close>) and the types
  they share (\<^verbatim>\<open>benchs/rolex_util_back.hh\<close>).

  A call of the client runs in a coroutine and is cut where it yields: \<open>remote_*\<close> is the part that
  sends the request, \<open>remote_search_finish\<close> the part behind \<open>R2_PAUSE_AND_YIELD\<close>; the other calls
  do nothing there. Local variables that are not initialised are an argument.
\<close>

section \<open>Shared types\<close>

definition RPC_GET :: u32 where "RPC_GET = 0"
definition RPC_PUT :: u32 where "RPC_PUT = 1"
definition RPC_UPDATE :: u32 where "RPC_UPDATE = 2"
definition RPC_DELETE :: u32 where "RPC_DELETE = 3"
definition RPC_SCAN :: u32 where "RPC_SCAN = 4"

definition bool_pod :: "bool pod" where
  "bool_pod = iso_pod (\<lambda>b. if b then 1 else 0) (\<lambda>w. w \<noteq> 0) u8_pod"

record reply_value =
  rv_status :: bool
  rv_val :: u64

definition reply_pod :: "reply_value pod" where
  "reply_pod = iso_pod (\<lambda>r. (rv_status r, rv_val r)) (\<lambda>(s, v). \<lparr>rv_status = s, rv_val = v\<rparr>) (pair_pod bool_pod u64_pod)"

text \<open>The locals of a callback or a call: \<open>RPCOp op\<close>, \<open>char buf[64]\<close> at its address, \<open>ReplyValue reply\<close>.\<close>

record locals =
  l_header :: rpc_header
  l_ptr :: u64
  l_buf :: bytes
  l_reply :: reply_value

section \<open>The memory node\<close>

record 'n service =
  sv_index :: rolex
  sv_rmem :: remote_mem
  sv_net :: 'n

text \<open>The last lines of every callback.\<close>

definition send_reply ::
    "('s, 'n) send_trait \<Rightarrow> locals \<Rightarrow> rpc_header \<Rightarrow> reply_value \<Rightarrow> 's option \<Rightarrow> 'n service \<Rightarrow> ('s option \<times> 'n service) res" where
  "send_reply T l h reply replyc g =
     rbind (set_msg (MemBlock (l_ptr l) (l_buf l)) (RPCOp (l_header l))) (\<lambda>opn.
     rbind (add_arg reply_pod reply (set_reply opn)) (\<lambda>(ok, opn).
     rassert ok
       (case replyc of None \<Rightarrow> Inl UB
        | Some s \<Rightarrow>
            rbind (rpc_execute T (set_corid (ucast (h_cor_id h)) opn) s (sv_net g)) (\<lambda>(r, s, n).
            rassert (code r = IO_Ok) (Inr (Some s, g\<lparr>sv_net := n\<rparr>))))))"

definition rolex_get_callback :: "('s, 'n) send_trait \<Rightarrow> locals \<Rightarrow> ('s, 'n service) rpc_func" where
  "rolex_get_callback T l h args replyc g =
     rassert (mb_sz args = 8)
       (rbind (obj_get u64_pod (mb_mem args) 0) (\<lambda>key.
        rbind (rx_search (sv_index g) (sv_rmem g) key) (\<lambda>res.
          send_reply T l h
            (case res of Some v \<Rightarrow> \<lparr>rv_status = True, rv_val = v\<rparr> | None \<Rightarrow> \<lparr>rv_status = False, rv_val = 1234\<rparr>)
            replyc g)))"

definition rolex_put_callback :: "('s, 'n) send_trait \<Rightarrow> locals \<Rightarrow> ('s, 'n service) rpc_func" where
  "rolex_put_callback T l h args replyc g =
     rassert (mb_sz args = 8 + 8)
       (rbind (deref (interpret_as u64_pod 0 args)) (\<lambda>key.
        rbind (deref (interpret_as u64_pod 8 args)) (\<lambda>val.
        rbind (rx_insert (sv_index g) (sv_rmem g) key val) (\<lambda>(r, rm, _).
          send_reply T l h (l_reply l) replyc (g\<lparr>sv_index := r, sv_rmem := rm\<rparr>)))))"

definition rolex_update_callback :: "('s, 'n) send_trait \<Rightarrow> locals \<Rightarrow> ('s, 'n service) rpc_func" where
  "rolex_update_callback T l h args replyc g =
     rassert (mb_sz args = 8 + 8)
       (rbind (deref (interpret_as u64_pod 0 args)) (\<lambda>key.
        rbind (deref (interpret_as u64_pod 8 args)) (\<lambda>val.
        rbind (rx_update (sv_index g) (sv_rmem g) key val) (\<lambda>(r, rm, res).
          send_reply T l h \<lparr>rv_status = res, rv_val = val\<rparr> replyc (g\<lparr>sv_index := r, sv_rmem := rm\<rparr>)))))"

definition rolex_remove_callback :: "('s, 'n) send_trait \<Rightarrow> locals \<Rightarrow> ('s, 'n service) rpc_func" where
  "rolex_remove_callback T l h args replyc g =
     rassert (mb_sz args = 8)
       (rbind (deref (interpret_as u64_pod 0 args)) (\<lambda>key.
        rbind (rx_remove (sv_index g) (sv_rmem g) key) (\<lambda>(r, rm, res).
          send_reply T l h \<lparr>rv_status = res, rv_val = 0\<rparr> replyc (g\<lparr>sv_index := r, sv_rmem := rm\<rparr>))))"

text \<open>The values a scan finds are not sent.\<close>

definition rolex_scan_callback :: "('s, 'n) send_trait \<Rightarrow> locals \<Rightarrow> ('s, 'n service) rpc_func" where
  "rolex_scan_callback T l h args replyc g =
     rassert (mb_sz args = 8 + 8)
       (rbind (deref (interpret_as u64_pod 0 args)) (\<lambda>key.
        rbind (deref (interpret_as u64_pod 8 args)) (\<lambda>n.
        rbind (rx_range (sv_index g) (sv_rmem g) key (ucast n) []) (\<lambda>result.
          send_reply T l h (l_reply l) replyc g))))"

text \<open>The registration of the callbacks in \<open>rolex_server_workers\<close>.\<close>

definition reg_expect :: "u32 \<Rightarrow> ('s, 'g) rpc_func \<Rightarrow> ('s, 'g) rpc_core \<Rightarrow> ('s, 'g) rpc_core res" where
  "reg_expect i f c = (case reg_callback f c of (j, c) \<Rightarrow> rassert (j = i) (Inr c))"

definition reg_callbacks :: "('s, 'n) send_trait \<Rightarrow> locals \<Rightarrow> ('s, 'n service) rpc_core \<Rightarrow> ('s, 'n service) rpc_core res" where
  "reg_callbacks T l c =
     rbind (reg_expect RPC_GET (rolex_get_callback T l) c) (\<lambda>c.
     rbind (reg_expect RPC_PUT (rolex_put_callback T l) c) (\<lambda>c.
     rbind (reg_expect RPC_UPDATE (rolex_update_callback T l) c) (\<lambda>c.
     rbind (reg_expect RPC_DELETE (rolex_remove_callback T l) c) (\<lambda>c.
       reg_expect RPC_SCAN (rolex_scan_callback T l) c))))"

section \<open>The compute node\<close>

text \<open>What the calls have in common; \<open>put_args\<close> appends the arguments and \<open>check\<close> stands before the
  message is sent. \<open>rb\<close> is the number of the call's reply buffer.\<close>

definition remote_call ::
    "('s, 'n) send_trait \<Rightarrow> locals \<Rightarrow> u8 \<Rightarrow> nat \<Rightarrow> u32 \<Rightarrow> (rpc_op \<Rightarrow> (bool \<times> rpc_op) res) \<Rightarrow> (reply_entry list \<Rightarrow> bool res)
      \<Rightarrow> ('s, 'g) rpc_core \<Rightarrow> 's \<Rightarrow> 'n \<Rightarrow> (('s, 'g) rpc_core \<times> 's \<times> 'n) res" where
  "remote_call T l cor rb i put_args check c s n =
     rbind (set_msg (MemBlock (l_ptr l) (l_buf l)) (RPCOp (l_header l))) (\<lambda>opn.
     let opn = set_corid (ucast cor) (set_rpc_id i (set_req opn)) in
     rbind (add_one_reply rb 9 opn (rc_station c)) (\<lambda>st.
     rbind (put_args opn) (\<lambda>(_, opn).
     rbind (check st) (\<lambda>ok. rassert ok
       (rbind (rpc_execute_w_key T 0 opn s n) (\<lambda>(r, s, n).
        rassert (code r = IO_Ok) (Inr (c\<lparr>rc_station := st\<rparr>, s, n))))))))"

definition remote_search ::
    "('s, 'n) send_trait \<Rightarrow> locals \<Rightarrow> u8 \<Rightarrow> nat \<Rightarrow> u64 \<Rightarrow> ('s, 'g) rpc_core \<Rightarrow> 's \<Rightarrow> 'n \<Rightarrow> (('s, 'g) rpc_core \<times> 's \<times> 'n) res" where
  "remote_search T l cor rb key c s n =
     remote_call T l cor rb RPC_GET (add_arg u64_pod key)
       (\<lambda>st. rbind (cor_ready (ucast cor) st) (\<lambda>ready. Inr (\<not> ready))) c s n"

definition remote_search_finish :: "nat \<Rightarrow> ('s, 'g) rpc_core \<Rightarrow> u64 option res" where
  "remote_search_finish rb c =
     rbind (obj_get reply_pod (rc_bufs c rb) 0) (\<lambda>r. Inr (if rv_status r then Some (rv_val r) else None))"

definition two_words :: "u64 \<Rightarrow> u64 \<Rightarrow> bytes res" where
  "two_words x y =
     rbind (serialize_to u64_pod x) (\<lambda>a. rbind (serialize_to u64_pod y) (\<lambda>b. Inr (a @ b)))"

definition remote_put ::
    "('s, 'n) send_trait \<Rightarrow> locals \<Rightarrow> u8 \<Rightarrow> nat \<Rightarrow> u64 \<Rightarrow> u64 \<Rightarrow> ('s, 'g) rpc_core \<Rightarrow> 's \<Rightarrow> 'n \<Rightarrow> (('s, 'g) rpc_core \<times> 's \<times> 'n) res" where
  "remote_put T l cor rb key val c s n =
     rbind (two_words key val) (\<lambda>data. remote_call T l cor rb RPC_PUT (add_opaque data) (\<lambda>_. Inr True) c s n)"

definition remote_update ::
    "('s, 'n) send_trait \<Rightarrow> locals \<Rightarrow> u8 \<Rightarrow> nat \<Rightarrow> u64 \<Rightarrow> u64 \<Rightarrow> ('s, 'g) rpc_core \<Rightarrow> 's \<Rightarrow> 'n \<Rightarrow> (('s, 'g) rpc_core \<times> 's \<times> 'n) res" where
  "remote_update T l cor rb key val c s n =
     rbind (two_words key val) (\<lambda>data. remote_call T l cor rb RPC_UPDATE (add_opaque data) (\<lambda>_. Inr True) c s n)"

definition remote_remove ::
    "('s, 'n) send_trait \<Rightarrow> locals \<Rightarrow> u8 \<Rightarrow> nat \<Rightarrow> u64 \<Rightarrow> ('s, 'g) rpc_core \<Rightarrow> 's \<Rightarrow> 'n \<Rightarrow> (('s, 'g) rpc_core \<times> 's \<times> 'n) res" where
  "remote_remove T l cor rb key c s n =
     rbind (serialize_to u64_pod key) (\<lambda>data. remote_call T l cor rb RPC_DELETE (add_opaque data) (\<lambda>_. Inr True) c s n)"

definition remote_scan ::
    "('s, 'n) send_trait \<Rightarrow> locals \<Rightarrow> u8 \<Rightarrow> nat \<Rightarrow> u64 \<Rightarrow> u64 \<Rightarrow> ('s, 'g) rpc_core \<Rightarrow> 's \<Rightarrow> 'n \<Rightarrow> (('s, 'g) rpc_core \<times> 's \<times> 'n) res" where
  "remote_scan T l cor rb key k c s n =
     rbind (two_words key k) (\<lambda>data. remote_call T l cor rb RPC_SCAN (add_opaque data) (\<lambda>_. Inr True) c s n)"

end
