(* ===== verification/Rolex_Service_Correct.thy ===== *)
theory Rolex_Service_Correct
  imports Rolex_Service
begin

text \<open>
  The calls of a compute node answer like the index of the memory node. A transport is used through
  the locale \<open>datagrams\<close>: a message that is sent is handed to the network as its bytes.
\<close>

section \<open>Headers\<close>

lemma header_word_back: "word_header (header_word h) (h_pad h) = h"
proof -
  have "ucast (header_word h) = h_type h" "ucast (drop_bit 2 (header_word h)) = h_rpc_id h"
    "ucast (drop_bit 7 (header_word h)) = h_payload h" "ucast (drop_bit 25 (header_word h)) = h_cor_id h"
    unfolding header_word_def by (rule bit_word_eqI; auto simp: bit_simps dest: bit_imp_le_length)+
  then show ?thesis by (simp add: word_header_def)
qed

interpretation header: pod_codec header_pod
  unfolding header_pod_def
  by (intro pod_codec_iso pod_codec_pair u32.pod_codec_axioms) (simp add: header_word_back)

lemma size_header [simp]: "size_of header_pod = 8" "length (to_bytes header_pod h) = 8"
  by (simp_all add: header.len) (simp_all add: header_pod_def)

interpretation bool: pod_codec bool_pod
  unfolding bool_pod_def by (rule pod_codec_iso [OF u8.pod_codec_axioms]) simp

interpretation reply: pod_codec reply_pod
  unfolding reply_pod_def
  by (intro pod_codec_iso pod_codec_pair bool.pod_codec_axioms u64.pod_codec_axioms) simp

lemma size_reply [simp]: "size_of reply_pod = 9" "length (to_bytes reply_pod r) = 9"
  by (simp_all add: reply.len) (simp_all add: reply_pod_def bool_pod_def)

lemma obj_get_front: "pod_codec p \<Longrightarrow> obj_get p (to_bytes p x @ rest) 0 = Inr x"
  by (simp add: obj_get_def mem_get_def pod_codec.len pod_codec.inv)

section \<open>Messages\<close>

definition rpc_msg :: "rpc_header \<Rightarrow> bytes \<Rightarrow> bytes" where
  "rpc_msg h data = to_bytes header_pod (h\<lparr>h_payload := of_nat (length data)\<rparr>) @ data"

lemma length_rpc_msg [simp]: "length (rpc_msg h data) = 8 + length data" by (simp add: rpc_msg_def)

lemma payload_length:
  assumes "n < 1000"
  shows "(ucast (ucast (of_nat (8 + n) :: u32) - 8 :: u64) :: 18 word) = of_nat n"
proof -
  have "(ucast (of_nat (8 + n) :: u32) :: u64) = of_nat (8 + n)"
    using assms by (simp only: unsigned_of_nat) (simp add: take_bit_nat_eq_self)
  then have "(ucast (of_nat (8 + n) :: u32) - 8 :: u64) = of_nat n" by simp
  then show ?thesis using assms by (simp add: unsigned_of_nat take_bit_nat_eq_self)
qed

lemma unat_payload: "n < 1000 \<Longrightarrow> unat (of_nat n :: 18 word) = n"
  by (simp add: unat_of_nat take_bit_nat_eq_self)

text \<open>An operation over a block of \<open>k\<close> bytes to which \<open>data\<close> was appended.\<close>

definition op_with :: "rpc_header \<Rightarrow> u64 \<Rightarrow> bytes \<Rightarrow> bytes \<Rightarrow> rpc_op" where
  "op_with h p buf data = \<lparr>op_header = h,
     op_msg = \<lparr>mb_ptr = p, mb_sz = of_nat (length buf), mb_mem = take 8 buf @ data @ drop (8 + length data) buf\<rparr>,
     op_cur = 8 + length data\<rparr>"

lemma set_msg_ok:
  "length buf = 64 \<Longrightarrow> set_msg (MemBlock p buf) (RPCOp h) = Inr (op_with h p buf [])"
  by (simp add: set_msg_def MemBlock_def RPCOp_def op_with_def)

lemma op_with_setters:
  "set_type t (op_with h p buf d) = op_with (h\<lparr>h_type := t\<rparr>) p buf d"
  "set_rpc_id i (op_with h p buf d) = op_with (h\<lparr>h_rpc_id := ucast i\<rparr>) p buf d"
  "set_corid j (op_with h p buf d) = op_with (h\<lparr>h_cor_id := ucast j\<rparr>) p buf d"
  "op_header (op_with h p buf d) = h"
  by (simp_all add: set_type_def set_rpc_id_def set_corid_def op_with_def)

lemma add_opaque_ok:
  "length buf = 64 \<Longrightarrow> length data \<le> 56 \<Longrightarrow> add_opaque data (op_with h p buf []) = Inr (True, op_with h p buf data)"
  by (simp add: add_opaque_def op_with_def cur_sz_def mem_put_def unat_of_nat take_bit_nat_eq_self)

lemma add_arg_opaque: "pod_codec q \<Longrightarrow> add_arg q x opn = add_opaque (to_bytes q x) opn"
  by (simp add: add_arg_def add_opaque_def obj_put_def pod_codec.len)

lemma finalize_ok:
  assumes "length buf = 64" "length data \<le> 56"
  obtains opn where "finalize (op_with h p buf data) = Inr opn" "block_bytes (op_msg opn) = rpc_msg h data"
    "mb_sz (op_msg opn) = of_nat (8 + length data)" "length (mb_mem (op_msg opn)) = 64" "mb_ptr (op_msg opn) = p"
proof -
  let ?h = "h\<lparr>h_payload := of_nat (length data)\<rparr>"
  let ?m = "to_bytes header_pod ?h @ data @ drop (8 + length data) buf"
  have h: "h\<lparr>h_payload := ucast (ucast (cur_sz (op_with h p buf data)) - 8 :: u64)\<rparr> = ?h"
    using payload_length [of "length data"] assms(2) by (simp add: cur_sz_def op_with_def)
  have put: "obj_put header_pod (mb_mem (op_msg (op_with h p buf data))) 0 ?h = Inr ?m"
    using assms by (simp add: obj_put_def mem_put_def op_with_def)
  have sz: "ucast (of_nat (length data) :: 18 word) + 8 = (of_nat (8 + length data) :: u32)"
    using assms(2) by (simp add: unsigned_of_nat take_bit_nat_eq_self)
  have f: "finalize (op_with h p buf data) = Inr \<lparr>op_header = ?h,
      op_msg = \<lparr>mb_ptr = p, mb_sz = of_nat (8 + length data), mb_mem = ?m\<rparr>, op_cur = 8 + length data\<rparr>"
    unfolding finalize_def Let_def op_with_setters h put rbind.simps using sz by (simp add: op_with_def)
  have u: "unat (of_nat (8 + length data) :: u32) = 8 + length data"
    by (rule unat_of_nat_32) (use assms(2) in simp)
  show ?thesis
    by (rule that [OF f]) (use assms u in \<open>simp_all add: block_bytes_def rpc_msg_def del: of_nat_add\<close>)
qed

section \<open>Transports that deliver\<close>

text \<open>\<open>sent n\<close> are the messages handed to the network so far; \<open>usable s n\<close> holds in every state a
  session reaches by sending.\<close>

locale datagrams =
  fixes T :: "('s, 'n) send_trait" and sent :: "'n \<Rightarrow> bytes list" and usable :: "'s \<Rightarrow> 'n \<Rightarrow> bool"
  assumes send: "usable s n \<Longrightarrow> 8 \<le> unat (mb_sz b) \<Longrightarrow> unat (mb_sz b) \<le> 64 \<Longrightarrow> length (mb_mem b) = 64
      \<Longrightarrow> \<exists>s' n'. st_send T b s n = Inr (io_ok [], s', n') \<and> sent n' = sent n @ [block_bytes b] \<and> usable s' n'"
    and send_w_key: "usable s n \<Longrightarrow> 8 \<le> unat (mb_sz b) \<Longrightarrow> unat (mb_sz b) \<le> 64 \<Longrightarrow> length (mb_mem b) = 64
      \<Longrightarrow> \<exists>s' n'. st_send_w_key T b k s n = Inr (io_ok [], s', n') \<and> sent n' = sent n @ [block_bytes b] \<and> usable s' n'"
begin

lemma execute_ok:
  assumes "usable s n" "length buf = 64" "length data \<le> 56"
  obtains s' n' where "rpc_execute T (op_with h p buf data) s n = Inr (io_ok [], s', n')"
    "sent n' = sent n @ [rpc_msg h data]" "usable s' n'"
proof -
  obtain opn where f: "finalize (op_with h p buf data) = Inr opn" "block_bytes (op_msg opn) = rpc_msg h data"
    "mb_sz (op_msg opn) = of_nat (8 + length data)" "length (mb_mem (op_msg opn)) = 64"
    by (rule finalize_ok [OF assms(2,3)])
  have u: "unat (of_nat (8 + length data) :: u32) = 8 + length data"
    by (rule unat_of_nat_32) (use assms(3) in simp)
  obtain s' n' where "st_send T (op_msg opn) s n = Inr (io_ok [], s', n')"
    "sent n' = sent n @ [block_bytes (op_msg opn)]" "usable s' n'"
    using send [OF assms(1), of "op_msg opn"] assms(3) f(4) unfolding f(3) u by auto
  then show ?thesis by (intro that) (simp_all add: rpc_execute_def f(1,2))
qed

lemma execute_w_key_ok:
  assumes "usable s n" "length buf = 64" "length data \<le> 56"
  obtains s' n' where "rpc_execute_w_key T k (op_with h p buf data) s n = Inr (io_ok [], s', n')"
    "sent n' = sent n @ [rpc_msg h data]" "usable s' n'"
proof -
  obtain opn where f: "finalize (op_with h p buf data) = Inr opn" "block_bytes (op_msg opn) = rpc_msg h data"
    "mb_sz (op_msg opn) = of_nat (8 + length data)" "length (mb_mem (op_msg opn)) = 64"
    by (rule finalize_ok [OF assms(2,3)])
  have u: "unat (of_nat (8 + length data) :: u32) = 8 + length data"
    by (rule unat_of_nat_32) (use assms(3) in simp)
  obtain s' n' where "st_send_w_key T (op_msg opn) k s n = Inr (io_ok [], s', n')"
    "sent n' = sent n @ [block_bytes (op_msg opn)]" "usable s' n'"
    using send_w_key [OF assms(1), of "op_msg opn" k] assms(3) f(4) unfolding f(3) u by auto
  then show ?thesis by (intro that) (simp_all add: rpc_execute_w_key_def f(1,2))
qed

end


section \<open>Receiving a message\<close>

definition msg_block :: "u64 \<Rightarrow> bytes \<Rightarrow> mem_block" where
  "msg_block p bs = \<lparr>mb_ptr = p, mb_sz = of_nat (length bs), mb_mem = bs\<rparr>"

text \<open>The payload of a message that is followed by the rest of the receive buffer.\<close>

definition payload_block :: "u64 \<Rightarrow> bytes \<Rightarrow> bytes \<Rightarrow> mem_block" where
  "payload_block p data rest = \<lparr>mb_ptr = p + 8, mb_sz = of_nat (length data), mb_mem = data @ rest\<rparr>"

lemma handle_msg_parse:
  assumes "length data \<le> 56" "length rest \<le> 4000"
  shows "handle_msg ai sid (msg_block p (rpc_msg h data @ rest)) c g =
    (let h = h\<lparr>h_payload := of_nat (length data)\<rparr>; payload = payload_block p data rest in
     if h_type h = Req then rbind (call_back h payload sid c g) (\<lambda>(c, g). Inr (c, None, g))
     else if h_type h = Reply then
       rbind (append_reply (ucast (h_cor_id h)) data (rc_station c) (rc_bufs c)) (\<lambda>(ok, st, bufs).
       rassert ok
         (rbind (cor_ready (ucast (h_cor_id h)) st) (\<lambda>ready.
            Inr (c\<lparr>rc_station := st, rc_bufs := bufs\<rparr>, if ready then Some (ucast (h_cor_id h)) else None, g))))
     else if h_type h = Connect then
       rbind (ai sid payload (rc_sessions c) g) (\<lambda>(ss, g). Inr (c\<lparr>rc_sessions := ss\<rparr>, None, g))
     else Inl AssertFailed)"
proof -
  let ?m = "msg_block p (rpc_msg h data @ rest)" and ?h = "h\<lparr>h_payload := of_nat (length data)\<rparr>"
  have sz: "unat (mb_sz ?m) = 8 + length data + length rest"
    using assms unat_of_nat_32 [of "8 + length data + length rest"] by (simp add: msg_block_def)
  have get: "obj_get header_pod (mb_mem ?m) 0 = Inr ?h"
    by (simp add: msg_block_def rpc_msg_def obj_get_front [OF header.pod_codec_axioms])
  have mem: "drop 8 (mb_mem ?m) = data @ rest" by (simp add: msg_block_def rpc_msg_def)
  have u: "unat (h_payload ?h) = length data" using unat_payload [of "length data"] assms(1) by simp
  have uc: "ucast (h_payload ?h) = (of_nat (length data) :: u32)"
    using assms(1) by (simp add: unsigned_of_nat take_bit_nat_eq_self)
  have pb: "\<lparr>mb_ptr = mb_ptr ?m + 8, mb_sz = ucast (h_payload ?h), mb_mem = drop 8 (mb_mem ?m)\<rparr> = payload_block p data rest"
    unfolding mem uc by (simp add: payload_block_def msg_block_def)
  have bb: "block_bytes (payload_block p data rest) = data"
    using assms(1) unat_of_nat_32 [of "length data"] by (simp add: block_bytes_def payload_block_def)
  have b: "8 \<le> unat (mb_sz ?m)" "unat (h_payload ?h) + 8 \<le> unat (mb_sz ?m)" unfolding sz u by simp_all
  show ?thesis
    unfolding handle_msg_def rassert_def get rbind.simps Let_def pb bb using b by simp
qed

lemma sint_ucast_8: "sint (ucast (c :: u8) :: u32) = int (unat c)"
proof -
  have "unat c < 2 ^ 31" using unat_u8_less [of c] by simp
  from sint_of_nat_i32 [OF this] show ?thesis by simp
qed

lemma ucast_7_32:
  assumes "cor < (128 :: u8)"
  shows "ucast (ucast cor :: 7 word) = (ucast cor :: u32)"
proof -
  have u: "unat cor < 128" using assms by (simp add: word_less_nat_alt)
  have 1: "unat (ucast cor :: 7 word) = unat cor" using u by (simp add: unsigned_ucast_eq take_bit_nat_eq_self)
  have "unat (ucast x :: u32) = unat x" for x :: "7 word"
    using unsigned_less [of x, where 'a = nat] by (simp only: unsigned_ucast_eq) (simp add: take_bit_nat_eq_self)
  then show ?thesis using 1 unat_ucast_u8_u32 [of cor] by (metis word_unat_eq_iff)
qed

text \<open>A reply to a waiting coroutine fills its buffer.\<close>

lemma reply_received:
  assumes "length (rc_bufs c rb) = 9" "unat cor < length (rc_station c)" "cor < 128"
    and "rc_station c ! unat cor = ReplyEntry rb 9" "length rest \<le> 4000"
    and h: "h_type h = Reply" "h_cor_id h = ucast (cor :: u8)"
  shows "handle_msg ai sid (msg_block p (rpc_msg h (to_bytes reply_pod v) @ rest)) c g =
    Inr (c\<lparr>rc_station := (rc_station c)[unat cor := \<lparr>rp_pending = 0, rp_buf = rb, rp_sz = 9, rp_pos = 9\<rparr>],
           rc_bufs := (rc_bufs c)(rb := to_bytes reply_pod v)\<rparr>, Some (ucast cor), g)"
proof -
  have u: "unat (cor :: u8) < 128" using assms(3) by (simp add: word_less_nat_alt)
  have c32: "ucast (ucast cor :: 7 word) = (ucast cor :: u32)" by (rule ucast_7_32 [OF assms(3)])
  have s: "sint (ucast cor :: u32) = int (unat cor)"
    by (rule sint_ucast_8)
  have e: "rp_at (rc_station c) (ucast cor) = Inr (ReplyEntry rb 9)"
    using assms(2,4) by (simp add: rp_at_def s)
  have put: "mem_put (rc_bufs c rb) 0 (to_bytes reply_pod v) = Inr (to_bytes reply_pod v)"
    using assms(1) by (simp add: mem_put_def)
  let ?st = "(rc_station c)[unat cor := \<lparr>rp_pending = 0, rp_buf = rb, rp_sz = 9, rp_pos = 9\<rparr>]"
  have ap: "append_reply (ucast cor) (to_bytes reply_pod v) (rc_station c) (rc_bufs c) =
      Inr (True, ?st, (rc_bufs c)(rb := to_bytes reply_pod v))"
    by (simp add: append_reply_def cor_ready_def e put ReplyEntry_def s)
  have rd: "cor_ready (ucast cor) ?st = Inr True"
    using assms(2) by (simp add: cor_ready_def rp_at_def s)
  show ?thesis
    using assms(5) by (subst handle_msg_parse) (simp_all add: h c32 ap rd Reply_def Req_def)
qed

section \<open>Sending requests and replies\<close>

definition request_header :: "locals \<Rightarrow> u8 \<Rightarrow> u32 \<Rightarrow> rpc_header" where
  "request_header l cor i = (l_header l)\<lparr>h_type := Req, h_rpc_id := ucast i, h_cor_id := ucast cor\<rparr>"

definition reply_header :: "locals \<Rightarrow> rpc_header \<Rightarrow> rpc_header" where
  "reply_header l h = (l_header l)\<lparr>h_type := Reply, h_cor_id := h_cor_id h\<rparr>"

text \<open>Coroutine \<open>cor\<close> has a slot, waits for nothing and brings the buffer \<open>rb\<close>.\<close>

definition can_call :: "u8 \<Rightarrow> nat \<Rightarrow> ('s, 'g) rpc_core \<Rightarrow> bool" where
  "can_call cor rb c \<longleftrightarrow> cor < 128 \<and> unat cor < length (rc_station c) \<and> length (rc_station c) < 2 ^ 31
     \<and> rp_pending (rc_station c ! unat cor) = 0 \<and> length (rc_bufs c rb) = 9"

lemma cor_ids:
  assumes "cor < (128 :: u8)"
  shows "ucast (ucast cor :: u32) = (ucast cor :: 7 word)" "ucast (ucast cor :: 7 word) = (ucast cor :: u32)"
    "sint (ucast cor :: u32) = int (unat cor)" "unat (scast (ucast cor :: u32) :: u64) = unat cor"
proof -
  have u: "unat cor < 128" using assms by (simp add: word_less_nat_alt)
  show "ucast (ucast cor :: u32) = (ucast cor :: 7 word)" by (rule bit_word_eqI) (auto simp: bit_simps)
  show "ucast (ucast cor :: 7 word) = (ucast cor :: u32)"
    by (rule ucast_7_32 [OF assms])
  show s: "sint (ucast cor :: u32) = int (unat cor)" by (rule sint_ucast_8)
  have "scast (ucast cor :: u32) = (of_int (int (unat cor)) :: u64)" unfolding s [symmetric] by simp
  then show "unat (scast (ucast cor :: u32) :: u64) = unat cor" using unat_u8_less [of cor] by (simp add: unsigned_ucast_eq take_bit_nat_eq_self)
qed

context datagrams
begin

lemma request_sent:
  assumes "usable s n" "length (l_buf l) = 64" "length data \<le> 56" "can_call cor rb c"
    and "check ((rc_station c)[unat cor := ReplyEntry rb 9]) = Inr True"
  obtains s' n' where
    "remote_call T l cor rb i (add_opaque data) check c s n =
       Inr (c\<lparr>rc_station := (rc_station c)[unat cor := ReplyEntry rb 9]\<rparr>, s', n')"
    "sent n' = sent n @ [rpc_msg (request_header l cor i) data]" "usable s' n'"
proof -
  have c: "cor < 128" "unat cor < length (rc_station c)" "rp_pending (rc_station c ! unat cor) = 0"
    using assms(4) by (auto simp: can_call_def)
  note ids = cor_ids [OF c(1)]
  let ?h = "request_header l cor i"
  have h: "set_corid (ucast cor) (set_rpc_id i (set_req (op_with (l_header l) (l_ptr l) (l_buf l) []))) =
      op_with ?h (l_ptr l) (l_buf l) []"
    by (simp add: set_req_def op_with_setters request_header_def ids)
  have st: "add_one_reply rb 9 (op_with ?h (l_ptr l) (l_buf l) []) (rc_station c) =
      Inr ((rc_station c)[unat cor := ReplyEntry rb 9])"
    using c by (simp add: add_one_reply_def add_reply_entry_def op_with_setters request_header_def ids add_pending_reply_def)
  obtain s' n' where e: "rpc_execute_w_key T 0 (op_with ?h (l_ptr l) (l_buf l) data) s n = Inr (io_ok [], s', n')"
    "sent n' = sent n @ [rpc_msg ?h data]" "usable s' n'"
    by (rule execute_w_key_ok [OF assms(1-3)])
  have "remote_call T l cor rb i (add_opaque data) check c s n =
      Inr (c\<lparr>rc_station := (rc_station c)[unat cor := ReplyEntry rb 9]\<rparr>, s', n')"
    unfolding remote_call_def set_msg_ok [OF assms(2)] rbind.simps Let_def h st add_opaque_ok [OF assms(2,3)] prod.case
      assms(5) rassert_simps e(1) by (simp add: io_ok_def)
  then show ?thesis using e by (intro that)
qed

lemma reply_sent:
  fixes g :: "'n service"
  assumes "usable s (sv_net g)" "length (l_buf l) = 64"
  shows "\<exists>s' n'. send_reply T l h v (Some s) g = Inr (Some s', g\<lparr>sv_net := n'\<rparr>) \<and> usable s' n'
    \<and> sent n' = sent (sv_net g) @ [rpc_msg (reply_header l h) (to_bytes reply_pod v)]"
proof -
  have h: "(l_header l)\<lparr>h_type := Reply, h_cor_id := ucast (ucast (h_cor_id h) :: u32)\<rparr> = reply_header l h"
    by (simp add: reply_header_def ucast_up_ucast_id is_up)
  have len: "length (to_bytes reply_pod v) \<le> 56" by simp
  obtain s' n' where e: "rpc_execute T (op_with (reply_header l h) (l_ptr l) (l_buf l) (to_bytes reply_pod v)) s (sv_net g)
      = Inr (io_ok [], s', n')"
    "sent n' = sent (sv_net g) @ [rpc_msg (reply_header l h) (to_bytes reply_pod v)]" "usable s' n'"
    by (rule execute_ok [OF assms len])
  have "send_reply T l h v (Some s) g = Inr (Some s', g\<lparr>sv_net := n'\<rparr>)"
    unfolding send_reply_def set_msg_ok [OF assms(2)] rbind.simps set_reply_def op_with_setters
      add_arg_opaque [OF reply.pod_codec_axioms] add_opaque_ok [OF assms(2) len] prod.case rassert_simps option.case h e(1)
    by (simp add: io_ok_def)
  then show ?thesis using e(2,3) by blast
qed

end

section \<open>A call and its answer\<close>

definition service_callbacks :: "('s, 'n) send_trait \<Rightarrow> locals \<Rightarrow> ('s, 'n service) rpc_func list" where
  "service_callbacks T l = [rolex_get_callback T l, rolex_put_callback T l, rolex_update_callback T l,
     rolex_remove_callback T l, rolex_scan_callback T l]"

lemma reg_callbacks_ok:
  "rc_callbacks c = [] \<Longrightarrow> reg_callbacks T l c = Inr (c\<lparr>rc_callbacks := service_callbacks T l\<rparr>)"
  by (simp add: reg_callbacks_def reg_expect_def reg_callback_def service_callbacks_def
      RPC_GET_def RPC_PUT_def RPC_UPDATE_def RPC_DELETE_def RPC_SCAN_def)

lemma call_back_ok:
  assumes "rc_callbacks c = service_callbacks T l" "rc_sessions c sid = Some (Some s)" "unat (h_rpc_id h) < 5"
    and "(service_callbacks T l ! unat (h_rpc_id h)) h args (Some s) g = Inr (Some s', g')"
  shows "call_back h args sid c g = Inr (c\<lparr>rc_sessions := (rc_sessions c)(sid \<mapsto> Some s')\<rparr>, g')"
  using assms by (simp add: call_back_def Let_def service_callbacks_def try_abort_def)


lemma first_word:
  assumes "length d \<le> 48"
  shows "obj_get u64_pod (mb_mem (payload_block p (to_bytes u64_pod k @ d) rest)) 0 = Inr k"
    and "deref (interpret_as u64_pod 0 (payload_block p (to_bytes u64_pod k @ d) rest)) = Inr k"
proof -
  show 1: "obj_get u64_pod (mb_mem (payload_block p (to_bytes u64_pod k @ d) rest)) 0 = Inr k"
    by (simp add: payload_block_def obj_get_front [OF u64.pod_codec_axioms])
  have "\<not> unat (of_nat (8 + length d) :: u32) < 8" using assms unat_of_nat_32 [of "8 + length d"] by simp
  then show "deref (interpret_as u64_pod 0 (payload_block p (to_bytes u64_pod k @ d) rest)) = Inr k"
    using 1 by (simp add: interpret_as_def deref_def payload_block_def)
qed

lemma second_word:
  "deref (interpret_as u64_pod 8 (payload_block p (to_bytes u64_pod k @ to_bytes u64_pod v) rest)) = Inr v"
proof -
  have "take 8 (to_bytes u64_pod v @ rest) = to_bytes u64_pod v" by simp
  then show ?thesis
    by (simp add: interpret_as_def deref_def payload_block_def obj_get_def mem_get_def u64.inv)
qed

text \<open>One call: the request, the callback that answers \<open>v\<close>, and the reply.\<close>

lemma exchange:
  fixes g :: "'n service"
  assumes client: "datagrams T sent usable" "usable cs cn" "length (l_buf l) = 64" "can_call cor rb c"
    and server: "rc_callbacks sc = service_callbacks T' l'" "rc_sessions sc sid = Some (Some ss)"
    and i: "unat i < 5" and data: "length data \<le> 56" and junk: "length junk \<le> 4000" "length junk' \<le> 4000"
    and check: "check ((rc_station c)[unat cor := ReplyEntry rb 9]) = Inr True"
    and answers: "\<And>h. \<exists>ss' g1. (service_callbacks T' l' ! unat i) h (payload_block p data junk) (Some ss) g = Inr (Some ss', g1)
      \<and> P g1 \<and> sent' (sv_net g1) = sent' (sv_net g) @ [rpc_msg (reply_header l' h) (to_bytes reply_pod v)]"
  shows "\<exists>c1 cs1 cn1 m sc1 g1 m' c2. remote_call T l cor rb i (add_opaque data) check c cs cn = Inr (c1, cs1, cn1)
    \<and> sent cn1 = sent cn @ [m] \<and> handle_msg ai sid (msg_block p (m @ junk)) sc g = Inr (sc1, None, g1) \<and> P g1
    \<and> sent' (sv_net g1) = sent' (sv_net g) @ [m']
    \<and> handle_msg ai' sid' (msg_block p' (m' @ junk')) c1 x = Inr (c2, Some (ucast cor), x)
    \<and> rc_bufs c2 rb = to_bytes reply_pod v"
proof -
  let ?st = "(rc_station c)[unat cor := ReplyEntry rb 9]" and ?h = "request_header l cor i"
  let ?c1 = "c\<lparr>rc_station := ?st\<rparr>" and ?hd = "?h\<lparr>h_payload := of_nat (length data)\<rparr>"
  obtain cs1 cn1 where req: "remote_call T l cor rb i (add_opaque data) check c cs cn = Inr (?c1, cs1, cn1)"
    "sent cn1 = sent cn @ [rpc_msg ?h data]"
    by (rule datagrams.request_sent [where check = check, OF client(1,2,3) data client(4) check])
  have id5: "unat (h_rpc_id ?h) = unat i"
    using i by (simp add: request_header_def unsigned_ucast_eq take_bit_nat_eq_self)
  obtain ss' g1 where cb: "(service_callbacks T' l' ! unat i) ?hd (payload_block p data junk) (Some ss) g = Inr (Some ss', g1)"
    "P g1" "sent' (sv_net g1) = sent' (sv_net g) @ [rpc_msg (reply_header l' ?hd) (to_bytes reply_pod v)]"
    using answers by blast
  have "call_back ?hd (payload_block p data junk) sid sc g = Inr (sc\<lparr>rc_sessions := (rc_sessions sc)(sid \<mapsto> Some ss')\<rparr>, g1)"
    by (rule call_back_ok [OF server]) (use i cb(1) in \<open>simp_all add: id5\<close>)
  then have served: "handle_msg ai sid (msg_block p (rpc_msg ?h data @ junk)) sc g =
      Inr (sc\<lparr>rc_sessions := (rc_sessions sc)(sid \<mapsto> Some ss')\<rparr>, None, g1)"
    unfolding handle_msg_parse [OF data junk(1)] Let_def by (simp add: request_header_def)
  have c: "length (rc_bufs ?c1 rb) = 9" "unat cor < length (rc_station ?c1)" "cor < 128"
    "rc_station ?c1 ! unat cor = ReplyEntry rb 9"
    using client(4) by (auto simp: can_call_def)
  have h: "h_type (reply_header l' ?hd) = Reply" "h_cor_id (reply_header l' ?hd) = ucast cor"
    by (simp_all add: reply_header_def request_header_def)
  note got = reply_received [OF c junk(2) h, of ai' sid' p' v x]
  show ?thesis
    by (intro exI conjI, rule req(1), rule req(2), rule served, rule cb(2), rule cb(3), rule got) simp
qed


lemma search_exchange:
  fixes g :: "'n service" and c :: "('cs, 'x) rpc_core"
  assumes client: "datagrams T sent usable" "usable cs cn" "length (l_buf l) = 64" "can_call cor rb c"
    and server: "datagrams T' sent' usable'" "usable' ss (sv_net g)" "length (l_buf l') = 64"
      "rc_callbacks sc = service_callbacks T' l'" "rc_sessions sc sid = Some (Some ss)"
    and search: "rx_search (sv_index g) (sv_rmem g) key = Inr r"
    and junk: "length junk \<le> 4000" "length junk' \<le> 4000"
  shows "\<exists>c1 cs1 cn1 m sc1 g1 m' c2. remote_search T l cor rb key c cs cn = Inr (c1, cs1, cn1)
    \<and> sent cn1 = sent cn @ [m] \<and> handle_msg ai sid (msg_block p (m @ junk)) sc g = Inr (sc1, None, g1)
    \<and> (sv_index g1 = sv_index g \<and> sv_rmem g1 = sv_rmem g) \<and> sent' (sv_net g1) = sent' (sv_net g) @ [m']
    \<and> handle_msg ai' sid' (msg_block p' (m' @ junk')) c1 x = Inr (c2, Some (ucast cor), x)
    \<and> remote_search_finish rb c2 = Inr r"
proof -
  let ?v = "case r of Some v \<Rightarrow> \<lparr>rv_status = True, rv_val = v\<rparr> | None \<Rightarrow> \<lparr>rv_status = False, rv_val = 1234\<rparr>"
  have check: "rbind (cor_ready (ucast cor) ((rc_station c)[unat cor := ReplyEntry rb 9])) (\<lambda>ready. Inr (\<not> ready)) = Inr True"
    using client(4) by (simp add: can_call_def cor_ready_def rp_at_def sint_ucast_8 ReplyEntry_def)
  have answers: "\<exists>ss' g1. (service_callbacks T' l' ! unat RPC_GET) h (payload_block p (to_bytes u64_pod key) junk) (Some ss) g = Inr (Some ss', g1)
      \<and> (sv_index g1 = sv_index g \<and> sv_rmem g1 = sv_rmem g)
      \<and> sent' (sv_net g1) = sent' (sv_net g) @ [rpc_msg (reply_header l' h) (to_bytes reply_pod ?v)]" for h
  proof -
    obtain ss' n' where rs: "send_reply T' l' h ?v (Some ss) g = Inr (Some ss', g\<lparr>sv_net := n'\<rparr>)"
      "sent' n' = sent' (sv_net g) @ [rpc_msg (reply_header l' h) (to_bytes reply_pod ?v)]"
      using datagrams.reply_sent [OF server(1) server(2,3), of h ?v] by blast
    have "rolex_get_callback T' l' h (payload_block p (to_bytes u64_pod key) junk) (Some ss) g = Inr (Some ss', g\<lparr>sv_net := n'\<rparr>)"
      using first_word(1) [of "[]" p key junk] rs(1) by (simp add: rolex_get_callback_def search payload_block_def)
    then show ?thesis using rs(2)
      by (intro exI [of _ ss'] exI [of _ "g\<lparr>sv_net := n'\<rparr>"] conjI) (simp_all add: service_callbacks_def RPC_GET_def)
  qed
  have i: "unat RPC_GET < 5" by (simp add: RPC_GET_def)
  have len: "length (to_bytes u64_pod key) \<le> 56" by simp
  note ex = exchange [where P = "\<lambda>g1. sv_index g1 = sv_index g \<and> sv_rmem g1 = sv_rmem g" and v = ?v
        and check = "\<lambda>st. rbind (cor_ready (ucast cor) st) (\<lambda>ready. Inr (\<not> ready))",
      OF client server(4,5) i len junk check answers, of ai ai' sid' p' x]
  have fin: "rc_bufs c2 rb = to_bytes reply_pod ?v \<Longrightarrow> remote_search_finish rb c2 = Inr r" for c2 :: "('cs, 'x) rpc_core"
    using obj_get_front [OF reply.pod_codec_axioms, of ?v "[]"]
    by (simp add: remote_search_finish_def split: option.splits)
  show ?thesis
    unfolding remote_search_def add_arg_opaque [OF u64.pod_codec_axioms, abs_def] using ex fin by blast
qed


text \<open>The three calls that write; the reply says what the index answered, but for \<open>put\<close>.\<close>

lemma write_answers:
  fixes g :: "'n service"
  assumes server: "datagrams T' sent' usable'" "usable' ss (sv_net g)" "length (l_buf l') = 64"
    and two: "data = to_bytes u64_pod key @ to_bytes u64_pod val" and one: "data1 = to_bytes u64_pod key"
  shows "rx_insert (sv_index g) (sv_rmem g) key val = Inr (idx, rm, ok) \<Longrightarrow>
      \<exists>ss' g1. (service_callbacks T' l' ! unat RPC_PUT) h (payload_block p data junk) (Some ss) g = Inr (Some ss', g1)
        \<and> (sv_index g1 = idx \<and> sv_rmem g1 = rm)
        \<and> sent' (sv_net g1) = sent' (sv_net g) @ [rpc_msg (reply_header l' h) (to_bytes reply_pod (l_reply l'))]"
    and "rx_update (sv_index g) (sv_rmem g) key val = Inr (idx, rm, ok) \<Longrightarrow>
      \<exists>ss' g1. (service_callbacks T' l' ! unat RPC_UPDATE) h (payload_block p data junk) (Some ss) g = Inr (Some ss', g1)
        \<and> (sv_index g1 = idx \<and> sv_rmem g1 = rm)
        \<and> sent' (sv_net g1) = sent' (sv_net g) @ [rpc_msg (reply_header l' h) (to_bytes reply_pod \<lparr>rv_status = ok, rv_val = val\<rparr>)]"
    and "rx_remove (sv_index g) (sv_rmem g) key = Inr (idx, rm, ok) \<Longrightarrow>
      \<exists>ss' g1. (service_callbacks T' l' ! unat RPC_DELETE) h (payload_block p data1 junk) (Some ss) g = Inr (Some ss', g1)
        \<and> (sv_index g1 = idx \<and> sv_rmem g1 = rm)
        \<and> sent' (sv_net g1) = sent' (sv_net g) @ [rpc_msg (reply_header l' h) (to_bytes reply_pod \<lparr>rv_status = ok, rv_val = 0\<rparr>)]"
proof -
  let ?g = "g\<lparr>sv_index := idx, sv_rmem := rm\<rparr>"
  have reply: "\<exists>ss' n'. send_reply T' l' h v (Some ss) ?g = Inr (Some ss', ?g\<lparr>sv_net := n'\<rparr>)
      \<and> sent' n' = sent' (sv_net g) @ [rpc_msg (reply_header l' h) (to_bytes reply_pod v)]" for v
    using datagrams.reply_sent [OF server(1) _ server(3), of ss ?g h v] server(2) by auto
  have sz: "mb_sz (payload_block p data junk) = 16" "mb_sz (payload_block p data1 junk) = 8"
    by (simp_all add: payload_block_def two one)
  have key: "deref (interpret_as u64_pod 0 (payload_block p data junk)) = Inr key"
    "deref (interpret_as u64_pod 0 (payload_block p data1 junk)) = Inr key"
    using first_word(2) [of "to_bytes u64_pod val" p key junk] first_word(2) [of "[]" p key junk] by (simp_all add: two one)
  have val: "deref (interpret_as u64_pod 8 (payload_block p data junk)) = Inr val" unfolding two by (rule second_word)
  note cbs = service_callbacks_def RPC_PUT_def RPC_UPDATE_def RPC_DELETE_def
    rolex_put_callback_def rolex_update_callback_def rolex_remove_callback_def sz key val
  show "rx_insert (sv_index g) (sv_rmem g) key val = Inr (idx, rm, ok) \<Longrightarrow>
      \<exists>ss' g1. (service_callbacks T' l' ! unat RPC_PUT) h (payload_block p data junk) (Some ss) g = Inr (Some ss', g1)
        \<and> (sv_index g1 = idx \<and> sv_rmem g1 = rm)
        \<and> sent' (sv_net g1) = sent' (sv_net g) @ [rpc_msg (reply_header l' h) (to_bytes reply_pod (l_reply l'))]"
    using reply [of "l_reply l'"] by (auto simp: cbs)
  show "rx_update (sv_index g) (sv_rmem g) key val = Inr (idx, rm, ok) \<Longrightarrow>
      \<exists>ss' g1. (service_callbacks T' l' ! unat RPC_UPDATE) h (payload_block p data junk) (Some ss) g = Inr (Some ss', g1)
        \<and> (sv_index g1 = idx \<and> sv_rmem g1 = rm)
        \<and> sent' (sv_net g1) = sent' (sv_net g) @ [rpc_msg (reply_header l' h) (to_bytes reply_pod \<lparr>rv_status = ok, rv_val = val\<rparr>)]"
    using reply [of "\<lparr>rv_status = ok, rv_val = val\<rparr>"] by (auto simp: cbs)
  show "rx_remove (sv_index g) (sv_rmem g) key = Inr (idx, rm, ok) \<Longrightarrow>
      \<exists>ss' g1. (service_callbacks T' l' ! unat RPC_DELETE) h (payload_block p data1 junk) (Some ss) g = Inr (Some ss', g1)
        \<and> (sv_index g1 = idx \<and> sv_rmem g1 = rm)
        \<and> sent' (sv_net g1) = sent' (sv_net g) @ [rpc_msg (reply_header l' h) (to_bytes reply_pod \<lparr>rv_status = ok, rv_val = 0\<rparr>)]"
    using reply [of "\<lparr>rv_status = ok, rv_val = 0\<rparr>"] by (auto simp: cbs)
qed


lemma write_exchange:
  fixes g :: "'n service"
  assumes client: "datagrams T sent usable" "usable cs cn" "length (l_buf l) = 64" "can_call cor rb c"
    and server: "datagrams T' sent' usable'" "usable' ss (sv_net g)" "length (l_buf l') = 64"
      "rc_callbacks sc = service_callbacks T' l'" "rc_sessions sc sid = Some (Some ss)"
    and junk: "length junk \<le> 4000" "length junk' \<le> 4000"
    and op: "(i = RPC_PUT \<and> call = remote_put T l cor rb key val \<and> rx_insert (sv_index g) (sv_rmem g) key val = Inr (idx, rm, ok) \<and> v = l_reply l')
      \<or> (i = RPC_UPDATE \<and> call = remote_update T l cor rb key val \<and> rx_update (sv_index g) (sv_rmem g) key val = Inr (idx, rm, ok)
          \<and> v = \<lparr>rv_status = ok, rv_val = val\<rparr>)
      \<or> (i = RPC_DELETE \<and> call = remote_remove T l cor rb key \<and> rx_remove (sv_index g) (sv_rmem g) key = Inr (idx, rm, ok)
          \<and> v = \<lparr>rv_status = ok, rv_val = 0\<rparr>)"
  shows "\<exists>c1 cs1 cn1 m sc1 g1 m' c2. call c cs cn = Inr (c1, cs1, cn1)
    \<and> sent cn1 = sent cn @ [m] \<and> handle_msg ai sid (msg_block p (m @ junk)) sc g = Inr (sc1, None, g1)
    \<and> (sv_index g1 = idx \<and> sv_rmem g1 = rm) \<and> sent' (sv_net g1) = sent' (sv_net g) @ [m']
    \<and> handle_msg ai' sid' (msg_block p' (m' @ junk')) c1 x = Inr (c2, Some (ucast cor), x)
    \<and> rc_bufs c2 rb = to_bytes reply_pod v"
proof -
  define data where "data = (if i = RPC_DELETE then to_bytes u64_pod key else to_bytes u64_pod key @ to_bytes u64_pod val)"
  have i: "unat i < 5" using op by (auto simp: RPC_PUT_def RPC_UPDATE_def RPC_DELETE_def)
  have len: "length data \<le> 56" by (simp add: data_def)
  have two: "two_words key val = Inr (to_bytes u64_pod key @ to_bytes u64_pod val)"
    by (simp add: two_words_def u64.serialize_to_ok)
  have call: "call c cs cn = remote_call T l cor rb i (add_opaque data) (\<lambda>_. Inr True) c cs cn"
    using op two by (auto simp: remote_put_def remote_update_def remote_remove_def u64.serialize_to_ok data_def
        RPC_PUT_def RPC_UPDATE_def RPC_DELETE_def)
  note w = write_answers [OF server(1-3), of "to_bytes u64_pod key @ to_bytes u64_pod val" key val "to_bytes u64_pod key" idx rm ok,
      OF refl refl]
  have answers: "\<exists>ss' g1. (service_callbacks T' l' ! unat i) h (payload_block p data junk) (Some ss) g = Inr (Some ss', g1)
      \<and> (sv_index g1 = idx \<and> sv_rmem g1 = rm)
      \<and> sent' (sv_net g1) = sent' (sv_net g) @ [rpc_msg (reply_header l' h) (to_bytes reply_pod v)]" for h
    using op
  proof (elim disjE conjE)
    assume a: "i = RPC_PUT" "rx_insert (sv_index g) (sv_rmem g) key val = Inr (idx, rm, ok)" "v = l_reply l'"
    have d: "data = to_bytes u64_pod key @ to_bytes u64_pod val" by (simp add: data_def a RPC_PUT_def RPC_DELETE_def)
    show ?thesis unfolding d a(1,3) by (rule w(1) [OF a(2)])
  next
    assume a: "i = RPC_UPDATE" "rx_update (sv_index g) (sv_rmem g) key val = Inr (idx, rm, ok)" "v = \<lparr>rv_status = ok, rv_val = val\<rparr>"
    have d: "data = to_bytes u64_pod key @ to_bytes u64_pod val" by (simp add: data_def a RPC_UPDATE_def RPC_DELETE_def)
    show ?thesis unfolding d a(1,3) by (rule w(2) [OF a(2)])
  next
    assume a: "i = RPC_DELETE" "rx_remove (sv_index g) (sv_rmem g) key = Inr (idx, rm, ok)" "v = \<lparr>rv_status = ok, rv_val = 0\<rparr>"
    have d: "data = to_bytes u64_pod key" by (simp add: data_def a)
    show ?thesis unfolding d a(1,3) by (rule w(3) [OF a(2)])
  qed
  show ?thesis
    unfolding call
    by (rule exchange [where P = "\<lambda>g1. sv_index g1 = idx \<and> sv_rmem g1 = rm" and v = v and check = "\<lambda>_. Inr True",
          OF client server(4,5) i len junk refl answers])
qed

end
