(* ===== verification/Ud_Network.thy ===== *)
theory Ud_Network
  imports Ud_Transport Rolex_Service_Correct
begin

text \<open>
  Datagrams in a network: a memory and a card whose send queue keeps every request until a signaled
  one behind it, or itself, is polled, and refuses a request when it is full. The transport over
  datagrams delivers in it when the queue is large enough, and the number of requests its
  sessions leave in the send queue is computed: it is more than the size the code asks for.
\<close>

record ud_net =
  un_mem :: "u64 \<Rightarrow> u8"
  un_sent :: "bytes list"
  un_queue :: "bool list"
  un_cap :: nat

definition mem_read :: "u64 \<Rightarrow> nat \<Rightarrow> (u64 \<Rightarrow> u8) \<Rightarrow> bytes" where
  "mem_read a k m = map (\<lambda>i. m (a + of_nat i)) [0..<k]"

definition mem_write :: "u64 \<Rightarrow> bytes \<Rightarrow> (u64 \<Rightarrow> u8) \<Rightarrow> (u64 \<Rightarrow> u8)" where
  "mem_write a bs m = (\<lambda>x. if unat (x - a) < length bs then bs ! unat (x - a) else m x)"

lemma mem_read_write: "length bs < 2 ^ 64 \<Longrightarrow> mem_read a (length bs) (mem_write a bs m) = bs"
proof (rule nth_equalityI)
  fix i assume h: "length bs < 2 ^ 64" "i < length (mem_read a (length bs) (mem_write a bs m))"
  then have "i < length bs" "unat (of_nat i :: u64) = i" by (auto simp: mem_read_def intro!: unat_of_nat_u64)
  then show "mem_read a (length bs) (mem_write a bs m) ! i = bs ! i" by (simp add: mem_read_def mem_write_def)
qed (simp add: mem_read_def)

definition is_signaled :: "send_wr \<Rightarrow> bool" where "is_signaled w \<longleftrightarrow> s_flags w AND IBV_SEND_SIGNALED \<noteq> 0"

definition un_post :: "send_wr \<Rightarrow> ud_net \<Rightarrow> ud_net" where
  "un_post w n = n\<lparr>un_sent := un_sent n @ [mem_read (sge_addr (hd (s_sges w))) (unat (sge_length (hd (s_sges w)))) (un_mem n)],
     un_queue := un_queue n @ [is_signaled w]\<rparr>"

text \<open>\<open>ibv_post_send\<close> stops at the first request for which the queue of \<open>un_cap\<close> places has none
  left, with \<open>ENOMEM\<close>.\<close>

fun un_posts :: "send_wr list \<Rightarrow> ud_net \<Rightarrow> cint \<times> ud_net" where
  "un_posts [] n = (0, n)"
| "un_posts (w # ws) n = (if length (un_queue n) < un_cap n then un_posts ws (un_post w n) else (12, n))"

definition ok_wc :: wc where "ok_wc = \<lparr>wc_wr_id = 0, wc_success = True, wc_imm_data = 0, wc_byte_len = 0\<rparr>"

definition un_poll :: "ud_net \<Rightarrow> (int \<times> wc list) \<times> ud_net" where
  "un_poll n = (if True \<in> set (un_queue n) then ((1, [ok_wc]), n\<lparr>un_queue := tl (dropWhile Not (un_queue n))\<rparr>) else ((0, []), n))"

definition ud_verbs :: "ud_net verbs" where
  "ud_verbs = \<lparr>v_strerror = (\<lambda>_. ''error''), v_errno = (\<lambda>_. 5), v_num_devices = (\<lambda>_. 1), v_open_device = (\<lambda>i n. (Some i, n)),
     v_close_device = (\<lambda>_ n. n), v_alloc_pd = (\<lambda>i n. (Some i, n)), v_dealloc_pd = (\<lambda>_ n. n),
     v_query_port = (\<lambda>_ _ _. (0, \<lparr>p_lid = 1, p_active = True, p_state_str = []\<rparr>)), v_query_gid = (\<lambda>_ _ _ _. (1, 2)),
     v_query_device = (\<lambda>_ _. (0, 1)), v_reg_mr = (\<lambda>_ _ _ _ n. (Some (0, 7, 8), n)), v_create_cq = (\<lambda>_ _ n. (Some 0, n)),
     v_create_qp = (\<lambda>_ _ n. (Some 0, n)), v_destroy_qp = (\<lambda>_ n. (0, n)), v_qp_type = (\<lambda>_ _. QPT_UD), v_qp_num = (\<lambda>_ _. 9),
     v_modify_qp = (\<lambda>_ _ _ n. (0, n)), v_query_qp = (\<lambda>_ _. (0, QPS_RTS)), v_create_ah = (\<lambda>_ _ n. (Some 0, n)),
     v_post_send = (\<lambda>_ ws n. un_posts ws n), v_post_recv = (\<lambda>_ ws n. (0, n)),
     v_poll_cq = (\<lambda>_ k n. un_poll n), v_clock = (\<lambda>n. (0, n))\<rparr>"

definition ud_mem :: "ud_net local_mem" where
  "ud_mem = \<lparr>lm_load = (\<lambda>a k n. Inr (mem_read a k (un_mem n))),
     lm_store = (\<lambda>a b n. Inr (n\<lparr>un_mem := mem_write a b (un_mem n)\<rparr>))\<rparr>"

section \<open>One message\<close>

lemma flags_signaled: "ud_flags b msg AND IBV_SEND_SIGNALED \<noteq> 0 \<longleftrightarrow> b"
  by (simp add: ud_flags_def IBV_SEND_SIGNALED_def IBV_SEND_INLINE_def)

lemma wait_polled:
  assumes "qp_cq q = Some c" "True \<in> set (un_queue n)"
  shows "\<exists>q'. wait_one_comp ud_verbs raw t (q :: ud) n = Inr (io_ok ok_wc, q', n\<lparr>un_queue := tl (dropWhile Not (un_queue n))\<rparr>)
    \<and> qp_qp q' = qp_qp q \<and> qp_cq q' = Some c \<and> ud_pending_reqs q' = ud_pending_reqs q"
proof -
  have "wait_comp_loop ud_verbs raw t0 t q n =
      Some (Inr (1, ok_wc, q\<lparr>out_signaled := out_signaled q - 1\<rparr>, n\<lparr>un_queue := tl (dropWhile Not (un_queue n))\<rparr>))" for t0
    using assms by (subst wait_comp_loop.simps) (simp add: poll_send_comp_def the_handle_def ud_verbs_def un_poll_def)
  then show ?thesis using assms by (simp add: wait_one_comp_def ud_verbs_def ok_wc_def)
qed

text \<open>What a send does to the queue and to the count.\<close>

definition posted :: "mem_block \<Rightarrow> ud_net \<Rightarrow> bytes" where
  "posted msg n = mem_read (mb_ptr msg) (unat (mb_sz msg)) (un_mem n)"

text \<open>The queue at the time of the post.\<close>

definition queue_at_post :: "bool \<Rightarrow> bool list \<Rightarrow> bool list" where
  "queue_at_post polls xs = (if polls then tl (dropWhile Not xs) else xs)"

lemma send_unsignaled_ok:
  assumes "qp_qp q = Some h" "qp_cq q = Some c" "ud_pending_reqs q \<noteq> 0 \<Longrightarrow> True \<in> set (un_queue n)"
    "length (queue_at_post (us_depth us < ud_pending_reqs q) (un_queue n)) < un_cap n"
  shows "\<exists>us' q'. send_unsignaled ud_verbs raw wstr msg k us (q, n) = Inr (io_ok [], us', q',
      n\<lparr>un_sent := un_sent n @ [posted msg n],
        un_queue := queue_at_post (us_depth us < ud_pending_reqs q) (un_queue n) @ [ud_pending_reqs q = 0]\<rparr>)
    \<and> qp_qp q' = Some h \<and> qp_cq q' = Some c \<and> us_depth us' = us_depth us
    \<and> ud_pending_reqs q' = (if us_depth us < ud_pending_reqs q then 0 else ud_pending_reqs q + 1)"
proof -
  let ?us = "us\<lparr>us_wr := (us_wr us)\<lparr>s_sges := [setup_sge msg k], s_flags := ud_flags (ud_pending_reqs q = 0) msg\<rparr>\<rparr>"
  have post: "qp_qp p = Some h \<Longrightarrow> length (un_queue n') < un_cap n' \<Longrightarrow> post_wr ud_verbs ?us (p, n') = Inr (io_ok [], ?us, p,
      n'\<lparr>un_sent := un_sent n' @ [posted msg n'], un_queue := un_queue n' @ [ud_pending_reqs q = 0]\<rparr>)" for p n'
    by (simp add: post_wr_def the_handle_def ud_verbs_def un_post_def is_signaled_def flags_signaled setup_sge_def posted_def)
  show ?thesis
  proof (cases "us_depth us < ud_pending_reqs q")
    case True
    then have "ud_pending_reqs q \<noteq> 0" by auto
    with assms(3) have "True \<in> set (un_queue n)" by blast
    from wait_polled [OF assms(2) this] obtain q' where w:
      "wait_one_comp ud_verbs raw 1000000 q n = Inr (io_ok ok_wc, q', n\<lparr>un_queue := tl (dropWhile Not (un_queue n))\<rparr>)"
      "qp_qp q' = qp_qp q" "qp_cq q' = Some c" by blast
    show ?thesis
      using True w assms(1,4) \<open>ud_pending_reqs q \<noteq> 0\<close> post [of "q'\<lparr>ud_pending_reqs := 0\<rparr>"]
      by (simp add: send_unsignaled_def Let_def io_ok_def posted_def queue_at_post_def)
  next
    case False
    then show ?thesis
      using assms(1,2,4) post [of "q\<lparr>ud_pending_reqs := ud_pending_reqs q + 1\<rparr>"]
      by (simp add: send_unsignaled_def Let_def queue_at_post_def)
  qed
qed

text \<open>A full queue: the message is not sent, and the count is one more.\<close>

lemma send_unsignaled_full:
  assumes "qp_qp q = Some h" "\<not> us_depth us < ud_pending_reqs q" "un_cap n \<le> length (un_queue n)"
  shows "\<exists>us'. send_unsignaled ud_verbs raw wstr msg k us (q, n)
    = Inr (io_err ''error'', us', q\<lparr>ud_pending_reqs := ud_pending_reqs q + 1\<rparr>, n)"
  using assms by (simp add: send_unsignaled_def Let_def post_wr_def the_handle_def ud_verbs_def)

section \<open>The transport delivers\<close>

text \<open>The queue of a session of depth \<open>d\<close> with \<open>p\<close> requests pending: at most \<open>d + 1\<close> requests of
  the cycle before, the signaled one and those behind it.\<close>

definition cycle_queue :: "nat \<Rightarrow> nat \<Rightarrow> bool list" where
  "cycle_queue j p = replicate j False @ (if p = 0 then [] else True # replicate (p - 1) False)"

text \<open>A session that can send: the queue has the \<open>2 * d + 2\<close> places it may need.\<close>

definition ud_usable :: "ud_session option \<Rightarrow> ud \<times> ud_net \<Rightarrow> bool" where
  "ud_usable t = (\<lambda>(q, n). case t of None \<Rightarrow> False
     | Some us \<Rightarrow> qp_qp q \<noteq> None \<and> qp_cq q \<noteq> None
         \<and> unat (us_depth us) < 2 ^ 31 \<and> unat (ud_pending_reqs q) \<le> unat (us_depth us) + 1
         \<and> 2 * unat (us_depth us) + 2 \<le> un_cap n
         \<and> (\<exists>j \<le> unat (us_depth us) + 1. un_queue n = cycle_queue j (unat (ud_pending_reqs q))))"

lemma drop_unsignaled: "dropWhile Not (replicate j False @ True # xs) = True # xs"
  by (induction j) auto

lemma cycle_queue_step:
  assumes "p \<le> d + 1" "j \<le> d + 1"
  shows "length (queue_at_post (d < p) (cycle_queue j p)) \<le> 2 * d + 1"
    "\<exists>j' \<le> d + 1. queue_at_post (d < p) (cycle_queue j p) @ [p = 0] = cycle_queue j' (if d < p then 0 else p + 1)"
proof -
  have full: "queue_at_post True (cycle_queue j p) = replicate d False" if "d < p"
  proof -
    have "p = d + 1" using that assms(1) by simp
    then show ?thesis by (simp add: queue_at_post_def cycle_queue_def drop_unsignaled del: replicate.simps)
  qed
  show "length (queue_at_post (d < p) (cycle_queue j p)) \<le> 2 * d + 1"
  proof (cases "d < p")
    case False
    then show ?thesis using assms by (cases p) (simp_all add: queue_at_post_def cycle_queue_def)
  qed (simp add: full)
  show "\<exists>j' \<le> d + 1. queue_at_post (d < p) (cycle_queue j p) @ [p = 0] = cycle_queue j' (if d < p then 0 else p + 1)"
  proof (cases "d < p")
    case True
    have "queue_at_post (d < p) (cycle_queue j p) @ [p = 0] = replicate (d + 1) False"
      using True full [OF True] by (simp add: replicate_append_same)
    then show ?thesis using True by (intro exI [of _ "d + 1"]) (simp add: cycle_queue_def)
  next
    case False
    then show ?thesis using assms(2)
      by (intro exI [of _ j]) (cases p; simp add: queue_at_post_def cycle_queue_def replicate_append_same)
  qed
qed

lemma cycle_queue_signal: "p \<noteq> 0 \<Longrightarrow> True \<in> set (cycle_queue j p)"
  by (simp add: cycle_queue_def)

lemma send_w_key_delivers:
  assumes "ud_usable t (q, n)" "unat (mb_sz b) \<le> length (mb_mem b)"
  shows "\<exists>t' q' n'. send_w_key_impl ud_verbs ud_mem raw wstr b k t (q, n) = Inr (io_ok [], t', q', n')
    \<and> un_sent n' = un_sent n @ [block_bytes b] \<and> ud_usable t' (q', n')"
proof -
  obtain us h c j where t: "t = Some us" "qp_qp q = Some h" "qp_cq q = Some c"
    and d: "unat (us_depth us) < 2 ^ 31" "unat (ud_pending_reqs q) \<le> unat (us_depth us) + 1" "2 * unat (us_depth us) + 2 \<le> un_cap n"
    and j: "j \<le> unat (us_depth us) + 1" "un_queue n = cycle_queue j (unat (ud_pending_reqs q))"
    using assms(1) by (auto simp: ud_usable_def split: option.splits)
  let ?n = "n\<lparr>un_mem := mem_write (mb_ptr b) (block_bytes b) (un_mem n)\<rparr>"
  have "length (block_bytes b) = unat (mb_sz b)" using assms(2) by (simp add: block_bytes_def)
  moreover from this have "length (block_bytes b) < 2 ^ 64" using unat_u32_less [of "mb_sz b"] by simp
  ultimately have posted: "posted b ?n = block_bytes b"
    using mem_read_write [of "block_bytes b" "mb_ptr b" "un_mem n"] by (simp add: posted_def)
  have lt: "us_depth us < ud_pending_reqs q \<longleftrightarrow> unat (us_depth us) < unat (ud_pending_reqs q)" by (rule word_less_nat_alt)
  have z: "ud_pending_reqs q = 0 \<longleftrightarrow> unat (ud_pending_reqs q) = 0" by (metis unat_eq_zero)
  have q: "ud_pending_reqs q \<noteq> 0 \<Longrightarrow> True \<in> set (un_queue ?n)" using z j(2) by (simp add: cycle_queue_signal)
  note st = cycle_queue_step [OF d(2) j(1)]
  have room: "length (queue_at_post (us_depth us < ud_pending_reqs q) (un_queue ?n)) < un_cap ?n"
    using st(1) d(3) by (simp add: j(2) lt)
  from send_unsignaled_ok [OF t(2,3) q room, of raw wstr b k] obtain us' q' n' where s:
    "send_unsignaled ud_verbs raw wstr b k us (q, ?n) = Inr (io_ok [], us', q', n')"
    "un_sent n' = un_sent n @ [block_bytes b]" "qp_qp q' = Some h" "qp_cq q' = Some c"
    "un_queue n' = queue_at_post (us_depth us < ud_pending_reqs q) (un_queue n) @ [ud_pending_reqs q = 0]"
    "ud_pending_reqs q' = (if us_depth us < ud_pending_reqs q then 0 else ud_pending_reqs q + 1)"
    "us_depth us' = us_depth us" "un_cap n' = un_cap n"
    unfolding posted by auto
  have p': "unat (ud_pending_reqs q') = (if unat (us_depth us) < unat (ud_pending_reqs q) then 0 else unat (ud_pending_reqs q) + 1)"
  proof (cases "us_depth us < ud_pending_reqs q")
    case False
    then have "unat (ud_pending_reqs q) \<le> unat (us_depth us)" using lt by simp
    then have "unat (ud_pending_reqs q) + unat (1 :: u32) < 2 ^ LENGTH(32)" using d(1) by simp
    then have "unat (ud_pending_reqs q + 1) = unat (ud_pending_reqs q) + 1"
      using unat_add_lem [of "ud_pending_reqs q" 1] by simp
    then show ?thesis using False lt s(6) by simp
  qed (use lt s(6) in simp)
  obtain j' where "j' \<le> unat (us_depth us) + 1" "un_queue n' = cycle_queue j' (unat (ud_pending_reqs q'))"
    using st(2) unfolding s(5) p' j(2) lt z by blast
  moreover have "unat (ud_pending_reqs q') \<le> unat (us_depth us) + 1" using p' by simp
  ultimately have "ud_usable (Some us') (q', n')" using s(3,4,7,8) d by (auto simp: ud_usable_def)
  then show ?thesis using s(1,2) by (simp add: send_w_key_impl_def t(1) ud_mem_def)
qed

interpretation ud_dg: datagrams "ud_send_trait ud_verbs ud_mem raw wstr" "\<lambda>(q, n). un_sent n" ud_usable for raw wstr
proof
  fix t and qn :: "ud \<times> ud_net" and b :: mem_block and k
  assume a: "ud_usable t qn" "unat (mb_sz b) \<le> 64" "length (mb_mem b) = 64"
  obtain q n where qn: "qn = (q, n)" by (cases qn)
  have "unat (mb_sz b) \<le> length (mb_mem b)" using a(2,3) by simp
  note d = send_w_key_delivers [OF a(1) [unfolded qn] this, of raw wstr]
  show "\<exists>s' n'. st_send (ud_send_trait ud_verbs ud_mem raw wstr) b t qn = Inr (io_ok [], s', n')
      \<and> (\<lambda>(q, n). un_sent n) n' = (\<lambda>(q, n). un_sent n) qn @ [block_bytes b] \<and> ud_usable s' n'"
    using d [of 0] by (auto simp: ud_send_trait_def qn)
  show "\<exists>s' n'. st_send_w_key (ud_send_trait ud_verbs ud_mem raw wstr) b k t qn = Inr (io_ok [], s', n')
      \<and> (\<lambda>(q, n). un_sent n) n' = (\<lambda>(q, n). un_sent n) qn @ [block_bytes b] \<and> ud_usable s' n'"
    using d [of k] by (auto simp: ud_send_trait_def qn)
qed

section \<open>How full the send queue gets\<close>

fun ud_sends :: "wc \<Rightarrow> (wc \<Rightarrow> string) \<Rightarrow> mem_block list \<Rightarrow> ud_session \<Rightarrow> ud \<times> ud_net \<Rightarrow> (ud_session \<times> ud \<times> ud_net) res" where
  "ud_sends raw wstr [] us qn = Inr (us, qn)"
| "ud_sends raw wstr (m # ms) us qn =
     rbind (ud_sends raw wstr ms us qn) (\<lambda>(us, qn).
     rbind (send_unsignaled ud_verbs raw wstr m 0 us qn) (\<lambda>(r, us, qn).
       if code r = IO_Ok then Inr (us, qn) else Inl AssertFailed))"

text \<open>The queue behind \<open>k\<close> sends.\<close>

definition queue_after :: "nat \<Rightarrow> nat \<Rightarrow> bool list" where
  "queue_after d k = cycle_queue (if k < d + 2 then 0 else d + 1) (k mod (d + 2))"

lemma queue_after_step:
  "queue_after d (Suc k) = queue_at_post (d < k mod (d + 2)) (queue_after d k) @ [k mod (d + 2) = 0]"
proof (cases "d < k mod (d + 2)")
  case True
  then have k: "k mod (d + 2) = d + 1" using mod_less_divisor [of "d + 2" k] by linarith
  then have s: "Suc k mod (d + 2) = 0" by (simp add: mod_Suc)
  then have "\<not> Suc k < d + 2" by (metis mod_less nat.distinct(1))
  moreover have "dropWhile Not (queue_after d k) = True # replicate d False"
    unfolding queue_after_def cycle_queue_def k by (simp add: drop_unsignaled del: replicate.simps)
  ultimately show ?thesis using True s
    by (simp add: queue_after_def cycle_queue_def queue_at_post_def replicate_append_same)
next
  case False
  then have s: "Suc k mod (d + 2) = Suc (k mod (d + 2))" by (simp add: mod_Suc)
  have c: "Suc k < d + 2 \<longleftrightarrow> k < d + 2"
    using s by (cases "Suc k = d + 2") auto
  obtain m where m: "k mod (d + 2) = m" by blast
  have "\<not> d < m" using False unfolding m .
  then show ?thesis unfolding queue_after_def cycle_queue_def queue_at_post_def s c m
    by (cases m) (simp_all add: replicate_append_same)
qed

lemma length_queue_after: "length (queue_after d k) = (if k < d + 2 then 0 else d + 1) + k mod (d + 2)"
  by (simp add: queue_after_def cycle_queue_def)

lemma length_queue_step:
  "length (queue_after d (Suc k)) = Suc (length (queue_at_post (d < k mod (d + 2)) (queue_after d k)))"
  by (simp add: queue_after_step)

lemma ud_sends_ok:
  assumes "qp_qp q = Some h" "qp_cq q = Some c" "ud_pending_reqs q = 0" "un_queue n = []" "unat (us_depth us) < 2 ^ 31"
    "\<And>k. k \<le> length msgs \<Longrightarrow> length (queue_after (unat (us_depth us)) k) \<le> un_cap n"
  shows "\<exists>us' q' n'. ud_sends raw wstr msgs us (q, n) = Inr (us', q', n') \<and> us_depth us' = us_depth us
    \<and> qp_qp q' = Some h \<and> qp_cq q' = Some c
    \<and> ud_pending_reqs q' = of_nat (length msgs mod (unat (us_depth us) + 2))
    \<and> un_queue n' = queue_after (unat (us_depth us)) (length msgs) \<and> un_cap n' = un_cap n
    \<and> un_mem n' = un_mem n \<and> un_sent n' = un_sent n @ rev (map (\<lambda>m. posted m n) msgs)"
  using assms(6)
proof (induction msgs)
  case Nil
  then show ?case using assms by (simp add: queue_after_def cycle_queue_def)
next
  case (Cons m ms)
  let ?d = "unat (us_depth us)" and ?k = "length ms"
  obtain us1 q1 n1 where r: "ud_sends raw wstr ms us (q, n) = Inr (us1, q1, n1)" "us_depth us1 = us_depth us"
    "qp_qp q1 = Some h" "qp_cq q1 = Some c" "ud_pending_reqs q1 = of_nat (?k mod (?d + 2))"
    "un_queue n1 = queue_after ?d ?k" "un_mem n1 = un_mem n" "un_sent n1 = un_sent n @ rev (map (\<lambda>m. posted m n) ms)"
    "un_cap n1 = un_cap n"
    using Cons.IH Cons.prems by (metis le_SucI length_Cons)
  have "?k mod (?d + 2) < ?d + 2" by simp
  moreover have "?d < 2147483648" "(2 :: nat) ^ 32 = 4294967296" using assms(5) by simp_all
  ultimately have p: "unat (ud_pending_reqs q1) = ?k mod (?d + 2)"
    unfolding r(5) by (intro unat_of_nat_32) linarith
  then have z: "ud_pending_reqs q1 = 0 \<longleftrightarrow> ?k mod (?d + 2) = 0" by (metis unat_eq_zero)
  have lt: "us_depth us1 < ud_pending_reqs q1 \<longleftrightarrow> ?d < ?k mod (?d + 2)" unfolding word_less_nat_alt p r(2) ..
  have sig: "ud_pending_reqs q1 \<noteq> 0 \<Longrightarrow> True \<in> set (un_queue n1)"
    unfolding z r(6) queue_after_def by (rule cycle_queue_signal)
  have room: "length (queue_at_post (us_depth us1 < ud_pending_reqs q1) (un_queue n1)) < un_cap n1"
    using Cons.prems [of "Suc ?k"] unfolding lt r(6,9) length_queue_step by simp
  have same: "posted m n1 = posted m n" by (simp add: posted_def r(7))
  have next_pending: "(if us_depth us1 < ud_pending_reqs q1 then 0 else ud_pending_reqs q1 + 1)
      = of_nat (Suc ?k mod (?d + 2))"
  proof (cases "?d < ?k mod (?d + 2)")
    case True
    then have "?k mod (?d + 2) = ?d + 1" using \<open>?k mod (?d + 2) < ?d + 2\<close> by linarith
    then show ?thesis using True lt by (simp add: mod_Suc)
  next
    case False
    then show ?thesis using lt by (simp add: mod_Suc r(5))
  qed
  from send_unsignaled_ok [OF r(3,4) sig room, of raw wstr m 0] obtain us2 q2 where s:
    "send_unsignaled ud_verbs raw wstr m 0 us1 (q1, n1) = Inr (io_ok [], us2, q2,
      n1\<lparr>un_sent := un_sent n1 @ [posted m n1],
        un_queue := queue_at_post (us_depth us1 < ud_pending_reqs q1) (un_queue n1) @ [ud_pending_reqs q1 = 0]\<rparr>)"
    "qp_qp q2 = Some h" "qp_cq q2 = Some c" "us_depth us2 = us_depth us1"
    "ud_pending_reqs q2 = (if us_depth us1 < ud_pending_reqs q1 then 0 else ud_pending_reqs q1 + 1)"
    by blast
  have "ud_sends raw wstr (m # ms) us (q, n) = Inr (us2, q2, n1\<lparr>un_sent := un_sent n1 @ [posted m n1],
        un_queue := queue_at_post (us_depth us1 < ud_pending_reqs q1) (un_queue n1) @ [ud_pending_reqs q1 = 0]\<rparr>)"
    using r(1) s(1) by (simp add: io_ok_def)
  moreover have "ud_pending_reqs q2 = of_nat (Suc ?k mod (?d + 2))" unfolding s(5) by (rule next_pending)
  ultimately show ?case
    using s(2-4) r(2,7-9) same by (simp add: queue_after_step [of ?d ?k] lt [unfolded r(2)] z r(6))
qed

lemma queue_after_bound: "length (queue_after d k) \<le> 2 * d + 2"
proof -
  have "k mod (d + 2) < d + 2" by simp
  then show ?thesis unfolding length_queue_after by simp
qed

lemma queue_after_small:
  assumes "1 \<le> d" "k \<le> 2 * d + 1"
  shows "length (queue_after d k) \<le> 2 * d" "k = 2 * d + 1 \<Longrightarrow> length (queue_after d k) = 2 * d"
    "k = 2 * d + 1 \<Longrightarrow> k mod (d + 2) = d - 1"
proof -
  have m: "k mod (d + 2) = k - (d + 2)" if "\<not> k < d + 2"
    using that assms(2) by (simp add: le_mod_geq)
  show "length (queue_after d k) \<le> 2 * d"
    using m assms by (cases "k < d + 2") (simp_all add: length_queue_after)
  show "k = 2 * d + 1 \<Longrightarrow> length (queue_after d k) = 2 * d"
    "k = 2 * d + 1 \<Longrightarrow> k mod (d + 2) = d - 1"
    using m assms by (simp_all add: length_queue_after)
qed

definition ex_queue_net :: "nat \<Rightarrow> ud_net" where
  "ex_queue_net cap = \<lparr>un_mem = (\<lambda>_. 0), un_sent = [], un_queue = [], un_cap = cap\<rparr>"

text \<open>C38: how many requests a datagram session leaves unreclaimed in the send queue; \<open>d\<close> is half the
  size the queue is created with. If the queue has \<open>2 * d + 2\<close> places, every message of a sequence
  is posted; the queue holds at most \<open>2 * d + 2\<close> requests, and holds that many exactly when, behind the
  first cycle, a cycle of \<open>d + 2\<close> sends is one send short of its end. In a queue of the size the code
  asks for (\<open>2 * d\<close>) the first \<open>2 * d + 1\<close> messages are posted, and the next one is refused: \<open>send\<close>
  returns the error of the library and the message is not sent.\<close>

theorem ud_send_queue_bound:
  assumes "qp_qp q = Some h" "qp_cq q = Some c" "ud_pending_reqs q = 0" "un_queue n = []"
    and "us_depth us = half (max_send_sz (ud_config q))" "unat (us_depth us) = d" "d < 2 ^ 31"
  shows "(2 * d + 2 \<le> un_cap n \<longrightarrow>
      (\<exists>us' q' n'. ud_sends raw wstr msgs us (q, n) = Inr (us', q', n')
        \<and> un_sent n' = un_sent n @ rev (map (\<lambda>m. posted m n) msgs)
        \<and> length (un_queue n') \<le> 2 * d + 2
        \<and> (d + 2 \<le> length msgs \<and> length msgs mod (d + 2) = d + 1 \<longleftrightarrow> length (un_queue n') = 2 * d + 2)))
    \<and> (un_cap n = 2 * d \<and> 1 \<le> d \<and> length msgs = 2 * d + 1 \<longrightarrow>
      (\<exists>us' q' n'. ud_sends raw wstr msgs us (q, n) = Inr (us', q', n')
        \<and> un_sent n' = un_sent n @ rev (map (\<lambda>m. posted m n) msgs)
        \<and> (\<forall>m k. \<exists>us'' q''. send_unsignaled ud_verbs raw wstr m k us' (q', n') = Inr (io_err ''error'', us'', q'', n'))))"
proof (intro conjI impI)
  assume "2 * d + 2 \<le> un_cap n"
  then have room: "length (queue_after (unat (us_depth us)) k) \<le> un_cap n" for k
    using queue_after_bound [of d k] assms(6) by simp
  have r: "length msgs mod (d + 2) < d + 2" by simp
  show "\<exists>us' q' n'. ud_sends raw wstr msgs us (q, n) = Inr (us', q', n')
        \<and> un_sent n' = un_sent n @ rev (map (\<lambda>m. posted m n) msgs)
        \<and> length (un_queue n') \<le> 2 * d + 2
        \<and> (d + 2 \<le> length msgs \<and> length msgs mod (d + 2) = d + 1 \<longleftrightarrow> length (un_queue n') = 2 * d + 2)"
    using ud_sends_ok [OF assms(1-4), of us msgs raw wstr] room assms(6,7) r
    by (force simp: length_queue_after)
next
  assume h: "un_cap n = 2 * d \<and> 1 \<le> d \<and> length msgs = 2 * d + 1"
  then have room: "length (queue_after (unat (us_depth us)) k) \<le> un_cap n" if "k \<le> length msgs" for k
    using queue_after_small(1) [of d k] that assms(6) by simp
  obtain us' q' n' where s: "ud_sends raw wstr msgs us (q, n) = Inr (us', q', n')" "us_depth us' = us_depth us"
    "qp_qp q' = Some h" "ud_pending_reqs q' = of_nat (length msgs mod (d + 2))" "un_queue n' = queue_after d (length msgs)"
    "un_cap n' = un_cap n" "un_sent n' = un_sent n @ rev (map (\<lambda>m. posted m n) msgs)"
    using ud_sends_ok [OF assms(1-4), of us msgs raw wstr] room assms(6,7) by auto
  have small: "length msgs mod (d + 2) = d - 1" "length (queue_after d (length msgs)) = 2 * d"
    using queue_after_small(2,3) [of d "length msgs"] h by simp_all
  have "unat (ud_pending_reqs q') = d - 1"
    unfolding s(4) small(1) using assms(7) by (intro unat_of_nat_32) simp
  then have "\<not> us_depth us' < ud_pending_reqs q'" using assms(6) s(2) by (simp add: word_less_nat_alt)
  moreover have "un_cap n' \<le> length (un_queue n')" using h s(5,6) small(2) by simp
  ultimately have "\<exists>us'' q''. send_unsignaled ud_verbs raw wstr m k us' (q', n') = Inr (io_err ''error'', us'', q'', n')" for m k
    using send_unsignaled_full [OF s(3), of us' n' raw wstr m k] by blast
  then show "\<exists>us' q' n'. ud_sends raw wstr msgs us (q, n) = Inr (us', q', n')
        \<and> un_sent n' = un_sent n @ rev (map (\<lambda>m. posted m n) msgs)
        \<and> (\<forall>m k. \<exists>us'' q''. send_unsignaled ud_verbs raw wstr m k us' (q', n') = Inr (io_err ''error'', us'', q'', n'))"
    using s(1,7) by blast
qed

definition ex_queue_session :: ud_session where
  "ex_queue_session = \<lparr>us_ah = Some 0, us_qkey = 0, us_qpn = 0, us_wr = new_op 1, us_depth = half (max_send_sz QPConfig)\<rparr>"

definition ex_queue_pair :: ud where
  "ex_queue_pair = \<lparr>qp_qp = Some 0, qp_cq = Some 0, qp_recv_cq = Some 0, out_signaled = 0,
     qp_nic = \<lparr>nic_ctx = Some 0, nic_pd = Some 0, nic_id = \<lparr>dev_id = 0, port_id = 1\<rparr>, nic_addr = None, nic_lid = None\<rparr>,
     ud_pending_reqs = 0, ud_config = QPConfig\<rparr>"

theorem ud_send_queue_bound_witness:
  "unat (max_send_sz QPConfig) = 128
   \<and> (\<exists>us' q' n'. ud_sends ok_wc (\<lambda>_. []) (replicate 131 \<lparr>mb_ptr = 0, mb_sz = 0, mb_mem = []\<rparr>)
        ex_queue_session (ex_queue_pair, ex_queue_net 130) = Inr (us', q', n') \<and> length (un_queue n') = 130)
   \<and> (\<exists>us' q' n' us'' q''. ud_sends ok_wc (\<lambda>_. []) (replicate 129 \<lparr>mb_ptr = 0, mb_sz = 0, mb_mem = []\<rparr>)
        ex_queue_session (ex_queue_pair, ex_queue_net 128) = Inr (us', q', n')
      \<and> send_unsignaled ud_verbs ok_wc (\<lambda>_. []) \<lparr>mb_ptr = 0, mb_sz = 0, mb_mem = []\<rparr> 0 us' (q', n') = Inr (io_err ''error'', us'', q'', n'))"
proof -
  have d: "unat (half (max_send_sz QPConfig)) = 64" "unat (max_send_sz QPConfig) = 128"
    by (simp_all add: half_def max_send_sz_def QPConfig_def kRcMaxSendSz_def)
  note t = ud_send_queue_bound [where q = ex_queue_pair and us = ex_queue_session and d = 64 and h = 0 and c = 0
      and raw = ok_wc and wstr = "\<lambda>_. []"]
  have e: "qp_qp ex_queue_pair = Some 0" "qp_cq ex_queue_pair = Some 0" "ud_pending_reqs ex_queue_pair = 0"
    "us_depth ex_queue_session = half (max_send_sz QPConfig)" "ud_config ex_queue_pair = QPConfig"
    "un_queue (ex_queue_net cap) = []" "un_cap (ex_queue_net cap) = cap" for cap
    by (simp_all add: ex_queue_pair_def ex_queue_session_def ex_queue_net_def d)
  have 1: "\<exists>us' q' n'. ud_sends ok_wc (\<lambda>_. []) (replicate 131 \<lparr>mb_ptr = 0, mb_sz = 0, mb_mem = []\<rparr>)
        ex_queue_session (ex_queue_pair, ex_queue_net 130) = Inr (us', q', n') \<and> length (un_queue n') = 130"
    using t [of "ex_queue_net 130" "replicate 131 \<lparr>mb_ptr = 0, mb_sz = 0, mb_mem = []\<rparr>"]
    by (simp add: e d del: replicate.simps) blast
  have 2: "\<exists>us' q' n' us'' q''. ud_sends ok_wc (\<lambda>_. []) (replicate 129 \<lparr>mb_ptr = 0, mb_sz = 0, mb_mem = []\<rparr>)
        ex_queue_session (ex_queue_pair, ex_queue_net 128) = Inr (us', q', n')
      \<and> send_unsignaled ud_verbs ok_wc (\<lambda>_. []) \<lparr>mb_ptr = 0, mb_sz = 0, mb_mem = []\<rparr> 0 us' (q', n') = Inr (io_err ''error'', us'', q'', n')"
    using t [of "ex_queue_net 128" "replicate 129 \<lparr>mb_ptr = 0, mb_sz = 0, mb_mem = []\<rparr>"]
    by (simp add: e d del: replicate.simps) blast
  show ?thesis using 1 2 d(2) by blast
qed

end
