(* ===== verification/Learned_Cache.thy ===== *)
theory Learned_Cache
  imports Local_Connection Rolex_Storage
begin

text \<open>
  The index of a compute node: \<^verbatim>\<open>rolex/learned_cache.hpp\<close> and the requests for single leaves in
  \<^verbatim>\<open>rolex/remote_requests.hpp\<close>. The models are copied from the region of the memory node with
  one-sided reads; a lookup predicts the leaves, reads each one and searches it in a local buffer.

  A leaf in local memory is its bytes. The member functions of a leaf are applied to the leaf the
  bytes represent. The memory a submodel is built in is the argument \<open>mem\<close>, as in \<open>Rolex\<close>.
\<close>

section \<open>Leaves in memory\<close>

definition arr_pod :: "nat \<Rightarrow> 'a pod \<Rightarrow> 'a list pod" where
  "arr_pod k p = \<lparr>size_of = k * size_of p, to_bytes = (\<lambda>xs. concat (map (to_bytes p) xs)),
     of_bytes = (\<lambda>b. map (\<lambda>i. of_bytes p (take (size_of p) (drop (i * size_of p) b))) [0..<k])\<rparr>"

definition leaf_pod :: "leaf pod" where
  "leaf_pod = iso_pod (\<lambda>l. (keys l, vals l)) (\<lambda>(k, v). \<lparr>keys = k, vals = v\<rparr>) (pair_pod (arr_pod 64 u64_pod) (arr_pod 64 u64_pod))"

definition load_leaf_at :: "'n local_mem \<Rightarrow> u64 \<Rightarrow> 'n \<Rightarrow> leaf res" where
  "load_leaf_at L a n = load_obj L leaf_pod a n"

definition store_leaf_at :: "'n local_mem \<Rightarrow> u64 \<Rightarrow> leaf \<Rightarrow> 'n \<Rightarrow> 'n res" where
  "store_leaf_at L a l n = lm_store L a (to_bytes leaf_pod l) n"

section \<open>State\<close>

record learned_cache =
  lc_keys :: "u64 list"
  lc_offs :: "u64 list"
  lc_models :: "submodel list"

definition as_rolex :: "learned_cache \<Rightarrow> rolex" where
  "as_rolex c = \<lparr>model_keys = lc_keys c, models = lc_models c\<rparr>"

section \<open>Reading the index\<close>

text \<open>The \<open>k\<close> keys and offsets left from the \<open>int\<close> index \<open>i\<close> on.\<close>

fun read_keys :: "'n local_mem \<Rightarrow> u64 \<Rightarrow> u64 \<Rightarrow> nat \<Rightarrow> nat \<Rightarrow> 'n \<Rightarrow> learned_cache \<Rightarrow> learned_cache res" where
  "read_keys L kbuf obuf 0 i n c = Inr c"
| "read_keys L kbuf obuf (Suc k) i n c =
     rbind (load_obj L u64_pod (kbuf + 8 * of_nat i) n) (\<lambda>key.
     rbind (load_obj L u64_pod (obuf + 8 * of_nat i) n) (\<lambda>off.
       if i + 1 \<ge> 2 ^ 31 then Inl UB
       else read_keys L kbuf obuf k (i + 1) n (c\<lparr>lc_keys := lc_keys c @ [key], lc_offs := lc_offs c @ [off]\<rparr>)))"

text \<open>The buffer for models grows when a model needs more; before the first one it is an uninitialised
  pointer. \<open>std::string(p, n)\<close> throws for a negative size.\<close>

fun read_models ::
    "'n verbs \<Rightarrow> 'n local_mem \<Rightarrow> wc \<Rightarrow> (nat \<Rightarrow> te list) \<Rightarrow> u64 \<Rightarrow> u64 list \<Rightarrow> u64 option \<Rightarrow> i32 \<Rightarrow> submodel list
      \<Rightarrow> local_connection \<Rightarrow> 'n \<Rightarrow> (submodel list \<times> local_connection \<times> 'n) res" where
  "read_models V L raw mem sbuf [] mbuf sz sms lc n = Inr (sms, lc, n)"
| "read_models V L raw mem sbuf (off # offs) mbuf sz sms lc n =
     rbind (read_syn V raw off sbuf 4 lc n) (\<lambda>(lc, n).
     rbind (load_obj L i32_pod sbuf n) (\<lambda>cur_ms.
     rbind (if sint sz < sint cur_ms
            then rbind (get_buf cur_ms lc) (\<lambda>(b, lc). Inr (Some b, cur_ms, lc))
            else Inr (mbuf, sz, lc)) (\<lambda>(mbuf, sz, lc).
     rbind (case mbuf of None \<Rightarrow> Inl UB | Some b \<Rightarrow> Inr b) (\<lambda>b.
     rbind (read_syn V raw (off + 4) b cur_ms lc n) (\<lambda>(lc, n).
     rbind (if sint cur_ms < 0 then Inl Thrown else lm_load L b (nat (sint cur_ms)) n) (\<lambda>rSeria.
     rbind (SubModel_deserialize rSeria (mem (length sms))) (\<lambda>sm.
       read_models V L raw mem sbuf offs mbuf sz (sms @ [sm]) lc n)))))))"

definition read_remote_index ::
    "'n verbs \<Rightarrow> 'n local_mem \<Rightarrow> wc \<Rightarrow> (nat \<Rightarrow> te list) \<Rightarrow> learned_cache \<Rightarrow> local_connection \<Rightarrow> 'n
      \<Rightarrow> (learned_cache \<times> local_connection \<times> 'n) res" where
  "read_remote_index V L raw mem c lc n =
     rbind (get_buf 8 lc) (\<lambda>(sbuf, lc).
     rbind (read_syn V raw 0 sbuf 8 lc n) (\<lambda>(lc, n).
     rbind (load_obj L u64_pod sbuf n) (\<lambda>total_size.
     rbind (get_buf (ucast (8 * total_size)) lc) (\<lambda>(kbuf, lc).
     rbind (get_buf (ucast (8 * total_size)) lc) (\<lambda>(obuf, lc).
     rbind (read_syn V raw 8 kbuf (ucast (8 * total_size)) lc n) (\<lambda>(lc, n).
     rbind (read_syn V raw (kUpperModel div 2) obuf (ucast (8 * total_size)) lc n) (\<lambda>(lc, n).
     rbind (read_keys L kbuf obuf (unat total_size) 0 n c) (\<lambda>c.
     rbind (read_models V L raw mem sbuf (lc_offs c) None 0 (lc_models c) lc n) (\<lambda>(sms, lc, n).
       Inr (c\<lparr>lc_models := sms\<rparr>, lc, n))))))))))"

definition LearnedCache ::
    "'n verbs \<Rightarrow> 'n local_mem \<Rightarrow> wc \<Rightarrow> (nat \<Rightarrow> te list) \<Rightarrow> local_connection \<Rightarrow> 'n
      \<Rightarrow> (learned_cache \<times> local_connection \<times> 'n) res" where
  "LearnedCache V L raw mem lc n =
     rbind (read_remote_index V L raw mem \<lparr>lc_keys = [], lc_offs = [], lc_models = []\<rparr> lc n) (\<lambda>(c, lc, n).
       Inr (c, alloc_reset_for_leaf (16 * leaf_t_size) lc, n))"

text \<open>The constructor from a string has the text of the one of \<open>Rolex\<close>.\<close>

definition LearnedCache_of_string :: "(nat \<Rightarrow> te list) \<Rightarrow> bytes \<Rightarrow> learned_cache res" where
  "LearnedCache_of_string mem seria =
     rbind (Rolex_of_string mem seria) (\<lambda>r. Inr \<lparr>lc_keys = model_keys r, lc_offs = [], lc_models = models r\<rparr>)"

section \<open>Operations over one-sided requests\<close>

definition remote_leaf_offsets :: "u64 \<Rightarrow> u64" where
  "remote_leaf_offsets num = 8 * 2 + num * ucast leaf_t_size"

definition lc_leaves :: "learned_cache \<Rightarrow> u64 \<Rightarrow> te list res" where
  "lc_leaves c key =
     rbind (model_for_key (as_rolex c) key) (\<lambda>i.
     rbind (vec_at (lc_models c) (unat i)) (\<lambda>sm.
     rbind (sm_get_leaf_addr sm key []) (\<lambda>leaves. Inr (map snd leaves))))"

text \<open>One leaf into the buffer, and back; the request \<open>w\<close> is used again.\<close>

definition read_leaf :: "'n verbs \<Rightarrow> 'n local_mem \<Rightarrow> wc \<Rightarrow> u64 \<Rightarrow> u64 \<Rightarrow> send_wr \<Rightarrow> rc \<Rightarrow> 'n \<Rightarrow> (leaf \<times> send_wr \<times> rc \<times> 'n) res" where
  "read_leaf V L raw num buf w q n =
     rbind (read_op (remote_leaf_offsets num) buf leaf_t_size q w) (\<lambda>w.
     rbind (execute_wait V raw w q n) (\<lambda>(w, q, n).
     rbind (load_leaf_at L buf n) (\<lambda>l. Inr (l, w, q, n))))"

definition write_leaf :: "'n verbs \<Rightarrow> wc \<Rightarrow> u64 \<Rightarrow> u64 \<Rightarrow> send_wr \<Rightarrow> rc \<Rightarrow> 'n \<Rightarrow> (send_wr \<times> rc \<times> 'n) res" where
  "write_leaf V raw num buf w q n =
     rbind (write_op (remote_leaf_offsets num) buf leaf_t_size q w) (\<lambda>w. execute_wait V raw w q n)"

text \<open>The loops go from the last leaf to the first.\<close>

fun search_leaves ::
    "'n verbs \<Rightarrow> 'n local_mem \<Rightarrow> wc \<Rightarrow> u64 \<Rightarrow> u64 \<Rightarrow> te list \<Rightarrow> send_wr \<Rightarrow> rc \<Rightarrow> 'n \<Rightarrow> (u64 option \<times> rc \<times> 'n) res" where
  "search_leaves V L raw key buf [] w q n = Inr (None, q, n)"
| "search_leaves V L raw key buf (e # es) w q n =
     rbind (read_leaf V L raw (ucast (leaf_num e)) buf w q n) (\<lambda>(l, w, q, n).
       case leaf_search l key of Some v \<Rightarrow> Inr (Some v, q, n) | None \<Rightarrow> search_leaves V L raw key buf es w q n)"

definition lc_search ::
    "'n verbs \<Rightarrow> 'n local_mem \<Rightarrow> wc \<Rightarrow> learned_cache \<Rightarrow> u64 \<Rightarrow> u64 \<Rightarrow> rc \<Rightarrow> 'n \<Rightarrow> (u64 option \<times> rc \<times> 'n) res" where
  "lc_search V L raw c key buf q n =
     rbind (lc_leaves c key) (\<lambda>leaves. search_leaves V L raw key buf (rev leaves) (new_op 1) q n)"

definition lc_search_syn :: "learned_cache \<Rightarrow> u64 \<Rightarrow> u64 option res" where
  "lc_search_syn c key = rbind (lc_leaves c key) (\<lambda>_. Inr None)"

text \<open>The first leaf from the end that accepts the key is changed and written back; when it is full
  the counter of used leaves at the memory node is increased and nothing else happens.\<close>

definition bump_leaf_counter :: "'n verbs \<Rightarrow> 'n local_mem \<Rightarrow> wc \<Rightarrow> u64 \<Rightarrow> rc \<Rightarrow> 'n \<Rightarrow> (u64 \<times> rc \<times> 'n) res" where
  "bump_leaf_counter V L raw buf q n =
     rbind (opt_value (remote_mr q)) (\<lambda>rmr. rbind (opt_value (local_mr q)) (\<lambda>lmr.
     let w = op_set_fetch_add 1 (op_set_atomic_rbuf (attr_buf rmr) (attr_key rmr) (new_op 1));
         w = snd (op_set_payload buf 8 (attr_lkey lmr) 0 w) in
     rbind (execute_wait V raw w q n) (\<lambda>(_, q, n).
     rbind (load_obj L u64_pod buf n) (\<lambda>new_leaf_num. Inr (new_leaf_num, q, n)))))"

fun insert_leaves ::
    "'n verbs \<Rightarrow> 'n local_mem \<Rightarrow> wc \<Rightarrow> u64 \<Rightarrow> u64 \<Rightarrow> u64 \<Rightarrow> te list \<Rightarrow> send_wr \<Rightarrow> rc \<Rightarrow> 'n \<Rightarrow> (bool \<times> rc \<times> 'n) res" where
  "insert_leaves V L raw key val buf [] w q n = Inr (False, q, n)"
| "insert_leaves V L raw key val buf (e # es) w q n =
     rbind (read_leaf V L raw (ucast (leaf_num e)) buf w q n) (\<lambda>(l, w, q, n).
       if insertHere l key then
         (if \<not> isfull l then
            rbind (insert_not_full l key val) (\<lambda>(l, _).
            rbind (store_leaf_at L buf l n) (\<lambda>n.
            rbind (write_leaf V raw (ucast (leaf_num e)) buf w q n) (\<lambda>(w, q, n). Inr (True, q, n))))
          else rbind (bump_leaf_counter V L raw buf q n) (\<lambda>(_, q, n). Inr (False, q, n)))
       else insert_leaves V L raw key val buf es w q n)"

definition lc_insert ::
    "'n verbs \<Rightarrow> 'n local_mem \<Rightarrow> wc \<Rightarrow> learned_cache \<Rightarrow> u64 \<Rightarrow> u64 \<Rightarrow> u64 \<Rightarrow> rc \<Rightarrow> 'n \<Rightarrow> (bool \<times> rc \<times> 'n) res" where
  "lc_insert V L raw c key val buf q n =
     rbind (lc_leaves c key) (\<lambda>leaves. insert_leaves V L raw key val buf (rev leaves) (new_op 1) q n)"

section \<open>Requests for one leaf\<close>

text \<open>\<open>get_remote_leaf\<close> inserts the pair (3, 3) into the leaf it read and writes it back.\<close>

definition get_remote_leaf :: "'n verbs \<Rightarrow> 'n local_mem \<Rightarrow> wc \<Rightarrow> u64 \<Rightarrow> u64 \<Rightarrow> rc \<Rightarrow> 'n \<Rightarrow> (rc \<times> 'n) res" where
  "get_remote_leaf V L raw num buf q n =
     rbind (read_leaf V L raw num buf (new_op 1) q n) (\<lambda>(l, w, q, n).
     rbind (insert_not_full l 3 3) (\<lambda>(l, _).
     rbind (store_leaf_at L buf l n) (\<lambda>n.
     rbind (write_leaf V raw num buf w q n) (\<lambda>(_, q, n). Inr (q, n)))))"

definition write_remote_leaf :: "'n verbs \<Rightarrow> wc \<Rightarrow> u64 \<Rightarrow> u64 \<Rightarrow> rc \<Rightarrow> 'n \<Rightarrow> (rc \<times> 'n) res" where
  "write_remote_leaf V raw num buf q n =
     rbind (write_leaf V raw num buf (new_op 1) q n) (\<lambda>(_, q, n). Inr (q, n))"

end
