(* ===== verification/Remote_Reads.thy ===== *)
theory Remote_Reads
  imports Learned_Cache Rlib_QP_Correct
begin

text \<open>
  What a compute node relies on: a network that serves one-sided reads. \<open>serves_reads\<close> is the
  documented behaviour of a reliable connection (a signaled read within the registered regions
  copies the bytes and raises one successful completion some time later); the lemmas follow it
  through \<open>execute\<close>, the wait for the completion and \<open>read_syn\<close>.
\<close>

section \<open>Completions arrive\<close>

text \<open>A completion arrives after finitely many empty polls, between which the program reads the
  clock, which counts from a start in the past.\<close>

inductive delivers :: "'n verbs \<Rightarrow> nat \<Rightarrow> 'n \<Rightarrow> wc \<Rightarrow> 'n \<Rightarrow> bool" for V cq where
  now: "v_poll_cq V cq 1 n = ((1, [w]), n') \<Longrightarrow> delivers V cq n w n'"
| later: "v_poll_cq V cq 1 n = ((0, []), n1) \<Longrightarrow> v_clock V n1 = (t, n2) \<Longrightarrow> 0 \<le> sint t \<Longrightarrow> delivers V cq n2 w n'
    \<Longrightarrow> delivers V cq n w n'"

lemma wait_comp_loop_returns:
  assumes "delivers V cq n w n'" "qp_cq q = Some cq" "0 \<le> sint t"
  shows "wait_comp_loop V raw t no_timeout q n = Some (Inr (1, w, q\<lparr>out_signaled := out_signaled q - 1\<rparr>, n'))"
  using assms
proof (induction rule: delivers.induct)
  case (now n w n')
  then show ?case
    by (subst wait_comp_loop.simps) (simp add: poll_send_comp_def the_handle_def)
next
  case (later n n1 s n2 w n')
  obtain d where "passed_msec V t n1 = Inr (d, n2)" "d < no_timeout"
    by (rule passed_msec_small [OF later(2,3) later(7)])
  with later show ?case
    by (subst wait_comp_loop.simps) (simp add: poll_send_comp_def the_handle_def)
qed

lemma wait_one_comp_ok:
  assumes "v_clock V n = (t, n1)" "0 \<le> sint t" "delivers V cq n1 w n'" "qp_cq q = Some cq" "wc_success w"
  shows "wait_one_comp V raw no_timeout q n = Inr (io_ok w, q\<lparr>out_signaled := out_signaled q - 1\<rparr>, n')"
  by (simp add: wait_one_comp_def assms wait_comp_loop_returns [OF assms(3,4,2)])

section \<open>A network that serves reads\<close>

text \<open>What there is to know of a state: whether the connection is idle and usable, the registered
  memory of the program, and the registered memory of the other machine.\<close>

record 'n view =
  vw_ok :: "'n \<Rightarrow> bool"
  vw_local :: "'n \<Rightarrow> bytes"
  vw_remote :: "'n \<Rightarrow> bytes"

definition views_local :: "'n local_mem \<Rightarrow> 'n view \<Rightarrow> reg_attr \<Rightarrow> bool" where
  "views_local L vw lmr \<longleftrightarrow>
     (\<forall>n p k. p + k \<le> length (vw_local vw n) \<longrightarrow> lm_load L (attr_buf lmr + of_nat p) k n = mem_get (vw_local vw n) p k)"

definition serves_reads :: "'n verbs \<Rightarrow> 'n view \<Rightarrow> nat \<Rightarrow> nat \<Rightarrow> reg_attr \<Rightarrow> reg_attr \<Rightarrow> bool" where
  "serves_reads V vw qp cq rmr lmr \<longleftrightarrow>
     (\<forall>n w off p len. vw_ok vw n \<and> s_opcode w = WR_RDMA_READ \<and> s_flags w = IBV_SEND_SIGNALED \<and> s_next w = None
        \<and> s_remote_addr w = of_nat off + attr_buf rmr \<and> rdma_rkey w = attr_key rmr
        \<and> s_sges w = [\<lparr>sge_addr = attr_buf lmr + of_nat p, sge_length = len, sge_lkey = attr_lkey lmr\<rparr>]
        \<and> off + unat len \<le> length (vw_remote vw n) \<and> p + unat len \<le> length (vw_local vw n)
      \<longrightarrow> (\<exists>n1. v_post_send V qp [w] n = (0, n1)
            \<and> (\<forall>t n2. v_clock V n1 = (t, n2) \<longrightarrow> 0 \<le> sint t \<and>
                 (\<exists>c n3. delivers V cq n2 c n3 \<and> wc_success c \<and> vw_ok vw n3 \<and> vw_remote vw n3 = vw_remote vw n
                    \<and> mem_put (vw_local vw n) p (take (unat len) (drop off (vw_remote vw n))) = Inr (vw_local vw n3)))))"

text \<open>A connection on which requests are posted, and what a request leaves of it.\<close>

definition linked :: "nat \<Rightarrow> nat \<Rightarrow> reg_attr \<Rightarrow> reg_attr \<Rightarrow> rc \<Rightarrow> bool" where
  "linked qp cq rmr lmr q \<longleftrightarrow> qp_qp q = Some qp \<and> qp_cq q = Some cq \<and> remote_mr q = Some rmr \<and> local_mr q = Some lmr"

lemma linked_upd [simp]:
  "linked qp cq rmr lmr (q\<lparr>out_signaled := x\<rparr>) = linked qp cq rmr lmr q"
  "linked qp cq rmr lmr (q\<lparr>rc_progress := y\<rparr>) = linked qp cq rmr lmr q"
  by (simp_all add: linked_def)

lemma rdma_rkey_set [simp]: "rdma_rkey (set_rdma_rkey k w) = k"
proof -
  have "(ucast (push_bit 32 (drop_bit 32 (s_word8 w)) OR ucast k :: u64) :: u32) = k"
    by (rule bit_word_eqI) (simp add: bit_simps)
  then show ?thesis by (simp add: rdma_rkey_def set_rdma_rkey_def)
qed

lemma set_rkey_simps [simp]:
  "s_sges (set_rdma_rkey k w) = s_sges w" "s_remote_addr (set_rdma_rkey k w) = s_remote_addr w"
  "s_opcode (set_rdma_rkey k w) = s_opcode w" "s_next (set_rdma_rkey k w) = s_next w"
  by (simp_all add: set_rdma_rkey_def)

lemma rdma_rkey_upd [simp]:
  "rdma_rkey (w\<lparr>s_sges := a\<rparr>) = rdma_rkey w" "rdma_rkey (w\<lparr>s_opcode := b\<rparr>) = rdma_rkey w"
  "rdma_rkey (w\<lparr>s_wr_id := c\<rparr>) = rdma_rkey w" "rdma_rkey (w\<lparr>s_next := d\<rparr>) = rdma_rkey w"
  "rdma_rkey (w\<lparr>s_flags := e\<rparr>) = rdma_rkey w"
  by (simp_all add: rdma_rkey_def)

text \<open>\<open>execute\<close> on a single request, and the wait.\<close>

lemma execute_wait_ok:
  assumes q: "linked qp cq rmr lmr q" and post: "v_post_send V qp [w\<lparr>s_wr_id := fst (encode_my_wr 0 1 q), s_next := None, s_flags := IBV_SEND_SIGNALED\<rparr>] n = (0, n1)"
    and clk: "v_clock V n1 = (t, n2)" "0 \<le> sint t" and d: "delivers V cq n2 c n3" "wc_success c"
  shows "\<exists>q'. execute_wait V raw w q n = Inr (w\<lparr>s_wr_id := fst (encode_my_wr 0 1 q), s_next := None, s_flags := IBV_SEND_SIGNALED\<rparr>, q', n3)
      \<and> linked qp cq rmr lmr q'"
proof -
  obtain wid q0 where e: "encode_my_wr 0 1 q = (wid, q0)" by (cases "encode_my_wr 0 1 q")
  let ?w = "w\<lparr>s_wr_id := wid, s_next := None, s_flags := IBV_SEND_SIGNALED\<rparr>"
  let ?q1 = "q0\<lparr>out_signaled := out_signaled q0 + 1\<rparr>"
  have "linked qp cq rmr lmr q0" using q e by (auto simp: encode_my_wr_def pr_forward_def Let_def)
  then have l: "linked qp cq rmr lmr ?q1" by simp
  have chain: "send_chain [?w] (Some 0) = Some (Inr [?w])"
    by (subst send_chain.simps, simp, subst send_chain.simps, simp)
  have sig: "IBV_SEND_SIGNALED AND IBV_SEND_SIGNALED \<noteq> 0" by (simp add: IBV_SEND_SIGNALED_def)
  have p: "v_post_send V qp [?w] n = (0, n1)" using post e by simp
  have "op_execute_batch V [?w] 0 q0 n = Inr (io_ok [], ?q1, n1)"
    using l p sig by (simp add: op_execute_batch_def chain linked_def the_handle_def)
  then have ex: "op_execute V [w] 0 IBV_SEND_SIGNALED 0 q n = Inr (io_ok [], [?w], ?q1, n1)"
    by (simp add: op_execute_def e)
  have w: "wait_one_comp V raw no_timeout ?q1 n1 = Inr (io_ok c, ?q1\<lparr>out_signaled := out_signaled ?q1 - 1\<rparr>, n3)"
    using l by (intro wait_one_comp_ok [OF clk d(1) _ d(2)]) (simp add: linked_def)
  show ?thesis
    using l by (simp add: execute_wait_def ex w io_ok_def e)
qed

lemma read_op_ok:
  assumes "linked qp cq rmr lmr q" "length (s_sges w) = 1"
  shows "\<exists>w'. read_op off buf len q w = Inr w' \<and> s_opcode w' = WR_RDMA_READ \<and> s_remote_addr w' = off + attr_buf rmr
      \<and> rdma_rkey w' = attr_key rmr \<and> s_sges w' = [\<lparr>sge_addr = buf, sge_length = len, sge_lkey = attr_lkey lmr\<rparr>]"
proof -
  have s: "(s_sges w)[0 := x] = [x]" for x using assms(2) by (cases "s_sges w") auto
  show ?thesis
    using assms
    by (simp add: read_op_def linked_def op_set_payload_def op_set_read_def op_set_op_def op_set_rdma_addr_def s)
qed

text \<open>The read of \<open>len\<close> bytes at \<open>off\<close> into the buffer at \<open>p\<close>.\<close>

lemma read_ok:
  assumes s: "serves_reads V vw qp cq rmr lmr" and q: "linked qp cq rmr lmr q" and w: "length (s_sges w) = 1"
    and ok: "vw_ok vw n" and r: "off + unat len \<le> length (vw_remote vw n)" and l: "p + unat len \<le> length (vw_local vw n)"
  shows "\<exists>w1 w' q' n'. read_op (of_nat off) (attr_buf lmr + of_nat p) len q w = Inr w1
      \<and> execute_wait V raw w1 q n = Inr (w', q', n') \<and> linked qp cq rmr lmr q' \<and> length (s_sges w') = 1
      \<and> vw_ok vw n' \<and> vw_remote vw n' = vw_remote vw n
      \<and> mem_put (vw_local vw n) p (take (unat len) (drop off (vw_remote vw n))) = Inr (vw_local vw n')"
proof -
  obtain w1 where w1: "read_op (of_nat off) (attr_buf lmr + of_nat p) len q w = Inr w1" "s_opcode w1 = WR_RDMA_READ"
      "s_remote_addr w1 = of_nat off + attr_buf rmr" "rdma_rkey w1 = attr_key rmr"
      "s_sges w1 = [\<lparr>sge_addr = attr_buf lmr + of_nat p, sge_length = len, sge_lkey = attr_lkey lmr\<rparr>]"
    using read_op_ok [OF q w] by blast
  let ?w = "w1\<lparr>s_wr_id := fst (encode_my_wr 0 1 q), s_next := None, s_flags := IBV_SEND_SIGNALED\<rparr>"
  have "vw_ok vw n \<and> s_opcode ?w = WR_RDMA_READ \<and> s_flags ?w = IBV_SEND_SIGNALED \<and> s_next ?w = None
        \<and> s_remote_addr ?w = of_nat off + attr_buf rmr \<and> rdma_rkey ?w = attr_key rmr
        \<and> s_sges ?w = [\<lparr>sge_addr = attr_buf lmr + of_nat p, sge_length = len, sge_lkey = attr_lkey lmr\<rparr>]
        \<and> off + unat len \<le> length (vw_remote vw n) \<and> p + unat len \<le> length (vw_local vw n)"
    using ok r l w1 by simp
  then obtain n1 where n1: "v_post_send V qp [?w] n = (0, n1)"
      "\<forall>t n2. v_clock V n1 = (t, n2) \<longrightarrow> 0 \<le> sint t \<and>
                 (\<exists>c n3. delivers V cq n2 c n3 \<and> wc_success c \<and> vw_ok vw n3 \<and> vw_remote vw n3 = vw_remote vw n
                    \<and> mem_put (vw_local vw n) p (take (unat len) (drop off (vw_remote vw n))) = Inr (vw_local vw n3))"
    using s unfolding serves_reads_def by blast
  obtain t n2 where clk: "v_clock V n1 = (t, n2)" by (cases "v_clock V n1")
  then obtain c n3 where t: "0 \<le> sint t" and d: "delivers V cq n2 c n3" "wc_success c" "vw_ok vw n3" "vw_remote vw n3 = vw_remote vw n"
      "mem_put (vw_local vw n) p (take (unat len) (drop off (vw_remote vw n))) = Inr (vw_local vw n3)"
    using n1(2) by blast
  from execute_wait_ok [OF q n1(1) clk t d(1,2), of raw] w1 d show ?thesis by fastforce
qed

section \<open>The index of the compute node\<close>

text \<open>The connection for models, with its buffers in the registered memory.\<close>

definition lc_linked :: "nat \<Rightarrow> nat \<Rightarrow> reg_attr \<Rightarrow> reg_attr \<Rightarrow> local_connection \<Rightarrow> bool" where
  "lc_linked qp cq rmr lmr lc \<longleftrightarrow> linked qp cq rmr lmr (model_rc lc) \<and> la_buf (localAlloc lc) = attr_buf lmr"

lemma read_syn_ok:
  assumes s: "serves_reads V vw qp cq rmr lmr" and q: "lc_linked qp cq rmr lmr lc"
    and ok: "vw_ok vw n" and r: "off + unat len \<le> length (vw_remote vw n)" and l: "p + unat len \<le> length (vw_local vw n)"
  shows "\<exists>lc' n'. read_syn V raw (of_nat off) (attr_buf lmr + of_nat p) len lc n = Inr (lc', n')
      \<and> lc_linked qp cq rmr lmr lc' \<and> localAlloc lc' = localAlloc lc \<and> vw_ok vw n' \<and> vw_remote vw n' = vw_remote vw n
      \<and> mem_put (vw_local vw n) p (take (unat len) (drop off (vw_remote vw n))) = Inr (vw_local vw n')"
proof -
  have q': "linked qp cq rmr lmr (model_rc lc)" using q by (simp add: lc_linked_def)
  have "length (s_sges (new_op 1)) = 1" by (simp add: new_op_def)
  from read_ok [OF s q' this ok r l, of raw] q show ?thesis
    by (fastforce simp: read_syn_def lc_linked_def)
qed

end
