(* ===== verification/Learned_Cache_Correct.thy ===== *)
theory Learned_Cache_Correct
  imports Remote_Reads
begin

text \<open>
  The index a compute node copies with one-sided reads is the index of the memory node, and a lookup
  over one-sided reads answers like the lookup of the memory node on an index fresh from training.
\<close>

section \<open>Copies of remote memory\<close>

lemma copied:
  assumes "mem_put m p (take l (drop off R)) = Inr m'" "off + l \<le> length R" "a + k \<le> l"
  shows "mem_get m' (p + a) k = mem_get R (off + a) k"
proof -
  have b: "p + l \<le> length m" "m' = take p m @ take l (drop off R) @ drop (p + l) m"
    using assms(1,2) by (auto simp: mem_put_def min_absorb2 split: if_splits)
  have "drop (p + a) m' = drop a (take l (drop off R)) @ drop (p + l) m"
    using b assms(2,3) by simp
  moreover have "take k (drop a (take l (drop off R)) @ drop (p + l) m) = take k (drop (off + a) R)"
  proof -
    have "k \<le> length (drop a (take l (drop off R)))" using assms(2,3) by simp
    then have "take k (drop a (take l (drop off R)) @ drop (p + l) m) = take k (drop a (take l (drop off R)))" by simp
    also have "\<dots> = take k (drop (off + a) R)"
      using assms(3) by (simp add: drop_take add.commute [of a off])
    finally show ?thesis .
  qed
  moreover have "p + a + k \<le> length m'" "off + a + k \<le> length R" using b assms(2,3) by auto
  ultimately show ?thesis by (simp add: mem_get_def)
qed

lemma copied_obj:
  "mem_put m p (take l (drop off R)) = Inr m' \<Longrightarrow> off + l \<le> length R \<Longrightarrow> a + size_of q \<le> l \<Longrightarrow>
     obj_get q m' (p + a) = obj_get q R (off + a)"
  by (simp add: obj_get_def copied)

lemma load_obj_view:
  "views_local L vw lmr \<Longrightarrow> p + size_of q \<le> length (vw_local vw n) \<Longrightarrow>
     load_obj L q (attr_buf lmr + of_nat p) n = obj_get q (vw_local vw n) p"
  by (simp add: load_obj_def obj_get_def views_local_def)

lemma obj_get_bound: "obj_get q m a = Inr x \<Longrightarrow> a + size_of q \<le> length m"
  by (auto simp: obj_get_def mem_get_def split: if_splits)

section \<open>What the region holds\<close>

lemma get_upper_small:
  "j \<le> 2097151 \<Longrightarrow> get_upper mp (of_nat j) = (8 + 8 * j, 16777216 + 8 * j)"
proof -
  assume j: "j \<le> 2097151"
  have "of_nat j * 8 = (of_nat (8 * j) :: u64)" "8 * of_nat j = (of_nat (8 * j) :: u64)" by simp_all
  moreover have "unat (of_nat (8 * j) :: u64) = 8 * j" using j by (intro unat_of_nat_u64) simp
  ultimately show ?thesis by (simp add: get_upper_def kUpperModel_def del: of_nat_mult)
qed

lemma rx_loop_reads:
  "rx_deserialize_loop mem mp k (of_nat j) r0 = Inr r \<Longrightarrow> j + k \<le> 2097152 \<Longrightarrow>
     \<exists>ks offs sms. length ks = k \<and> length offs = k \<and> length sms = k
       \<and> model_keys r = model_keys r0 @ ks \<and> models r = models r0 @ sms
       \<and> (\<forall>t<k. obj_get u64_pod (mem_pool mp) (8 + 8 * (j + t)) = Inr (ks ! t)
            \<and> obj_get u64_pod (mem_pool mp) (16777216 + 8 * (j + t)) = Inr (offs ! t)
            \<and> read_submodel (mem (length (models r0) + t)) mp (offs ! t) = Inr (sms ! t))"
proof (induction k arbitrary: j r0)
  case 0
  then show ?case by simp
next
  case (Suc k)
  have g: "get_upper mp (of_nat j) = (8 + 8 * j, 16777216 + 8 * j)"
    using Suc.prems(2) by (intro get_upper_small) simp
  obtain key off sm where h: "obj_get u64_pod (mem_pool mp) (8 + 8 * j) = Inr key"
      "obj_get u64_pod (mem_pool mp) (16777216 + 8 * j) = Inr off"
      "read_submodel (mem (length (models r0))) mp off = Inr sm"
      "rx_deserialize_loop mem mp k (of_nat j + 1)
         (r0\<lparr>model_keys := model_keys r0 @ [key], models := models r0 @ [sm]\<rparr>) = Inr r"
    using Suc.prems(1) by (auto simp: g res_iff)
  have "(of_nat j + 1 :: u64) = of_nat (Suc j)" by simp
  with h(4) have "rx_deserialize_loop mem mp k (of_nat (Suc j))
         (r0\<lparr>model_keys := model_keys r0 @ [key], models := models r0 @ [sm]\<rparr>) = Inr r" by simp
  from Suc.IH [OF this] Suc.prems(2) obtain ks offs sms where ih: "length ks = k" "length offs = k" "length sms = k"
      "model_keys r = model_keys r0 @ key # ks" "models r = models r0 @ sm # sms"
      "\<forall>t<k. obj_get u64_pod (mem_pool mp) (8 + 8 * (Suc j + t)) = Inr (ks ! t)
            \<and> obj_get u64_pod (mem_pool mp) (16777216 + 8 * (Suc j + t)) = Inr (offs ! t)
            \<and> read_submodel (mem (Suc (length (models r0)) + t)) mp (offs ! t) = Inr (sms ! t)"
    by auto
  have "\<forall>t<Suc k. obj_get u64_pod (mem_pool mp) (8 + 8 * (j + t)) = Inr ((key # ks) ! t)
            \<and> obj_get u64_pod (mem_pool mp) (16777216 + 8 * (j + t)) = Inr ((off # offs) ! t)
            \<and> read_submodel (mem (length (models r0) + t)) mp ((off # offs) ! t) = Inr ((sm # sms) ! t)"
  proof (intro allI impI)
    fix t assume "t < Suc k"
    then show "obj_get u64_pod (mem_pool mp) (8 + 8 * (j + t)) = Inr ((key # ks) ! t)
            \<and> obj_get u64_pod (mem_pool mp) (16777216 + 8 * (j + t)) = Inr ((off # offs) ! t)
            \<and> read_submodel (mem (length (models r0) + t)) mp ((off # offs) ! t) = Inr ((sm # sms) ! t)"
      using h(1-3) ih(6) by (cases t) auto
  qed
  with ih show ?case
    by (intro exI [of _ "key # ks"] exI [of _ "off # offs"] exI [of _ "sm # sms"]) simp
qed

section \<open>Reading the keys\<close>

lemma read_keys_ok:
  assumes "views_local L vw lmr" "\<And>t. t < k \<Longrightarrow> obj_get u64_pod (vw_local vw n) (pk + 8 * (i + t)) = Inr (ks ! t)"
    and "\<And>t. t < k \<Longrightarrow> obj_get u64_pod (vw_local vw n) (po + 8 * (i + t)) = Inr (offs ! t)"
    and "length ks = k" "length offs = k" "i + k < 2 ^ 31"
  shows "read_keys L (attr_buf lmr + of_nat pk) (attr_buf lmr + of_nat po) k i n c
      = Inr (c\<lparr>lc_keys := lc_keys c @ ks, lc_offs := lc_offs c @ offs\<rparr>)"
  using assms(2-6)
proof (induction k arbitrary: i ks offs c)
  case 0
  then show ?case by simp
next
  case (Suc k)
  obtain key ks' off offs' where c: "ks = key # ks'" "offs = off # offs'"
    using Suc.prems(3,4) by (metis length_Suc_conv)
  have g: "obj_get u64_pod (vw_local vw n) (pk + 8 * i) = Inr key" "obj_get u64_pod (vw_local vw n) (po + 8 * i) = Inr off"
    using Suc.prems(1) [of 0] Suc.prems(2) [of 0] c by simp_all
  have l: "load_obj L u64_pod (attr_buf lmr + of_nat (pk + 8 * i)) n = Inr key"
    "load_obj L u64_pod (attr_buf lmr + of_nat (po + 8 * i)) n = Inr off"
    using load_obj_view [OF assms(1) obj_get_bound [OF g(1)]] load_obj_view [OF assms(1) obj_get_bound [OF g(2)]] g by simp_all
  have "read_keys L (attr_buf lmr + of_nat pk) (attr_buf lmr + of_nat po) k (i + 1) n (c\<lparr>lc_keys := lc_keys c @ [key], lc_offs := lc_offs c @ [off]\<rparr>)
      = Inr (c\<lparr>lc_keys := lc_keys c @ [key], lc_offs := lc_offs c @ [off]\<rparr>
          \<lparr>lc_keys := (lc_keys c @ [key]) @ ks', lc_offs := (lc_offs c @ [off]) @ offs'\<rparr>)"
    using Suc.prems c
    by (subst Suc.IH [where ks = ks' and offs = offs'])
      (auto simp: Suc.prems(1) [of "Suc _", simplified c, simplified] Suc.prems(2) [of "Suc _", simplified c, simplified])
  moreover have "\<not> 2 ^ 31 \<le> i + 1" using Suc.prems(5) by simp
  ultimately show ?case using l c by (simp add: add.assoc)
qed

section \<open>Reading the models\<close>

text \<open>The size of the model at an offset of the region, and the bytes of buffers still to allocate for
  models of these sizes when the buffer for models has \<open>b\<close> bytes.\<close>

definition sub_size :: "bytes \<Rightarrow> u64 \<Rightarrow> nat" where
  "sub_size m off = (case obj_get i32_pod m (unat off) of Inl _ \<Rightarrow> 0 | Inr s \<Rightarrow> nat (sint s))"

fun growth :: "nat \<Rightarrow> nat list \<Rightarrow> nat" where
  "growth b [] = 0"
| "growth b (s # ss) = (if b < s then s + growth s ss else growth b ss)"

lemma read_submodel_parts:
  assumes "read_submodel raw mp off = Inr sm"
  shows "\<exists>ms b. obj_get i32_pod (mem_pool mp) (unat off) = Inr ms \<and> 28 \<le> sint ms
      \<and> mem_get (mem_pool mp) (unat off + 4) (nat (sint ms)) = Inr b \<and> SubModel_deserialize b raw = Inr sm"
proof -
  obtain ms b where h: "obj_get i32_pod (mem_pool mp) (unat off) = Inr ms" "\<not> sint ms < 0"
      "mem_get (mem_pool mp) (unat off + 4) (nat (sint ms)) = Inr b" "SubModel_deserialize b raw = Inr sm"
    using assms by (auto simp: read_submodel_def get_submodel_def res_iff Let_def split: if_splits)
  have "28 \<le> length b" using h(4) by (simp add: SubModel_deserialize_def res_iff)
  moreover have "length b = nat (sint ms)" using h(3) by (auto simp: mem_get_def split: if_splits)
  ultimately show ?thesis using h by auto
qed

lemma unat_i32:
  assumes "0 \<le> sint (s :: i32)"
  shows "unat s = nat (sint s)"
proof (cases "unat s < 2 ^ 31")
  case True
  then show ?thesis using sint_of_nat_i32 [OF True] by simp
next
  case False
  have "unat s div 2 ^ 31 = 1" using False unat_u32_less [of s] by (intro div_nat_eqI) simp_all
  then have "bit (unat s) 31" by (simp add: bit_iff_odd)
  then have "bit s 31" by (simp add: bit_unsigned_iff)
  then have "sint s < 0" by (simp add: sint_uint bit_unsigned_iff)
  with assms show ?thesis by simp
qed

lemma get_buf_ok:
  assumes "unat (cur_alloc_off (localAlloc lc)) + unat sz \<le> unat (total_mem (localAlloc lc))"
  shows "get_buf sz lc = Inr (la_buf (localAlloc lc) + of_nat (unat (cur_alloc_off (localAlloc lc))),
      lc\<lparr>localAlloc := localAlloc lc\<lparr>cur_alloc_off := cur_alloc_off (localAlloc lc) + sz\<rparr>\<rparr>)
    \<and> unat (cur_alloc_off (localAlloc lc) + sz) = unat (cur_alloc_off (localAlloc lc)) + unat sz"
proof -
  have "unat (cur_alloc_off (localAlloc lc)) + unat sz < 2 ^ 32"
    using assms unat_u32_less [of "total_mem (localAlloc lc)"] by linarith
  then have u: "unat (cur_alloc_off (localAlloc lc) + sz) = unat (cur_alloc_off (localAlloc lc)) + unat sz"
    by (simp add: unat_word_ariths)
  then have "\<not> total_mem (localAlloc lc) < cur_alloc_off (localAlloc lc) + sz"
    using assms by (simp add: word_less_nat_alt)
  moreover have "(ucast (cur_alloc_off (localAlloc lc)) :: u64) = of_nat (unat (cur_alloc_off (localAlloc lc)))"
    by simp
  ultimately show ?thesis using u by (simp add: get_buf_def la_alloc_def not_less)
qed

text \<open>Choosing the buffer.\<close>

lemma pick_buffer:
  assumes q: "lc_linked qp cq rmr lmr lc" and m: "unat (total_mem (localAlloc lc)) \<le> M"
    and b: "sint sz = 0 \<or> (\<exists>pm. mbuf = Some (attr_buf lmr + of_nat pm) \<and> pm + nat (sint sz) \<le> M)"
    and room: "unat (cur_alloc_off (localAlloc lc)) + growth (nat (sint sz)) (nat (sint ms) # rest) \<le> unat (total_mem (localAlloc lc))"
    and pos: "0 \<le> sint sz" "0 < sint ms"
  shows "\<exists>pb sz' lc'. (if sint sz < sint ms then rbind (get_buf ms lc) (\<lambda>(b, lc). Inr (Some b, ms, lc)) else Inr (mbuf, sz, lc))
        = Inr (Some (attr_buf lmr + of_nat pb), sz', lc')
      \<and> lc_linked qp cq rmr lmr lc' \<and> total_mem (localAlloc lc') = total_mem (localAlloc lc)
      \<and> pb + nat (sint sz') \<le> M \<and> sint ms \<le> sint sz'
      \<and> unat (cur_alloc_off (localAlloc lc')) + growth (nat (sint sz')) rest \<le> unat (total_mem (localAlloc lc))"
proof (cases "sint sz < sint ms")
  case True
  then have u: "unat ms = nat (sint ms)" using pos by (intro unat_i32) simp
  have r: "unat (cur_alloc_off (localAlloc lc)) + unat ms + growth (nat (sint ms)) rest \<le> unat (total_mem (localAlloc lc))"
    using room True pos by (simp add: u nat_less_eq_zless)
  then have "unat (cur_alloc_off (localAlloc lc)) + unat ms \<le> unat (total_mem (localAlloc lc))" by simp
  from get_buf_ok [OF this] q r m True show ?thesis
    by (intro exI [of _ "unat (cur_alloc_off (localAlloc lc))"] exI [of _ ms]
        exI [of _ "lc\<lparr>localAlloc := localAlloc lc\<lparr>cur_alloc_off := cur_alloc_off (localAlloc lc) + ms\<rparr>\<rparr>"])
      (simp add: lc_linked_def u)
next
  case False
  then obtain pm where "mbuf = Some (attr_buf lmr + of_nat pm)" "pm + nat (sint sz) \<le> M" using b pos by auto
  then show ?thesis using False q room pos
    by (intro exI [of _ pm] exI [of _ sz] exI [of _ lc]) (simp add: nat_less_eq_zless)
qed

lemma read_models_ok:
  assumes s: "serves_reads V vw qp cq rmr lmr" and v: "views_local L vw lmr" and R: "length (mem_pool mp) < 2 ^ 64"
  shows "lc_linked qp cq rmr lmr lc \<Longrightarrow> vw_ok vw n \<Longrightarrow> vw_remote vw n = mem_pool mp \<Longrightarrow>
     length (vw_local vw n) = M \<Longrightarrow> unat (total_mem (localAlloc lc)) \<le> M \<Longrightarrow> ps + 4 \<le> M \<Longrightarrow>
     0 \<le> sint sz \<Longrightarrow> sint sz = 0 \<or> (\<exists>pm. mbuf = Some (attr_buf lmr + of_nat pm) \<and> pm + nat (sint sz) \<le> M) \<Longrightarrow>
     unat (cur_alloc_off (localAlloc lc)) + growth (nat (sint sz)) (map (sub_size (mem_pool mp)) offs)
       \<le> unat (total_mem (localAlloc lc)) \<Longrightarrow>
     length new = length offs \<Longrightarrow>
     (\<And>t. t < length offs \<Longrightarrow> read_submodel (mem (length sms + t)) mp (offs ! t) = Inr (new ! t)) \<Longrightarrow>
     \<exists>lc' n'. read_models V L raw mem (attr_buf lmr + of_nat ps) offs mbuf sz sms lc n = Inr (sms @ new, lc', n')
       \<and> lc_linked qp cq rmr lmr lc' \<and> vw_ok vw n' \<and> vw_remote vw n' = mem_pool mp"
proof (induction offs arbitrary: new mbuf sz sms lc n)
  case Nil
  then show ?case by auto
next
  case (Cons off offs)
  let ?R = "mem_pool mp"
  obtain sm new' where new: "new = sm # new'" "length new' = length offs" using Cons.prems(10) by (cases new) auto
  have "read_submodel (mem (length sms)) mp off = Inr sm" using Cons.prems(11) [of 0] new by simp
  then obtain ms bts where ms: "obj_get i32_pod ?R (unat off) = Inr ms" "28 \<le> sint ms"
      "mem_get ?R (unat off + 4) (nat (sint ms)) = Inr bts" "SubModel_deserialize bts (mem (length sms)) = Inr sm"
    using read_submodel_parts by blast
  have u: "unat ms = nat (sint ms)" using ms(2) by (intro unat_i32) simp
  have sub: "sub_size ?R off = nat (sint ms)" by (simp add: sub_size_def ms(1))
  have o1: "unat off + 4 \<le> length ?R" using obj_get_bound [OF ms(1)] by simp
  have o2: "unat off + 4 + unat ms \<le> length ?R" using ms(3) u by (auto simp: mem_get_def split: if_splits)
  obtain lc1 n1 where r1: "read_syn V raw off (attr_buf lmr + of_nat ps) 4 lc n = Inr (lc1, n1)"
      "lc_linked qp cq rmr lmr lc1" "localAlloc lc1 = localAlloc lc" "vw_ok vw n1" "vw_remote vw n1 = ?R"
      "mem_put (vw_local vw n) ps (take 4 (drop (unat off) ?R)) = Inr (vw_local vw n1)"
    using read_syn_ok [OF s Cons.prems(1,2), of "unat off" 4 ps raw] o1 Cons.prems(3,4,6) by auto
  have M1: "length (vw_local vw n1) = M" using mem_put_length [OF r1(6)] Cons.prems(4) by simp
  have l1: "load_obj L i32_pod (attr_buf lmr + of_nat ps) n1 = Inr ms"
    using load_obj_view [OF v, of ps i32_pod n1] copied_obj [OF r1(6), of 0 i32_pod] o1 ms(1) Cons.prems(6) M1 by simp
  obtain pb sz' lc2 where b: "(if sint sz < sint ms then rbind (get_buf ms lc1) (\<lambda>(b, lc). Inr (Some b, ms, lc)) else Inr (mbuf, sz, lc1))
        = Inr (Some (attr_buf lmr + of_nat pb), sz', lc2)" "lc_linked qp cq rmr lmr lc2"
      "total_mem (localAlloc lc2) = total_mem (localAlloc lc1)" "pb + nat (sint sz') \<le> M" "sint ms \<le> sint sz'"
      "unat (cur_alloc_off (localAlloc lc2)) + growth (nat (sint sz')) (map (sub_size ?R) offs) \<le> unat (total_mem (localAlloc lc1))"
    using pick_buffer [OF r1(2), of M sz mbuf ms "map (sub_size ?R) offs"] Cons.prems(5,7,8,9) ms(2) r1(3)
    by (auto simp: sub simp del: growth.simps)
  have p2: "pb + unat ms \<le> M" using b(4,5) ms(2) u by simp
  obtain lc3 n3 where r3: "read_syn V raw (off + 4) (attr_buf lmr + of_nat pb) ms lc2 n1 = Inr (lc3, n3)"
      "lc_linked qp cq rmr lmr lc3" "localAlloc lc3 = localAlloc lc2" "vw_ok vw n3" "vw_remote vw n3 = ?R"
      "mem_put (vw_local vw n1) pb (take (unat ms) (drop (unat off + 4) ?R)) = Inr (vw_local vw n3)"
    using read_syn_ok [OF s b(2) r1(4), of "unat off + 4" ms pb raw] o2 p2 M1 r1(5) by auto
  have M3: "length (vw_local vw n3) = M" using mem_put_length [OF r3(6)] M1 by simp
  have l3: "lm_load L (attr_buf lmr + of_nat pb) (nat (sint ms)) n3 = Inr bts"
    using v p2 M3 u copied [OF r3(6), of 0 "unat ms"] o2 ms(3) by (simp add: views_local_def)
  have "\<exists>lc' n'. read_models V L raw mem (attr_buf lmr + of_nat ps) offs (Some (attr_buf lmr + of_nat pb)) sz' (sms @ [sm]) lc3 n3
        = Inr ((sms @ [sm]) @ new', lc', n') \<and> lc_linked qp cq rmr lmr lc' \<and> vw_ok vw n' \<and> vw_remote vw n' = ?R"
  proof (rule Cons.IH [OF r3(2,4,5) M3])
    show "unat (total_mem (localAlloc lc3)) \<le> M" "ps + 4 \<le> M" using Cons.prems(5,6) r1(3) b(3) r3(3) by simp_all
    show "0 \<le> sint sz'" using ms(2) b(5) by linarith
    show "sint sz' = 0 \<or> (\<exists>pm. Some (attr_buf lmr + of_nat pb) = Some (attr_buf lmr + of_nat pm) \<and> pm + nat (sint sz') \<le> M)"
      using b(4) by blast
    show "unat (cur_alloc_off (localAlloc lc3)) + growth (nat (sint sz')) (map (sub_size ?R) offs) \<le> unat (total_mem (localAlloc lc3))"
      using b(3,6) r3(3) by simp
    show "length new' = length offs" by (rule new(2))
    show "read_submodel (mem (length (sms @ [sm]) + t)) mp (offs ! t) = Inr (new' ! t)" if t: "t < length offs" for t
      using Cons.prems(11) [of "Suc t"] t new by simp
  qed
  moreover have "\<not> sint ms < 0" using ms(2) by simp
  ultimately show ?case using new r1(1) l1 b(1) r3(1) l3 ms(4) by simp
qed

section \<open>The whole index\<close>

definition model_sizes :: "bytes \<Rightarrow> nat \<Rightarrow> nat list" where
  "model_sizes m k = map (\<lambda>i. case obj_get u64_pod m (16777216 + 8 * i) of Inl _ \<Rightarrow> 0 | Inr off \<Rightarrow> sub_size m off) [0..<k]"

text \<open>The bytes of buffers an index of \<open>k\<close> models needs: its length, the keys and offsets, and the
  buffer for models, which is allocated anew whenever a larger model comes.\<close>

definition index_room :: "bytes \<Rightarrow> nat \<Rightarrow> nat" where
  "index_room m k = 8 + 16 * k + growth 0 (model_sizes m k)"

text \<open>The compute node is connected, idle, and its buffers lie in its registered memory.\<close>

definition compute_node :: "'n view \<Rightarrow> nat \<Rightarrow> nat \<Rightarrow> reg_attr \<Rightarrow> reg_attr \<Rightarrow> local_connection \<Rightarrow> 'n \<Rightarrow> bool" where
  "compute_node vw qp cq rmr lmr lc n \<longleftrightarrow> lc_linked qp cq rmr lmr lc \<and> vw_ok vw n
     \<and> unat (total_mem (localAlloc lc)) \<le> length (vw_local vw n)"

lemma total_size_ok:
  assumes "rx_deserialize mem Rolex rm = Inr r"
  shows "obj_get u64_pod (mem_pool (model_allocator rm)) 0 = Inr (of_nat (length (models r)))
    \<and> rx_deserialize_loop mem (model_allocator rm) (length (models r)) 0 Rolex = Inr r"
proof -
  obtain t where t: "obj_get u64_pod (mem_pool (model_allocator rm)) 0 = Inr t"
      "rx_deserialize_loop mem (model_allocator rm) (unat t) 0 Rolex = Inr r"
    using assms by (auto simp: rx_deserialize_def get_total_ptr_def res_iff Let_def)
  have "rx_deserialize_loop mem mp k i r0 = Inr r \<Longrightarrow> length (models r) = length (models r0) + k" for mp k i r0
    by (induction k arbitrary: i r0) (auto simp: res_iff get_upper_def)
  from this [OF t(2)] t show ?thesis by (simp add: Rolex_def)
qed

lemma read_index:
  assumes s: "serves_reads V vw qp cq rmr lmr" and v: "views_local L vw lmr"
    and R: "length (mem_pool (model_allocator rm)) < 2 ^ 64" "33554432 \<le> length (mem_pool (model_allocator rm))"
    and c: "compute_node vw qp cq rmr lmr lc n" "vw_remote vw n = mem_pool (model_allocator rm)"
    and r: "rx_deserialize mem Rolex rm = Inr r" "length (models r) \<le> 2097151"
    and room: "unat (cur_alloc_off (localAlloc lc)) + index_room (mem_pool (model_allocator rm)) (length (models r)) \<le> unat (total_mem (localAlloc lc))"
  shows "\<exists>c lc' n'. LearnedCache V L raw mem lc n = Inr (c, lc', n') \<and> as_rolex c = r
      \<and> lc_linked qp cq rmr lmr lc' \<and> vw_ok vw n' \<and> vw_remote vw n' = mem_pool (model_allocator rm)"
proof -
  let ?mp = "model_allocator rm" and ?T = "length (models r)" and ?b = "attr_buf lmr"
  let ?R = "mem_pool ?mp" and ?M = "length (vw_local vw n)" and ?p = "unat (cur_alloc_off (localAlloc lc))"
  note t = total_size_ok [OF r(1)]
  have T: "unat (of_nat ?T :: u64) = ?T" "unat (8 * of_nat ?T :: u64) = 8 * ?T" "unat (ucast (8 * of_nat ?T :: u64) :: usize) = 8 * ?T"
  proof -
    show 1: "unat (of_nat ?T :: u64) = ?T" using r(2) by (intro unat_of_nat_u64) simp
    show 2: "unat (8 * of_nat ?T :: u64) = 8 * ?T"
      using unat_of_nat_u64 [of "8 * ?T"] r(2) by simp
    show "unat (ucast (8 * of_nat ?T :: u64) :: usize) = 8 * ?T"
      using r(2) by (simp add: unsigned_ucast_eq 2 take_bit_nat_eq_self)
  qed
  obtain ks offs sms where d: "length ks = ?T" "length offs = ?T" "length sms = ?T" "model_keys r = ks" "models r = sms"
      "\<And>i. i < ?T \<Longrightarrow> obj_get u64_pod ?R (8 + 8 * i) = Inr (ks ! i)"
      "\<And>i. i < ?T \<Longrightarrow> obj_get u64_pod ?R (16777216 + 8 * i) = Inr (offs ! i)"
      "\<And>i. i < ?T \<Longrightarrow> read_submodel (mem i) ?mp (offs ! i) = Inr (sms ! i)"
  proof -
    have l: "rx_deserialize_loop mem ?mp ?T (of_nat 0) Rolex = Inr r" using t by simp
    have "0 + ?T \<le> 2097152" using r(2) by simp
    from rx_loop_reads [OF l this] obtain ks offs sms where h: "length ks = ?T" "length offs = ?T" "length sms = ?T"
        "model_keys r = model_keys Rolex @ ks" "models r = models Rolex @ sms"
        "\<forall>i<?T. obj_get u64_pod ?R (8 + 8 * (0 + i)) = Inr (ks ! i)
            \<and> obj_get u64_pod ?R (16777216 + 8 * (0 + i)) = Inr (offs ! i)
            \<and> read_submodel (mem (length (models Rolex) + i)) ?mp (offs ! i) = Inr (sms ! i)"
      by (elim exE conjE)
    show ?thesis
    proof (rule that [OF h(1-3)])
      show "model_keys r = ks" "models r = sms" using h(4,5) by (simp_all add: Rolex_def)
      fix i assume "i < ?T"
      with h(6) have "obj_get u64_pod ?R (8 + 8 * (0 + i)) = Inr (ks ! i)
            \<and> obj_get u64_pod ?R (16777216 + 8 * (0 + i)) = Inr (offs ! i)
            \<and> read_submodel (mem (length (models Rolex) + i)) ?mp (offs ! i) = Inr (sms ! i)" by blast
      then show "obj_get u64_pod ?R (8 + 8 * i) = Inr (ks ! i)" "obj_get u64_pod ?R (16777216 + 8 * i) = Inr (offs ! i)"
          "read_submodel (mem i) ?mp (offs ! i) = Inr (sms ! i)" by (simp_all add: Rolex_def)
    qed
  qed
  have sizes: "model_sizes ?R ?T = map (sub_size ?R) offs"
    by (rule nth_equalityI) (simp_all add: model_sizes_def d(2,7))
  have room': "?p + 8 + 8 * ?T + 8 * ?T + growth 0 (map (sub_size ?R) offs) \<le> unat (total_mem (localAlloc lc))"
    using room by (simp add: index_room_def sizes)
  have M: "unat (total_mem (localAlloc lc)) \<le> ?M" and q: "lc_linked qp cq rmr lmr lc" and ok: "vw_ok vw n"
    and base: "la_buf (localAlloc lc) = ?b"
    using c(1) by (simp_all add: compute_node_def lc_linked_def)
  obtain lc1 where a1: "get_buf 8 lc = Inr (?b + of_nat ?p, lc1)" "lc_linked qp cq rmr lmr lc1"
      "unat (cur_alloc_off (localAlloc lc1)) = ?p + 8" "total_mem (localAlloc lc1) = total_mem (localAlloc lc)"
    using get_buf_ok [of lc 8] room' q base by (auto simp: lc_linked_def)
  obtain lc2 n2 where r2: "read_syn V raw 0 (?b + of_nat ?p) 8 lc1 n = Inr (lc2, n2)" "lc_linked qp cq rmr lmr lc2"
      "localAlloc lc2 = localAlloc lc1" "vw_ok vw n2" "vw_remote vw n2 = ?R"
      "mem_put (vw_local vw n) ?p (take 8 (drop 0 ?R)) = Inr (vw_local vw n2)"
    using read_syn_ok [OF s a1(2) ok, of 0 8 ?p raw] R(2) c(2) room' M by auto
  have M2: "length (vw_local vw n2) = ?M" using mem_put_length [OF r2(6)] .
  have l2: "load_obj L u64_pod (?b + of_nat ?p) n2 = Inr (of_nat ?T)"
    using load_obj_view [OF v, of ?p u64_pod n2] copied_obj [OF r2(6), of 0 u64_pod] R(2) t room' M M2 by simp
  obtain lc3 where a3: "get_buf (ucast (8 * of_nat ?T :: u64)) lc2 = Inr (?b + of_nat (?p + 8), lc3)" "lc_linked qp cq rmr lmr lc3"
      "unat (cur_alloc_off (localAlloc lc3)) = ?p + 8 + 8 * ?T" "total_mem (localAlloc lc3) = total_mem (localAlloc lc)"
    using get_buf_ok [of lc2 "ucast (8 * of_nat ?T :: u64)"] room' r2(2,3) a1 T(3) by (auto simp: lc_linked_def)
  obtain lc4 where a4: "get_buf (ucast (8 * of_nat ?T :: u64)) lc3 = Inr (?b + of_nat (?p + 8 + 8 * ?T), lc4)" "lc_linked qp cq rmr lmr lc4"
      "unat (cur_alloc_off (localAlloc lc4)) = ?p + 8 + 8 * ?T + 8 * ?T" "total_mem (localAlloc lc4) = total_mem (localAlloc lc)"
    using get_buf_ok [of lc3 "ucast (8 * of_nat ?T :: u64)"] room' a3 T(3) by (auto simp: lc_linked_def)
  obtain lc5 n5 where r5: "read_syn V raw 8 (?b + of_nat (?p + 8)) (ucast (8 * of_nat ?T :: u64)) lc4 n2 = Inr (lc5, n5)"
      "lc_linked qp cq rmr lmr lc5" "localAlloc lc5 = localAlloc lc4" "vw_ok vw n5" "vw_remote vw n5 = ?R"
      "mem_put (vw_local vw n2) (?p + 8) (take (8 * ?T) (drop 8 ?R)) = Inr (vw_local vw n5)"
    using read_syn_ok [OF s a4(2) r2(4), of 8 "ucast (8 * of_nat ?T :: u64)" "?p + 8" raw] R(2) r(2) r2(5) room' M M2
    unfolding T(3) by auto
  have M5: "length (vw_local vw n5) = ?M" using mem_put_length [OF r5(6)] M2 by simp
  have half: "kUpperModel div 2 = of_nat 16777216" by (simp add: kUpperModel_def)
  obtain lc6 n6 where r6: "read_syn V raw (kUpperModel div 2) (?b + of_nat (?p + 8 + 8 * ?T)) (ucast (8 * of_nat ?T :: u64)) lc5 n5 = Inr (lc6, n6)"
      "lc_linked qp cq rmr lmr lc6" "localAlloc lc6 = localAlloc lc5" "vw_ok vw n6" "vw_remote vw n6 = ?R"
      "mem_put (vw_local vw n5) (?p + 8 + 8 * ?T) (take (8 * ?T) (drop 16777216 ?R)) = Inr (vw_local vw n6)"
    using read_syn_ok [OF s r5(2,4), of 16777216 "ucast (8 * of_nat ?T :: u64)" "?p + 8 + 8 * ?T" raw] R(2) r(2) r5(5) room' M M5
    unfolding T(3) half by auto
  have M6: "length (vw_local vw n6) = ?M" using mem_put_length [OF r6(6)] M5 by simp
  have keys: "obj_get u64_pod (vw_local vw n6) (?p + 8 + 8 * (0 + i)) = Inr (ks ! i)" if i: "i < ?T" for i
  proof -
    have "obj_get u64_pod (vw_local vw n5) (?p + 8 + 8 * i) = obj_get u64_pod ?R (8 + 8 * i)"
      using i R(2) r(2) by (intro copied_obj [OF r5(6)]) simp_all
    moreover have "mem_get (vw_local vw n6) (?p + 8 + 8 * i) 8 = mem_get (vw_local vw n5) (?p + 8 + 8 * i) 8"
      using i by (intro mem_get_put_other [OF r6(6)]) simp
    ultimately show ?thesis using d(6) [OF i] by (simp add: obj_get_def)
  qed
  have offs: "obj_get u64_pod (vw_local vw n6) (?p + 8 + 8 * ?T + 8 * (0 + i)) = Inr (offs ! i)" if i: "i < ?T" for i
    using copied_obj [OF r6(6), of "8 * i" u64_pod] i R(2) r(2) d(7) [OF i] by simp
  let ?e = "\<lparr>lc_keys = [], lc_offs = [], lc_models = []\<rparr>"
  have k: "read_keys L (?b + of_nat (?p + 8)) (?b + of_nat (?p + 8 + 8 * ?T)) ?T 0 n6 ?e = Inr (?e\<lparr>lc_keys := ks, lc_offs := offs\<rparr>)"
    using read_keys_ok [OF v keys offs d(1,2), where c = ?e] r(2) by simp
  have "\<exists>lc' n'. read_models V L raw mem (?b + of_nat ?p) offs None 0 [] lc6 n6 = Inr ([] @ sms, lc', n')
      \<and> lc_linked qp cq rmr lmr lc' \<and> vw_ok vw n' \<and> vw_remote vw n' = ?R"
    using d(2,3,8) room' M a4(3,4) r5(3) r6(3) r6(2,4,5) M6
    by (intro read_models_ok [OF s v R(1), where M = ?M]) simp_all
  then obtain lc7 n7 where m: "read_models V L raw mem (?b + of_nat ?p) offs None 0 [] lc6 n6 = Inr (sms, lc7, n7)"
      "lc_linked qp cq rmr lmr lc7" "vw_ok vw n7" "vw_remote vw n7 = ?R" by auto
  have "read_remote_index V L raw mem ?e lc n = Inr (\<lparr>lc_keys = ks, lc_offs = offs, lc_models = sms\<rparr>, lc7, n7)"
    unfolding read_remote_index_def a1(1) rbind.simps prod.case r2(1) l2 a3(1) a4(1) r5(1) r6(1) T(1) k
      learned_cache.simps m(1) ..
  then show ?thesis
    using m d(4,5) by (simp add: LearnedCache_def as_rolex_def alloc_reset_for_leaf_def reset_for_leaf_def lc_linked_def)
qed

end
