(* ===== verification/Loop_Network.thy ===== *)
theory Loop_Network
  imports Remote_Reads
begin

text \<open>
  A network in which the behaviour that \<^theory_text>\<open>Remote_Reads\<close> relies on holds: two memories, and a
  card that serves a request at once and raises its completion at the next poll. The theorems about
  compute nodes are applied to it.
\<close>

record loop_net =
  ln_local :: bytes
  ln_remote :: bytes
  ln_done :: "wc list"

definition put_bytes :: "bytes \<Rightarrow> nat \<Rightarrow> bytes \<Rightarrow> bytes" where
  "put_bytes m a b = (case mem_put m a b of Inl _ \<Rightarrow> m | Inr m' \<Rightarrow> m')"

definition get_bytes :: "bytes \<Rightarrow> nat \<Rightarrow> nat \<Rightarrow> bytes" where
  "get_bytes m a k = take k (drop a m)"

definition loop_serve :: "send_wr \<Rightarrow> loop_net \<Rightarrow> loop_net" where
  "loop_serve w n =
     (let s = hd (s_sges w); a = unat (sge_addr s); k = unat (sge_length s); r = unat (s_remote_addr w);
          n' = (case s_opcode w of
                  WR_RDMA_READ \<Rightarrow> n\<lparr>ln_local := put_bytes (ln_local n) a (get_bytes (ln_remote n) r k)\<rparr>
                | WR_RDMA_WRITE \<Rightarrow> n\<lparr>ln_remote := put_bytes (ln_remote n) r (get_bytes (ln_local n) a k)\<rparr>
                | _ \<Rightarrow> n)
      in n'\<lparr>ln_done := ln_done n @ [\<lparr>wc_wr_id = s_wr_id w, wc_success = True, wc_imm_data = 0, wc_byte_len = 0\<rparr>]\<rparr>)"

definition loop_verbs :: "loop_net verbs" where
  "loop_verbs = \<lparr>v_strerror = (\<lambda>_. ''error''), v_errno = (\<lambda>_. 5), v_num_devices = (\<lambda>_. 1), v_open_device = (\<lambda>i n. (Some i, n)),
     v_close_device = (\<lambda>_ n. n), v_alloc_pd = (\<lambda>i n. (Some i, n)), v_dealloc_pd = (\<lambda>_ n. n),
     v_query_port = (\<lambda>_ _ _. (0, \<lparr>p_lid = 1, p_active = True, p_state_str = []\<rparr>)), v_query_gid = (\<lambda>_ _ _ _. (1, 2)),
     v_query_device = (\<lambda>_ _. (0, 1)), v_reg_mr = (\<lambda>_ _ _ _ n. (Some (0, 7, 8), n)), v_create_cq = (\<lambda>_ _ n. (Some 0, n)),
     v_create_qp = (\<lambda>_ _ n. (Some 0, n)), v_destroy_qp = (\<lambda>_ n. (0, n)), v_qp_type = (\<lambda>_ _. QPT_RC), v_qp_num = (\<lambda>_ _. 9),
     v_modify_qp = (\<lambda>_ _ _ n. (0, n)), v_query_qp = (\<lambda>_ _. (0, QPS_INIT)), v_create_ah = (\<lambda>_ _ n. (Some 0, n)),
     v_post_send = (\<lambda>_ ws n. (0, fold loop_serve ws n)),
     v_post_recv = (\<lambda>_ ws n. (0, n)),
     v_poll_cq = (\<lambda>_ k n. ((int (min k (length (ln_done n))), take k (ln_done n)), n\<lparr>ln_done := drop k (ln_done n)\<rparr>)),
     v_clock = (\<lambda>n. (0, n))\<rparr>"

definition loop_mem :: "loop_net local_mem" where
  "loop_mem = \<lparr>lm_load = (\<lambda>a k n. mem_get (ln_local n) (unat a) k),
     lm_store = (\<lambda>a b n. rbind (mem_put (ln_local n) (unat a) b) (\<lambda>m. Inr (n\<lparr>ln_local := m\<rparr>)))\<rparr>"

text \<open>Memories of less than \<open>2 ^ 40\<close> bytes, without a completion to come.\<close>

definition loop_view :: "loop_net view" where
  "loop_view = \<lparr>vw_ok = (\<lambda>n. ln_done n = [] \<and> length (ln_local n) < 2 ^ 40 \<and> length (ln_remote n) < 2 ^ 40),
     vw_local = (\<lambda>n. take (2 ^ 40) (ln_local n)), vw_remote = ln_remote\<rparr>"

definition local_attr :: reg_attr where "local_attr = \<lparr>attr_buf = 0, attr_sz = 0, attr_key = 8, attr_lkey = 7\<rparr>"
definition remote_attr :: reg_attr where "remote_attr = \<lparr>attr_buf = 0, attr_sz = 0, attr_key = 9, attr_lkey = 9\<rparr>"

lemma loop_views_local: "views_local loop_mem loop_view local_attr"
proof -
  have "mem_get (ln_local n) (unat (of_nat p :: u64)) k = mem_get (take (2 ^ 40) (ln_local n)) p k"
    if "p + k \<le> length (take (2 ^ 40) (ln_local n))" for n p k
  proof -
    have "p \<le> 2 ^ 40" "p + k \<le> length (ln_local n)" "p + k \<le> 2 ^ 40" using that by auto
    moreover from this have "unat (of_nat p :: u64) = p" by (intro unat_of_nat_u64) (simp add: le_less_trans)
    ultimately show ?thesis by (simp add: mem_get_def drop_take min_absorb1)
  qed
  then show ?thesis unfolding views_local_def loop_mem_def loop_view_def local_attr_def by simp blast
qed

lemma loop_serves_reads: "serves_reads loop_verbs loop_view 0 0 remote_attr local_attr"
proof -
  have "\<exists>n1. v_post_send loop_verbs 0 [w] n = (0, n1)
            \<and> (\<forall>t n2. v_clock loop_verbs n1 = (t, n2) \<longrightarrow> 0 \<le> sint t \<and>
                 (\<exists>c n3. delivers loop_verbs 0 n2 c n3 \<and> wc_success c \<and> vw_ok loop_view n3 \<and> vw_remote loop_view n3 = vw_remote loop_view n
                    \<and> mem_put (vw_local loop_view n) p (take (unat len) (drop off (vw_remote loop_view n))) = Inr (vw_local loop_view n3)))"
    if h: "vw_ok loop_view n" "s_opcode w = WR_RDMA_READ" "s_remote_addr w = of_nat off"
       "s_sges w = [\<lparr>sge_addr = of_nat p, sge_length = len, sge_lkey = k\<rparr>]"
       "off + unat len \<le> length (vw_remote loop_view n)" "p + unat len \<le> length (vw_local loop_view n)"
    for n w off p len k
  proof -
    let ?b = "take (unat len) (drop off (ln_remote n))"
    let ?c = "\<lparr>wc_wr_id = s_wr_id w, wc_success = True, wc_imm_data = 0, wc_byte_len = 0\<rparr>"
    have ok: "ln_done n = []" "length (ln_local n) < 2 ^ 40" "length (ln_remote n) < 2 ^ 40" using h(1) by (simp_all add: loop_view_def)
    have r: "off + unat len \<le> length (ln_remote n)" "p + unat len \<le> length (ln_local n)" using h(5,6) ok by (simp_all add: loop_view_def)
    have u: "unat (of_nat p :: u64) = p" "unat (of_nat off :: u64) = off"
      using r ok by (auto intro!: unat_of_nat_u64)
    obtain m where m: "mem_put (ln_local n) p ?b = Inr m" "length m = length (ln_local n)"
      using mem_put_ok [of p ?b "ln_local n"] r by auto
    let ?n1 = "n\<lparr>ln_local := m, ln_done := [?c]\<rparr>" and ?n3 = "n\<lparr>ln_local := m, ln_done := []\<rparr>"
    have "v_post_send loop_verbs 0 [w] n = (0, ?n1)"
      by (simp add: loop_verbs_def loop_serve_def h(2,3,4) u put_bytes_def get_bytes_def m(1) ok(1) Let_def)
    moreover have "delivers loop_verbs 0 ?n1 ?c ?n3"
      by (rule delivers.now) (simp add: loop_verbs_def)
    moreover have "v_clock loop_verbs ?n1 = (0, ?n1)" by (simp add: loop_verbs_def)
    moreover have "mem_put (vw_local loop_view n) p (take (unat len) (drop off (vw_remote loop_view n))) = Inr (vw_local loop_view ?n3)"
      using m ok by (simp add: loop_view_def)
    moreover have "vw_ok loop_view ?n3" "vw_remote loop_view ?n3 = vw_remote loop_view n" using m ok by (simp_all add: loop_view_def)
    ultimately show ?thesis by (intro exI [of _ ?n1]) (auto intro!: exI [of _ ?c] exI [of _ ?n3])
  qed
  then show ?thesis unfolding serves_reads_def by (simp add: local_attr_def remote_attr_def)
qed

end
