(* ===== verification/Region_Roundtrip.thy ===== *)
theory Region_Roundtrip
  imports Rolex_Storage
begin

text \<open>
  The model region of the memory node: training stores every submodel in it, and \<open>deserialize\<close>
  restores from it the index that was trained. Up to 2097151 models, the number of slots for keys
  and offsets, and for a region of less than \<open>2 ^ 31 - 2048\<close> bytes, as sizes are kept in \<open>i32\<close>.
\<close>

section \<open>What a region holds\<close>

text \<open>The \<open>i\<close>-th model of a region.\<close>

definition slot_holds :: "bytes \<Rightarrow> nat \<Rightarrow> nat \<Rightarrow> u64 \<times> submodel \<Rightarrow> bool" where
  "slot_holds m bnd i ks \<longleftrightarrow> (\<exists>off. obj_get u64_pod m (8 + 8 * i) = Inr (fst ks)
     \<and> obj_get u64_pod m (16777216 + 8 * i) = Inr off
     \<and> 33554432 \<le> unat off \<and> unat off + 4 + length (sm_bytes (snd ks)) \<le> bnd
     \<and> obj_get i32_pod m (unat off) = Inr (of_nat (length (sm_bytes (snd ks))))
     \<and> mem_get m (unat off + 4) (length (sm_bytes (snd ks))) = Inr (sm_bytes (snd ks)))"

definition region_holds :: "model_pool \<Rightarrow> (u64 \<times> submodel) list \<Rightarrow> bool" where
  "region_holds mp kms \<longleftrightarrow> m_wf mp \<and> length (mem_pool mp) = unat (m_total_sz mp) \<and> unat (m_total_sz mp) < 2 ^ 31 - 2048
     \<and> (length kms \<le> 2097151 \<longrightarrow> unat (upper_alloc_num mp) = length kms
          \<and> (\<forall>i<length kms. fits_i32 (snd (kms ! i)) \<and> slot_holds (mem_pool mp) (unat (m_cur_alloc_sz mp)) i (kms ! i)))"

lemma slot_holds_put:
  assumes h: "slot_holds m bnd i ks" and p: "mem_put m a bs = Inr m'" and i: "i < 2097151"
    and a: "bnd \<le> a \<or> a + length bs \<le> 8 \<or> (a = 8 + 8 * n \<or> a = 16777216 + 8 * n) \<and> i < n \<and> n < 2097151 \<and> length bs = 8"
    and l: "33554432 \<le> bnd" "bnd \<le> bnd'"
  shows "slot_holds m' bnd' i ks"
proof -
  obtain off where o: "obj_get u64_pod m (8 + 8 * i) = Inr (fst ks)" "obj_get u64_pod m (16777216 + 8 * i) = Inr off"
     "33554432 \<le> unat off" "unat off + 4 + length (sm_bytes (snd ks)) \<le> bnd"
     "obj_get i32_pod m (unat off) = Inr (of_nat (length (sm_bytes (snd ks))))"
     "mem_get m (unat off + 4) (length (sm_bytes (snd ks))) = Inr (sm_bytes (snd ks))"
    using h unfolding slot_holds_def by blast
  have "obj_get u64_pod m' (8 + 8 * i) = obj_get u64_pod m (8 + 8 * i)"
    by (rule obj_get_other, rule mem_get_put_other [OF p]) (use a i l in auto)
  moreover have "obj_get u64_pod m' (16777216 + 8 * i) = obj_get u64_pod m (16777216 + 8 * i)"
    by (rule obj_get_other, rule mem_get_put_other [OF p]) (use a i l in auto)
  moreover have "obj_get i32_pod m' (unat off) = obj_get i32_pod m (unat off)"
    by (rule obj_get_other, rule mem_get_put_other [OF p]) (use a i l o(3,4) in auto)
  moreover have "mem_get m' (unat off + 4) (length (sm_bytes (snd ks))) = mem_get m (unat off + 4) (length (sm_bytes (snd ks)))"
    by (rule mem_get_put_other [OF p]) (use a i l o(3,4) in auto)
  ultimately show ?thesis
    unfolding slot_holds_def using o l by (intro exI [of _ off]) simp
qed

section \<open>Writing models\<close>

lemma write_model_parts:
  assumes "write_model key b mp = Inr mp'"
  shows "\<exists>mp1 ptr off m1 m2 mp2 kptr optr m3 m4. alloc_submodel mp (of_nat (length b + 4)) = Inr (mp1, ptr, off)
    \<and> mem_put (mem_pool mp1) ptr (to_bytes i32_pod (of_nat (length b))) = Inr m1 \<and> mem_put m1 (ptr + 4) b = Inr m2
    \<and> alloc_upper (mp1\<lparr>mem_pool := m2\<rparr>) = Inr (mp2, kptr, optr)
    \<and> mem_put (mem_pool mp2) kptr (to_bytes u64_pod key) = Inr m3 \<and> mem_put m3 optr (to_bytes u64_pod off) = Inr m4
    \<and> mp' = mp2\<lparr>mem_pool := m4\<rparr>"
  using assms unfolding write_model_def rbind_Inr_iff obj_put_def split_paired_Ex prod.case by blast

lemma write_model_holds:
  assumes h: "region_holds mp kms" and w: "write_model k (sm_bytes sm) mp = Inr mp'"
    and syn: "length (SynonymTable (ltable sm)) = 128"
  shows "region_holds mp' (kms @ [(k, sm)])"
proof -
  let ?b = "sm_bytes sm" and ?n = "length kms"
  obtain mp1 ptr off m1 m2 mp2 kptr optr m3 m4 where a: "alloc_submodel mp (of_nat (length ?b + 4)) = Inr (mp1, ptr, off)"
    "mem_put (mem_pool mp1) ptr (to_bytes i32_pod (of_nat (length ?b))) = Inr m1" "mem_put m1 (ptr + 4) ?b = Inr m2"
    "alloc_upper (mp1\<lparr>mem_pool := m2\<rparr>) = Inr (mp2, kptr, optr)"
    "mem_put (mem_pool mp2) kptr (to_bytes u64_pod k) = Inr m3" "mem_put m3 optr (to_bytes u64_pod off) = Inr m4"
    "mp' = mp2\<lparr>mem_pool := m4\<rparr>"
    using write_model_parts [OF w] by blast
  have wf: "m_wf mp" and tot: "length (mem_pool mp) = unat (m_total_sz mp)" "unat (m_total_sz mp) < 2 ^ 31 - 2048"
    using h by (simp_all add: region_holds_def)
  note s1 = alloc_submodel_step [OF wf a(1)]
  have pool1: "mem_pool mp1 = mem_pool mp" using a(1) by (auto simp: alloc_submodel_def Let_def split: if_splits)
  have pool2: "mem_pool mp2 = m2" using a(4) by (auto simp: alloc_upper_def Let_def split: if_splits)
  have len: "length m1 = length (mem_pool mp)" "length m2 = length (mem_pool mp)" "length m3 = length (mem_pool mp)" "length m4 = length (mem_pool mp)"
    using mem_put_length [OF a(2)] mem_put_length [OF a(3)] mem_put_length [OF a(5)] mem_put_length [OF a(6)] pool1 pool2 by simp_all
  have bl: "unat (m_cur_alloc_sz mp) + 4 + length ?b \<le> length (mem_pool mp)"
    using a(3) len s1(2) by (simp add: res_iff)
  have u: "unat (of_nat (length ?b + 4) :: usize) = length ?b + 4"
    using bl tot by (intro unat_of_nat_32) simp
  have cur: "unat (m_cur_alloc_sz mp1) = unat (m_cur_alloc_sz mp) + 4 + length ?b" using s1(4) u by simp
  have lower: "33554432 \<le> unat (m_cur_alloc_sz mp)" using wf by (simp add: m_wf_def word_le_nat_alt unat_kUpperModel)
  have wf1: "m_wf (mp1\<lparr>mem_pool := m2\<rparr>)" using s1(1) by (simp add: m_wf_def)
  have wf2: "m_wf mp2" "m_total_sz mp2 = m_total_sz mp1" "m_cur_alloc_sz mp2 = m_cur_alloc_sz mp1"
    using wf1 a(4) by (auto simp: alloc_upper_def Let_def m_wf_def split: if_splits)
  have base: "m_wf mp'" "length (mem_pool mp') = unat (m_total_sz mp')" "unat (m_total_sz mp') < 2 ^ 31 - 2048"
    using wf2 a(7) len tot s1(6) by (simp_all add: m_wf_def)
  have fits: "fits_i32 sm"
    using bl lower tot syn by (simp add: fits_i32_def sm_bytes_def lt_bytes_def)
  have "unat (upper_alloc_num mp') = Suc ?n
      \<and> (\<forall>i<Suc ?n. fits_i32 (snd ((kms @ [(k, sm)]) ! i)) \<and> slot_holds m4 (unat (m_cur_alloc_sz mp')) i ((kms @ [(k, sm)]) ! i))"
    if n: "Suc ?n \<le> 2097151"
  proof -
    have old: "unat (upper_alloc_num mp) = ?n"
      "\<And>i. i < ?n \<Longrightarrow> fits_i32 (snd (kms ! i)) \<and> slot_holds (mem_pool mp) (unat (m_cur_alloc_sz mp)) i (kms ! i)"
      using h n by (simp_all add: region_holds_def)
    have un: "unat (upper_alloc_num (mp1\<lparr>mem_pool := m2\<rparr>)) = ?n" using old(1) s1(7) by simp
    then have "unat (upper_alloc_num (mp1\<lparr>mem_pool := m2\<rparr>)) < 2097151" using n by simp
    note s2 = alloc_upper_step [OF wf1 this a(4), unfolded un]
    have cur': "unat (m_cur_alloc_sz mp') = unat (m_cur_alloc_sz mp) + 4 + length ?b" using a(7) wf2(3) cur by simp
    let ?lim = "unat (m_cur_alloc_sz mp)"
    have olds: "slot_holds m4 (unat (m_cur_alloc_sz mp')) i (kms ! i)" if i: "i < ?n" for i
    proof -
      have i2: "i < 2097151" using i n by simp
      have 1: "slot_holds m1 ?lim i (kms ! i)"
        using lower i2 s1(2) by (intro slot_holds_put [OF conjunct2 [OF old(2) [OF i]] a(2) [unfolded pool1]]) simp_all
      have 2: "slot_holds m2 ?lim i (kms ! i)" using lower i2 s1(2) by (intro slot_holds_put [OF 1 a(3)]) simp_all
      have 3: "slot_holds m3 ?lim i (kms ! i)"
        using lower i i2 n s2(3) by (intro slot_holds_put [OF 2 a(5) [unfolded pool2], where n = ?n]) simp_all
      show ?thesis
        using lower i i2 n s2(4) cur' by (intro slot_holds_put [OF 3 a(6), where n = ?n]) simp_all
    qed
    have new: "slot_holds m4 (unat (m_cur_alloc_sz mp')) ?n (k, sm)"
    proof -
      have p: "ptr = ?lim" "off = m_cur_alloc_sz mp" "kptr = 8 + 8 * ?n" "optr = 16777216 + 8 * ?n"
        using s1(2,3) s2(3,4) by simp_all
      have "mem_get m4 kptr 8 = mem_get m3 kptr 8" using p n by (intro mem_get_put_other [OF a(6)]) simp
      moreover have "mem_get m3 kptr 8 = Inr (to_bytes u64_pod k)" by (rule mem_get_put_same [OF a(5)]) simp
      ultimately have 1: "obj_get u64_pod m4 (8 + 8 * ?n) = Inr k" using p by (simp add: obj_get_def u64.inv)
      have "mem_get m4 optr 8 = Inr (to_bytes u64_pod off)" by (rule mem_get_put_same [OF a(6)]) simp
      then have 2: "obj_get u64_pod m4 (16777216 + 8 * ?n) = Inr off" using p by (simp add: obj_get_def u64.inv)
      have rest: "mem_get m4 x y = mem_get m2 x y" if "?lim \<le> x" for x y
        using mem_get_put_other [OF a(6), of x y] mem_get_put_other [OF a(5), of x y] that p n lower pool2 by simp
      have "mem_get m2 ptr 4 = mem_get m1 ptr 4" by (intro mem_get_put_other [OF a(3)]) simp
      moreover have "mem_get m1 ptr 4 = Inr (to_bytes i32_pod (of_nat (length ?b)))" by (rule mem_get_put_same [OF a(2)]) simp
      ultimately have 3: "obj_get i32_pod m4 (unat off) = Inr (of_nat (length ?b))"
        using rest [of "unat off" 4] p by (simp add: obj_get_def i32.inv)
      have "mem_get m2 (ptr + 4) (length ?b) = Inr ?b" by (rule mem_get_put_same [OF a(3)]) simp
      then have 4: "mem_get m4 (unat off + 4) (length ?b) = Inr ?b" using rest [of "unat off + 4"] p by simp
      show ?thesis
        unfolding slot_holds_def using 1 2 3 4 p lower cur' by (intro exI [of _ off]) simp
    qed
    show ?thesis
      using s2(2) a(7) olds new old(2) fits by (auto simp: nth_append less_Suc_eq)
  qed
  then show ?thesis using base a(7) by (auto simp: region_holds_def)
qed

section \<open>Training\<close>

lemma train_loop_syn: "train_loop ks vs start k i t p ptr = Inr (t', p') \<Longrightarrow> SynonymTable t' = SynonymTable t"
proof (induction k arbitrary: i t p ptr)
  case 0
  then show ?case by simp
next
  case (Suc k)
  obtain cur where cur: "load p ptr = Inr cur" using Suc.prems by (cases "load p ptr") auto
  show ?case
  proof (cases "isfull cur")
    case True
    with Suc.prems cur obtain num p1 ptr1 where
      "train_loop ks vs start k (i + 1) (fst (train_emplace_back t num 0 0)) p1 ptr1 = Inr (t', p')"
      by (auto simp: rbind_Inr_iff split: if_splits)
    from Suc.IH [OF this] show ?thesis by (simp add: train_emplace_back_def Let_def)
  next
    case False
    with Suc.prems cur obtain p1 where "train_loop ks vs start k (i + 1) t p1 ptr = Inr (t', p')"
      by (auto simp: rbind_Inr_iff split: if_splits)
    from Suc.IH [OF this] show ?thesis .
  qed
qed

lemma SubModel_syn:
  "SubModel s c ks vs start sz raw p = Inr (sm, p') \<Longrightarrow> length raw = 128 \<Longrightarrow> length (SynonymTable (ltable sm)) = 128"
  by (auto simp: SubModel_def rassert_Inr_iff rbind_Inr_iff train_emplace_back_def LeafTable_def Let_def dest!: train_loop_syn)

text \<open>What the region holds of an index.\<close>

definition index_stored :: "rolex \<Rightarrow> remote_mem \<Rightarrow> bool" where
  "index_stored r rm \<longleftrightarrow> length (model_keys r) = length (models r)
     \<and> region_holds (model_allocator rm) (zip (model_keys r) (models r))"

lemma append_model_stored:
  assumes "index_stored r rm" "append_model raw s c ks vs start sz r rm = Inr (r', rm')" "\<And>i. length (raw i) = 128"
  shows "index_stored r' rm'"
proof -
  obtain key sm lp mp where h: "SubModel s c ks vs start sz (raw (length (models r))) (leaf_allocator rm) = Inr (sm, lp)"
      "write_model key (sm_bytes sm) (model_allocator rm) = Inr mp"
      "r' = r\<lparr>model_keys := model_keys r @ [key], models := models r @ [sm]\<rparr>"
      "rm' = rm\<lparr>leaf_allocator := lp, model_allocator := mp\<rparr>"
    using assms(2) by (auto simp: append_model_def rbind_Inr_iff SubModel_serialize_ok)
  from write_model_holds [OF _ h(2) SubModel_syn [OF h(1) assms(3)], of "zip (model_keys r) (models r)"] assms(1) h(3,4)
  show ?thesis by (simp add: index_stored_def)
qed

lemma append_segment_stored:
  "index_stored r rm \<Longrightarrow> append_segment raw opt ks vs start pos r rm = Inr (r', rm') \<Longrightarrow> (\<And>i. length (raw i) = 128) \<Longrightarrow>
     index_stored r' rm'"
  by (auto simp: append_segment_def rbind_Inr_iff intro: append_model_stored)

lemma rx_train_loop_stored:
  "rx_train_loop raw ks vs k i p pos start opt r rm = Inr (pos', start', opt', r', rm') \<Longrightarrow> index_stored r rm \<Longrightarrow>
     (\<And>i. length (raw i) = 128) \<Longrightarrow> index_stored r' rm'"
proof (induction k arbitrary: i p pos start opt r rm)
  case 0
  then show ?case by simp
next
  case (Suc k)
  obtain next_p opt1 ok where h: "vec_at ks i = Inr next_p" "next_p \<noteq> p" "add_point opt next_p (of_nat (pos + 1)) = Inr (opt1, ok)"
    using Suc.prems(1) by (auto simp: rbind_Inr_iff simp del: vec_at_Inr_iff split: if_splits)
  show ?case
  proof (cases ok)
    case True
    then show ?thesis using Suc.prems h by (auto intro: Suc.IH simp del: vec_at_Inr_iff split: if_splits)
  next
    case False
    with Suc.prems(1) h obtain r1 rm1 opt2 b where s: "append_segment raw opt1 ks vs start (pos + 1) r rm = Inr (r1, rm1)"
        "rx_train_loop raw ks vs k (i + 1) next_p 0 (start + (pos + 1)) opt2 r1 rm1 = Inr (pos', start', opt', r', rm')"
      by (auto simp: rbind_Inr_iff simp del: vec_at_Inr_iff split: if_splits)
    show ?thesis
      by (rule Suc.IH [OF s(2) append_segment_stored [OF Suc.prems(2) s(1)]]) (use Suc.prems(3) in simp_all)
  qed
qed

section \<open>Reading it back\<close>

lemma read_submodel_holds:
  assumes "slot_holds m bnd i ks" "fits_i32 (snd ks)" "mem_pool mp = m"
  shows "\<exists>off. obj_get u64_pod m (8 + 8 * i) = Inr (fst ks) \<and> obj_get u64_pod m (16777216 + 8 * i) = Inr off
      \<and> read_submodel raw mp off = Inr (stored (snd ks))"
proof -
  have "sint (of_nat (length (sm_bytes (snd ks))) :: i32) = int (length (sm_bytes (snd ks)))"
    using sm_bytes_short [OF assms(2)] by (intro sint_of_nat_i32) simp
  then show ?thesis
    using assms(1,3) SubModel_deserialize_ok [OF assms(2)]
    by (auto simp: slot_holds_def read_submodel_def get_submodel_def Let_def)
qed

lemma read_back:
  assumes h: "region_holds mp kms" "length kms \<le> 2097151"
  shows "j + k = length kms \<Longrightarrow> rx_deserialize_loop mem mp k (of_nat j) r0
      = Inr (r0\<lparr>model_keys := model_keys r0 @ map fst (drop j kms), models := models r0 @ map (stored \<circ> snd) (drop j kms)\<rparr>)"
proof (induction k arbitrary: j r0)
  case 0
  then show ?case by simp
next
  case (Suc k)
  then have j: "j < length kms" by simp
  have "8 * j < 2 ^ 64" using j h(2) by simp
  then have g: "get_upper mp (of_nat j) = (8 + 8 * j, 16777216 + 8 * j)"
    using unat_of_nat_u64 [of "8 * j"] by (simp add: get_upper_def unat_kUpperModel mult.commute [of _ 8])
  have "fits_i32 (snd (kms ! j)) \<and> slot_holds (mem_pool mp) (unat (m_cur_alloc_sz mp)) j (kms ! j)"
    using h j by (simp add: region_holds_def)
  then obtain off where o: "obj_get u64_pod (mem_pool mp) (8 + 8 * j) = Inr (fst (kms ! j))"
      "obj_get u64_pod (mem_pool mp) (16777216 + 8 * j) = Inr off"
      "\<And>raw. read_submodel raw mp off = Inr (stored (snd (kms ! j)))"
    using read_submodel_holds by (metis Inr_inject)
  have "(of_nat j + 1 :: u64) = of_nat (Suc j)" by simp
  moreover have "drop j kms = kms ! j # drop (Suc j) kms" using j by (simp add: Cons_nth_drop_Suc)
  ultimately show ?case using Suc.IH [of "Suc j"] Suc.prems by (simp add: g o del: of_nat_Suc)
qed

lemma ModelAllocator_holds:
  assumes "ModelAllocator m t = Inr mp" "length m = unat t" "unat t < 2 ^ 31 - 2048"
  shows "region_holds mp []"
proof -
  have "unat t + 2 ^ 32 \<le> 2 ^ 64" using assms(3) by simp
  note wf = ModelAllocator_wf [OF assms(1) this]
  have "length (mem_pool mp) = length m"
    using assms(1) by (auto simp: ModelAllocator_def rbind_Inr_iff rassert_Inr_iff u64.obj_put_length)
  then show ?thesis using wf assms by (simp add: region_holds_def)
qed

lemma train_stores:
  assumes t: "Rolex_train raw ks vs rm = Inr (r, rm')" and rm: "region_holds (model_allocator rm) []"
    and ks: "ks \<noteq> []" and raw: "\<And>i. length (raw i) = 128"
  shows "index_stored r rm' \<and> obj_get u64_pod (mem_pool (model_allocator rm')) 0 = Inr (of_nat (length (models r)))"
proof -
  have i0: "index_stored Rolex rm" using rm by (simp add: index_stored_def Rolex_def)
  obtain p opt0 b0 pos start opt r1 rm1 rm2 m where h:
      "rx_train_loop raw ks vs (length ks - 1) 1 p 0 0 opt0 Rolex rm = Inr (pos, start, opt, r1, rm1)"
      "append_segment raw opt ks vs start (pos + 1) r1 rm1 = Inr (r, rm2)"
      "obj_put u64_pod (mem_pool (model_allocator rm2)) 0 (of_nat (length (models r))) = Inr m"
      "rm' = rm2\<lparr>model_allocator := model_allocator rm2\<lparr>mem_pool := m\<rparr>\<rparr>"
    using t ks by (auto simp: Rolex_train_def rx_train_def rbind_Inr_iff rassert_Inr_iff get_total_ptr_def Let_def
        simp del: vec_at_Inr_iff)
  have st: "index_stored r rm2"
    by (rule append_segment_stored [OF rx_train_loop_stored [OF h(1) i0 raw] h(2) raw])
  let ?mp = "model_allocator rm2" and ?kms = "zip (model_keys r) (models r)"
  have rh: "region_holds ?mp ?kms" using st by (simp add: index_stored_def)
  have cur: "33554432 \<le> unat (m_cur_alloc_sz ?mp)"
    using rh by (simp add: region_holds_def m_wf_def word_le_nat_alt unat_kUpperModel)
  have p: "mem_put (mem_pool ?mp) 0 (to_bytes u64_pod (of_nat (length (models r)))) = Inr m" using h(3) by (simp add: obj_put_def)
  have "slot_holds m (unat (m_cur_alloc_sz ?mp)) i (?kms ! i)"
    if "length ?kms \<le> 2097151" "i < length ?kms" "slot_holds (mem_pool ?mp) (unat (m_cur_alloc_sz ?mp)) i (?kms ! i)" for i
    using order_less_le_trans [OF that(2,1)] cur by (intro slot_holds_put [OF that(3) p]) simp_all
  then have "region_holds (?mp\<lparr>mem_pool := m\<rparr>) ?kms"
    using rh u64.obj_put_length [OF h(3)] by (simp add: region_holds_def m_wf_def)
  then show ?thesis
    using st h(4) u64.obj_get_put_same [OF h(3)] by (simp add: index_stored_def)
qed

lemma region_restores:
  assumes "index_stored r rm" "length (models r) \<le> 2097151"
    and "obj_get u64_pod (mem_pool (model_allocator rm)) 0 = Inr (of_nat (length (models r)))"
  shows "rx_deserialize mem Rolex rm = Inr (stored_rx r)"
proof -
  let ?kms = "zip (model_keys r) (models r)"
  have l: "length ?kms = length (models r)" "length (model_keys r) = length (models r)"
    "region_holds (model_allocator rm) ?kms" using assms(1) by (simp_all add: index_stored_def)
  have "unat (of_nat (length (models r)) :: u64) = length (models r)" using assms(2) by (intro unat_of_nat_u64) simp
  moreover have "map fst ?kms = model_keys r" "map (stored \<circ> snd) ?kms = map stored (models r)"
    using l(2) by (simp_all flip: map_map)
  ultimately show ?thesis
    using read_back [OF l(3) _, of 0 "length (models r)" mem Rolex] assms(2,3) l
    by (simp add: rx_deserialize_def get_total_ptr_def Rolex_def stored_rx_def Let_def)
qed

section \<open>The round trip\<close>

text \<open>C24: the index that training stores in the model region of the memory node is the index that
  \<open>deserialize\<close> reads from it, up to the spin locks, which are not stored: keys, linear models and
  leaf tables of all submodels, for up to 2097151 of them.\<close>

theorem trained_region_roundtrip:
  assumes "ModelAllocator m t = Inr (model_allocator rm)" "length m = unat t" "unat t < 2 ^ 31 - 2048"
    and "ks \<noteq> []" "\<And>i. length (raw i) = 128"
    and "Rolex_train raw ks vs rm = Inr (r, rm')" "length (models r) \<le> 2097151"
  shows "rx_deserialize mem Rolex rm' = Inr (stored_rx r)"
  using train_stores [OF assms(6) ModelAllocator_holds [OF assms(1-3)] assms(4,5)] assms(7)
  by (intro region_restores) simp_all

text \<open>A region with room for one small model, and an index of one key.\<close>

lemma write_model_ok:
  assumes "m_wf mp" "length (mem_pool mp) = unat (m_total_sz mp)" "upper_alloc_num mp = 0" "max_upper_num mp = 2097151"
    and "unat (m_cur_alloc_sz mp) + 4 + length b \<le> unat (m_total_sz mp)" "length b + 4 < 2 ^ 32"
  shows "\<exists>mp'. write_model k b mp = Inr mp'"
proof -
  let ?s = "of_nat (length b + 4) :: usize"
  have u: "unat ?s = length b + 4" using assms(6) by (rule unat_of_nat_32)
  have lower: "33554432 \<le> unat (m_cur_alloc_sz mp)" using assms(1) by (simp add: m_wf_def word_le_nat_alt unat_kUpperModel)
  have "unat (m_cur_alloc_sz mp) + unat (ucast ?s :: u64) < 2 ^ 64"
    using assms(5) u unat_u64_less [of "m_total_sz mp"] by (simp del: of_nat_add)
  then have "unat (m_cur_alloc_sz mp + ucast ?s) = unat (m_cur_alloc_sz mp) + unat (ucast ?s :: u64)"
    using unat_add_lem [of "m_cur_alloc_sz mp" "ucast ?s"] by (simp del: of_nat_add)
  then have "unat (m_cur_alloc_sz mp + ucast ?s) \<le> unat (m_total_sz mp)" using assms(5) u by (simp del: of_nat_add)
  then have "\<not> m_total_sz mp < m_cur_alloc_sz mp + ucast ?s" by (simp add: word_less_nat_alt)
  then have 1: "alloc_submodel mp ?s = Inr (mp\<lparr>m_cur_alloc_sz := m_cur_alloc_sz mp + ucast ?s\<rparr>, unat (m_cur_alloc_sz mp), m_cur_alloc_sz mp)"
    by (simp add: alloc_submodel_def Let_def)
  obtain m1 where 2: "mem_put (mem_pool mp) (unat (m_cur_alloc_sz mp)) (to_bytes i32_pod (of_nat (length b))) = Inr m1" "length m1 = length (mem_pool mp)"
    using mem_put_ok [of "unat (m_cur_alloc_sz mp)" "to_bytes i32_pod (of_nat (length b))" "mem_pool mp"] assms(2,5) by auto
  obtain m2 where 3: "mem_put m1 (unat (m_cur_alloc_sz mp) + 4) b = Inr m2" "length m2 = length (mem_pool mp)"
    using mem_put_ok [of "unat (m_cur_alloc_sz mp) + 4" b m1] 2 assms(2,5) by auto
  obtain m3 where 4: "mem_put m2 8 (to_bytes u64_pod k) = Inr m3" "length m3 = length (mem_pool mp)"
    using mem_put_ok [of 8 "to_bytes u64_pod k" m2] 3 assms(2,5) lower by auto
  obtain m4 where 5: "mem_put m3 16777216 (to_bytes u64_pod (m_cur_alloc_sz mp)) = Inr m4"
    using mem_put_ok [of 16777216 "to_bytes u64_pod (m_cur_alloc_sz mp)" m3] 4 assms(2,5) lower by auto
  show ?thesis
    by (simp add: write_model_def 1 [simplified] obj_put_def 2(1) 3(1) alloc_upper_def assms(3,4) Let_def unat_kUpperModel 4(1) 5)
qed

definition ex_raw :: "nat \<Rightarrow> te list" where "ex_raw i = replicate 128 (mk_te 0 0 0)"

definition ex_plr :: plr where
  "ex_plr = (PLR kPlrEps)\<lparr>last_x := 5, first_x := 5, rectangle := [\<lparr>px = 5, py = 31\<rparr>, \<lparr>px = 5, py = 0\<rparr>, \<lparr>px = 0, py = 0\<rparr>, \<lparr>px = 0, py = 0\<rparr>],
     upper := [\<lparr>px = 5, py = 31\<rparr>], lower := [\<lparr>px = 5, py = 0\<rparr>], points_in_hull := 1\<rparr>"

lemma ex_point: "add_point (PLR kPlrEps) 5 0 = Inr (ex_plr, True)"
  by code_simp

lemma ex_segment: "get_slope_intercept ldbl (get_segment ex_plr) = Inr (0, 15)"
  by code_simp

lemma ex_train:
  "\<exists>rm r rm'. ModelAllocator (replicate 33556480 0) 33556480 = Inr (model_allocator rm)
     \<and> Rolex_train ex_raw [5] [50] rm = Inr (r, rm') \<and> length (models r) = 1 \<and> model_keys r = [5]"
proof -
  obtain p where p: "pool_inv 64 p" "used_hdr p = 0" "alloc_hdr p = 3" using ex_pool64 by blast
  let ?m = "replicate 33556480 0 :: bytes"
  obtain m' where m': "obj_put u64_pod ?m 0 0 = Inr m'" "length m' = length ?m"
    using u64.obj_put_ok [of 0 ?m 0] by auto
  obtain mp where mp: "ModelAllocator ?m 33556480 = Inr mp"
    using m'(1) by (simp add: ModelAllocator_def kUpperModel_def)
  have rh: "region_holds mp []" by (rule ModelAllocator_holds [OF mp]) simp_all
  have "unat (33556480 :: u64) + 2 ^ 32 \<le> 2 ^ 64" by simp
  note wf = ModelAllocator_wf [OF mp this]
  have cur: "unat (m_cur_alloc_sz mp) = 33554432"
    using mp by (auto simp: ModelAllocator_def rbind_Inr_iff rassert_Inr_iff kUpperModel_def)
  let ?c = "double_of 15" and ?s = "double_of 0"
  have es: "input_entries [5] [50] 0 1 = [(5, 50)]" by (simp add: input_entries_def)
  obtain tb p' k where t: "SubModel ?s ?c [5] [50] 0 1 (ex_raw 0) p
      = Inr (\<lparr>model = \<lparr>slope = ?s, intercept = ?c\<rparr>, ltable = tb, capacity = of_nat 1\<rparr>, p')"
      "trained 64 0 (SynonymTable (LeafTable (ex_raw 0))) k [(5, 50)] tb p'"
    using SubModel_ok [OF p(1), of 1 0 "[5]" "[50]" ?s ?c "ex_raw 0", unfolded es p] by (auto simp: invalidKey_def)
  let ?sm = "\<lparr>model = \<lparr>slope = ?s, intercept = ?c\<rparr>, ltable = tb, capacity = of_nat 1\<rparr>"
  have "k = 1" using trainedD(1,5) [OF t(2)] by simp
  then have lt: "length (table tb) = 1" using trainedD(3) [OF t(2)] by simp
  have ls: "length (SynonymTable tb) = 128" using t(2) by (simp add: trained_def LeafTable_def ex_raw_def)
  have lb: "length (sm_bytes ?sm) = 1064" by (simp add: sm_bytes_def lt_bytes_def lt ls)
  obtain mp' where w: "write_model 5 (sm_bytes ?sm) mp = Inr mp'"
    using write_model_ok [OF wf(1) _ wf(2,4), of "sm_bytes ?sm" 5] rh cur wf(3) lb by (auto simp: region_holds_def)
  let ?rm = "\<lparr>leaf_allocator = p, model_allocator = mp\<rparr>" and ?r = "\<lparr>model_keys = [5], models = [?sm]\<rparr>"
  let ?rm' = "\<lparr>leaf_allocator = p', model_allocator = mp'\<rparr>"
  have seg: "append_segment ex_raw ex_plr [5] [50] 0 1 Rolex ?rm = Inr (?r, ?rm')"
    using t(1) w by (simp add: append_segment_def ex_segment append_model_def arr_at_def Rolex_def SubModel_serialize_ok)
  have "index_stored ?r ?rm'"
    using append_segment_stored [OF _ seg] rh by (simp add: index_stored_def Rolex_def ex_raw_def)
  then have "8 \<le> length (mem_pool mp')"
    by (simp add: index_stored_def region_holds_def m_wf_def word_le_nat_alt unat_kUpperModel)
  then obtain m2 where "obj_put u64_pod (mem_pool mp') 0 1 = Inr m2"
    using u64.obj_put_ok [of 0 "mem_pool mp'" 1] by auto
  then have "Rolex_train ex_raw [5] [50] ?rm = Inr (?r, ?rm'\<lparr>model_allocator := mp'\<lparr>mem_pool := m2\<rparr>\<rparr>)"
    using seg by (simp add: Rolex_train_def rx_train_def ex_point get_total_ptr_def)
  then show ?thesis using mp by (intro exI [of _ ?rm] exI [of _ ?r] exI) (intro conjI; simp)
qed

theorem trained_region_roundtrip_witness:
  "\<exists>rm r rm'. Rolex_train ex_raw [5] [50] rm = Inr (r, rm') \<and> model_keys r = [5]
     \<and> rx_deserialize ex_raw Rolex rm' = Inr (stored_rx r)"
proof -
  obtain rm r rm' where h: "ModelAllocator (replicate 33556480 0) 33556480 = Inr (model_allocator rm)"
     "Rolex_train ex_raw [5] [50] rm = Inr (r, rm')" "length (models r) = 1" "model_keys r = [5]"
    using ex_train by blast
  have "rx_deserialize ex_raw Rolex rm' = Inr (stored_rx r)"
    by (rule trained_region_roundtrip [OF h(1) _ _ _ _ h(2)]) (simp_all add: h(3) ex_raw_def)
  with h show ?thesis by blast
qed

end
