(* ===== verification/Compute_Node.thy ===== *)
theory Compute_Node
  imports Learned_Cache_Correct Loop_Network Region_Roundtrip "HOL-Library.Multiset"
begin

text \<open>
  The compute node end to end: after training, its copy of the index is the index of the memory
  node, and its lookup over one-sided reads answers like the lookup of the memory node.
\<close>

section \<open>The copy of a trained index\<close>

lemma copy_trained:
  assumes s: "serves_reads V vw qp cq rmr lmr" and v: "views_local L vw lmr"
    and t: "ModelAllocator m t = Inr (model_allocator rm)" "length m = unat t" "unat t < 2 ^ 31 - 2048"
      "ks \<noteq> []" "\<And>i. length (raw i) = 128" "Rolex_train raw ks vs rm = Inr (r, rm')" "length (models r) \<le> 2097151"
    and c: "compute_node vw qp cq rmr lmr lc n" "vw_remote vw n = mem_pool (model_allocator rm')"
    and room: "unat (cur_alloc_off (localAlloc lc)) + index_room (mem_pool (model_allocator rm')) (length (models r)) \<le> unat (total_mem (localAlloc lc))"
  shows "\<exists>c lc' n'. LearnedCache V L w mem lc n = Inr (c, lc', n') \<and> as_rolex c = stored_rx r
      \<and> lc_linked qp cq rmr lmr lc' \<and> vw_ok vw n' \<and> vw_remote vw n' = mem_pool (model_allocator rm')"
proof -
  note st = train_stores [OF t(6) ModelAllocator_holds [OF t(1-3)] t(4,5)]
  have d: "rx_deserialize mem Rolex rm' = Inr (stored_rx r)"
    using st t(7) by (intro region_restores) simp_all
  have l: "length (mem_pool (model_allocator rm')) < 2 ^ 64" "33554432 \<le> length (mem_pool (model_allocator rm'))"
    using st by (auto simp: index_stored_def region_holds_def m_wf_def word_le_nat_alt unat_kUpperModel)
  have len: "length (models (stored_rx r)) = length (models r)" by (simp add: stored_rx_def)
  from read_index [OF s v l c d, unfolded len, OF t(7) room] show ?thesis .
qed

text \<open>C23: the compute node copies the index. When training has stored an index in the model region
  and the network serves reads, the constructor of the cache returns, and the keys and models it
  has read are those that were trained (up to the spin locks), provided its buffers have room.\<close>

theorem compute_node_index:
  assumes "serves_reads V vw qp cq rmr lmr" "views_local L vw lmr"
    and "ModelAllocator m t = Inr (model_allocator rm)" "length m = unat t" "unat t < 2 ^ 31 - 2048"
    and "ks \<noteq> []" "\<And>i. length (raw i) = 128"
    and "Rolex_train raw ks vs rm = Inr (r, rm')" "length (models r) \<le> 2097151"
    and "compute_node vw qp cq rmr lmr lc n" "vw_remote vw n = mem_pool (model_allocator rm')"
    and "unat (cur_alloc_off (localAlloc lc)) + index_room (mem_pool (model_allocator rm')) (length (models r)) \<le> unat (total_mem (localAlloc lc))"
  shows "\<exists>c lc' n'. LearnedCache V L w mem lc n = Inr (c, lc', n') \<and> as_rolex c = stored_rx r"
  using copy_trained [OF assms(1-5) assms(6-12), of w mem] by blast

definition net_rc :: rc where
  "net_rc = ex_rc\<lparr>local_mr := Some local_attr, remote_mr := Some remote_attr\<rparr>"

definition ex_lc :: local_connection where
  "ex_lc = \<lparr>lc_conf = LC_config ''localhost:1111'' 0 0 1 64 0 0, lc_nic = ex_nic,
     lc_handler = \<lparr>h_mr = None, h_nic = ex_nic, h_rmem = \<lparr>raw_ptr = 0, rmem_sz = 0\<rparr>\<rparr>,
     localAlloc = \<lparr>la_buf = 0, total_mem = 4294967295, la_mr = local_attr, la_key = 8, cur_alloc_off = 0, leaf_buf_off = 0\<rparr>,
     lc_cm = \<lparr>sp_channel = \<lparr>sock_fd = 3, end_addr = 0\<rparr>, sp_checksum = 1\<rparr>, model_rc = net_rc, data_rc = net_rc\<rparr>"

definition zero_wc :: wc where "zero_wc = \<lparr>wc_wr_id = 0, wc_success = True, wc_imm_data = 0, wc_byte_len = 0\<rparr>"

lemma linked_net_rc: "linked 0 0 remote_attr local_attr net_rc"
  by (simp add: linked_def net_rc_def ex_rc_def)

theorem compute_node_index_witness:
  "\<exists>rm r rm' c lc' n'. Rolex_train ex_raw [5] [50] rm = Inr (r, rm') \<and> model_keys r = [5]
     \<and> LearnedCache loop_verbs loop_mem zero_wc ex_raw ex_lc
         \<lparr>ln_local = replicate 4294967295 0, ln_remote = mem_pool (model_allocator rm'), ln_done = []\<rparr> = Inr (c, lc', n')
     \<and> as_rolex c = stored_rx r"
proof -
  obtain rm r rm' where h: "ModelAllocator (replicate 33556480 0) 33556480 = Inr (model_allocator rm)"
     "Rolex_train ex_raw [5] [50] rm = Inr (r, rm')" "length (models r) = 1" "model_keys r = [5]"
    using ex_train by blast
  let ?R = "mem_pool (model_allocator rm')"
  let ?n = "\<lparr>ln_local = replicate 4294967295 0, ln_remote = ?R, ln_done = []\<rparr>"
  have raw: "\<And>i. length (ex_raw i) = 128" by (simp add: ex_raw_def)
  have st: "index_stored r rm'"
    using train_stores [OF h(2) ModelAllocator_holds [OF h(1)] _ raw] by simp
  then have R: "length ?R < 2 ^ 40" by (simp add: index_stored_def region_holds_def)
  have s0: "fits_i32 (models r ! 0) \<and> slot_holds ?R (unat (m_cur_alloc_sz (model_allocator rm'))) 0 (5, models r ! 0)"
    using st h(3,4) by (auto simp: index_stored_def region_holds_def length_Suc_conv)
  have "index_room ?R 1 < 2 ^ 31 + 24"
  proof -
    have b: "length (sm_bytes (models r ! 0)) < 2 ^ 31" using sm_bytes_short [of "models r ! 0"] s0 by simp
    then have "sint (of_nat (length (sm_bytes (models r ! 0))) :: i32) = int (length (sm_bytes (models r ! 0)))"
      by (rule sint_of_nat_i32)
    then have "model_sizes ?R 1 = [length (sm_bytes (models r ! 0))]"
      using s0 by (auto simp: model_sizes_def sub_size_def slot_holds_def)
    then show ?thesis using b by (simp add: index_room_def)
  qed
  then have room: "unat (cur_alloc_off (localAlloc ex_lc)) + index_room ?R (length (models r)) \<le> unat (total_mem (localAlloc ex_lc))"
    by (simp add: ex_lc_def h(3))
  have cn: "compute_node loop_view 0 0 remote_attr local_attr ex_lc ?n"
    using linked_net_rc R by (simp add: compute_node_def lc_linked_def ex_lc_def loop_view_def local_attr_def)
  have "\<exists>c lc' n'. LearnedCache loop_verbs loop_mem zero_wc ex_raw ex_lc ?n = Inr (c, lc', n') \<and> as_rolex c = stored_rx r"
    by (rule compute_node_index [OF loop_serves_reads loop_views_local h(1) _ _ _ raw h(2) _ cn _ room])
      (simp_all add: h(3) loop_view_def)
  with h show ?thesis by blast
qed

section \<open>Leaves over the network\<close>

lemma length_blocks: "\<forall>x \<in> set xs. length (f x) = n \<Longrightarrow> length (concat (map f xs)) = length xs * n"
  by (induction xs) simp_all

lemma block_at:
  assumes "\<forall>x \<in> set xs. length (f x) = n" "i < length xs"
  shows "take n (drop (i * n) (concat (map f xs) @ rest)) = f (xs ! i)"
proof -
  have "concat (map f xs) @ rest = concat (map f (take i xs)) @ f (xs ! i) @ concat (map f (drop (Suc i) xs)) @ rest"
    using id_take_nth_drop [OF assms(2)] by (metis append_assoc concat.simps(2) concat_append list.map(2) map_append)
  moreover have "length (concat (map f (take i xs))) = i * n"
    using assms by (subst length_blocks [where n = n]) (auto dest: in_set_takeD)
  moreover have "length (f (xs ! i)) = n" using assms by simp
  ultimately show ?thesis by simp
qed

lemma arr_pod_decode:
  assumes "pod_codec p" "length xs = k"
  shows "length (to_bytes (arr_pod k p) xs) = k * size_of p"
    "of_bytes (arr_pod k p) (to_bytes (arr_pod k p) xs @ rest) = xs"
proof -
  have one: "length (to_bytes p x) = size_of p" "of_bytes p (to_bytes p x) = x" for x
    using pod_codec.len [OF assms(1)] pod_codec.inv [OF assms(1)] by auto
  show "length (to_bytes (arr_pod k p) xs) = k * size_of p" using assms(2) by (simp add: arr_pod_def length_blocks [where n = "size_of p"] one)
  show "of_bytes (arr_pod k p) (to_bytes (arr_pod k p) xs @ rest) = xs"
    using assms(2) block_at [of xs "to_bytes p" "size_of p" _ rest] one
    by (intro nth_equalityI) (simp_all add: arr_pod_def del: drop_append)
qed

lemma leaf_pod_decode:
  assumes "leaf_inv l" "max_slot l = 64"
  shows "length (to_bytes leaf_pod l) = 1024" "of_bytes leaf_pod (to_bytes leaf_pod l) = l" "size_of leaf_pod = 1024"
proof -
  have k: "length (keys l) = 64" "length (vals l) = 64" using assms by (simp_all add: leaf_inv_def max_slot_def)
  note d1 = arr_pod_decode [OF u64.pod_codec_axioms k(1)] and d2 = arr_pod_decode [OF u64.pod_codec_axioms k(2)]
  show "size_of leaf_pod = 1024" by (simp add: leaf_pod_def iso_pod_def pair_pod_def arr_pod_def)
  show "length (to_bytes leaf_pod l) = 1024" using d1(1) d2(1) by (simp add: leaf_pod_def iso_pod_def pair_pod_def)
  have "size_of (arr_pod 64 u64_pod) = 512" by (simp add: arr_pod_def)
  then show "of_bytes leaf_pod (to_bytes leaf_pod l) = l"
    using d1(1) d1(2) [of "[]"] d2(2) [of "[]"] by (simp add: leaf_pod_def iso_pod_def pair_pod_def)
qed

text \<open>The leaf region as bytes.\<close>

definition holds_leaves :: "bytes \<Rightarrow> leaf_pool \<Rightarrow> bool" where
  "holds_leaves m lp \<longleftrightarrow> slot_sz lp = leaf_t_size
     \<and> (\<forall>k < unat (alloc_hdr lp). mem_get m (16 + 1024 * k) 1024 = Inr (to_bytes leaf_pod (leaf_of lp (of_nat k))))"

lemma read_leaf_ok:
  assumes s: "serves_reads V vw qp cq rmr lmr" and v: "views_local L vw lmr" and q: "linked qp cq rmr lmr q"
    and w: "length (s_sges w) = 1" and ok: "vw_ok vw n" and p: "p + 1024 \<le> length (vw_local vw n)"
    and h: "holds_leaves (vw_remote vw n) lp" "pool_inv 64 lp" "num < alloc_hdr lp"
  shows "\<exists>w' q' n'. read_leaf V L raw num (attr_buf lmr + of_nat p) w q n = Inr (leaf_of lp num, w', q', n')
      \<and> linked qp cq rmr lmr q' \<and> length (s_sges w') = 1 \<and> vw_ok vw n' \<and> vw_remote vw n' = vw_remote vw n
      \<and> length (vw_local vw n') = length (vw_local vw n)"
proof -
  let ?off = "16 + 1024 * unat num"
  have k: "unat num < unat (alloc_hdr lp)" using h(3) by (simp add: word_less_nat_alt)
  then have g: "mem_get (vw_remote vw n) ?off 1024 = Inr (to_bytes leaf_pod (leaf_of lp num))"
    using h(1) by (simp add: holds_leaves_def)
  then have r: "?off + unat leaf_t_size \<le> length (vw_remote vw n)" by (auto simp: mem_get_def leaf_t_size_def split: if_splits)
  have off: "remote_leaf_offsets num = of_nat ?off"
    by (simp add: remote_leaf_offsets_def leaf_t_size_def mult.commute)
  have p': "p + unat leaf_t_size \<le> length (vw_local vw n)" using p by (simp add: leaf_t_size_def)
  obtain w1 w' q' n' where o: "read_op (of_nat ?off) (attr_buf lmr + of_nat p) leaf_t_size q w = Inr w1"
      "execute_wait V raw w1 q n = Inr (w', q', n')" "linked qp cq rmr lmr q'" "length (s_sges w') = 1"
      "vw_ok vw n'" "vw_remote vw n' = vw_remote vw n"
      "mem_put (vw_local vw n) p (take (unat leaf_t_size) (drop ?off (vw_remote vw n))) = Inr (vw_local vw n')"
    using read_ok [OF s q w ok r p'] by blast
  note len = mem_put_length [OF o(7)]
  have lf: "leaf_inv (leaf_of lp num)" "max_slot (leaf_of lp num) = 64" using pool_inv_leaf [OF h(2,3)] by simp_all
  have "mem_get (vw_local vw n') (p + 0) 1024 = mem_get (vw_remote vw n) (?off + 0) 1024"
    using r by (intro copied [OF o(7)]) (simp_all add: leaf_t_size_def)
  then have "load_leaf_at L (attr_buf lmr + of_nat p) n' = Inr (leaf_of lp num)"
    using load_obj_view [OF v, of p leaf_pod n'] p len g leaf_pod_decode [OF lf]
    by (simp add: load_leaf_at_def obj_get_def)
  then show ?thesis using o len by (simp add: read_leaf_def off del: of_nat_add of_nat_mult)
qed

fun hit :: "leaf list \<Rightarrow> u64 \<Rightarrow> u64 option" where
  "hit [] k = None"
| "hit (l # ls) k = (case leaf_search l k of Some v \<Rightarrow> Some v | None \<Rightarrow> hit ls k)"

lemma hit_map_of:
  "\<forall>l \<in> set ls. leaf_inv l \<Longrightarrow> k \<noteq> invalidKey \<Longrightarrow> hit ls k = map_of (concat (map entries ls)) k"
  by (induction ls) (auto simp: search_map_of map_add_def split: option.splits)

lemma search_leaves_ok:
  assumes s: "serves_reads V vw qp cq rmr lmr" and v: "views_local L vw lmr" and h: "pool_inv 64 lp"
  shows "linked qp cq rmr lmr q \<Longrightarrow> length (s_sges w) = 1 \<Longrightarrow> vw_ok vw n \<Longrightarrow> p + 1024 \<le> length (vw_local vw n) \<Longrightarrow>
     holds_leaves (vw_remote vw n) lp \<Longrightarrow> \<forall>e \<in> set es. ucast (leaf_num e) < alloc_hdr lp \<Longrightarrow>
     \<exists>q' n'. search_leaves V L raw key (attr_buf lmr + of_nat p) es w q n
        = Inr (hit (map (\<lambda>e. leaf_of lp (ucast (leaf_num e))) es) key, q', n')"
proof (induction es arbitrary: w q n)
  case Nil
  then show ?case by simp
next
  case (Cons e es)
  have num: "ucast (leaf_num e) < alloc_hdr lp" using Cons.prems(6) by simp
  obtain w' q' n' where r: "read_leaf V L raw (ucast (leaf_num e)) (attr_buf lmr + of_nat p) w q n
        = Inr (leaf_of lp (ucast (leaf_num e)), w', q', n')" "linked qp cq rmr lmr q'" "length (s_sges w') = 1"
      "vw_ok vw n'" "vw_remote vw n' = vw_remote vw n" "length (vw_local vw n') = length (vw_local vw n)"
    using read_leaf_ok [OF s v Cons.prems(1-5) h num] by blast
  show ?case
  proof (cases "leaf_search (leaf_of lp (ucast (leaf_num e))) key")
    case None
    have "\<exists>q2 n2. search_leaves V L raw key (attr_buf lmr + of_nat p) es w' q' n'
        = Inr (hit (map (\<lambda>e. leaf_of lp (ucast (leaf_num e))) es) key, q2, n2)"
      using Cons.IH [OF r(2-4)] Cons.prems(4-6) r(5,6) by simp
    then show ?thesis using r(1) None by auto
  next
    case (Some x)
    then show ?thesis using r(1) by auto
  qed
qed

section \<open>Lookups\<close>

lemma sm_stored [simp]: "sm_get_leaf_addr (stored sm) = sm_get_leaf_addr sm"
  by (simp add: fun_eq_iff stored_def sm_get_leaf_addr_def get_leaf_addr_def cong del: if_weak_cong)

text \<open>The leaves of the window have no synonym leaves; the compute node reads only table entries.\<close>

definition no_synonyms :: "leaf_table \<Rightarrow> nat \<Rightarrow> nat \<Rightarrow> bool" where
  "no_synonyms t l h \<longleftrightarrow> (\<forall>j. l \<le> j \<and> j \<le> h \<longrightarrow> synonym_leaf (table t ! j) = 0)"

lemma window_entries:
  assumes "table_inv N lp t" "no_synonyms t l h" "h < length (table t)"
  shows "span_entries lp t l h = concat (map (\<lambda>j. entries (leaf_of lp (ucast (leaf_num (table t ! j))))) [l..<Suc h])"
    "\<And>j. l \<le> j \<Longrightarrow> j \<le> h \<Longrightarrow> ucast (leaf_num (table t ! j)) < alloc_hdr lp"
proof -
  have rep: "table_rep N lp t (Table_Rep.chain t)" using assms(1) by (simp add: table_inv_def)
  have g: "Table_Rep.chain t j = []" if "l \<le> j" "j \<le> h" for j
  proof -
    have "chain_fuel syn k 0 = []" for syn k by (cases k) simp_all
    then show ?thesis using assms(2) that by (simp add: no_synonyms_def Table_Rep.chain_def)
  qed
  have "group_entries lp t j = entries (leaf_of lp (ucast (leaf_num (table t ! j))))" if "l \<le> j" "j \<le> h" for j
    using g [OF that] by (simp add: group_entries_def group_of_def base_num_def)
  then show "span_entries lp t l h = concat (map (\<lambda>j. entries (leaf_of lp (ucast (leaf_num (table t ! j))))) [l..<Suc h])"
    unfolding span_entries_def by (intro arg_cong [where f = concat] map_cong) auto
  show "ucast (leaf_num (table t ! j)) < alloc_hdr lp" if j: "l \<le> j" "j \<le> h" for j
    using table_rep_group [OF rep, of j] g [OF j] j assms(3) used_le_alloc [OF table_repD(1) [OF rep]]
    by (auto simp: group_of_def base_num_def)
qed

lemma mset_concat_rev: "mset (concat (rev xss)) = mset (concat xss)"
  by (induction xss) (simp_all add: union_commute)

lemma lookup:
  assumes s: "serves_reads V vw qp cq rmr lmr" and v: "views_local L vw lmr" and q: "linked qp cq rmr lmr q"
    and n: "vw_ok vw n" "p + 1024 \<le> length (vw_local vw n)" "holds_leaves (vw_remote vw n) (leaf_allocator rm)"
    and c: "as_rolex c = stored_rx r"
    and i: "model_for_key r key = Inr i" "unat i < length (models r)" and sm: "sm = models r ! unat i"
    and a: "predict (model sm) key (capacity sm) = Inr a" "ap_lo a \<le> ap_hi a" "ap_hi a < 2 ^ 31"
    and t: "table_inv 64 (leaf_allocator rm) (ltable sm)" "ap_hi a div 64 < length (table (ltable sm))"
      "span_ok (leaf_allocator rm) (ltable sm) (ap_lo a div 64) (ap_hi a div 64)"
      "no_synonyms (ltable sm) (ap_lo a div 64) (ap_hi a div 64)"
    and k: "key \<noteq> invalidKey"
  shows "\<exists>v q' n'. lc_search V L raw c key (attr_buf lmr + of_nat p) q n = Inr (v, q', n')
      \<and> v = map_of (span_entries (leaf_allocator rm) (ltable sm) (ap_lo a div 64) (ap_hi a div 64)) key
      \<and> rx_search r rm key = Inr v"
proof -
  let ?l = "ap_lo a div 64" and ?h = "ap_hi a div 64" and ?lp = "leaf_allocator rm" and ?t = "ltable sm"
  let ?es = "map (\<lambda>j. table ?t ! j) [?l..<Suc ?h]" and ?leaf = "\<lambda>e. leaf_of ?lp (ucast (leaf_num e))"
  have lh: "?l \<le> ?h" using a(2) by (simp add: div_le_mono)
  have h31: "?h < 2 ^ 31 - 1" using a(3) by simp
  have u: "unat (of_nat ?l :: usize) = ?l" "unat (of_nat ?h :: usize) = ?h"
    using lh h31 by (auto intro!: unat_of_nat_32)
  have mk: "model_for_key (as_rolex c) key = Inr i"
    using i(1) by (simp add: c model_for_key_def stored_rx_def cong del: if_weak_cong)
  have ms: "lc_models c = map stored (models r)" using arg_cong [where f = models, OF c] by (simp add: as_rolex_def stored_rx_def)
  have "sm_get_leaf_addr sm key [] = Inr (map (\<lambda>i. (i, table ?t ! i)) [?l..<Suc ?h])"
    using t(2) h31 by (simp add: sm_get_leaf_addr_def a(1) kLeafSlots_def u get_leaf_addr_def del: upt_Suc)
  then have lv: "lc_leaves c key = Inr ?es"
    using i(2) by (simp add: lc_leaves_def mk ms o_def del: upt_Suc flip: sm)
  note w = window_entries [OF t(1,4,2)]
  have pool: "pool_inv 64 ?lp" using t(1) by (simp add: table_inv_def table_repD)
  have num: "\<forall>e \<in> set (rev ?es). ucast (leaf_num e) < alloc_hdr ?lp" using w(2) by auto
  have "length (s_sges (new_op 1)) = 1" by (simp add: new_op_def)
  from search_leaves_ok [OF s v pool q this n(1,2,3) num, of raw key] lv
  obtain q' n' where r: "lc_search V L raw c key (attr_buf lmr + of_nat p) q n = Inr (hit (map ?leaf (rev ?es)) key, q', n')"
    by (auto simp: lc_search_def)
  have inv: "\<forall>l \<in> set (map ?leaf (rev ?es)). leaf_inv l" using num pool_inv_leaf(2) [OF pool] by auto
  let ?E = "span_entries ?lp ?t ?l ?h"
  have E: "?E = concat (map entries (map ?leaf ?es))" by (simp add: w(1) o_def del: upt_Suc)
  have d: "distinct (map fst ?E)" using t(3) by (simp add: span_ok_def al_sorted_distinct)
  let ?X = "concat (map entries (map ?leaf (rev ?es)))"
  have m: "mset ?X = mset ?E"
    by (simp only: E mset_concat_rev flip: rev_map)
  have "mset (map fst ?X) = mset (map fst ?E)" by (simp only: mset_map m)
  then have "distinct (map fst ?X)" using d mset_eq_imp_distinct_iff by blast
  then have "map_of ?X = map_of ?E" using map_of_inject_set [OF _ d] mset_eq_setD [OF m] by blast
  then have "hit (map ?leaf (rev ?es)) key = map_of ?E key"
    using hit_map_of [OF inv k] by simp
  moreover have "rx_search r rm key = Inr (map_of ?E key)"
    using lt_search_span [OF t(1) lh t(2,3) k] leaf_window_div [of a] a i(2)
    by (simp add: rx_search_def i(1) sm_search_def flip: sm)
  ultimately show ?thesis using r by auto
qed

text \<open>C22: a lookup of the compute node against the memory node. The cache \<open>c\<close> is assumed to hold
  the keys and models the memory node has in its model region (C23 shows that building the
  cache gives this), the leaves of the memory node are assumed to lie in the leaf region as the
  leaf allocator has them, and the network to serve one-sided reads. For a key whose predicted
  window ends inside the leaf table and below \<open>2 ^ 31\<close>, and over whose leaves the entries are
  sorted and no leaf has a synonym leaf, the search over one-sided reads returns; it finds what
  the sorted map of the window holds for the key, and so does the search on the memory node.
  Synonym leaves are excluded: the compute node reads only the leaves of the window.\<close>

theorem compute_node_lookup:
  assumes "serves_reads V vw qp cq rmr lmr" "views_local L vw lmr" "linked qp cq rmr lmr q"
    and "vw_ok vw n" "p + 1024 \<le> length (vw_local vw n)" "holds_leaves (vw_remote vw n) (leaf_allocator rm)"
    and "as_rolex c = stored_rx r"
    and "model_for_key r key = Inr i" "unat i < length (models r)" "sm = models r ! unat i"
    and "predict (model sm) key (capacity sm) = Inr a" "ap_lo a \<le> ap_hi a" "ap_hi a < 2 ^ 31"
    and "table_inv 64 (leaf_allocator rm) (ltable sm)" "ap_hi a div 64 < length (table (ltable sm))"
      "span_ok (leaf_allocator rm) (ltable sm) (ap_lo a div 64) (ap_hi a div 64)"
      "no_synonyms (ltable sm) (ap_lo a div 64) (ap_hi a div 64)"
    and "key \<noteq> invalidKey"
  shows "\<exists>v q' n'. lc_search V L raw c key (attr_buf lmr + of_nat p) q n = Inr (v, q', n')
      \<and> v = map_of (span_entries (leaf_allocator rm) (ltable sm) (ap_lo a div 64) (ap_hi a div 64)) key
      \<and> rx_search r rm key = Inr v"
  by (rule lookup [OF assms])

section \<open>An example\<close>

lemma fetch_slot: "fetch_new_leaf p = Inr (p', r) \<Longrightarrow> slot_sz p' = slot_sz p"
  by (auto simp: fetch_new_leaf_def fetch_and_add_def rbind_Inr_iff rassert_Inr_iff Let_def)

lemma train_loop_slot: "train_loop ks vs start k i t p ptr = Inr (t', p') \<Longrightarrow> slot_sz p' = slot_sz p"
proof (induction k arbitrary: i t p ptr)
  case 0
  then show ?case by simp
next
  case (Suc k)
  obtain cur where cur: "load p ptr = Inr cur" using Suc.prems by (cases "load p ptr") auto
  show ?case
  proof (cases "isfull cur")
    case True
    with Suc.prems cur obtain p1 p2 t1 ptr1 l num where
      "fetch_new_leaf p = Inr (p1, ptr1, num)" "p2 = store p1 ptr1 l" "train_loop ks vs start k (i + 1) t1 p2 ptr1 = Inr (t', p')"
      by (auto simp: rbind_Inr_iff split: if_splits)
    with Suc.IH show ?thesis by (metis fetch_slot store_simps(3))
  next
    case False
    with Suc.prems cur obtain l where "train_loop ks vs start k (i + 1) t (store p ptr l) ptr = Inr (t', p')"
      by (auto simp: rbind_Inr_iff split: if_splits)
    from Suc.IH [OF this] show ?thesis by simp
  qed
qed

lemma SubModel_slot: "SubModel s c ks vs start sz raw p = Inr (sm, p') \<Longrightarrow> slot_sz p' = slot_sz p"
  by (auto simp: SubModel_def rassert_Inr_iff rbind_Inr_iff dest!: train_loop_slot fetch_slot)

lemma prealloc_loop_slot: "prealloc_loop k i raw p = Inr p' \<Longrightarrow> slot_sz p' = slot_sz p"
proof (induction k arbitrary: i p)
  case (Suc k)
  then obtain p1 ptr l where "alloc p = Inr (p1, Some ptr)" "prealloc_loop k (i + 1) raw (store p1 ptr l) = Inr p'"
    by (auto simp: rbind_Inr_iff opt_value_Inr_iff split: if_splits)
  moreover have "slot_sz p1 = slot_sz p" if "alloc p = Inr (p1, r)" for p1 r
    using that by (auto simp: alloc_def rbind_Inr_iff Let_def split: if_splits)
  ultimately show ?case using Suc.IH by fastforce
qed simp

lemma ex_pool_1024: "\<exists>p. pool_inv 64 p \<and> used_hdr p = 0 \<and> alloc_hdr p = 3 \<and> slot_sz p = 1024"
proof -
  have "\<exists>p. prealloc_leaves 3 (\<lambda>_. \<lparr>keys = replicate 64 0, vals = replicate 64 0\<rparr>) (pool_init 10000 1024) = Inr p
      \<and> pool_inv 64 p \<and> used_hdr p = 0 \<and> alloc_hdr p = 3"
    using prealloc_leaves_cases [of "\<lambda>_. \<lparr>keys = replicate 64 0, vals = replicate 64 0\<rparr>" 64 1024 10000 3]
    by (simp add: max_slot_def) blast
  moreover have "slot_sz p = 1024" if "prealloc_leaves 3 raw (pool_init 10000 1024) = Inr p" for raw p
    using that by (auto simp: prealloc_leaves_def rassert_Inr_iff pool_init_def dest!: prealloc_loop_slot split: if_splits)
  ultimately show ?thesis by blast
qed

lemma leaves_as_bytes:
  assumes "pool_inv 64 lp" "slot_sz lp = 1024" "alloc_hdr lp = 3"
  shows "\<exists>m. holds_leaves m lp \<and> length m = 3088"
proof -
  let ?f = "\<lambda>k. to_bytes leaf_pod (leaf_of lp (of_nat k))"
  let ?m = "replicate 16 0 @ concat (map ?f [0..<3])"
  have len: "\<forall>k \<in> set [0..<3]. length (?f k) = 1024"
  proof
    fix k assume "k \<in> set [0..<3]"
    then have "(of_nat k :: u64) < alloc_hdr lp" using assms(3) by (auto simp: numeral_3_eq_3 less_Suc_eq)
    then show "length (?f k) = 1024" using leaf_pod_decode(1) pool_inv_leaf(2,3) [OF assms(1)] by blast
  qed
  have lm: "length ?m = 3088" using length_blocks [OF len] by simp
  have "mem_get ?m (16 + 1024 * k) 1024 = Inr (?f k)" if "k < 3" for k
    using block_at [OF len, of k "[]"] that lm by (simp add: mem_get_def mult.commute del: upt_Suc)
  then show ?thesis using lm assms by (intro exI [of _ ?m]) (simp add: holds_leaves_def leaf_t_size_def)
qed

lemma ex_predict:
  "predict \<lparr>slope = 0x3FF0000000000000, intercept = 0xC014000000000000\<rparr> 7 3 = Inr \<lparr>ap_pos = 2, ap_lo = 0, ap_hi = 2\<rparr>"
  by code_simp

lemma ex_model_search: "binary_search_branchless [9, 100] 2 7 = Inr 0"
  by code_simp

theorem compute_node_lookup_witness:
  "\<exists>sm lp R v q' n'. leaf_search (leaf_of lp 0) 7 = Some 70
     \<and> lc_search loop_verbs loop_mem zero_wc \<lparr>lc_keys = [9, 100], lc_offs = [], lc_models = [stored sm, stored sm]\<rparr> 7 0 net_rc
         \<lparr>ln_local = replicate 1024 0, ln_remote = R, ln_done = []\<rparr> = Inr (v, q', n')
     \<and> v = Some 70"
proof -
  obtain p where p: "pool_inv 64 p" "used_hdr p = 0" "alloc_hdr p = 3" "slot_sz p = 1024" using ex_pool_1024 by blast
  let ?m = "\<lparr>slope = 0x3FF0000000000000, intercept = 0xC014000000000000\<rparr> :: lr_model"
  have es: "input_entries [5, 7, 9] [50, 70, 90] 0 3 = [(5, 50), (7, 70), (9, 90)]" by (rule ex_input)
  obtain tb lp k where t: "SubModel 0x3FF0000000000000 0xC014000000000000 [5, 7, 9] [50, 70, 90] 0 3 (ex_raw 0) p
      = Inr (\<lparr>model = ?m, ltable = tb, capacity = of_nat 3\<rparr>, lp)"
      "trained 64 0 (SynonymTable (LeafTable (ex_raw 0))) k [(5, 50), (7, 70), (9, 90)] tb lp" "alloc_hdr lp = 3"
    using SubModel_ok [OF p(1), of 3 0 "[5, 7, 9]" "[50, 70, 90]" "0x3FF0000000000000" "0xC014000000000000" "ex_raw 0", unfolded es p]
    by (auto simp: invalidKey_def)
  let ?sm = "\<lparr>model = ?m, ltable = tb, capacity = of_nat 3\<rparr>"
  let ?r = "\<lparr>model_keys = [9, 100], models = [?sm, ?sm]\<rparr>" and ?rm = "\<lparr>leaf_allocator = lp, model_allocator = undefined\<rparr>"
  let ?c = "\<lparr>lc_keys = [9, 100], lc_offs = [], lc_models = [stored ?sm, stored ?sm]\<rparr>"
  have k: "k = 1" using trainedD(1,5) [OF t(2)] by simp
  have pool: "pool_inv 64 lp" by (rule trainedD(2) [OF t(2)])
  have slot: "slot_sz lp = 1024" using SubModel_slot [OF t(1)] p(4) by simp
  obtain R where R: "holds_leaves R lp" "length R = 3088" using leaves_as_bytes [OF pool slot t(3)] by blast
  have syn: "length (SynonymTable (LeafTable (ex_raw 0))) = 128" "leaf_num (SynonymTable (LeafTable (ex_raw 0)) ! 0) = 1"
    by (simp_all add: LeafTable_def ex_raw_def)
  have srt: "al_sorted [(5 :: u64, 50 :: u64), (7, 70), (9, 90)]" by simp
  have h48: "alloc_hdr lp \<le> 2 ^ 48" by (simp add: t(3))
  note rep = trained_rep [OF t(2) _ h48 syn srt]
  note sp = trained_span [OF t(2) _ h48 syn srt, of 0 0]
  have ent: "span_entries lp tb 0 0 = [(5, 50), (7, 70), (9, 90)]" "span_ok lp tb 0 0" using sp k by simp_all
  have tb: "table tb = [mk_te 0 0 0]" using trainedD(3) [OF t(2)] k by simp
  let ?n = "\<lparr>ln_local = replicate 1024 0, ln_remote = R, ln_done = []\<rparr>"
  let ?a = "\<lparr>ap_pos = 2, ap_lo = 0, ap_hi = 2\<rparr>"
  have mk: "model_for_key ?r 7 = Inr 0" by (simp add: model_for_key_def ex_model_search)
  have "\<exists>v q' n'. lc_search loop_verbs loop_mem zero_wc ?c 7 (attr_buf local_attr + of_nat 0) net_rc ?n = Inr (v, q', n')
      \<and> v = map_of (span_entries (leaf_allocator ?rm) (ltable ?sm) (ap_lo ?a div 64) (ap_hi ?a div 64)) 7
      \<and> rx_search ?r ?rm 7 = Inr v"
  proof (rule compute_node_lookup [OF loop_serves_reads loop_views_local linked_net_rc])
    show "vw_ok loop_view ?n" "0 + 1024 \<le> length (vw_local loop_view ?n)" using R(2) by (simp_all add: loop_view_def)
    show "holds_leaves (vw_remote loop_view ?n) (leaf_allocator ?rm)" using R(1) by (simp add: loop_view_def)
    show "as_rolex ?c = stored_rx ?r" by (simp add: as_rolex_def stored_rx_def)
    show "model_for_key ?r 7 = Inr 0" by (rule mk)
    show "unat (0 :: usize) < length (models ?r)" "?sm = models ?r ! unat (0 :: usize)" by simp_all
    show "predict (model ?sm) 7 (capacity ?sm) = Inr ?a" using ex_predict by simp
    show "ap_lo ?a \<le> ap_hi ?a" "ap_hi ?a < 2 ^ 31" by simp_all
    show "table_inv 64 (leaf_allocator ?rm) (ltable ?sm)" using table_rep_inv rep(1) by simp
    show "ap_hi ?a div 64 < length (table (ltable ?sm))" by (simp add: tb)
    show "span_ok (leaf_allocator ?rm) (ltable ?sm) (ap_lo ?a div 64) (ap_hi ?a div 64)" using ent(2) by simp
    show "no_synonyms (ltable ?sm) (ap_lo ?a div 64) (ap_hi ?a div 64)" by (simp add: no_synonyms_def tb mk_te_def)
    show "7 \<noteq> invalidKey" by (simp add: invalidKey_def)
  qed
  moreover have "leaf_search (leaf_of lp 0) 7 = Some 70"
    using search_map_of [OF pool_inv_leaf(2) [OF pool], of 0 7] trainedD(7) [OF t(2), of 0] k
    by (simp add: t(3) invalidKey_def)
  ultimately show ?thesis
    using ent(1) by (intro exI [of _ ?sm] exI [of _ lp] exI [of _ R]) (auto simp: local_attr_def)
qed

end
