(* ===== verification/Remote_Operations.thy ===== *)
theory Remote_Operations
  imports Ud_Network Compute_Node
begin

text \<open>
  The operations of the index over the network: what a compute node gets by a remote call is what the
  memory node's index answers, and what the memory node holds afterwards is what its index does. The
  theorems are over any transport that delivers, and are applied to datagrams.
\<close>

section \<open>An example\<close>

definition ex_locals :: locals where
  "ex_locals = \<lparr>l_header = \<lparr>h_type = 0, h_rpc_id = 0, h_payload = 0, h_cor_id = 0, h_pad = 0\<rparr>, l_ptr = 64, l_buf = replicate 64 0,
     l_reply = \<lparr>rv_status = False, rv_val = 0\<rparr>\<rparr>"

definition ex_nic :: rnic where
  "ex_nic = \<lparr>nic_ctx = Some 0, nic_pd = Some 0, nic_id = \<lparr>dev_id = 0, port_id = 1\<rparr>, nic_addr = None, nic_lid = None\<rparr>"

definition ex_ud :: ud where
  "ex_ud = \<lparr>qp_qp = Some 0, qp_cq = Some 0, qp_recv_cq = Some 0, out_signaled = 0, qp_nic = ex_nic,
     ud_pending_reqs = 0, ud_config = QPConfig\<rparr>"

definition ex_session :: ud_session where
  "ex_session = \<lparr>us_ah = Some 0, us_qkey = 0, us_qpn = 0, us_wr = new_op 1, us_depth = half (max_send_sz QPConfig)\<rparr>"

definition ex_un :: ud_net where "ex_un = \<lparr>un_mem = (\<lambda>_. 0), un_sent = [], un_queue = [], un_cap = 256\<rparr>"

abbreviation ex_T :: "(ud_session option, ud \<times> ud_net) send_trait" where
  "ex_T \<equiv> ud_send_trait ud_verbs ud_mem ok_wc (\<lambda>_. ''error'')"

definition ex_client :: "(ud_session option, unit) rpc_core" where
  "ex_client = \<lparr>rc_sessions = Map.empty, rc_station = replicate 12 no_reply_entry, rc_bufs = (\<lambda>_. replicate 9 0), rc_callbacks = []\<rparr>"

definition ex_server :: "(ud_session option, (ud \<times> ud_net) service) rpc_core" where
  "ex_server = \<lparr>rc_sessions = [3 \<mapsto> Some (Some ex_session)], rc_station = replicate 12 no_reply_entry,
     rc_bufs = (\<lambda>_. []), rc_callbacks = []\<rparr>"

lemma ex_usable: "ud_usable (Some ex_session) (ex_ud, ex_un)"
  by (simp add: ud_usable_def ex_ud_def ex_session_def ex_un_def cycle_queue_def half_def max_send_sz_def QPConfig_def
      kRcMaxSendSz_def)

lemma ex_can_call: "can_call 1 0 ex_client"
  by (simp add: can_call_def ex_client_def no_reply_entry_def)

lemma ex_index:
  obtains idx rm where "rx_search idx rm 7 = Inr (Some 70)"
proof -
  obtain p where p: "pool_inv 64 p" "used_hdr p = 0" "alloc_hdr p = 3" using ex_pool64 by blast
  obtain sm lp where s: "sm_search sm lp 7 = Inr (Some 70)"
    using trained_search [OF p(1), of "replicate 128 (mk_te 0 0 0)" 3 0 "[5, 7, 9]" "[50, 70, 90]" 1
        "0x3FF0000000000000" "0xC014000000000000"]
    by (simp add: ex_input p invalidKey_def ex_predict) blast
  have "rx_search \<lparr>model_keys = [9, 100], models = [sm, sm]\<rparr> \<lparr>leaf_allocator = lp, model_allocator = undefined\<rparr> 7 = Inr (Some 70)"
    by (simp add: rx_search_def model_for_key_def ex_model_search s)
  then show ?thesis by (rule that)
qed

section \<open>Searches\<close>

text \<open>C36: a remote search answers like the index of the memory node. When the transports deliver and
  the coroutine waits for nothing, the call sends one message; in whatever receive buffer it arrives,
  the server leaves its index as it is and sends one reply, and from that reply, in whatever buffer,
  the client wakes the coroutine and finds the result of \<open>search\<close> on the server's index.\<close>

theorem remote_search_correct:
  fixes g :: "'n service" and c :: "('cs, 'x) rpc_core"
  assumes client: "datagrams T sent usable" "usable cs cn" "length (l_buf l) = 64" "can_call cor rb c"
    and server: "datagrams T' sent' usable'" "usable' ss (sv_net g)" "length (l_buf l') = 64"
      "reg_callbacks T' l' sc0 = Inr sc" "rc_callbacks sc0 = []" "rc_sessions sc sid = Some (Some ss)"
    and search: "rx_search (sv_index g) (sv_rmem g) key = Inr r"
    and junk: "length junk \<le> 4000" "length junk' \<le> 4000"
  shows "\<exists>c1 cs1 cn1 m sc1 g1 m' c2. remote_search T l cor rb key c cs cn = Inr (c1, cs1, cn1)
    \<and> sent cn1 = sent cn @ [m] \<and> handle_msg ai sid (msg_block p (m @ junk)) sc g = Inr (sc1, None, g1)
    \<and> (sv_index g1 = sv_index g \<and> sv_rmem g1 = sv_rmem g) \<and> sent' (sv_net g1) = sent' (sv_net g) @ [m']
    \<and> handle_msg ai' sid' (msg_block p' (m' @ junk')) c1 x = Inr (c2, Some (ucast cor), x)
    \<and> remote_search_finish rb c2 = Inr r"
proof -
  have "rc_callbacks sc = service_callbacks T' l'"
    using reg_callbacks_ok [OF server(5), of T' l'] server(4) by (auto simp: res_iff)
  then show ?thesis by (rule search_exchange [OF client server(1-3) _ server(6) search junk])
qed

theorem remote_search_correct_witness:
  "\<exists>(sc :: (ud_session option, (ud \<times> ud_net) service) rpc_core) g c1 cs1 cn1 m sc1 g1 m' c2. remote_search ex_T ex_locals 1 0 7 ex_client (Some ex_session) (ex_ud, ex_un) = Inr (c1, cs1, cn1)
    \<and> (\<lambda>(q, n). un_sent n) cn1 = (\<lambda>(q, n). un_sent n) (ex_ud, ex_un) @ [m]
    \<and> handle_msg (\<lambda>_ _ _ _. Inl UB) 3 (msg_block 0 (m @ [])) sc g = Inr (sc1, None, g1)
    \<and> (sv_index g1 = sv_index g \<and> sv_rmem g1 = sv_rmem g)
    \<and> (\<lambda>(q, n). un_sent n) (sv_net g1) = (\<lambda>(q, n). un_sent n) (sv_net g) @ [m']
    \<and> handle_msg (\<lambda>_ _ _ _. Inl UB) 0 (msg_block 0 (m' @ [])) c1 () = Inr (c2, Some (ucast (1 :: u8)), ())
    \<and> remote_search_finish 0 c2 = Inr (Some 70)"
proof -
  obtain idx rm where i: "rx_search idx rm 7 = Inr (Some 70)" by (rule ex_index)
  let ?g = "\<lparr>sv_index = idx, sv_rmem = rm, sv_net = (ex_ud, ex_un)\<rparr>"
  have reg: "reg_callbacks ex_T ex_locals ex_server = Inr (ex_server\<lparr>rc_callbacks := service_callbacks ex_T ex_locals\<rparr>)"
    by (rule reg_callbacks_ok) (simp add: ex_server_def)
  have len: "length (l_buf ex_locals) = 64" by (simp add: ex_locals_def)
  have us: "ud_usable (Some ex_session) (sv_net ?g)" by (simp add: ex_usable)
  have cb: "rc_callbacks ex_server = []" by (simp add: ex_server_def)
  have ses: "rc_sessions (ex_server\<lparr>rc_callbacks := service_callbacks ex_T ex_locals\<rparr>) 3 = Some (Some (Some ex_session))"
    by (simp add: ex_server_def)
  have nil: "length ([] :: bytes) \<le> 4000" by simp
  have srch: "rx_search (sv_index ?g) (sv_rmem ?g) 7 = Inr (Some 70)" using i by simp
  note t = remote_search_correct [where T = ex_T and sent = "\<lambda>(q, n). un_sent n" and usable = ud_usable
      and T' = ex_T and sent' = "\<lambda>(q, n). un_sent n" and usable' = ud_usable and g = ?g,
      OF ud_dg.datagrams_axioms ex_usable len ex_can_call ud_dg.datagrams_axioms us len reg cb ses srch nil nil]
  show ?thesis using t [of "\<lambda>_ _ _ _. Inl UB" 0 "\<lambda>_ _ _ _. Inl UB" 0 0 "()"] by blast
qed

section \<open>Writes\<close>

text \<open>C37: a remote update, removal or insertion does at the memory node what its index does. The
  server's index and memory afterwards are those of \<open>update\<close>, \<open>remove\<close> or \<open>insert\<close>; the coroutine
  is woken, and the reply in its buffer says whether an updated or removed key was there, while the
  reply to an insertion is the uninitialised local of the callback.\<close>

theorem remote_write_correct:
  fixes g :: "'n service" and c :: "('cs, 'x) rpc_core"
  assumes client: "datagrams T sent usable" "usable cs cn" "length (l_buf l) = 64" "can_call cor rb c"
    and server: "datagrams T' sent' usable'" "usable' ss (sv_net g)" "length (l_buf l') = 64"
      "reg_callbacks T' l' sc0 = Inr sc" "rc_callbacks sc0 = []" "rc_sessions sc sid = Some (Some ss)"
    and junk: "length junk \<le> 4000" "length junk' \<le> 4000"
    and op: "(call = remote_put T l cor rb key val \<and> rx_insert (sv_index g) (sv_rmem g) key val = Inr (idx, rm, ok) \<and> v = l_reply l')
      \<or> (call = remote_update T l cor rb key val \<and> rx_update (sv_index g) (sv_rmem g) key val = Inr (idx, rm, ok)
          \<and> v = \<lparr>rv_status = ok, rv_val = val\<rparr>)
      \<or> (call = remote_remove T l cor rb key \<and> rx_remove (sv_index g) (sv_rmem g) key = Inr (idx, rm, ok)
          \<and> v = \<lparr>rv_status = ok, rv_val = 0\<rparr>)"
  shows "\<exists>c1 cs1 cn1 m sc1 g1 m' c2. call c cs cn = Inr (c1, cs1, cn1)
    \<and> sent cn1 = sent cn @ [m] \<and> handle_msg ai sid (msg_block p (m @ junk)) sc g = Inr (sc1, None, g1)
    \<and> (sv_index g1 = idx \<and> sv_rmem g1 = rm) \<and> sent' (sv_net g1) = sent' (sv_net g) @ [m']
    \<and> handle_msg ai' sid' (msg_block p' (m' @ junk')) c1 x = Inr (c2, Some (ucast cor), x)
    \<and> rc_bufs c2 rb = to_bytes reply_pod v"
proof -
  have cb: "rc_callbacks sc = service_callbacks T' l'"
    using reg_callbacks_ok [OF server(5), of T' l'] server(4) by (auto simp: res_iff)
  define i where "i = (if call = remote_put T l cor rb key val \<and> rx_insert (sv_index g) (sv_rmem g) key val = Inr (idx, rm, ok) \<and> v = l_reply l'
    then RPC_PUT else if call = remote_update T l cor rb key val \<and> rx_update (sv_index g) (sv_rmem g) key val = Inr (idx, rm, ok)
      \<and> v = \<lparr>rv_status = ok, rv_val = val\<rparr> then RPC_UPDATE else RPC_DELETE)"
  show ?thesis
    by (rule write_exchange [OF client server(1-3) cb server(6) junk, of i call key val idx rm ok v])
      (use op in \<open>auto simp: i_def\<close>)
qed

lemma ex_index_update:
  obtains idx rm idx' rm' where "rx_update idx rm 7 71 = Inr (idx', rm', True)"
proof -
  obtain p where p: "pool_inv 64 p" "used_hdr p = 0" "alloc_hdr p = 3" using ex_pool64 by blast
  let ?m = "\<lparr>slope = 0x3FF0000000000000, intercept = 0xC014000000000000\<rparr> :: lr_model"
  have es: "input_entries [5, 7, 9] [50, 70, 90] 0 3 = [(5, 50), (7, 70), (9, 90)]" by (rule ex_input)
  obtain tb lp k where t: "trained 64 0 (SynonymTable (LeafTable (ex_raw 0))) k [(5, 50), (7, 70), (9, 90)] tb lp" "alloc_hdr lp = 3"
    using SubModel_ok [OF p(1), of 3 0 "[5, 7, 9]" "[50, 70, 90]" "0x3FF0000000000000" "0xC014000000000000" "ex_raw 0", unfolded es p]
    by (auto simp: invalidKey_def)
  let ?sm = "\<lparr>model = ?m, ltable = tb, capacity = of_nat 3\<rparr>"
  have k: "k = 1" using trainedD(1,5) [OF t(1)] by simp
  have syn: "length (SynonymTable (LeafTable (ex_raw 0))) = 128" "leaf_num (SynonymTable (LeafTable (ex_raw 0)) ! 0) = 1"
    by (simp_all add: LeafTable_def ex_raw_def)
  have srt: "al_sorted [(5 :: u64, 50 :: u64), (7, 70), (9, 90)]" by simp
  have h48: "alloc_hdr lp \<le> 2 ^ 48" by (simp add: t(2))
  note rep = trained_rep [OF t(1) _ h48 syn srt]
  note sp = trained_span [OF t(1) _ h48 syn srt, of 0 0]
  have ent: "span_entries lp tb 0 0 = [(5, 50), (7, 70), (9, 90)]" "span_ok lp tb 0 0" using sp k by simp_all
  have tb: "table tb = [mk_te 0 0 0]" using trainedD(3) [OF t(1)] k by simp
  have inv: "table_inv 64 lp tb" "unlocked tb" using table_rep_inv rep by auto
  obtain p' where "lt_update tb lp 7 71 0 0 = Inr (tb, p', True)"
    using lt_update_remove_span [OF inv _ _ ent(2), of 7 71] by (auto simp: ent(1) tb invalidKey_def)
  moreover have "predict ?m 7 (of_nat 3) = Inr \<lparr>ap_pos = 2, ap_lo = 0, ap_hi = 2\<rparr>" using ex_predict by simp
  ultimately have s: "sm_update ?sm lp 7 71 = Inr (?sm\<lparr>ltable := tb\<rparr>, p', True)"
    by (simp add: sm_update_def leaf_window_def kLeafSlots_def)
  have "rx_update \<lparr>model_keys = [9, 100], models = [?sm, ?sm]\<rparr> \<lparr>leaf_allocator = lp, model_allocator = undefined\<rparr> 7 71
      = Inr (\<lparr>model_keys = [9, 100], models = [?sm, ?sm]\<rparr>, \<lparr>leaf_allocator = p', model_allocator = undefined\<rparr>, True)"
    using s by (simp add: rx_update_def model_for_key_def ex_model_search on_model_def)
  then show ?thesis by (rule that)
qed

theorem remote_write_correct_witness:
  "\<exists>(sc :: (ud_session option, (ud \<times> ud_net) service) rpc_core) g idx rm c1 cs1 cn1 m sc1 g1 m' c2. remote_update ex_T ex_locals 1 0 7 71 ex_client (Some ex_session) (ex_ud, ex_un) = Inr (c1, cs1, cn1)
    \<and> (\<lambda>(q, n). un_sent n) cn1 = (\<lambda>(q, n). un_sent n) (ex_ud, ex_un) @ [m]
    \<and> handle_msg (\<lambda>_ _ _ _. Inl UB) 3 (msg_block 0 (m @ [])) sc g = Inr (sc1, None, g1)
    \<and> (sv_index g1 = idx \<and> sv_rmem g1 = rm)
    \<and> (\<lambda>(q, n). un_sent n) (sv_net g1) = (\<lambda>(q, n). un_sent n) (sv_net g) @ [m']
    \<and> handle_msg (\<lambda>_ _ _ _. Inl UB) 0 (msg_block 0 (m' @ [])) c1 () = Inr (c2, Some (ucast (1 :: u8)), ())
    \<and> rc_bufs c2 0 = to_bytes reply_pod \<lparr>rv_status = True, rv_val = 71\<rparr>"
proof -
  obtain idx rm idx' rm' where i: "rx_update idx rm 7 71 = Inr (idx', rm', True)" by (rule ex_index_update)
  let ?g = "\<lparr>sv_index = idx, sv_rmem = rm, sv_net = (ex_ud, ex_un)\<rparr>"
  have reg: "reg_callbacks ex_T ex_locals ex_server = Inr (ex_server\<lparr>rc_callbacks := service_callbacks ex_T ex_locals\<rparr>)"
    by (rule reg_callbacks_ok) (simp add: ex_server_def)
  have len: "length (l_buf ex_locals) = 64" by (simp add: ex_locals_def)
  have us: "ud_usable (Some ex_session) (sv_net ?g)" by (simp add: ex_usable)
  have cb: "rc_callbacks ex_server = []" by (simp add: ex_server_def)
  have ses: "rc_sessions (ex_server\<lparr>rc_callbacks := service_callbacks ex_T ex_locals\<rparr>) 3 = Some (Some (Some ex_session))"
    by (simp add: ex_server_def)
  have nil: "length ([] :: bytes) \<le> 4000" by simp
  have op: "(remote_update ex_T ex_locals 1 0 7 71 = remote_put ex_T ex_locals 1 0 7 71
        \<and> rx_insert (sv_index ?g) (sv_rmem ?g) 7 71 = Inr (idx', rm', True) \<and> \<lparr>rv_status = True, rv_val = 71\<rparr> = l_reply ex_locals)
      \<or> (remote_update ex_T ex_locals 1 0 7 71 = remote_update ex_T ex_locals 1 0 7 71
        \<and> rx_update (sv_index ?g) (sv_rmem ?g) 7 71 = Inr (idx', rm', True) \<and> \<lparr>rv_status = True, rv_val = 71\<rparr> = \<lparr>rv_status = True, rv_val = 71 :: u64\<rparr>)
      \<or> (remote_update ex_T ex_locals 1 0 7 71 = remote_remove ex_T ex_locals 1 0 7
        \<and> rx_remove (sv_index ?g) (sv_rmem ?g) 7 = Inr (idx', rm', True) \<and> \<lparr>rv_status = True, rv_val = 71\<rparr> = \<lparr>rv_status = True, rv_val = 0 :: u64\<rparr>)"
    using i by simp
  note t = remote_write_correct [where T = ex_T and sent = "\<lambda>(q, n). un_sent n" and usable = ud_usable
      and T' = ex_T and sent' = "\<lambda>(q, n). un_sent n" and usable' = ud_usable and g = ?g,
      OF ud_dg.datagrams_axioms ex_usable len ex_can_call ud_dg.datagrams_axioms us len reg cb ses nil nil op]
  show ?thesis using t [of "\<lambda>_ _ _ _. Inl UB" 0 "\<lambda>_ _ _ _. Inl UB" 0 0 "()"] by blast
qed

end
