(* ===== verification/Scheduler.thy ===== *)
theory Scheduler
  imports Rlib_Core
begin

text \<open>
  The coroutine scheduler: the linked ring of routines (\<^verbatim>\<open>r2/src/linked_list.hh\<close>) and \<open>SScheduler\<close>
  (\<^verbatim>\<open>r2/src/sshed.hh\<close>, \<^verbatim>\<open>sshed.cc\<close>, \<^verbatim>\<open>routine.hh\<close>).

  A pointer to a node is the identifier of its routine, as \<open>routines[cid]\<close> is the one place that
  makes nodes; the heap maps it to the node until it is deleted. What a routine does between two calls
  of the scheduler is left open: a call returns the state in which the routine \<open>sc_cur\<close> goes on. The
  coroutines of Boost are the transfer of control itself.
\<close>

section \<open>The linked ring\<close>

record rnode =
  n_prev :: "nat option"
  n_next :: "nat option"
  rt_status :: "unit io_result"
  rt_active :: bool

type_synonym rheap = "nat \<rightharpoonup> rnode"

definition Node :: rnode where "Node = \<lparr>n_prev = None, n_next = None, rt_status = io_ok (), rt_active = False\<rparr>"

definition node_at :: "rheap \<Rightarrow> nat option \<Rightarrow> (nat \<times> rnode) res" where
  "node_at h p = (case p of None \<Rightarrow> Inl UB | Some a \<Rightarrow> (case h a of None \<Rightarrow> Inl UB | Some n \<Rightarrow> Inr (a, n)))"

definition upd_node :: "nat option \<Rightarrow> (rnode \<Rightarrow> rnode) \<Rightarrow> rheap \<Rightarrow> rheap res" where
  "upd_node p f h = rbind (node_at h p) (\<lambda>(a, n). Inr (h(a \<mapsto> f n)))"

definition set_prev :: "nat option \<Rightarrow> nat option \<Rightarrow> rheap \<Rightarrow> rheap res" where
  "set_prev p q h = upd_node p (\<lambda>n. n\<lparr>n_prev := q\<rparr>) h"

definition set_next :: "nat option \<Rightarrow> nat option \<Rightarrow> rheap \<Rightarrow> rheap res" where
  "set_next p q h = upd_node p (\<lambda>n. n\<lparr>n_next := q\<rparr>) h"

record linked_list =
  header_p :: "nat option"
  tailer_p :: "nat option"

definition LinkedList :: linked_list where "LinkedList = \<lparr>header_p = None, tailer_p = None\<rparr>"

definition ll_null :: "linked_list \<Rightarrow> bool" where "ll_null l \<longleftrightarrow> header_p l = None"

definition ll_add :: "nat \<Rightarrow> linked_list \<Rightarrow> rheap \<Rightarrow> (linked_list \<times> rheap) res" where
  "ll_add n l h =
     rbind (if ll_null l then Inr (\<lparr>header_p = Some n, tailer_p = Some n\<rparr>, Some n)
            else rassert (tailer_p l \<noteq> None)
              (rbind (node_at h (tailer_p l)) (\<lambda>(_, t). rassert (n_next t = header_p l) (Inr (l, tailer_p l))))) (\<lambda>(l, prev).
     rbind (set_next (tailer_p l) (Some n) h) (\<lambda>h.
     let l = l\<lparr>tailer_p := Some n\<rparr> in
     rbind (set_prev (Some n) prev h) (\<lambda>h.
     rbind (set_next (Some n) (header_p l) h) (\<lambda>h. Inr (l, h)))))"

definition leave_one :: "nat \<Rightarrow> linked_list \<Rightarrow> rheap \<Rightarrow> (nat option \<times> linked_list \<times> rheap) res" where
  "leave_one n l h =
     rbind (node_at h (Some n)) (\<lambda>(_, x). let nxt = n_next x in
     rbind (set_next (n_prev x) nxt h) (\<lambda>h.
     rbind (node_at h (Some n)) (\<lambda>(_, x).
     rbind (set_prev (n_next x) (n_prev x) h) (\<lambda>h.
     rbind (node_at h (Some n)) (\<lambda>(_, x).
     let l = (if tailer_p l = Some n then l\<lparr>tailer_p := n_prev x\<rparr> else l) in
     rbind (set_prev (Some n) None h) (\<lambda>h.
     rbind (set_next (Some n) None h) (\<lambda>h. Inr (nxt, l, h))))))))"

definition ll_peek :: "linked_list \<Rightarrow> rheap \<Rightarrow> (nat option \<times> linked_list) res" where
  "ll_peek l h =
     (if ll_null l then Inr (None, l)
      else rbind (node_at h (header_p l)) (\<lambda>(a, x).
        Inr (Some a, if n_next x = header_p l then l\<lparr>header_p := None\<rparr> else l\<lparr>header_p := n_next x\<rparr>)))"

section \<open>The scheduler\<close>

definition kMaxRoutineSupported :: nat where "kMaxRoutineSupported = 64"

record sched =
  sc_heap :: rheap
  sc_chain :: linked_list
  sc_routines :: "nat list"
  sc_cur :: "nat option"
  sc_pending :: "usize list"
  sc_running :: bool

text \<open>A future works on the scheduler and the rest of the world.\<close>

type_synonym 'g poll_func = "sched \<Rightarrow> 'g \<Rightarrow> ((u8 \<times> usize) io_result \<times> sched \<times> 'g) res"

definition sc_spawn :: "sched \<Rightarrow> (u8 option \<times> sched) res" where
  "sc_spawn s =
     (let cid = length (sc_routines s) in
      if cid \<ge> kMaxRoutineSupported then Inr (None, s)
      else rbind (ll_add cid (sc_chain s) ((sc_heap s)(cid \<mapsto> Node))) (\<lambda>(l, h).
        Inr (Some (of_nat cid), s\<lparr>sc_heap := h, sc_chain := l, sc_routines := sc_routines s @ [cid],
               sc_cur := (case sc_cur s of None \<Rightarrow> Some cid | Some c \<Rightarrow> Some c)\<rparr>)))"

text \<open>Routine 0 polls the futures.\<close>

definition SScheduler :: "sched res" where
  "SScheduler =
     rbind (sc_spawn \<lparr>sc_heap = Map.empty, sc_chain = LinkedList, sc_routines = [], sc_cur = None,
        sc_pending = replicate kMaxRoutineSupported 0, sc_running = False\<rparr>) (\<lambda>(_, s).
     rassert (sc_cur s \<noteq> None) (Inr s))"

text \<open>\<open>vector::at\<close> throws outside the vector.\<close>

definition at_throws :: "'a list \<Rightarrow> nat \<Rightarrow> 'a res" where
  "at_throws xs i = (if i < length xs then Inr (xs ! i) else Inl Thrown)"

definition emplace_future :: "'g poll_func \<Rightarrow> 'g poll_func list \<Rightarrow> 'g poll_func list" where
  "emplace_future f fs = fs @ [f]"

definition wait_num :: "u8 \<Rightarrow> usize \<Rightarrow> sched \<Rightarrow> sched res" where
  "wait_num i num s =
     rbind (vec_at (sc_pending s) (unat i)) (\<lambda>p. Inr (s\<lparr>sc_pending := (sc_pending s)[unat i := p + num]\<rparr>))"

definition emplace_for_routine :: "u8 \<Rightarrow> usize \<Rightarrow> 'g poll_func \<Rightarrow> 'g poll_func list \<Rightarrow> sched \<Rightarrow> ('g poll_func list \<times> sched) res" where
  "emplace_for_routine i num f fs s = rbind (wait_num i num s) (\<lambda>s. Inr (fs @ [f], s))"

definition pending_future :: "u8 \<Rightarrow> sched \<Rightarrow> usize res" where
  "pending_future i s = at_throws (sc_pending s) (unat i)"

definition addback_coroutine :: "usize \<Rightarrow> sched \<Rightarrow> sched res" where
  "addback_coroutine i s =
     rbind (at_throws (sc_routines s) (unat i)) (\<lambda>a.
     rbind (ll_add a (sc_chain s) (sc_heap s)) (\<lambda>(l, h). Inr (s\<lparr>sc_chain := l, sc_heap := h\<rparr>)))"

text \<open>\<open>run\<close> starts the first routine.\<close>

definition sc_run :: "sched \<Rightarrow> sched res" where
  "sc_run s = rbind (at_throws (sc_routines s) 0) (\<lambda>a. rbind (node_at (sc_heap s) (Some a)) (\<lambda>_. Inr (s\<lparr>sc_running := True\<rparr>)))"

definition sc_stop :: "sched \<Rightarrow> sched" where "sc_stop s = s\<lparr>sc_running := False\<rparr>"

definition cur_id :: "sched \<Rightarrow> u8 res" where
  "cur_id s = rbind (node_at (sc_heap s) (sc_cur s)) (\<lambda>(a, _). Inr (of_nat a))"

text \<open>\<open>Routine::execute\<close> of the current routine, which control passes to.\<close>

definition execute_cur :: "sched \<Rightarrow> sched res" where
  "execute_cur s = rbind (upd_node (sc_cur s) (\<lambda>n. n\<lparr>rt_active := True\<rparr>) (sc_heap s)) (\<lambda>h. Inr (s\<lparr>sc_heap := h\<rparr>))"

definition pause_and_yield :: "sched \<Rightarrow> sched res" where
  "pause_and_yield s =
     rbind (upd_node (sc_cur s) (\<lambda>n. n\<lparr>rt_active := False\<rparr>) (sc_heap s)) (\<lambda>h.
     rbind (node_at h (sc_cur s)) (\<lambda>(a, _).
     rbind (leave_one a (sc_chain s) h) (\<lambda>(nxt, l, h).
       execute_cur (s\<lparr>sc_heap := h, sc_chain := l, sc_cur := nxt\<rparr>))))"

text \<open>\<open>None\<close> is the answer \<open>Ok\<close> without a switch.\<close>

definition sc_pause :: "sched \<Rightarrow> sched option res" where
  "sc_pause s =
     rbind (cur_id s) (\<lambda>i. rbind (vec_at (sc_pending s) (unat i)) (\<lambda>p.
       if 0 < p then rbind (pause_and_yield s) (\<lambda>s. Inr (Some s)) else Inr None))"

definition yield_to_next :: "sched \<Rightarrow> sched res" where
  "yield_to_next s =
     rbind (node_at (sc_heap s) (sc_cur s)) (\<lambda>(a, x).
       let s' = s\<lparr>sc_cur := n_next x\<rparr> in if n_next x \<noteq> Some a then execute_cur s' else Inr s')"

definition sc_exit :: "sched \<Rightarrow> sched res" where
  "sc_exit s =
     rbind (node_at (sc_heap s) (sc_cur s)) (\<lambda>(a, _).
     rbind (leave_one a (sc_chain s) (sc_heap s)) (\<lambda>(nxt, l, h).
       let s' = s\<lparr>sc_heap := h(a := None), sc_chain := l, sc_cur := nxt\<rparr> in
       if nxt \<noteq> Some a then execute_cur s' else Inr s'))"

section \<open>Polling\<close>

text \<open>One result: count down what routine \<open>cid\<close> waits for and put it back when that is done or
  failed.\<close>

definition settle :: "(u8 \<times> usize) io_result \<Rightarrow> sched \<Rightarrow> sched res" where
  "settle r s =
     (case desc r of (cid, num) \<Rightarrow>
      rbind (if code r = IO_Ok \<or> code r = IO_NearOk then
               rbind (vec_at (sc_pending s) (unat cid)) (\<lambda>p.
               rassert (num \<le> p)
                 (Inr (p - num = 0, s\<lparr>sc_pending := (sc_pending s)[unat cid := p - num]\<rparr>)))
             else Inr (False, s)) (\<lambda>(need, s).
      rbind (if code r = IO_Err then
               rbind (at_throws (sc_routines s) (unat cid)) (\<lambda>a.
               rbind (upd_node (Some a) (\<lambda>n. n\<lparr>rt_status := io_err ()\<rparr>) (sc_heap s)) (\<lambda>h.
                 Inr (True, s\<lparr>sc_heap := h\<rparr>)))
             else Inr (need, s)) (\<lambda>(need, s).
      if need then
        rbind (at_throws (sc_routines s) (unat cid)) (\<lambda>a.
        rbind (node_at (sc_heap s) (Some a)) (\<lambda>(_, x).
        rassert (\<not> rt_active x)
          (rbind (ll_add a (sc_chain s) (sc_heap s)) (\<lambda>(l, h). Inr (s\<lparr>sc_chain := l, sc_heap := h\<rparr>)))))
      else Inr s)))"

fun poll_all_futures :: "'g poll_func list \<Rightarrow> sched \<Rightarrow> 'g \<Rightarrow> ('g poll_func list \<times> sched \<times> 'g) res" where
  "poll_all_futures [] s g = Inr ([], s, g)"
| "poll_all_futures (f # fs) s g =
     rbind (f s g) (\<lambda>(r, s, g).
     rbind (settle r s) (\<lambda>s.
     rbind (poll_all_futures fs s g) (\<lambda>(fs, s, g).
       Inr (if code r = IO_Ok \<or> code r = IO_Err then fs else f # fs, s, g))))"

text \<open>One round of the routine the constructor spawns.\<close>

definition main_round :: "'g poll_func list \<Rightarrow> sched \<Rightarrow> 'g \<Rightarrow> ('g poll_func list \<times> sched \<times> 'g) res" where
  "main_round fs s g =
     (if sc_running s then
        rbind (poll_all_futures fs s g) (\<lambda>(fs, s, g). rbind (yield_to_next s) (\<lambda>s. Inr (fs, s, g)))
      else rbind (sc_exit s) (\<lambda>s. Inr (fs, s, g)))"

end
