(* ===== verification/Scheduler_Correct.thy ===== *)
theory Scheduler_Correct
  imports Scheduler
begin

text \<open>
  The linked ring refines a list, and the scheduler gives every routine in the ring its turn.

  The previous pointer of the header is not kept by \<open>add\<close>, so the ring says nothing about it. Routine
  0, which polls the futures, is the header; it leaves only after \<open>stop\<close>, and the ring then keeps
  pointers to its deleted node.
\<close>

section \<open>The ring\<close>

definition ring :: "linked_list \<Rightarrow> rheap \<Rightarrow> nat list \<Rightarrow> bool" where
  "ring l h xs \<longleftrightarrow> xs \<noteq> [] \<and> distinct xs \<and> header_p l = Some (hd xs) \<and> tailer_p l = Some (last xs)
     \<and> (\<forall>i < length xs. \<exists>x. h (xs ! i) = Some x \<and> n_next x = Some (xs ! (Suc i mod length xs))
          \<and> (0 < i \<longrightarrow> n_prev x = Some (xs ! (i - 1))))"

lemma ringD:
  assumes "ring l h xs"
  shows "xs \<noteq> []" "distinct xs" "header_p l = Some (hd xs)" "tailer_p l = Some (last xs)"
    and "i < length xs \<Longrightarrow> \<exists>x. h (xs ! i) = Some x \<and> n_next x = Some (xs ! (Suc i mod length xs)) \<and> (0 < i \<longrightarrow> n_prev x = Some (xs ! (i - 1)))"
  using assms by (auto simp: ring_def)

text \<open>What the ring does not touch.\<close>

definition same_nodes :: "rheap \<Rightarrow> rheap \<Rightarrow> bool" where
  "same_nodes h h' \<longleftrightarrow> (\<forall>a. map_option (\<lambda>x. (rt_status x, rt_active x)) (h' a) = map_option (\<lambda>x. (rt_status x, rt_active x)) (h a))"

lemma same_nodes_upd:
  assumes "same_nodes h h'" "h' a = Some x" "rt_status y = rt_status x" "rt_active y = rt_active x"
  shows "same_nodes h (h'(a \<mapsto> y))"
  unfolding same_nodes_def
proof
  fix b
  show "map_option (\<lambda>x. (rt_status x, rt_active x)) ((h'(a \<mapsto> y)) b) = map_option (\<lambda>x. (rt_status x, rt_active x)) (h b)"
    using assms(1) [unfolded same_nodes_def, rule_format, of b] assms(2-4) by (cases "b = a") simp_all
qed

lemma same_nodes_refl: "same_nodes h h" by (simp add: same_nodes_def)

lemma ring_first:
  assumes "h n = Some x" "ll_null l"
  shows "\<exists>l' h'. ll_add n l h = Inr (l', h') \<and> ring l' h' [n] \<and> same_nodes h h'"
  using assms by (simp add: ll_add_def ll_null_def set_next_def set_prev_def upd_node_def node_at_def ring_def same_nodes_def)

lemma ring_add:
  assumes r: "ring l h xs" and n: "n \<notin> set xs" "h n = Some x"
  shows "\<exists>l' h'. ll_add n l h = Inr (l', h') \<and> ring l' h' (xs @ [n]) \<and> same_nodes h h'"
proof -
  note d = ringD(1-4) [OF r]
  let ?L = "length xs" and ?t = "last xs"
  have L: "0 < ?L" using d(1) by simp
  have t: "xs ! (?L - 1) = ?t" using d(1) by (simp add: last_conv_nth)
  have e: "Suc (?L - 1) mod ?L = 0" "?L - 1 < ?L" "1 < ?L \<Longrightarrow> 0 < ?L - 1" "?L - 1 - 1 = ?L - 2" using L by simp_all
  obtain y where y: "h ?t = Some y" "n_next y = Some (hd xs)" "1 < ?L \<Longrightarrow> n_prev y = Some (xs ! (?L - 2))"
  proof -
    obtain y where "h ?t = Some y" "n_next y = Some (xs ! 0)" "0 < ?L - 1 \<longrightarrow> n_prev y = Some (xs ! (?L - 2))"
      using ringD(5) [OF r e(2)] unfolding t e(1,4) by (elim exE conjE)
    then show thesis using that [of y] e(3) hd_conv_nth [OF d(1)] by metis
  qed
  have ne: "?t \<noteq> n" using n(1) d(1) by auto
  let ?h = "h(?t \<mapsto> y\<lparr>n_next := Some n\<rparr>, n \<mapsto> x\<lparr>n_prev := Some ?t, n_next := Some (hd xs)\<rparr>)"
  have add: "ll_add n l h = Inr (\<lparr>header_p = Some (hd xs), tailer_p = Some n\<rparr>, ?h)"
    using d(3,4) y n(2) ne
    by (cases l) (simp add: ll_add_def ll_null_def set_next_def set_prev_def upd_node_def node_at_def fun_upd_twist)
  have "\<exists>z. ?h ((xs @ [n]) ! i) = Some z \<and> n_next z = Some ((xs @ [n]) ! (Suc i mod length (xs @ [n])))
      \<and> (0 < i \<longrightarrow> n_prev z = Some ((xs @ [n]) ! (i - 1)))" if i: "i < length (xs @ [n])" for i
  proof -
    consider "i = ?L" | "i = ?L - 1" | "i < ?L - 1" using i by fastforce
    then show ?thesis
    proof cases
      case 1
      then show ?thesis using L by (simp add: hd_conv_nth [OF d(1)] nth_append last_conv_nth [OF d(1)])
    next
      case 2
      then have "(xs @ [n]) ! i = ?t" "Suc i mod length (xs @ [n]) = ?L" using L t by (simp_all add: nth_append)
      moreover have "(xs @ [n]) ! (i - 1) = xs ! (?L - 2)" if "0 < i" using 2 that L by (simp add: nth_append numeral_2_eq_2 diff_less)
      ultimately show ?thesis using y(3) 2 ne by (auto simp: nth_append)
    next
      case 3
      then have i: "i < ?L" "Suc i < ?L" by simp_all
      have "xs ! i \<noteq> ?t" using nth_eq_iff_index_eq [OF d(2), of i "?L - 1"] 3 i(1) t by auto
      moreover have "xs ! i \<noteq> n" using n(1) i(1) by (metis nth_mem)
      ultimately show ?thesis using ringD(5) [OF r i(1)] i by (auto simp: nth_append)
    qed
  qed
  then have "ring \<lparr>header_p = Some (hd xs), tailer_p = Some n\<rparr> ?h (xs @ [n])"
    using d n(1) by (simp add: ring_def)
  moreover have "same_nodes h ?h" using y(1) n(2) by (auto simp: same_nodes_def)
  ultimately show ?thesis using add by blast
qed

text \<open>A routine that is not the header leaves.\<close>

lemma ring_leave:
  assumes r: "ring l h xs" and i: "0 < i" "i < length xs"
  shows "\<exists>l' h'. leave_one (xs ! i) l h = Inr (Some (xs ! (Suc i mod length xs)), l', h')
    \<and> ring l' h' (take i xs @ drop (Suc i) xs) \<and> same_nodes h h'
    \<and> (\<exists>y. h' (xs ! i) = Some y \<and> n_next y = None)"
proof -
  note d = ringD(1-4) [OF r]
  let ?L = "length xs" and ?n = "xs ! i" and ?p = "xs ! (i - 1)" and ?s = "xs ! (Suc i mod length xs)"
  let ?ys = "take i xs @ drop (Suc i) xs"
  have m: "Suc i mod ?L < ?L" "Suc i mod ?L \<noteq> i" "i - 1 < ?L" "i - 1 \<noteq> i"
    using i by (auto simp: mod_Suc)
  have np: "?p \<noteq> ?n" "?s \<noteq> ?n" using nth_eq_iff_index_eq [OF d(2)] m i by auto
  obtain x where x: "h ?n = Some x" "n_next x = Some ?s" "n_prev x = Some ?p" using ringD(5) [OF r i(2)] i(1) by blast
  obtain y where y: "h ?p = Some y" using ringD(5) [OF r m(3)] by blast
  obtain z where z: "h ?s = Some z" using ringD(5) [OF r m(1)] by blast
  let ?h1 = "h(?p \<mapsto> y\<lparr>n_next := Some ?s\<rparr>)"
  define z1 where "z1 = (if ?s = ?p then y\<lparr>n_next := Some ?s\<rparr> else z)"
  let ?h = "?h1(?s \<mapsto> z1\<lparr>n_prev := Some ?p\<rparr>, ?n \<mapsto> x\<lparr>n_prev := None, n_next := None\<rparr>)"
  let ?l = "if tailer_p l = Some ?n then l\<lparr>tailer_p := Some ?p\<rparr> else l"
  have z1: "?h1 ?s = Some z1" using z by (simp add: z1_def)
  have leave: "leave_one ?n l h = Inr (Some ?s, ?l, ?h)"
    using x y z1 np by (simp add: leave_one_def set_next_def set_prev_def upd_node_def node_at_def Let_def fun_upd_twist)
  have dist: "distinct ?ys"
    using d(2) id_take_nth_drop [OF i(2)] by (metis distinct_append distinct.simps(2) disjoint_insert(1) list.simps(15))
  have len: "length ?ys = ?L - 1" using i by simp
  have at: "?ys ! k = (if k < i then xs ! k else xs ! Suc k)" if "k < ?L - 1" for k
    using that i by (simp add: nth_append min_def)
  have nodes: "\<exists>w. ?h (?ys ! k) = Some w \<and> n_next w = Some (?ys ! (Suc k mod length ?ys)) \<and> (0 < k \<longrightarrow> n_prev w = Some (?ys ! (k - 1)))"
    if k: "k < length ?ys" for k
  proof -
    define k' where "k' = (if k < i then k else Suc k)"
    have kl: "k < ?L - 1" using k len by simp
    have k': "k' < ?L" "k' \<noteq> i" "?ys ! k = xs ! k'" using kl at [OF kl] i by (auto simp: k'_def)
    obtain w where w: "h (xs ! k') = Some w" "n_next w = Some (xs ! (Suc k' mod ?L))" "0 < k' \<longrightarrow> n_prev w = Some (xs ! (k' - 1))"
      using ringD(5) [OF r k'(1)] by blast
    have kn: "xs ! k' \<noteq> ?n" using nth_eq_iff_index_eq [OF d(2) k'(1) i(2)] k'(2) by simp
    have kp: "xs ! k' = ?p \<longleftrightarrow> k' = i - 1" using nth_eq_iff_index_eq [OF d(2) k'(1) m(3)] .
    have ks: "xs ! k' = ?s \<longleftrightarrow> k' = Suc i mod ?L" using nth_eq_iff_index_eq [OF d(2) k'(1) m(1)] .
    have nxt: "?ys ! (Suc k mod length ?ys) = (if k' = i - 1 then ?s else xs ! (Suc k' mod ?L))"
      using kl i at [of "Suc k mod (?L - 1)"] len by (auto simp: k'_def mod_Suc)
    have prv: "?ys ! (k - 1) = (if k' = Suc i then ?p else xs ! (k' - 1))" if "0 < k"
      using that kl i at [of "k - 1"] by (auto simp: k'_def)
    have si: "k' = Suc i mod ?L \<Longrightarrow> 0 < k \<Longrightarrow> k' = Suc i" using kl i by (auto simp: k'_def mod_Suc split: if_splits)
    have iss: "k' = Suc i \<Longrightarrow> k' = Suc i mod ?L" using k'(1) by simp
    have k0: "0 < k \<Longrightarrow> 0 < k'" by (simp add: k'_def)
    show ?thesis
    proof (cases "k' = Suc i mod ?L")
      case True
      then have "?h (xs ! k') = Some (z1\<lparr>n_prev := Some ?p\<rparr>)" using kn ks by auto
      moreover have "n_next z1 = Some (?ys ! (Suc k mod length ?ys))"
        using True w kp ks y z1 unfolding nxt z1_def by (auto split: if_splits)
      moreover have "0 < k \<Longrightarrow> Some ?p = Some (?ys ! (k - 1))" using prv si [OF True] by simp
      ultimately show ?thesis unfolding k'(3) by auto
    next
      case False
      then have ns: "xs ! k' \<noteq> ?s" using ks by simp
      have "0 < k \<Longrightarrow> n_prev w = Some (?ys ! (k - 1))" using prv w(3) iss False k0 by auto
      then show ?thesis using ns kn kp w y unfolding k'(3) nxt by auto
    qed
  qed
  have ys: "?ys \<noteq> []" "hd ?ys = hd xs" using i by (auto simp: hd_append hd_conv_nth [OF d(1)] hd_conv_nth)
  have la: "last ?ys = (if Suc i = ?L then ?p else last xs)"
  proof -
    have "?ys \<noteq> []" using i by auto
    then have "last ?ys = ?ys ! (?L - 2)" using len by (simp add: last_conv_nth numeral_2_eq_2)
    moreover have "?ys ! (?L - 2) = (if ?L - 2 < i then xs ! (?L - 2) else xs ! (?L - 1))"
      using at [of "?L - 2"] i by (simp add: Suc_diff_Suc numeral_2_eq_2)
    moreover have "Suc i = ?L \<Longrightarrow> ?L - 2 = i - 1" "Suc i = ?L \<longleftrightarrow> ?L - 2 < i" using i by auto
    ultimately show ?thesis by (simp add: last_conv_nth [OF d(1)])
  qed
  have ta: "tailer_p l = Some ?n \<longleftrightarrow> Suc i = ?L"
  proof -
    have "?L - 1 < ?L" using i by simp
    then have "?n = last xs \<longleftrightarrow> i = ?L - 1"
      unfolding last_conv_nth [OF d(1)] by (rule nth_eq_iff_index_eq [OF d(2) i(2)])
    moreover have "tailer_p l = Some ?n \<longleftrightarrow> ?n = last xs" unfolding d(4) option.inject by (rule eq_commute)
    moreover have "i = ?L - 1 \<longleftrightarrow> Suc i = ?L" using i by linarith
    ultimately show ?thesis by blast
  qed
  have "header_p ?l = Some (hd ?ys)" using d(3) ys(2) by simp
  moreover have "tailer_p ?l = Some (last ?ys)" using d(4) la ta by simp
  ultimately have "ring ?l ?h ?ys" unfolding ring_def using ys(1) dist nodes by (intro conjI allI impI)
  moreover have "same_nodes h ?h"
  proof -
    have 1: "same_nodes h ?h1" by (rule same_nodes_upd [where h' = h and x = y, OF same_nodes_refl y]) simp_all
    have 2: "same_nodes h (?h1(?s \<mapsto> z1\<lparr>n_prev := Some ?p\<rparr>))" by (rule same_nodes_upd [where h' = ?h1 and x = z1, OF 1 z1]) simp_all
    have 3: "(?h1(?s \<mapsto> z1\<lparr>n_prev := Some ?p\<rparr>)) ?n = Some x" using x(1) np by simp
    show ?thesis by (rule same_nodes_upd [where h' = "?h1(?s \<mapsto> z1\<lparr>n_prev := Some ?p\<rparr>)" and x = x, OF 2 3]) simp_all
  qed
  moreover have "\<exists>y. ?h ?n = Some y \<and> n_next y = None" by simp
  ultimately show ?thesis using leave by blast
qed

lemma ring_upd:
  assumes "ring l h xs" "h a = Some x" "n_prev y = n_prev x" "n_next y = n_next x"
  shows "ring l (h(a \<mapsto> y)) xs"
proof -
  have "\<exists>z. (h(a \<mapsto> y)) (xs ! i) = Some z \<and> n_next z = Some (xs ! (Suc i mod length xs)) \<and> (0 < i \<longrightarrow> n_prev z = Some (xs ! (i - 1)))"
    if "i < length xs" for i
    using ringD(5) [OF assms(1) that] assms(2-4) by (cases "xs ! i = a") auto
  then show ?thesis using ringD(1-4) [OF assms(1)] unfolding ring_def by blast
qed

lemma ring_del:
  assumes "ring l h xs" "a \<notin> set xs"
  shows "ring l (h(a := None)) xs"
proof -
  have "xs ! i \<noteq> a" if "i < length xs" for i using that assms(2) by (metis nth_mem)
  then show ?thesis using assms(1) by (simp add: ring_def)
qed

section \<open>The scheduler\<close>

text \<open>The ring is \<open>xs\<close>, routine 0 is its header, and the routine at position \<open>i\<close> runs.\<close>

definition sched_ok :: "sched \<Rightarrow> nat list \<Rightarrow> nat \<Rightarrow> bool" where
  "sched_ok s xs i \<longleftrightarrow> ring (sc_chain s) (sc_heap s) xs \<and> hd xs = 0 \<and> i < length xs \<and> sc_cur s = Some (xs ! i)"

lemma sched_node: "sched_ok s xs i \<Longrightarrow> \<exists>x. sc_heap s (xs ! i) = Some x \<and> n_next x = Some (xs ! (Suc i mod length xs))"
  using ringD(5) [of "sc_chain s" "sc_heap s" xs i] by (auto simp: sched_ok_def)

lemma execute_cur_ok: "sched_ok s xs i \<Longrightarrow> \<exists>s'. execute_cur s = Inr s' \<and> sched_ok s' xs i"
  using sched_node [of s xs i] ring_upd [of "sc_chain s" "sc_heap s" xs]
  by (auto simp: execute_cur_def upd_node_def node_at_def sched_ok_def)

lemma yield_ok:
  assumes "sched_ok s xs i"
  shows "\<exists>s'. yield_to_next s = Inr s' \<and> sched_ok s' xs (Suc i mod length xs)"
proof -
  obtain x where x: "sc_heap s (xs ! i) = Some x" "n_next x = Some (xs ! (Suc i mod length xs))" using sched_node [OF assms] by blast
  let ?s = "s\<lparr>sc_cur := Some (xs ! (Suc i mod length xs))\<rparr>"
  have ok: "sched_ok ?s xs (Suc i mod length xs)" using assms by (auto simp: sched_ok_def ring_def)
  have cur: "sc_cur s = Some (xs ! i)" using assms by (simp add: sched_ok_def)
  have y: "yield_to_next s = (if Some (xs ! (Suc i mod length xs)) \<noteq> Some (xs ! i) then execute_cur ?s else Inr ?s)"
    unfolding yield_to_next_def node_at_def cur Let_def option.case x(1) rbind.simps prod.case x(2) ..
  show ?thesis unfolding y using execute_cur_ok [OF ok] ok by (cases "xs ! (Suc i mod length xs) = xs ! i") auto
qed

definition without :: "nat \<Rightarrow> 'a list \<Rightarrow> 'a list" where "without i xs = take i xs @ drop (Suc i) xs"
definition behind :: "nat \<Rightarrow> nat \<Rightarrow> nat" where "behind n i = (if Suc i = n then 0 else i)"

lemma without_next:
  assumes "0 < i" "i < length xs"
  shows "behind (length xs) i < length (without i xs)" "without i xs ! behind (length xs) i = xs ! (Suc i mod length xs)"
    "hd (without i xs) = hd xs"
  using assms by (auto simp: without_def behind_def nth_append min_def hd_append hd_conv_nth)

lemma left_behind:
  assumes "distinct xs" "0 < i" "i < length xs"
  shows "xs ! i \<notin> set (without i xs)"
  using id_take_nth_drop [OF assms(3)] assms(1) unfolding without_def
  by (metis Un_iff disjoint_insert(1) distinct.simps(2) distinct_append list.simps(15) set_append)

text \<open>A routine that has left the ring and is not deleted.\<close>

definition left_ring :: "nat \<Rightarrow> rheap \<Rightarrow> bool" where
  "left_ring a h \<longleftrightarrow> (case h a of None \<Rightarrow> False | Some x \<Rightarrow> n_next x = None \<and> \<not> rt_active x)"

lemma leave_ok:
  assumes "sched_ok s xs i" "0 < i"
  shows "\<exists>s'. pause_and_yield s = Inr s' \<and> sched_ok s' (without i xs) (behind (length xs) i)
      \<and> left_ring (xs ! i) (sc_heap s') \<and> sc_routines s' = sc_routines s \<and> sc_pending s' = sc_pending s"
    and "\<exists>s'. sc_exit s = Inr s' \<and> sched_ok s' (without i xs) (behind (length xs) i)"
proof -
  have s: "ring (sc_chain s) (sc_heap s) xs" "hd xs = 0" "i < length xs" "sc_cur s = Some (xs ! i)"
    using assms(1) by (auto simp: sched_ok_def)
  note w = without_next [OF assms(2) s(3)]
  note dist = ringD(2) [OF s(1)]
  obtain x where x: "sc_heap s (xs ! i) = Some x" using sched_node [OF assms(1)] by blast
  let ?n = "xs ! (Suc i mod length xs)"
  let ?h = "(sc_heap s)(xs ! i \<mapsto> x\<lparr>rt_active := False\<rparr>)"
  have r: "ring (sc_chain s) ?h xs" by (rule ring_upd [OF s(1) x]) simp_all
  have "Suc i mod length xs < length xs" "Suc i mod length xs \<noteq> i" using s(3) assms(2) by (auto simp: mod_Suc)
  then have ne: "?n \<noteq> xs ! i" using nth_eq_iff_index_eq [OF dist _ s(3)] by blast
  obtain l' h' y where l: "leave_one (xs ! i) (sc_chain s) ?h = Inr (Some ?n, l', h')" "ring l' h' (without i xs)"
    "same_nodes ?h h'" "h' (xs ! i) = Some y" "n_next y = None"
    using ring_leave [OF r assms(2) s(3)] unfolding without_def by blast
  have "\<not> rt_active y" using l(3) [unfolded same_nodes_def, rule_format, of "xs ! i"] l(4) by simp
  then have left: "left_ring (xs ! i) h'" using l(4,5) by (simp add: left_ring_def)
  let ?s = "s\<lparr>sc_heap := h', sc_chain := l', sc_cur := Some ?n\<rparr>"
  have ok: "sched_ok ?s (without i xs) (behind (length xs) i)" using l(2) w s(2) by (simp add: sched_ok_def)
  have "pause_and_yield s = execute_cur ?s"
    unfolding pause_and_yield_def upd_node_def node_at_def s(4) option.case x rbind.simps prod.case by (simp add: l(1))
  moreover obtain z where z: "h' ?n = Some z" using sched_node [OF ok] w(2) by auto
  moreover have "left_ring (xs ! i) (h'(?n \<mapsto> z\<lparr>rt_active := True\<rparr>))" using left ne by (simp add: left_ring_def)
  ultimately show "\<exists>s'. pause_and_yield s = Inr s' \<and> sched_ok s' (without i xs) (behind (length xs) i)
      \<and> left_ring (xs ! i) (sc_heap s') \<and> sc_routines s' = sc_routines s \<and> sc_pending s' = sc_pending s"
    using execute_cur_ok [OF ok] by (auto simp: execute_cur_def upd_node_def node_at_def)
  obtain l' h' where l: "leave_one (xs ! i) (sc_chain s) (sc_heap s) = Inr (Some ?n, l', h')" "ring l' h' (without i xs)"
    using ring_leave [OF s(1) assms(2) s(3)] unfolding without_def by blast
  let ?s = "s\<lparr>sc_heap := h'(xs ! i := None), sc_chain := l', sc_cur := Some ?n\<rparr>"
  have ok: "sched_ok ?s (without i xs) (behind (length xs) i)"
    using ring_del [OF l(2) left_behind [OF dist assms(2) s(3)]] w s(2) by (simp add: sched_ok_def)
  have "sc_exit s = execute_cur ?s" using ne
    unfolding sc_exit_def node_at_def s(4) option.case x rbind.simps prod.case by (simp add: l(1))
  then show "\<exists>s'. sc_exit s = Inr s' \<and> sched_ok s' (without i xs) (behind (length xs) i)"
    using execute_cur_ok [OF ok] by simp
qed

lemma addback_ok:
  assumes "sched_ok s xs i" "unat c < length (sc_routines s)" "sc_routines s ! unat c = a" "a \<notin> set xs" "sc_heap s a = Some x"
  shows "\<exists>s'. addback_coroutine c s = Inr s' \<and> sched_ok s' (xs @ [a]) i"
proof -
  have "ring (sc_chain s) (sc_heap s) xs" using assms(1) by (simp add: sched_ok_def)
  then obtain l' h' where "ll_add a (sc_chain s) (sc_heap s) = Inr (l', h')" "ring l' h' (xs @ [a])"
    using ring_add [where l = "sc_chain s" and h = "sc_heap s" and xs = xs and n = a and x = x] assms(4,5) by blast
  then show ?thesis
    using assms(1-3) by (auto simp: addback_coroutine_def at_throws_def sched_ok_def nth_append hd_append ring_def)
qed


lemma init_ok: "\<exists>s. SScheduler = Inr s \<and> sched_ok s [0] 0 \<and> sc_routines s = [0]"
  by (simp add: SScheduler_def sc_spawn_def ll_add_def ll_null_def LinkedList_def Node_def kMaxRoutineSupported_def
      set_next_def set_prev_def upd_node_def node_at_def sched_ok_def ring_def)

section \<open>Turns\<close>

definition paused :: "usize \<Rightarrow> sched \<Rightarrow> bool" where
  "paused c s \<longleftrightarrow> unat c < length (sc_routines s) \<and> left_ring (sc_routines s ! unat c) (sc_heap s)"

lemma pausedD:
  assumes "paused c s" "sched_ok s xs i"
  shows "unat c < length (sc_routines s)" "\<exists>x. sc_heap s (sc_routines s ! unat c) = Some x" "sc_routines s ! unat c \<notin> set xs"
proof -
  obtain x where x: "unat c < length (sc_routines s)" "sc_heap s (sc_routines s ! unat c) = Some x" "n_next x = None"
    using assms(1) by (auto simp: paused_def left_ring_def split: option.splits)
  then show "unat c < length (sc_routines s)" "\<exists>x. sc_heap s (sc_routines s ! unat c) = Some x" by auto
  have "ring (sc_chain s) (sc_heap s) xs" using assms(2) by (simp add: sched_ok_def)
  then show "sc_routines s ! unat c \<notin> set xs" using x(2,3) ringD(5) by (fastforce simp: in_set_conv_nth)
qed

lemma addback_paused:
  assumes "paused c s" "sched_ok s xs i"
  shows "\<exists>s'. addback_coroutine c s = Inr s' \<and> sched_ok s' (xs @ [sc_routines s ! unat c]) i"
  using pausedD [OF assms] addback_ok [OF assms(2) _ refl] by blast

text \<open>What a routine can do to the scheduler at its turn before it passes control on. A new node is one that
  is not in use; only paused routines are put back.\<close>

inductive act :: "sched \<Rightarrow> sched \<Rightarrow> bool" where
  act_add: "paused c s \<Longrightarrow> addback_coroutine c s = Inr s' \<Longrightarrow> act s s'"
| act_spawn: "sc_heap s (length (sc_routines s)) = None \<Longrightarrow> sc_spawn s = Inr (r, s') \<Longrightarrow> act s s'"
| act_wait: "wait_num c n s = Inr s' \<Longrightarrow> act s s'"
| act_stop: "act s (sc_stop s)"

text \<open>What routine 0 does while it polls: the futures act, and their results are settled.\<close>

inductive polls :: "sched \<Rightarrow> sched \<Rightarrow> bool" where
  polls_act: "act s s' \<Longrightarrow> polls s s'"
| polls_settle: "paused (ucast (fst (desc r))) s \<Longrightarrow> settle r s = Inr s' \<Longrightarrow> polls s s'"
| polls_count: "code r \<noteq> IO_Err \<Longrightarrow> sc_pending s ! unat (fst (desc r)) \<noteq> snd (desc r) \<Longrightarrow> settle r s = Inr s' \<Longrightarrow> polls s s'"

text \<open>Every way control passes from one routine to another. Routine 0 polls and yields while the scheduler
  runs and exits when it does not; the others yield, pause or exit.\<close>

inductive switch :: "sched \<Rightarrow> sched \<Rightarrow> bool" where
  sw_yield: "sc_cur s \<noteq> Some 0 \<Longrightarrow> act\<^sup>*\<^sup>* s s1 \<Longrightarrow> yield_to_next s1 = Inr s' \<Longrightarrow> switch s s'"
| sw_pause: "sc_cur s \<noteq> Some 0 \<Longrightarrow> act\<^sup>*\<^sup>* s s1 \<Longrightarrow> sc_pause s1 = Inr (Some s') \<Longrightarrow> switch s s'"
| sw_pause_and_yield: "sc_cur s \<noteq> Some 0 \<Longrightarrow> act\<^sup>*\<^sup>* s s1 \<Longrightarrow> pause_and_yield s1 = Inr s' \<Longrightarrow> switch s s'"
| sw_exit: "sc_cur s \<noteq> Some 0 \<Longrightarrow> act\<^sup>*\<^sup>* s s1 \<Longrightarrow> sc_exit s1 = Inr s' \<Longrightarrow> switch s s'"
| sw_poll: "sc_cur s = Some 0 \<Longrightarrow> sc_running s \<Longrightarrow> polls\<^sup>*\<^sup>* s s1 \<Longrightarrow> yield_to_next s1 = Inr s' \<Longrightarrow> switch s s'"
| sw_stopped: "sc_cur s = Some 0 \<Longrightarrow> \<not> sc_running s \<Longrightarrow> sc_exit s = Inr s' \<Longrightarrow> switch s s'"

text \<open>A round of routine 0 is a switch when its futures only act, and report on paused routines or do not
  bring a count to 0.\<close>

definition good_future :: "'g poll_func \<Rightarrow> bool" where
  "good_future f \<longleftrightarrow> (\<forall>s g r s' g'. f s g = Inr (r, s', g') \<longrightarrow> act\<^sup>*\<^sup>* s s'
     \<and> (paused (ucast (fst (desc r))) s' \<or> code r \<noteq> IO_Err \<and> sc_pending s' ! unat (fst (desc r)) \<noteq> snd (desc r)))"

lemma acts_polls: "act\<^sup>*\<^sup>* s s' \<Longrightarrow> polls\<^sup>*\<^sup>* s s'"
  by (erule rtranclp_mono [THEN predicate2D, rotated]) (blast intro: polls_act)

lemma poll_all_polls:
  "poll_all_futures fs s g = Inr (fs', s', g') \<Longrightarrow> \<forall>f \<in> set fs. good_future f \<Longrightarrow> polls\<^sup>*\<^sup>* s s'"
proof (induction fs arbitrary: s g fs')
  case (Cons f fs)
  obtain r s1 g1 s2 fs2 where h: "f s g = Inr (r, s1, g1)" "settle r s1 = Inr s2" "poll_all_futures fs s2 g1 = Inr (fs2, s', g')"
    using Cons.prems(1) by (auto simp: rbind_Inr_iff)
  have "act\<^sup>*\<^sup>* s s1" "paused (ucast (fst (desc r))) s1 \<or> code r \<noteq> IO_Err \<and> sc_pending s1 ! unat (fst (desc r)) \<noteq> snd (desc r)"
    using Cons.prems(2) h(1) unfolding good_future_def by (metis list.set_intros(1))+
  then have "polls\<^sup>*\<^sup>* s s1" "polls s1 s2" using acts_polls polls_settle [OF _ h(2)] polls_count [OF _ _ h(2)] by blast+
  moreover have "polls\<^sup>*\<^sup>* s2 s'" using Cons.IH [OF h(3)] Cons.prems(2) by simp
  ultimately show ?case by (meson rtranclp.rtrancl_into_rtrancl rtranclp_trans)
qed simp

lemma main_round_switch:
  "main_round fs s g = Inr (fs', s', g') \<Longrightarrow> sc_cur s = Some 0 \<Longrightarrow> \<forall>f \<in> set fs. good_future f \<Longrightarrow> switch s s'"
  by (auto simp: main_round_def rbind_Inr_iff split: if_splits intro: sw_poll sw_stopped dest: poll_all_polls)

lemma sched_ok_upd:
  assumes "sched_ok s xs i" "sc_heap s a = Some x" "n_prev y = n_prev x" "n_next y = n_next x"
  shows "sched_ok (s\<lparr>sc_heap := (sc_heap s)(a \<mapsto> y)\<rparr>) xs i"
  using assms ring_upd [where l = "sc_chain s" and h = "sc_heap s" and xs = xs and a = a and x = x and y = y] by (simp add: sched_ok_def)

lemma settle_count:
  assumes "sched_ok s xs i" "settle r s = Inr s'" "code r \<noteq> IO_Err" "sc_pending s ! unat (fst (desc r)) \<noteq> snd (desc r)"
  shows "sched_ok s' xs i"
  using assms by (cases "desc r") (auto simp: settle_def vec_at_def sched_ok_def res_iff split: if_splits)

lemma settle_paused:
  assumes "sched_ok s xs i" "settle r s = Inr s'" "paused (ucast (fst (desc r))) s"
  shows "\<exists>ys. sched_ok s' (xs @ ys) i"
proof -
  obtain c m where r: "desc r = (c, m)" by (cases "desc r")
  have u: "unat (ucast c :: usize) = unat c" by simp
  let ?a = "sc_routines s ! unat c"
  note p = pausedD [OF assms(3,1), unfolded r fst_conv u]
  obtain x where x: "sc_heap s ?a = Some x" using p(2) by blast
  have again: "\<exists>t'. addback_coroutine (ucast c) t = Inr t' \<and> sched_ok t' (xs @ [?a]) i"
    if "sched_ok t xs i" "sc_routines t = sc_routines s" "sc_heap t ?a = Some y" for t y
    using addback_ok [OF that(1), of "ucast c" ?a y] p(1,3) that(2,3) by (simp add: u)
  show ?thesis
  proof (cases "code r = IO_Err")
    case True
    let ?t = "s\<lparr>sc_heap := (sc_heap s)(?a \<mapsto> x\<lparr>rt_status := io_err ()\<rparr>)\<rparr>"
    have "sched_ok ?t xs i" by (rule sched_ok_upd [OF assms(1) x]) simp_all
    from again [OF this] obtain t' where "addback_coroutine (ucast c) ?t = Inr t'" "sched_ok t' (xs @ [?a]) i" by auto
    moreover have "s' = t'"
      using assms(2) True calculation(1) p(1) x
      by (auto simp: settle_def r at_throws_def upd_node_def node_at_def addback_coroutine_def u res_iff)
    ultimately show ?thesis by blast
  next
    case False
    show ?thesis
    proof (cases "(code r = IO_Ok \<or> code r = IO_NearOk) \<and> sc_pending s ! unat c = m")
      case True
      let ?t = "s\<lparr>sc_pending := (sc_pending s)[unat c := 0]\<rparr>"
      have "sched_ok ?t xs i" using assms(1) by (simp add: sched_ok_def)
      from again [OF this] x obtain t' where "addback_coroutine (ucast c) ?t = Inr t'" "sched_ok t' (xs @ [?a]) i" by auto
      moreover have "s' = t'"
        using assms(2) True False calculation(1) p(1) x
        by (auto simp: settle_def r at_throws_def node_at_def addback_coroutine_def u vec_at_def res_iff split: if_splits)
      ultimately show ?thesis by blast
    next
      case no: False
      then have "sched_ok s' xs i"
        using assms(1,2) False by (auto simp: settle_def r vec_at_def sched_ok_def res_iff split: if_splits)
      then have "sched_ok s' (xs @ []) i" by simp
      then show ?thesis by blast
    qed
  qed
qed

lemma spawn_ok:
  assumes "sched_ok s xs i" "sc_heap s (length (sc_routines s)) = None" "sc_spawn s = Inr (r, s')"
  shows "\<exists>ys. sched_ok s' (xs @ ys) i"
proof (cases "kMaxRoutineSupported \<le> length (sc_routines s)")
  case True
  then have "sched_ok s' (xs @ []) i" using assms(1,3) by (simp add: sc_spawn_def Let_def)
  then show ?thesis by blast
next
  case False
  let ?n = "length (sc_routines s)"
  let ?h = "(sc_heap s)(?n \<mapsto> Node)"
  have r: "ring (sc_chain s) (sc_heap s) xs" using assms(1) by (simp add: sched_ok_def)
  have n: "?n \<notin> set xs"
  proof
    assume "?n \<in> set xs"
    then obtain k where "k < length xs" "xs ! k = ?n" by (auto simp: in_set_conv_nth)
    then show False using ringD(5) [OF r] assms(2) by fastforce
  qed
  then have "xs ! k \<noteq> ?n" if "k < length xs" for k using that by (metis nth_mem)
  then have "ring (sc_chain s) ?h xs" using r by (simp add: ring_def)
  then obtain l' h' where l: "ll_add ?n (sc_chain s) ?h = Inr (l', h')" "ring l' h' (xs @ [?n])"
    using ring_add [where l = "sc_chain s" and h = ?h and xs = xs and n = ?n] n by fastforce
  obtain c where c: "sc_cur s = Some c" "i < length xs" "c = xs ! i" "hd xs = 0" using assms(1) by (auto simp: sched_ok_def)
  have "s' = s\<lparr>sc_heap := h', sc_chain := l', sc_routines := sc_routines s @ [?n], sc_cur := Some c\<rparr>"
    using assms(3) False l(1) c(1) by (simp add: sc_spawn_def Let_def)
  then have "sched_ok s' (xs @ [?n]) i"
    using l(2) c ringD(1) [OF r] by (simp add: sched_ok_def nth_append hd_append)
  then show ?thesis by blast
qed

lemma act_ok: "act s s' \<Longrightarrow> sched_ok s xs i \<Longrightarrow> \<exists>ys. sched_ok s' (xs @ ys) i"
proof (induction rule: act.induct)
  case (act_add c s s')
  then show ?case using addback_paused [of c s xs i] by auto
next
  case (act_spawn s r s')
  then show ?case by (blast intro: spawn_ok)
next
  case (act_wait c n s s')
  then have "sched_ok s' (xs @ []) i" by (auto simp: wait_num_def vec_at_def sched_ok_def split: if_splits)
  then show ?case by blast
next
  case (act_stop s)
  then have "sched_ok (sc_stop s) (xs @ []) i" by (simp add: sc_stop_def sched_ok_def)
  then show ?case by blast
qed

lemma polls_ok: "polls s s' \<Longrightarrow> sched_ok s xs i \<Longrightarrow> \<exists>ys. sched_ok s' (xs @ ys) i"
proof (induction rule: polls.induct)
  case (polls_act s s')
  then show ?case by (blast intro: act_ok)
next
  case (polls_settle r s s')
  then show ?case by (blast intro: settle_paused)
next
  case (polls_count r s s')
  then have "sched_ok s' (xs @ []) i" using settle_count [of s xs i r s'] by simp
  then show ?case by blast
qed

lemma many_ok:
  assumes "\<And>s s' xs. R s s' \<Longrightarrow> sched_ok s xs i \<Longrightarrow> \<exists>ys. sched_ok s' (xs @ ys) i"
    and "R\<^sup>*\<^sup>* s s'" "sched_ok s xs i"
  shows "\<exists>ys. sched_ok s' (xs @ ys) i"
  using assms(2,3)
proof (induction rule: rtranclp_induct)
  case base
  then have "sched_ok s (xs @ []) i" by simp
  then show ?case by blast
next
  case (step s1 s2)
  then obtain ys where "sched_ok s1 (xs @ ys) i" by blast
  from assms(1) [OF step(2) this] show ?case by (metis append.assoc)
qed

lemma acts_ok: "act\<^sup>*\<^sup>* s s' \<Longrightarrow> sched_ok s xs i \<Longrightarrow> \<exists>ys. sched_ok s' (xs @ ys) i"
  by (rule many_ok [where R = act, OF act_ok])

lemma many_polls_ok: "polls\<^sup>*\<^sup>* s s' \<Longrightarrow> sched_ok s xs i \<Longrightarrow> \<exists>ys. sched_ok s' (xs @ ys) i"
  by (rule many_ok [where R = polls, OF polls_ok])

lemma addback_running: "addback_coroutine c s = Inr s' \<Longrightarrow> sc_running s' = sc_running s"
  by (auto simp: addback_coroutine_def res_iff)

lemma cur_pos: "sched_ok s xs i \<Longrightarrow> sc_cur s = Some 0 \<longleftrightarrow> i = 0"
proof -
  assume h: "sched_ok s xs i"
  have "ring (sc_chain s) (sc_heap s) xs" "hd xs = 0" "i < length xs" "sc_cur s = Some (xs ! i)"
    using h by (auto simp: sched_ok_def)
  note r = this
  have "xs ! 0 = 0" "0 < length xs" using hd_conv_nth [OF ringD(1) [OF r(1)]] r(2,3) by auto
  then show ?thesis using nth_eq_iff_index_eq [OF ringD(2) [OF r(1)] r(3)] r(4) by auto
qed

text \<open>Routine \<open>a\<close> is at most \<open>d\<close> turns away, and routine 0 does not come before it.\<close>

definition turn :: "sched \<Rightarrow> nat \<Rightarrow> nat \<Rightarrow> bool" where
  "turn s a d \<longleftrightarrow> (\<exists>xs i j. sched_ok s xs i \<and> j < length xs \<and> xs ! j = a \<and> i \<le> j \<and> j - i \<le> d \<and> (0 < i \<or> sc_running s))"

lemma turn_now: "turn s a 0 \<Longrightarrow> sc_cur s = Some a"
  by (auto simp: turn_def sched_ok_def)

lemma turn_ready: "turn s a d \<Longrightarrow> \<exists>s'. switch s s'"
proof -
  assume "turn s a d"
  then obtain xs i where h: "sched_ok s xs i" "0 < i \<or> sc_running s" by (auto simp: turn_def)
  from yield_ok [OF h(1)] obtain s' where y: "yield_to_next s = Inr s'" by blast
  show ?thesis
  proof (cases "i = 0")
    case True
    then have "sc_cur s = Some 0" "sc_running s" using cur_pos [OF h(1)] h(2) by simp_all
    then show ?thesis using switch.sw_poll [OF _ _ rtranclp.rtrancl_refl y] by blast
  next
    case False
    then have "sc_cur s \<noteq> Some 0" using cur_pos [OF h(1)] by simp
    then show ?thesis using switch.sw_yield [OF _ rtranclp.rtrancl_refl y] by blast
  qed
qed

lemma turn_yield:
  assumes "sched_ok s xs i" "j < length xs" "xs ! j = a" "i < j" "j - i \<le> Suc d" "yield_to_next s = Inr s'"
  shows "turn s' a d"
proof -
  have "sched_ok s' xs (Suc i)" using yield_ok [OF assms(1)] assms(2,4,6) by auto
  then show ?thesis using assms(2-5) unfolding turn_def by (intro exI [of _ xs] exI [of _ "Suc i"] exI [of _ j]) auto
qed

lemma turn_leave:
  assumes "j < length xs" "xs ! j = a" "i < j" "j - i \<le> Suc d" "0 < i" "sched_ok s' (without i xs) (behind (length xs) i)"
  shows "turn s' a d"
proof -
  have "without i xs ! (j - 1) = a" "length (without i xs) = length xs - 1" "behind (length xs) i = i"
    using assms(1-3) by (auto simp: without_def nth_append min_def behind_def)
  then show ?thesis using assms unfolding turn_def by (intro exI [of _ "without i xs"] exI [of _ i] exI [of _ "j - 1"]) auto
qed

lemma switch_turn:
  assumes "switch s s'" "turn s a (Suc d)" "sc_cur s \<noteq> Some a"
  shows "turn s' a d"
proof -
  obtain xs i j where t: "sched_ok s xs i" "j < length xs" "xs ! j = a" "i \<le> j" "j - i \<le> Suc d" "0 < i \<or> sc_running s"
    using assms(2) by (auto simp: turn_def)
  have lt: "i < j" using assms(3) t(1,3,4) by (cases "i = j") (auto simp: sched_ok_def)
  have more: "j < length (xs @ ys)" "(xs @ ys) ! j = a" for ys using t(2,3) by (simp_all add: nth_append)
  have left: "turn s' a d" if "sched_ok s1 (xs @ ys) i" "0 < i" "pause_and_yield s1 = Inr s' \<or> sc_exit s1 = Inr s'" for s1 ys
    using turn_leave [OF more lt t(5) that(2)] leave_ok [OF that(1,2)] that(3) by fastforce
  show ?thesis using assms(1)
  proof cases
    case (sw_yield s1)
    then show ?thesis using acts_ok [OF sw_yield(2) t(1)] turn_yield [OF _ more lt t(5) sw_yield(3)] by blast
  next
    case (sw_pause s1)
    have "0 < i" "pause_and_yield s1 = Inr s'" using sw_pause cur_pos [OF t(1)] by (auto simp: sc_pause_def res_iff split: if_splits)
    then show ?thesis using acts_ok [OF sw_pause(2) t(1)] left by blast
  next
    case (sw_pause_and_yield s1)
    then have "0 < i" using cur_pos [OF t(1)] by simp
    then show ?thesis using acts_ok [OF sw_pause_and_yield(2) t(1)] left sw_pause_and_yield(3) by blast
  next
    case (sw_exit s1)
    then have "0 < i" using cur_pos [OF t(1)] by simp
    then show ?thesis using acts_ok [OF sw_exit(2) t(1)] left sw_exit(3) by blast
  next
    case (sw_poll s1)
    then show ?thesis using many_polls_ok [OF sw_poll(3) t(1)] turn_yield [OF _ more lt t(5) sw_poll(4)] by blast
  next
    case sw_stopped
    then show ?thesis using cur_pos [OF t(1)] t(6) by simp
  qed
qed

lemma turns_come:
  assumes "turn (\<sigma> 0) a d" "\<And>k. k < d \<Longrightarrow> \<forall>m \<le> k. sc_cur (\<sigma> m) \<noteq> Some a \<Longrightarrow> switch (\<sigma> k) (\<sigma> (Suc k))"
  shows "\<exists>k \<le> d. sc_cur (\<sigma> k) = Some a \<and> (\<forall>m \<le> k. \<exists>s'. switch (\<sigma> m) s')"
  using assms
proof (induction d arbitrary: \<sigma>)
  case 0
  show ?case using turn_now [OF 0(1)] turn_ready [OF 0(1)] by (intro exI [of _ 0]) simp
next
  case (Suc d)
  note ready = turn_ready [OF Suc.prems(1)]
  show ?case
  proof (cases "sc_cur (\<sigma> 0) = Some a")
    case True
    then show ?thesis using ready by (intro exI [of _ 0]) simp
  next
    case False
    then have "switch (\<sigma> 0) (\<sigma> (Suc 0))" using Suc.prems(2) [of 0] by simp
    then have "turn (\<sigma> (Suc 0)) a d" using switch_turn Suc.prems(1) False by blast
    moreover have "switch (\<sigma> (Suc k)) (\<sigma> (Suc (Suc k)))" if "k < d" "\<forall>m \<le> k. sc_cur (\<sigma> (Suc m)) \<noteq> Some a" for k
    proof (rule Suc.prems(2))
      show "\<forall>m \<le> Suc k. sc_cur (\<sigma> m) \<noteq> Some a" using that(2) False by (metis not0_implies_Suc Suc_le_mono)
    qed (use that(1) in simp)
    ultimately obtain k where k: "k \<le> d" "sc_cur (\<sigma> (Suc k)) = Some a" "\<forall>m \<le> k. \<exists>s'. switch (\<sigma> (Suc m)) s'"
      using Suc.IH [of "\<lambda>k. \<sigma> (Suc k)"] by auto
    have "\<exists>s'. switch (\<sigma> m) s'" if "m \<le> Suc k" for m using that k(3) ready by (cases m) auto
    then show ?thesis using k(1,2) by (intro exI [of _ "Suc k"]) auto
  qed
qed

section \<open>The exit of routine 0\<close>

text \<open>The constructor makes routine 0 its own predecessor, and \<open>add\<close> leaves that as it is.\<close>

definition own_prev :: "nat \<Rightarrow> rheap \<Rightarrow> bool" where
  "own_prev a h \<longleftrightarrow> (case h a of None \<Rightarrow> False | Some x \<Rightarrow> n_prev x = Some a)"

lemma init_own_prev: "SScheduler = Inr s \<Longrightarrow> own_prev 0 (sc_heap s)"
  by (auto simp: SScheduler_def sc_spawn_def ll_add_def ll_null_def LinkedList_def Node_def kMaxRoutineSupported_def
      set_next_def set_prev_def upd_node_def node_at_def own_prev_def)

text \<open>It deletes the node the header and the last routine still point to, and leaves it as the predecessor of
  the next routine, whose own exit then writes to it.\<close>

lemma header_exit:
  assumes "sched_ok s xs 0" "1 < length xs" "own_prev 0 (sc_heap s)"
  shows "\<exists>s'. sc_exit s = Inr s' \<and> header_p (sc_chain s') = Some 0 \<and> sc_heap s' 0 = None
    \<and> sc_cur s' = Some (xs ! 1) \<and> sc_exit s' = Inl UB \<and> pause_and_yield s' = Inl UB"
proof -
  have s: "ring (sc_chain s) (sc_heap s) xs" "hd xs = 0" "sc_cur s = Some (xs ! 0)"
    using assms(1) by (auto simp: sched_ok_def)
  note d = ringD(1-4) [OF s(1)]
  have x0: "xs ! 0 = 0" using s(2) hd_conv_nth [OF d(1)] by simp
  let ?n = "xs ! 1"
  have n0: "?n \<noteq> 0" "last xs \<noteq> 0"
    using nth_eq_iff_index_eq [OF d(2), of 1 0] nth_eq_iff_index_eq [OF d(2), of "length xs - 1" 0] assms(2) x0 d(1)
    by (auto simp: last_conv_nth [OF d(1)])
  obtain x where x: "sc_heap s 0 = Some x" "n_next x = Some ?n" "n_prev x = Some 0"
    using ringD(5) [OF s(1), of 0] assms(2,3) x0 d(1) by (auto simp: own_prev_def split: option.splits)
  obtain y where y: "sc_heap s ?n = Some y" using ringD(5) [OF s(1), of 1] assms(2) by auto
  let ?y = "y\<lparr>n_prev := Some 0, rt_active := True\<rparr>"
  have h: "header_p (sc_chain s) = Some 0" "tailer_p (sc_chain s) = Some (last xs)" using d(3,4) s(2) by simp_all
  have c: "sc_cur s = Some 0" using s(3) x0 by simp
  let ?s = "s\<lparr>sc_heap := (sc_heap s)(?n \<mapsto> ?y, 0 := None), sc_cur := Some ?n\<rparr>"
  have e: "sc_exit s = Inr ?s"
    using x y h c n0
    by (simp add: sc_exit_def leave_one_def set_next_def set_prev_def upd_node_def node_at_def execute_cur_def Let_def fun_upd_twist)
  moreover have "sc_exit ?s = Inl UB" "pause_and_yield ?s = Inl UB"
    using n0 by (simp_all add: sc_exit_def pause_and_yield_def leave_one_def set_next_def upd_node_def node_at_def)
  ultimately show ?thesis using h(1) n0 by (intro exI [of _ ?s]) simp
qed

text \<open>Whatever the predecessor of the header is, the header is left pointing to a deleted node.\<close>

lemma header_dangles:
  assumes "sched_ok s xs 0" "sc_exit s = Inr s'"
  shows "header_p (sc_chain s') = Some 0 \<and> sc_heap s' 0 = None"
proof -
  have r: "ring (sc_chain s) (sc_heap s) xs" "hd xs = 0" "sc_cur s = Some (xs ! 0)" using assms(1) by (auto simp: sched_ok_def)
  have c: "sc_cur s = Some 0" "header_p (sc_chain s) = Some 0" using ringD(1,3) [OF r(1)] r(2,3) by (simp_all add: hd_conv_nth)
  obtain nxt l h where e: "leave_one 0 (sc_chain s) (sc_heap s) = Inr (nxt, l, h)"
    and s': "(if nxt \<noteq> Some 0 then execute_cur (s\<lparr>sc_heap := h(0 := None), sc_chain := l, sc_cur := nxt\<rparr>)
      else Inr (s\<lparr>sc_heap := h(0 := None), sc_chain := l, sc_cur := nxt\<rparr>)) = Inr s'"
    using assms(2) c(1) by (auto simp: sc_exit_def node_at_def rbind_Inr_iff Let_def split: option.splits)
  have "header_p l = Some 0" using e c(2) by (auto simp: leave_one_def rbind_Inr_iff Let_def split: if_splits)
  then show ?thesis using s'
    by (auto simp: execute_cur_def upd_node_def node_at_def rbind_Inr_iff split: if_splits option.splits)
qed

section \<open>Properties\<close>

text \<open>C39: the linked ring implements a list as long as routine 0 stays in it. When the ring holds \<open>xs\<close> with
  routine 0 at its head and the routine at position \<open>i\<close> runs, a yield passes to the next position, a pause
  and an exit of a routine other than 0 take it out and pass to the one behind it, and a paused routine is
  put back at the end; none of them dereferences a null or deleted node. The exit of routine 0, which
  follows \<open>stop\<close>, is the exception: when it returns, the header of the ring points to the deleted node;
  and if there are other routines and the header is its own predecessor, as the constructor made it and
  \<open>add\<close> leaves it, it does return, and the exit or pause of the next routine is undefined behaviour.\<close>

theorem scheduler_refines_ring:
  assumes "sched_ok s xs i" "paused c s"
  shows "(\<exists>s'. yield_to_next s = Inr s' \<and> sched_ok s' xs (Suc i mod length xs))
    \<and> (0 < i \<longrightarrow> (\<exists>s'. pause_and_yield s = Inr s' \<and> sched_ok s' (without i xs) (behind (length xs) i)))
    \<and> (0 < i \<longrightarrow> (\<exists>s'. sc_exit s = Inr s' \<and> sched_ok s' (without i xs) (behind (length xs) i)))
    \<and> (\<exists>s'. addback_coroutine c s = Inr s' \<and> sched_ok s' (xs @ [sc_routines s ! unat c]) i)
    \<and> (i = 0 \<longrightarrow> (\<forall>s'. sc_exit s = Inr s' \<longrightarrow> header_p (sc_chain s') = Some 0 \<and> sc_heap s' 0 = None))
    \<and> (i = 0 \<and> 1 < length xs \<and> own_prev 0 (sc_heap s) \<longrightarrow>
         (\<exists>s'. sc_exit s = Inr s' \<and> header_p (sc_chain s') = Some 0 \<and> sc_heap s' 0 = None
            \<and> sc_cur s' = Some (xs ! 1) \<and> sc_exit s' = Inl UB \<and> pause_and_yield s' = Inl UB))"
  using yield_ok [OF assms(1)] leave_ok [OF assms(1)] addback_paused [OF assms(2,1)] header_exit [of s xs]
    header_dangles [of s xs] assms(1) by blast

text \<open>Routines 0 and 1 in the ring, routine 2 paused.\<close>

definition ex_heap :: rheap where
  "ex_heap = [0 \<mapsto> Node\<lparr>n_prev := Some 0, n_next := Some 1\<rparr>, 1 \<mapsto> Node\<lparr>n_prev := Some 0, n_next := Some 0\<rparr>, 2 \<mapsto> Node]"

definition ex_sched :: "nat \<Rightarrow> sched" where
  "ex_sched cur = \<lparr>sc_heap = ex_heap, sc_chain = \<lparr>header_p = Some 0, tailer_p = Some 1\<rparr>, sc_routines = [0, 1, 2],
     sc_cur = Some cur, sc_pending = replicate 64 0, sc_running = True\<rparr>"

lemma ex_sched_ok: "cur < 2 \<Longrightarrow> sched_ok (ex_sched cur) [0, 1] cur" "paused 2 (ex_sched cur)"
  by (auto simp: sched_ok_def ex_sched_def ring_def ex_heap_def paused_def left_ring_def Node_def less_2_cases_iff less_Suc_eq)

lemma pos2: "0 < (2 :: nat)" by simp

theorem scheduler_refines_ring_witness:
  "(\<exists>s'. yield_to_next (ex_sched 1) = Inr s' \<and> sched_ok s' [0, 1] 0)
    \<and> (\<exists>s'. pause_and_yield (ex_sched 1) = Inr s' \<and> sched_ok s' [0] 0)
    \<and> (\<exists>s'. sc_exit (ex_sched 1) = Inr s' \<and> sched_ok s' [0] 0)
    \<and> (\<exists>s'. addback_coroutine 2 (ex_sched 1) = Inr s' \<and> sched_ok s' [0, 1, 2] 1)
    \<and> (\<exists>s'. sc_exit (ex_sched 0) = Inr s' \<and> sc_cur s' = Some 1 \<and> sc_exit s' = Inl UB)"
proof -
  have one: "(1 :: nat) < 2" and own: "own_prev 0 (sc_heap (ex_sched 0))"
    by (simp_all add: own_prev_def ex_sched_def ex_heap_def)
  note a = scheduler_refines_ring [OF ex_sched_ok(1) [OF one] ex_sched_ok(2)]
  note b = scheduler_refines_ring [OF ex_sched_ok(1) [OF pos2] ex_sched_ok(2)]
  have n: "length [0 :: nat, 1] = 2" "[0 :: nat, 1] ! 1 = 1" "sc_routines (ex_sched 1) ! unat (2 :: usize) = 2"
    by (simp_all add: ex_sched_def)
  from b [THEN conjunct2, THEN conjunct2, THEN conjunct2, THEN conjunct2, THEN conjunct2, THEN mp, OF conjI, OF refl conjI, unfolded n] own
  have "\<exists>s'. sc_exit (ex_sched 0) = Inr s' \<and> sc_cur s' = Some 1 \<and> sc_exit s' = Inl UB"
    by fastforce
  with a show ?thesis unfolding n by (simp add: without_def behind_def)
qed

text \<open>C40: a routine that is put back gets control after at most as many switches as there are routines
  behind the current one. The others may do anything at their turns - yield, pause, exit, spawn, put back
  paused routines, stop the scheduler - and routine 0 may settle results of paused routines, and any that
  bring no count to 0, while it polls: as long as control is passed on until the routine has it, it gets
  it within \<open>length xs - i\<close> switches, and a switch is possible at every point before. Only the current
  routine must not be a routine 0 that finds the scheduler stopped.\<close>

theorem woken_routine_runs:
  assumes "sched_ok s xs i" "0 < i \<or> sc_running s" "paused c s" "addback_coroutine c s = Inr (\<sigma> 0)"
    and "\<And>k. k < length xs - i \<Longrightarrow> \<forall>m \<le> k. sc_cur (\<sigma> m) \<noteq> Some (sc_routines s ! unat c) \<Longrightarrow> switch (\<sigma> k) (\<sigma> (Suc k))"
  shows "\<exists>k \<le> length xs - i. sc_cur (\<sigma> k) = Some (sc_routines s ! unat c) \<and> (\<forall>m \<le> k. \<exists>s'. switch (\<sigma> m) s')"
proof -
  have ok: "sched_ok (\<sigma> 0) (xs @ [sc_routines s ! unat c]) i" using addback_paused [OF assms(3,1)] assms(4) by auto
  have "sc_running (\<sigma> 0) = sc_running s" by (rule addback_running [OF assms(4)])
  then have "turn (\<sigma> 0) (sc_routines s ! unat c) (length xs - i)"
    using ok assms(1,2) unfolding turn_def
    by (intro exI [of _ "xs @ [sc_routines s ! unat c]"] exI [of _ i] exI [of _ "length xs"]) (simp add: sched_ok_def)
  then show ?thesis by (rule turns_come [where \<sigma> = \<sigma>]) (rule assms(5))
qed

lemma ex_trace:
  obtains s0 s1 s2 where "addback_coroutine 2 (ex_sched 0) = Inr s0" "switch s0 s1" "switch s1 s2"
proof -
  obtain s0 where s0: "addback_coroutine 2 (ex_sched 0) = Inr s0" "sched_ok s0 [0, 1, 2] 0"
    using addback_paused [OF ex_sched_ok(2) ex_sched_ok(1), of 0] by (auto simp: ex_sched_def)
  obtain s1 where s1: "yield_to_next s0 = Inr s1" "sched_ok s1 [0, 1, 2] 1" using yield_ok [OF s0(2)] by auto
  have "sc_running s0" using s0(1) by (auto simp: addback_coroutine_def res_iff ex_sched_def)
  then have "switch s0 s1" using switch.sw_poll [OF _ _ rtranclp.rtrancl_refl s1(1)] s0(2) by (simp add: sched_ok_def)
  moreover have "sched_ok (sc_stop s1) [0, 1, 2] 1" using s1(2) by (simp add: sched_ok_def sc_stop_def)
  then obtain s2 where s2: "yield_to_next (sc_stop s1) = Inr s2" using yield_ok by blast
  have "act\<^sup>*\<^sup>* s1 (sc_stop s1)" by (rule r_into_rtranclp) (rule act_stop)
  then have "switch s1 s2" using switch.sw_yield [OF _ _ s2] s1(2) by (simp add: sched_ok_def)
  ultimately show ?thesis using that s0(1) by blast
qed

theorem woken_routine_runs_witness:
  "\<exists>\<sigma> :: nat \<Rightarrow> sched. addback_coroutine 2 (ex_sched 0) = Inr (\<sigma> 0) \<and> (\<exists>k \<le> 2. sc_cur (\<sigma> k) = Some 2 \<and> (\<forall>m \<le> k. \<exists>s'. switch (\<sigma> m) s'))"
proof -
  obtain s0 s1 s2 where t: "addback_coroutine 2 (ex_sched 0) = Inr s0" "switch s0 s1" "switch s1 s2" by (rule ex_trace)
  define f where "f = (\<lambda>k :: nat. if k = 0 then s0 else if k = 1 then s1 else s2)"
  have f: "addback_coroutine 2 (ex_sched 0) = Inr (f 0)" "\<And>k. k < 2 \<Longrightarrow> switch (f k) (f (Suc k))"
    using t by (auto simp: f_def less_Suc_eq numeral_2_eq_2)
  have n: "length [0 :: nat, 1] - 0 = 2" "sc_routines (ex_sched 0) ! unat (2 :: usize) = 2" by (simp_all add: ex_sched_def)
  have run: "(0 :: nat) < 0 \<or> sc_running (ex_sched 0)" by (simp add: ex_sched_def)
  note w = woken_routine_runs [where \<sigma> = f and s = "ex_sched 0" and c = 2 and xs = "[0, 1]",
      OF ex_sched_ok(1) [OF pos2] run ex_sched_ok(2) f(1), unfolded n]
  show ?thesis by (rule exI [of _ f]) (rule conjI [OF f(1) w [OF f(2)]])
qed

end
