(* ===== verification/Async_Op.thy ===== *)
theory Async_Op
  imports Rlib_Op Scheduler
begin

text \<open>
  One-sided requests that suspend the routine until their completion is polled:
  \<^verbatim>\<open>r2/src/rdma/async_op.hh\<close>, \<^verbatim>\<open>r2/src/rdma/sop.hh\<close> and the waiting macros of \<^verbatim>\<open>libroutine.hh\<close>.

  A future holds the address of a queue pair, so the queue pairs are a heap. A call that suspends
  returns \<open>None\<close> with the state the next routine goes on in; when the routine runs again, the value
  of the call is \<open>async_result\<close> of that state. The completion it returns is a local that is never
  assigned, \<open>raw\<close>.
\<close>

section \<open>Waiting\<close>

type_synonym 'n qps = "(nat \<rightharpoonup> rc) \<times> 'n"

definition with_qp :: "nat \<Rightarrow> (rc \<Rightarrow> 'n \<Rightarrow> ('a \<times> rc \<times> 'n) res) \<Rightarrow> 'n qps \<Rightarrow> ('a \<times> 'n qps) res" where
  "with_qp p f = (\<lambda>(H, n).
     case H p of None \<Rightarrow> Inl UB | Some q \<Rightarrow> rbind (f q n) (\<lambda>(a, q, n). Inr (a, H(p \<mapsto> q), n)))"

text \<open>A completion belongs to the routine whose number is its request id, which need not be the
  routine \<open>i\<close> that waits; a failed one is charged to \<open>i\<close>.\<close>

definition wait_future :: "'n verbs \<Rightarrow> wc \<Rightarrow> nat \<Rightarrow> u8 \<Rightarrow> 'n qps poll_func" where
  "wait_future V raw p i s g =
     rbind (with_qp p (poll_rc_comp V raw) g) (\<lambda>(r, g).
       Inr (case r of None \<Rightarrow> io_not_ready (0, 0)
            | Some (polled, w) \<Rightarrow> if wc_success w then io_ok (ucast polled, 1) else io_err (i, 1), s, g))"

text \<open>\<open>R2_PAUSE_WAIT\<close> and \<open>R2_WAIT_NUM\<close>.\<close>

definition pause_wait :: "'g poll_func \<Rightarrow> usize \<Rightarrow> 'g poll_func list \<Rightarrow> sched \<Rightarrow> ('g poll_func list \<times> sched) res" where
  "pause_wait f num fs s =
     rbind (cur_id s) (\<lambda>i. rbind (emplace_for_routine i num f fs s) (\<lambda>(fs, s).
     rbind (pause_and_yield s) (\<lambda>s. Inr (fs, s))))"

definition sc_wait_num :: "usize \<Rightarrow> sched \<Rightarrow> sched res" where
  "sc_wait_num num s = rbind (cur_id s) (\<lambda>i. rbind (wait_num i num s) pause_and_yield)"

text \<open>\<open>pause_and_yield\<close> returns the status of the routine that runs again.\<close>

definition async_result :: "wc \<Rightarrow> sched \<Rightarrow> wc io_result res" where
  "async_result raw s = rbind (node_at (sc_heap s) (sc_cur s)) (\<lambda>(_, x). Inr (io_transfer (rt_status x) raw))"

definition async_wait_one :: "'n verbs \<Rightarrow> wc \<Rightarrow> nat \<Rightarrow> 'n qps poll_func list \<Rightarrow> sched \<Rightarrow> ('n qps poll_func list \<times> sched) res" where
  "async_wait_one V raw p fs s = rbind (cur_id s) (\<lambda>i. pause_wait (wait_future V raw p i) 1 fs s)"

section \<open>AsyncOp\<close>

text \<open>An \<open>Op\<close> with a timeout that no call uses.\<close>

record async_op =
  ao_op :: send_wr
  ao_timeout :: rat

definition AsyncOp :: "nat \<Rightarrow> async_op" where
  "AsyncOp nsge = \<lparr>ao_op = new_op nsge, ao_timeout = 1000000\<rparr>"

definition ao_set_timeout_usec :: "rat \<Rightarrow> async_op \<Rightarrow> async_op" where
  "ao_set_timeout_usec tu a = a\<lparr>ao_timeout := tu\<rparr>"

definition execute_async ::
    "'n verbs \<Rightarrow> wc \<Rightarrow> i32 \<Rightarrow> nat \<Rightarrow> async_op \<Rightarrow> 'n qps poll_func list \<Rightarrow> sched \<Rightarrow> 'n qps
      \<Rightarrow> (wc io_result option \<times> async_op \<times> 'n qps poll_func list \<times> sched \<times> 'n qps) res" where
  "execute_async V raw flags p a fs s g =
     rbind (cur_id s) (\<lambda>i.
     rbind (with_qp p (\<lambda>q n. rbind (op_execute V [ao_op a] 0 flags (ucast i) q n) (\<lambda>(r, ops, q, n). Inr ((r, hd ops), q, n))) g)
       (\<lambda>((r, w), g). let a = a\<lparr>ao_op := w\<rparr> in
     if code r \<noteq> IO_Ok then Inr (Some (io_transfer r raw), a, fs, s, g)
     else if flags AND IBV_SEND_SIGNALED \<noteq> 0 then
       rbind (async_wait_one V raw p fs s) (\<lambda>(fs, s). Inr (None, a, fs, s, g))
     else Inr (Some (io_ok raw), a, fs, s, g)))"

section \<open>SROp\<close>

text \<open>The opcode and the remote address have no initial value; those of \<open>raw\<close>.\<close>

record srop =
  so_op :: wr_opcode
  so_remote_addr :: u64
  so_local_ptr :: u64
  so_size :: u32
  so_flags :: cint
  so_imm_data :: cint
  so_timeout :: rat

definition SROp :: "srop \<Rightarrow> srop" where
  "SROp raw = raw\<lparr>so_local_ptr := 0, so_size := 0, so_flags := 0, so_imm_data := 0, so_timeout := 1000000\<rparr>"

definition so_set_payload :: "u64 \<Rightarrow> u32 \<Rightarrow> srop \<Rightarrow> srop" where "so_set_payload p sz o' = o'\<lparr>so_local_ptr := p, so_size := sz\<rparr>"
definition so_set_op :: "wr_opcode \<Rightarrow> srop \<Rightarrow> srop" where "so_set_op c o' = o'\<lparr>so_op := c\<rparr>"
definition so_set_read :: "srop \<Rightarrow> srop" where "so_set_read = so_set_op WR_RDMA_READ"
definition so_set_write :: "srop \<Rightarrow> srop" where "so_set_write = so_set_op WR_RDMA_WRITE"
definition so_set_remote_addr :: "u64 \<Rightarrow> srop \<Rightarrow> srop" where "so_set_remote_addr ra o' = o'\<lparr>so_remote_addr := ra\<rparr>"
definition so_set_imm :: "cint \<Rightarrow> srop \<Rightarrow> srop" where "so_set_imm imm o' = o'\<lparr>so_imm_data := imm\<rparr>"
definition so_set_timeout_usec :: "rat \<Rightarrow> srop \<Rightarrow> srop" where "so_set_timeout_usec tu o' = o'\<lparr>so_timeout := tu\<rparr>"

definition execute_my ::
    "'n verbs \<Rightarrow> send_wr \<Rightarrow> cint \<Rightarrow> cint \<Rightarrow> srop \<Rightarrow> rc \<Rightarrow> 'n \<Rightarrow> (string io_result \<times> rc \<times> 'n) res" where
  "execute_my V rawwr flags wr_id so q n =
     rbind (rc_send_normal V rawwr
         \<lparr>rd_op = so_op so, rd_flags = flags, rd_len = so_size so, rd_wr_id = scast wr_id\<rparr>
         \<lparr>rp_local_addr = so_local_ptr so, rp_remote_addr = so_remote_addr so, rp_imm_data = scast (so_imm_data so)\<rparr> q n)
       (\<lambda>(r, q, n). Inr (if code r \<noteq> IO_Ok then r else io_ok [], q, n))"

definition execute_sync ::
    "'n verbs \<Rightarrow> send_wr \<Rightarrow> wc \<Rightarrow> cint \<Rightarrow> rat \<Rightarrow> srop \<Rightarrow> rc \<Rightarrow> 'n \<Rightarrow> (wc io_result \<times> rc \<times> 'n) res" where
  "execute_sync V rawwr raw flags timeout so q n =
     rbind (execute_my V rawwr flags 0 so q n) (\<lambda>(r, q, n).
     if code r \<noteq> IO_Ok then Inr (io_transfer r raw, q, n)
     else if flags AND IBV_SEND_SIGNALED \<noteq> 0 then
       rbind (wait_rc_comp V raw timeout q n) (\<lambda>(r, q, n). Inr (io_transfer r (snd (desc r)), q, n))
     else Inr (io_ok raw, q, n))"

definition so_execute ::
    "'n verbs \<Rightarrow> send_wr \<Rightarrow> wc \<Rightarrow> cint \<Rightarrow> nat \<Rightarrow> srop \<Rightarrow> 'n qps poll_func list \<Rightarrow> sched \<Rightarrow> 'n qps
      \<Rightarrow> (wc io_result option \<times> 'n qps poll_func list \<times> sched \<times> 'n qps) res" where
  "so_execute V rawwr raw flags p so fs s g =
     rbind (cur_id s) (\<lambda>i.
     rbind (with_qp p (execute_my V rawwr flags (ucast i) so) g) (\<lambda>(r, g).
     if code r \<noteq> IO_Ok then Inr (Some (io_transfer r raw), fs, s, g)
     else if flags AND IBV_SEND_SIGNALED \<noteq> 0 then
       rbind (async_wait_one V raw p fs s) (\<lambda>(fs, s). Inr (None, fs, s, g))
     else Inr (Some (io_ok raw), fs, s, g)))"

text \<open>The last request of a batch is signaled and counts for all of them.\<close>

definition post_doorbell ::
    "'n verbs \<Rightarrow> doorbell \<Rightarrow> u8 \<Rightarrow> rc \<Rightarrow> 'n \<Rightarrow> ((bool \<times> doorbell) \<times> rc \<times> 'n) res" where
  "post_doorbell V d i q n =
     (case encode_my_wr (ucast i) (of_int (db_size d)) q of (wid, q) \<Rightarrow>
      rbind (db_set_cur_wr (\<lambda>w. w\<lparr>s_flags := s_flags w OR IBV_SEND_SIGNALED, s_wr_id := wid\<rparr>) d) (\<lambda>d.
      rbind (db_freeze d) (\<lambda>d.
      rbind (loop_res (send_chain (db_wrs d) (Some 0))) (\<lambda>ws.
      rbind (the_handle (qp_qp q)) (\<lambda>h.
        case v_post_send V h ws n of (rc, n) \<Rightarrow>
        if rc \<noteq> 0 then Inr ((False, d), q, n)
        else rbind (db_freeze_done d) (\<lambda>d. rbind (db_clear d) (\<lambda>d.
               Inr ((True, d), q\<lparr>out_signaled := out_signaled q + 1\<rparr>, n))))))))"

definition execute_doorbell ::
    "'n verbs \<Rightarrow> wc \<Rightarrow> nat \<Rightarrow> doorbell \<Rightarrow> 'n qps poll_func list \<Rightarrow> sched \<Rightarrow> 'n qps
      \<Rightarrow> (wc io_result option \<times> doorbell \<times> 'n qps poll_func list \<times> sched \<times> 'n qps) res" where
  "execute_doorbell V raw p d fs s g =
     rbind (cur_id s) (\<lambda>i.
     rbind (with_qp p (post_doorbell V d i) g) (\<lambda>((ok, d), g).
     if \<not> ok then Inr (Some (io_err raw), d, fs, s, g)
     else rbind (async_wait_one V raw p fs s) (\<lambda>(fs, s). Inr (None, d, fs, s, g))))"

end
