(* ===== verification/Async_Correct.thy ===== *)
theory Async_Correct
  imports Async_Op Scheduler_Correct Rlib_QP_Correct
begin

text \<open>
  A routine that waits for a one-sided request is woken by the completion of that request, whichever
  routine's future polls it.
\<close>

section \<open>Going to sleep\<close>

lemma unat_of_nat_u8: "k < 256 \<Longrightarrow> unat (of_nat k :: u8) = k"
  by (simp add: unat_of_nat take_bit_nat_eq_self)

lemma pause_wait_ok:
  assumes "sched_ok s xs i" "0 < i" "xs ! i < length (sc_pending s)" "xs ! i < 256" "sc_pending s ! (xs ! i) = 0"
  shows "\<exists>s'. pause_wait f 1 fs s = Inr (fs @ [f], s') \<and> sched_ok s' (without i xs) (behind (length xs) i)
    \<and> left_ring (xs ! i) (sc_heap s') \<and> sc_routines s' = sc_routines s \<and> sc_pending s' = (sc_pending s)[xs ! i := 1]"
proof -
  obtain x where x: "sc_heap s (xs ! i) = Some x" using sched_node [OF assms(1)] by blast
  have cur: "sc_cur s = Some (xs ! i)" using assms(1) by (simp add: sched_ok_def)
  let ?s = "s\<lparr>sc_pending := (sc_pending s)[xs ! i := 1]\<rparr>"
  have "sched_ok ?s xs i" using assms(1) by (simp add: sched_ok_def)
  from leave_ok(1) [OF this assms(2)] obtain s' where s': "pause_and_yield ?s = Inr s'"
    "sched_ok s' (without i xs) (behind (length xs) i)" "left_ring (xs ! i) (sc_heap s')"
    "sc_routines s' = sc_routines s" "sc_pending s' = (sc_pending s)[xs ! i := 1]" by auto
  moreover have "pause_wait f 1 fs s = rbind (pause_and_yield ?s) (\<lambda>s. Inr (fs @ [f], s))"
    using assms(3-5) by (simp add: pause_wait_def cur_id_def node_at_def cur x emplace_for_routine_def wait_num_def
        vec_at_def unat_of_nat_u8)
  ultimately show ?thesis by simp
qed

section \<open>Waking up\<close>

text \<open>The last request a routine waits for puts it back.\<close>

lemma settle_last:
  assumes "sched_ok s xs i" "paused (ucast c) s" "sc_pending s ! unat c = 1" "unat c < length (sc_pending s)"
  shows "\<exists>s'. settle (io_ok (c, 1)) s = Inr s' \<and> sched_ok s' (xs @ [sc_routines s ! unat c]) i
    \<and> sc_pending s' = (sc_pending s)[unat c := 0]"
proof -
  have u: "unat (ucast c :: usize) = unat c" by simp
  let ?s = "s\<lparr>sc_pending := (sc_pending s)[unat c := 0]\<rparr>"
  have ok: "sched_ok ?s xs i" and p: "paused (ucast c) ?s" using assms(1,2) by (simp_all add: sched_ok_def paused_def)
  obtain s' where s': "addback_coroutine (ucast c) ?s = Inr s'" "sched_ok s' (xs @ [sc_routines s ! unat c]) i"
    using addback_paused [OF p ok] by auto
  obtain x where x: "sc_heap s (sc_routines s ! unat c) = Some x" "\<not> rt_active x"
    using assms(2) by (auto simp: paused_def left_ring_def u split: option.splits)
  have len: "unat c < length (sc_routines s)" using pausedD(1) [OF assms(2,1)] by (simp add: u)
  have "settle (io_ok (c, 1)) s = Inr s'" "sc_pending s' = (sc_pending s)[unat c := 0]"
    using s'(1) x len assms(3,4)
    by (auto simp: settle_def io_ok_def vec_at_def at_throws_def node_at_def addback_coroutine_def u res_iff)
  then show ?thesis using s'(2) by blast
qed

lemma polled_routine:
  assumes "encode_my_wr (ucast (c :: u8)) 1 q = (wid, q')" "poll_rc_comp V raw q1 n = Inr (Some (user, w), q2, n')" "wc_wr_id w = wid"
  shows "(ucast user :: u8) = c"
proof -
  have "wid = push_bit 16 (ucast c) OR ucast (high_watermark (rc_progress q) + 1)"
    using assms(1) by (auto simp: encode_my_wr_def pr_forward_def Let_def num_progress_bits_def)
  moreover have "user = drop_bit 16 wid"
    using assms(2,3) by (auto simp: poll_rc_comp_def res_iff num_progress_bits_def Let_def split: if_splits)
  ultimately have "user = take_bit 48 (ucast c)" by (simp only: encode_parts(1))
  then show ?thesis by (simp only:) (rule bit_word_eqI, auto simp: bit_simps dest: bit_imp_le_length)
qed


section \<open>From the issue to the wake-up\<close>

lemma execute_async_suspends:
  assumes "execute_async V raw flags p a fs s (H, n) = Inr (None, a1, fs1, s1, g1)" "cur_id s = Inr c"
  shows "\<exists>q. s_wr_id (ao_op a1) = fst (encode_my_wr (ucast c) 1 q) \<and> pause_wait (wait_future V raw p c) 1 fs s = Inr (fs1, s1)"
proof -
  obtain q where q: "H p = Some q"
    using assms by (cases "H p") (auto simp: execute_async_def with_qp_def)
  obtain r ops q' n' where o: "op_execute V [ao_op a] 0 flags (ucast c) q n = Inr (r, ops, q', n')"
    using assms q by (auto simp: execute_async_def with_qp_def res_iff)
  have a1: "a1 = a\<lparr>ao_op := hd ops\<rparr>" and w: "async_wait_one V raw p fs s = Inr (fs1, s1)"
    using assms q o by (auto simp: execute_async_def with_qp_def res_iff Let_def split: if_splits)
  obtain wid q0 where e: "encode_my_wr (ucast c) 1 q = (wid, q0)" by (cases "encode_my_wr (ucast c) 1 q")
  have "ops = [(ao_op a)\<lparr>s_wr_id := wid, s_next := None, s_flags := flags\<rparr>]"
    using o e by (auto simp: op_execute_def vec_at_def res_iff Let_def)
  then show ?thesis using a1 w e assms(2) by (intro exI [of _ q]) (simp add: async_wait_one_def)
qed

text \<open>A routine that issues a one-sided request and waits for it leaves the ring with one request to
  wait for, and comes back at the end of the ring exactly by the completion of its request: whichever
  routine's future on the same queue pair polls the completion with the id of that request, the
  polling loop puts the issuer back, counts its request down and drops the future.\<close>

theorem async_completion_wakes_issuer:
  assumes issue: "sched_ok s xs i" "0 < i" "sc_routines s = [0..<m]" "xs ! i < m" "m \<le> 64"
      "length (sc_pending s) = 64" "sc_pending s ! (xs ! i) = 0"
      "execute_async V raw flags p a fs s (H, n) = Inr (None, a1, fs1, s1, g1)"
    and wake: "sched_ok t ys j" "paused (of_nat (xs ! i)) t" "sc_routines t = [0..<m]" "length (sc_pending t) = 64"
      "sc_pending t ! (xs ! i) = 1" "K p = Some q1"
      "poll_rc_comp V raw q1 n1 = Inr (Some (user, w), q2, n2)" "wc_wr_id w = s_wr_id (ao_op a1)" "wc_success w"
  shows "sched_ok s1 (without i xs) (behind (length xs) i) \<and> paused (of_nat (xs ! i)) s1 \<and> sc_pending s1 ! (xs ! i) = 1
    \<and> fs1 = fs @ [wait_future V raw p (of_nat (xs ! i))]
    \<and> (\<exists>t' g'. poll_all_futures [wait_future V raw p d] t (K, n1) = Inr ([], t', g')
        \<and> sched_ok t' (ys @ [xs ! i]) j \<and> sc_pending t' ! (xs ! i) = 0)"
proof -
  let ?a = "xs ! i" and ?c = "of_nat (xs ! i) :: u8"
  have small: "?a < 64" "?a < 256" "unat ?c = ?a" "unat (of_nat ?a :: usize) = ?a" "(ucast ?c :: usize) = of_nat ?a"
  proof -
    show a: "?a < 64" "?a < 256" using issue(4,5) by auto
    then show c: "unat ?c = ?a" by (simp add: unat_of_nat_u8)
    show u: "unat (of_nat ?a :: usize) = ?a" using a by (intro unat_of_nat_32) simp
    show "(ucast ?c :: usize) = of_nat ?a" unfolding word_unat_eq_iff u unat_ucast_u8_u32 c ..
  qed
  obtain x where x: "sc_heap s ?a = Some x" using sched_node [OF issue(1)] by blast
  have "cur_id s = Inr ?c" using issue(1) x by (simp add: cur_id_def node_at_def sched_ok_def)
  from execute_async_suspends [OF issue(8) this] obtain q where
    q: "s_wr_id (ao_op a1) = fst (encode_my_wr (ucast ?c) 1 q)" "pause_wait (wait_future V raw p ?c) 1 fs s = Inr (fs1, s1)" by blast
  have lt: "?a < length (sc_pending s)" using issue(6) small(1) by simp
  from pause_wait_ok [OF issue(1,2) lt small(2) issue(7), of "wait_future V raw p ?c" fs] q(2)
  have 1: "sched_ok s1 (without i xs) (behind (length xs) i)" "left_ring ?a (sc_heap s1)" "sc_routines s1 = [0..<m]"
    "sc_pending s1 = (sc_pending s)[?a := 1]" "fs1 = fs @ [wait_future V raw p ?c]"
    using issue(3) by auto
  have paused: "paused (of_nat ?a) s1" "sc_pending s1 ! ?a = 1"
    using 1 issue(4) lt by (simp_all add: paused_def small(4))
  obtain wid q0 where e: "encode_my_wr (ucast ?c) 1 q = (wid, q0)" by (cases "encode_my_wr (ucast ?c) 1 q")
  have user: "(ucast user :: u8) = ?c" using polled_routine [OF e wake(7)] wake(8) q(1) e by simp
  have p': "paused (ucast ?c) t" using wake(2) by (simp add: small(5))
  have t1: "sc_pending t ! unat ?c = 1" "unat ?c < length (sc_pending t)" using wake(4,5) small(1,3) by simp_all
  have rt: "sc_routines t ! unat ?c = ?a" using wake(3) issue(4) by (simp add: small(3))
  from settle_last [OF wake(1) p' t1] obtain t' where t': "settle (io_ok (?c, 1)) t = Inr t'"
    "sched_ok t' (ys @ [?a]) j" "sc_pending t' = (sc_pending t)[?a := 0]"
    unfolding rt by (auto simp: small(3))
  have f: "wait_future V raw p d t (K, n1) = Inr (io_ok (?c, 1), t, K(p \<mapsto> q2), n2)"
    using wake(6,7,9) user by (simp add: wait_future_def with_qp_def)
  have "poll_all_futures [wait_future V raw p d] t (K, n1) = Inr ([], t', K(p \<mapsto> q2), n2)"
    using f t'(1) by (simp add: io_ok_def)
  moreover have "sc_pending t' ! ?a = 0" using t'(3) wake(4) small(1) by simp
  ultimately have "\<exists>t' g'. poll_all_futures [wait_future V raw p d] t (K, n1) = Inr ([], t', g')
        \<and> sched_ok t' (ys @ [?a]) j \<and> sc_pending t' ! ?a = 0" using t'(2) by blast
  with 1(1,5) paused show ?thesis by blast
qed

end
