(* ===== verification/Spec2Isabelle.thy ===== *)
theory Spec2Isabelle
  imports Rolex_Storage Rlib_QP_Correct Rlib_Op Rlib_Wait Rctrl_Correct Remote_Operations Scheduler_Correct Async_Correct
begin

text \<open>
  A verification development for ROLEX, a learned ordered key-value index for disaggregated memory.

  \<^bold>\<open>The program.\<close> A memory node trains an index over sorted keys: a piecewise linear regression cuts
  the keys into runs that a line predicts within an error, each run becomes a submodel (a line and a
  table of data leaves), and everything lies in two memory regions that the network card can reach. A
  compute node sets up queue pairs with the memory node over a small RPC on UDP, copies the models with
  one-sided reads, and then looks keys up by itself: predict, read the leaves of the window, search
  them. Changes go to the memory node as calls over datagrams, issued by coroutines.

  \<^bold>\<open>Conventions.\<close> A C++ function that can abort, throw, run into undefined behaviour, exit or loop
  forever is a function into \<open>'a res\<close> (\<^theory_text>\<open>Rolex_Prelude\<close>); \<open>Inr\<close> is a normal return. Integers have
  the width of the source (\<open>u8\<close> to \<open>u64\<close>, \<open>usize\<close> is 32 bits) and wrap; signed overflow is undefined
  behaviour. Objects passed by reference are arguments that are returned updated; objects that are
  shared by address (leaves, table entries, scheduler nodes, queue pairs of a future) live in a store.
  Records and operations keep the names of the source.

  \<^bold>\<open>The index\<close> (\<^verbatim>\<open>src/rolex\<close>, \<^verbatim>\<open>src/xutils\<close>)
  \<^item> \<^theory_text>\<open>Sorted_Entries\<close>, \<^theory_text>\<open>Page_Chain\<close>: the abstract view, sorted association lists, and the interface
    \<open>ordered_page\<close> of a page over a range of keys. A leaf is a page, and a leaf with its synonym leaves
    is one again; the lemmas on searching a sequence of pages are proved once.
  \<^item> \<^theory_text>\<open>Leaf\<close> (\<^verbatim>\<open>leaf.hpp\<close>), \<^theory_text>\<open>Spin_Lock\<close> (\<^verbatim>\<open>spin_lock.hh\<close> and the lock bit of \<^verbatim>\<open>leaf_table.hpp\<close>, with
    all interleavings of any number of threads), \<^theory_text>\<open>Leaf_Alloc\<close> (\<^verbatim>\<open>leaf_allocator.hpp\<close>), \<^theory_text>\<open>Leaf_Table\<close> (\<^verbatim>\<open>leaf_table.hpp\<close>), its
    stored form \<^theory_text>\<open>Table_Entry\<close>, its representation \<^theory_text>\<open>Table_Rep\<close> and its refinement \<^theory_text>\<open>Table_Correct\<close>: every
    operation of the table is the operation on the sorted map of a span of its leaves, through splits
    and removals of synonym leaves, and keeps the invariant.
  \<^item> \<^theory_text>\<open>Machine_Float\<close>: \<open>double\<close> and \<open>long double\<close> as rationals rounded after every operation, without
    exponent bounds. \<^theory_text>\<open>Plr\<close> (\<^verbatim>\<open>plr.hpp\<close>), its geometry \<^theory_text>\<open>Plr_Geometry\<close> and \<^theory_text>\<open>Plr_Correct\<close>: a point is
    accepted exactly if one line passes through all error bars, and the segment is such a line, as long
    as positions plus \<open>epsilon\<close> stay below \<open>2 ^ 62\<close>, which keeps the 128-bit arithmetic from overflowing.
  \<^item> \<^theory_text>\<open>Model_Alloc\<close> (\<^verbatim>\<open>model_allocator.hpp\<close>, \<^verbatim>\<open>rolex_util.hh\<close>), \<^theory_text>\<open>Submodel\<close> (\<^verbatim>\<open>submodel.hpp\<close>), \<^theory_text>\<open>Training\<close>,
    \<^theory_text>\<open>Rolex\<close> (\<^verbatim>\<open>rolex.hpp\<close>), \<^theory_text>\<open>Rolex_Storage\<close> and \<^theory_text>\<open>Region_Roundtrip\<close>: training stores exactly the input,
    a trained key whose prediction is close enough is found and one outside of the window is missed, and
    all stored forms restore the index up to its spin locks.
  \<^item> \<^theory_text>\<open>Marshal\<close>, \<^theory_text>\<open>Byte_Memory\<close>: object representations (\<open>pod_codec\<close> is the interface of every fixed-size
    format) and memory that is copied by \<open>memcpy\<close>.

  \<^bold>\<open>RLib\<close> (\<^verbatim>\<open>src/deps/rlib/core\<close>)
  \<^item> \<^theory_text>\<open>Rlib_Core\<close> (results, factories), \<^theory_text>\<open>Verbs\<close> (devices, memory, the record of libibverbs calls),
    \<^theory_text>\<open>Rlib_QP\<close> (\<^verbatim>\<open>qps\<close>: creation, states, sending, polling, receive entries), \<^theory_text>\<open>Rlib_QP_Correct\<close>,
    \<^theory_text>\<open>Rlib_Wait\<close> (waiting loops), \<^theory_text>\<open>Rlib_Op\<close> (one-sided requests and batches).
  \<^item> \<^theory_text>\<open>Multi_Msg\<close>, \<^theory_text>\<open>Channel\<close>, \<^theory_text>\<open>Srpc\<close> (\<^verbatim>\<open>bootstrap\<close>), \<^theory_text>\<open>Rctrl\<close> (\<^verbatim>\<open>rctrl.hh\<close>, \<^verbatim>\<open>rc_recv_manager.hh\<close>, \<^verbatim>\<open>proto.hh\<close>),
    \<^theory_text>\<open>Connect_Manager\<close> (\<^verbatim>\<open>lib.hh\<close>) and \<^theory_text>\<open>Rctrl_Correct\<close>: the control path from the call of a client to its
    decoded answer, whatever is behind a message in the buffers, and what no message can do to the daemon.

  \<^bold>\<open>The network\<close>
  \<^item> \<^theory_text>\<open>Remote_Memory\<close> (\<^verbatim>\<open>remote_memory.hh\<close> and the regions), \<^theory_text>\<open>Local_Connection\<close> (\<^verbatim>\<open>local_connection.hh\<close>, \<^verbatim>\<open>local_allocator.hh\<close>),
    \<^theory_text>\<open>Learned_Cache\<close> (\<^verbatim>\<open>learned_cache.hpp\<close>, \<^verbatim>\<open>remote_requests.hpp\<close>), \<^theory_text>\<open>Remote_Reads\<close> (what is assumed of one-sided
    reads), \<^theory_text>\<open>Learned_Cache_Correct\<close>, \<^theory_text>\<open>Loop_Network\<close> (a network that does serve reads), \<^theory_text>\<open>Compute_Node\<close>:
    the copy of a compute node is the trained index, and its lookup answers like the memory node.
  \<^item> \<^theory_text>\<open>Xcomm_Rpc\<close> (\<^verbatim>\<open>xcomm/src/rpc\<close>), \<^theory_text>\<open>Ud_Transport\<close> (\<^verbatim>\<open>ud_session.hh\<close>, \<^verbatim>\<open>rdma_ud_t.hh\<close>), \<^theory_text>\<open>Rolex_Service\<close>
    (\<^verbatim>\<open>rolex_server.hpp\<close>, \<^verbatim>\<open>rolex_client.hpp\<close>, \<^verbatim>\<open>rolex_util_back.hh\<close>), \<^theory_text>\<open>Rolex_Service_Correct\<close>, \<^theory_text>\<open>Ud_Network\<close>,
    \<^theory_text>\<open>Remote_Operations\<close>: a transport is used through the interface \<open>datagrams\<close>; the remote operations are
    proved over it and applied to datagram sessions on a card with a bounded send queue.
  \<^item> \<^theory_text>\<open>Scheduler\<close> (\<^verbatim>\<open>sshed.hh\<close>, \<^verbatim>\<open>sshed.cc\<close>, \<^verbatim>\<open>linked_list.hh\<close>), \<^theory_text>\<open>Scheduler_Correct\<close> (the linked ring refines a
    list while routine 0 is in it; a routine that is put back gets its turn), \<^theory_text>\<open>Async_Op\<close> (\<^verbatim>\<open>async_op.hh\<close>,
    \<^verbatim>\<open>sop.hh\<close>, the waiting macros of \<^verbatim>\<open>libroutine.hh\<close>) and \<^theory_text>\<open>Async_Correct\<close> (a completion wakes its issuer).

  \<^bold>\<open>Parameters.\<close> libibverbs, the card and the clock are the record \<open>verbs\<close>; the sockets and host names
  a record of their calls; the memory that the process shares with the card is reached through a record;
  uninitialised objects (\<open>raw\<close>) and random numbers are arguments. What a theorem needs of them is a
  hypothesis: that the network serves one-sided reads (\<open>serves_reads\<close>, which \<^theory_text>\<open>Loop_Network\<close> satisfies),
  that the clock advances and stays in 64 bits (\<open>clock_advances\<close>), that a transport delivers
  (\<open>datagrams\<close>, which datagram sessions satisfy in \<^theory_text>\<open>Ud_Network\<close>).

  \<^bold>\<open>Fuel and termination.\<close> Loops over vectors are recursion on what is left of them. A loop that need
  not end (a scan of a leaf with an 8-bit index, a walk along a chain, a wait) is a \<open>partial_function\<close>,
  and \<open>Diverges\<close> is the result of one that does not end; the theorems on it state when it returns. Two
  functions have fuel: the list of the synonym leaves of a group, 128 for the entries of the synonym
  table, and the iteration over a packed message, 9 for its eight entries and the end; the lemmas on
  chains without repetition and the round trip of packed messages show that this is enough.

  \<^bold>\<open>Not modelled.\<close> Output and logging, the worker threads and option parsing of the benchmarks, the
  second transport over ring buffers, the versioned remote objects of \<^verbatim>\<open>xcomm/src/atomic_rw\<close> (ROLEX uses
  neither), code written against headers that are not in the repository, and the asynchronous lookup of
  the learned cache. Memory models weaker than interleaving, \<open>NaN\<close> and infinities, exhaustion of
  the heap, and the transfer of control inside Boost coroutines are outside of the model.
\<close>

end
